(* ===== verification/EAP_Prelude.thy ===== *)
theory EAP_Prelude
  imports Complex_Main "HOL-Library.AList" "HOL-Library.Char_ord" "HOL-Library.List_Lexorder"
begin

text \<open>
  Shared vocabulary of the development: how the Python values, exceptions, strings,
  dictionaries and sets of the Efficient Agent Protocol are written in HOL.

  \<^item> A Python exception is the left side of a sum: a function that may raise has type
    \<open>'e + 'a\<close>, sequencing is \<open>bindR\<close>, ``if c: raise e'' is \<open>raise_if c e\<close>, a
    loop that threads a state is \<open>foldR\<close>.
  \<^item> A \<open>dict\<close> is an association list in insertion order with distinct keys, updated
    by \<open>AList.update\<close>, which overwrites in place or appends, as Python does.
  \<^item> A \<open>set\<close> of strings is a list; the source only sorts sets, tests membership in
    them or compares them, and each of these is written on the list.
  \<^item> A \<open>str\<close> is a \<open>string\<close>, one character per code point up to 255.
  \<^item> A \<open>float\<close> is an exact rational, an infinity or NaN: rounding is not modelled.
\<close>

section \<open>Exceptions as sums\<close>

named_theorems res_simps \<open>inversion rules for functions that may raise\<close>
named_theorems res_splits \<open>splitting rules for functions that may raise\<close>

definition bindR :: "'e + 'a \<Rightarrow> ('a \<Rightarrow> 'e + 'b) \<Rightarrow> 'e + 'b" where
  "bindR m f = (case m of Inl e \<Rightarrow> Inl e | Inr x \<Rightarrow> f x)"

definition raise_if :: "bool \<Rightarrow> 'e \<Rightarrow> 'e + unit" where
  "raise_if c e = (if c then Inl e else Inr ())"

fun foldR :: "('s \<Rightarrow> 'a \<Rightarrow> 'e + 's) \<Rightarrow> 's \<Rightarrow> 'a list \<Rightarrow> 'e + 's" where
  "foldR f s [] = Inr s"
| "foldR f s (x # xs) = (case f s x of Inl e \<Rightarrow> Inl e | Inr s' \<Rightarrow> foldR f s' xs)"

fun mapR :: "('a \<Rightarrow> 'e + 'b) \<Rightarrow> 'a list \<Rightarrow> 'e + 'b list" where
  "mapR f [] = Inr []"
| "mapR f (x # xs) = (case f x of Inl e \<Rightarrow> Inl e
     | Inr y \<Rightarrow> (case mapR f xs of Inl e \<Rightarrow> Inl e | Inr ys \<Rightarrow> Inr (y # ys)))"

fun checkR :: "('a \<Rightarrow> 'e + unit) \<Rightarrow> 'a list \<Rightarrow> 'e + unit" where
  "checkR f [] = Inr ()"
| "checkR f (x # xs) = (case f x of Inl e \<Rightarrow> Inl e | Inr _ \<Rightarrow> checkR f xs)"

lemma bindR_simps [simp]: "bindR (Inl e) f = Inl e" "bindR (Inr x) f = f x"
  by (simp_all add: bindR_def)

lemma bindR_Inr_iff [res_simps]: "bindR m f = Inr y \<longleftrightarrow> (\<exists>x. m = Inr x \<and> f x = Inr y)"
  by (cases m) auto

lemma bindR_Inl_iff [res_simps]:
  "bindR m f = Inl e \<longleftrightarrow> m = Inl e \<or> (\<exists>x. m = Inr x \<and> f x = Inl e)"
  by (cases m) auto

lemma raise_if_simps [simp]:
  "raise_if True e = Inl e" "raise_if False e = Inr ()"
  "raise_if c e = Inr u \<longleftrightarrow> \<not> c" "raise_if c e = Inl e' \<longleftrightarrow> c \<and> e' = e"
  by (auto simp: raise_if_def)

lemma checkR_Inr_iff [res_simps]: "checkR f xs = Inr u \<longleftrightarrow> (\<forall>x\<in>set xs. f x = Inr ())"
  by (induction xs) (auto split: sum.splits)

lemma checkR_Inl_D: "checkR f xs = Inl e \<Longrightarrow> \<exists>x\<in>set xs. f x = Inl e"
  by (induction xs) (auto split: sum.splits)

lemma mapR_Inr_iff [res_simps]: "mapR f xs = Inr ys \<longleftrightarrow> list_all2 (\<lambda>x y. f x = Inr y) xs ys"
proof (induction xs arbitrary: ys)
  case (Cons x xs)
  show ?case
  proof (cases "mapR f xs")
    case (Inl e)
    then have "\<nexists>zs. list_all2 (\<lambda>x y. f x = Inr y) xs zs"
      using Cons.IH by (metis sum.simps(4))
    with Inl show ?thesis by (auto simp: list_all2_Cons1 split: sum.splits)
  next
    case (Inr zs)
    then have "list_all2 (\<lambda>x y. f x = Inr y) xs us \<longleftrightarrow> us = zs" for us
      using Cons.IH [of us] by auto
    with Inr show ?thesis by (auto simp: list_all2_Cons1 split: sum.splits)
  qed
qed auto

lemma mapR_Inr_step: "mapR f xs = Inr ys \<Longrightarrow> x \<in> set xs \<Longrightarrow> \<exists>y. f x = Inr y"
  by (induction xs arbitrary: ys) (auto split: sum.splits)

lemma mapR_append: "mapR f (xs @ ys) = bindR (mapR f xs) (\<lambda>us. bindR (mapR f ys) (\<lambda>vs. Inr (us @ vs)))"
  by (induction xs) (auto simp: bindR_def split: sum.splits)

lemma mapR_id: "(\<And>x. x \<in> set xs \<Longrightarrow> f x = Inr x) \<Longrightarrow> mapR f xs = Inr xs"
  by (induction xs) auto

lemma mapR_Inr_length: "mapR f xs = Inr ys \<Longrightarrow> length ys = length xs"
  by (auto simp: mapR_Inr_iff dest: list_all2_lengthD)

lemma mapR_cong [fundef_cong]:
  "xs = ys \<Longrightarrow> (\<And>x. x \<in> set ys \<Longrightarrow> f x = g x) \<Longrightarrow> mapR f xs = mapR g ys"
  by (induction xs arbitrary: ys) (auto split: sum.splits)

lemma checkR_cong [fundef_cong]:
  "xs = ys \<Longrightarrow> (\<And>x. x \<in> set ys \<Longrightarrow> f x = g x) \<Longrightarrow> checkR f xs = checkR g ys"
  by (induction xs arbitrary: ys) (auto split: sum.splits)

lemma foldR_append: "foldR f s (xs @ ys) = bindR (foldR f s xs) (\<lambda>s'. foldR f s' ys)"
  by (induction xs arbitrary: s) (auto split: sum.splits)

text \<open>A loop invariant rule for \<open>foldR\<close>: what holds at the start and is kept by every
  iteration that does not raise holds of the result.\<close>

lemma foldR_invariant:
  assumes "foldR f s xs = Inr s'" and "I s"
    and "\<And>s x s'. x \<in> set xs \<Longrightarrow> I s \<Longrightarrow> f s x = Inr s' \<Longrightarrow> I s'"
  shows "I s'"
  using assms
proof (induction xs arbitrary: s)
  case Nil
  then show ?case by simp
next
  case (Cons x xs)
  then obtain s1 where "f s x = Inr s1" "foldR f s1 xs = Inr s'"
    by (auto split: sum.splits)
  with Cons show ?case by (metis list.set_intros(1) list.set_intros(2))
qed

lemma foldR_all_steps:
  "foldR f s xs = Inr s' \<Longrightarrow> x \<in> set xs \<Longrightarrow> \<exists>s1 s2. f s1 x = Inr s2"
  by (induction xs arbitrary: s) (auto split: sum.splits)

section \<open>Dictionaries\<close>

type_synonym ('k, 'v) dict = "('k \<times> 'v) list"

abbreviation dict_get :: "('k, 'v) dict \<Rightarrow> 'k \<Rightarrow> 'v option" where
  "dict_get \<equiv> map_of"

abbreviation dict_set :: "'k \<Rightarrow> 'v \<Rightarrow> ('k, 'v) dict \<Rightarrow> ('k, 'v) dict" where
  "dict_set \<equiv> AList.update"

abbreviation dict_keys :: "('k, 'v) dict \<Rightarrow> 'k list" where
  "dict_keys d \<equiv> map fst d"

abbreviation dict_has :: "('k, 'v) dict \<Rightarrow> 'k \<Rightarrow> bool" where
  "dict_has d k \<equiv> map_of d k \<noteq> None"

definition dict_get_or :: "('k, 'v) dict \<Rightarrow> 'k \<Rightarrow> 'v \<Rightarrow> 'v" where
  "dict_get_or d k v = (case map_of d k of None \<Rightarrow> v | Some x \<Rightarrow> x)"

lemma dict_get_set [simp]: "map_of (AList.update k v d) = (map_of d)(k \<mapsto> v)"
  by (induction d) auto

lemma dict_keys_set [simp]: "set (map fst (AList.update k v d)) = insert k (set (map fst d))"
  by (induction d) auto

lemma dict_get_or_set [simp]:
  "dict_get_or (AList.update k v d) k' w = (if k' = k then v else dict_get_or d k' w)"
  by (simp add: dict_get_or_def)

lemma dict_has_iff: "(map_of d k \<noteq> None) \<longleftrightarrow> k \<in> set (map fst d)"
  by (induction d) auto

lemma distinct_dict_set [simp]: "distinct (map fst d) \<Longrightarrow> distinct (map fst (AList.update k v d))"
  by (rule distinct_update)

lemma dict_keys_set_in: "k \<in> set (map fst d) \<Longrightarrow> map fst (AList.update k v d) = map fst d"
  by (induction d) auto

text \<open>\<open>x is not None and P(x)\<close>\<close>

fun opt_holds :: "('a \<Rightarrow> bool) \<Rightarrow> 'a option \<Rightarrow> bool" where
  "opt_holds P None = False"
| "opt_holds P (Some x) = P x"

lemma opt_holds_iff: "opt_holds P m \<longleftrightarrow> (\<exists>x. m = Some x \<and> P x)"
  by (cases m) auto

section \<open>Strings and sets of strings\<close>

definition py_is_space :: "char \<Rightarrow> bool" where
  \<comment> \<open>\<open>str.isspace\<close> on the code points below 256\<close>
  "py_is_space c = (let n = (of_char c :: nat)
     in (9 \<le> n \<and> n \<le> 13) \<or> (28 \<le> n \<and> n \<le> 32) \<or> n = 133 \<or> n = 160)"

definition py_strip :: "string \<Rightarrow> string" where
  "py_strip s = rev (dropWhile py_is_space (rev (dropWhile py_is_space s)))"

definition py_lower_char :: "char \<Rightarrow> char" where
  "py_lower_char c = (let n = (of_char c :: nat)
     in if (65 \<le> n \<and> n \<le> 90) \<or> (192 \<le> n \<and> n \<le> 222 \<and> n \<noteq> 215) then char_of (n + 32) else c)"

definition py_lower :: "string \<Rightarrow> string" where
  "py_lower = map py_lower_char"

definition startswith :: "string \<Rightarrow> string \<Rightarrow> bool" where
  "startswith s p = (take (length p) s = p)"

definition endswith :: "string \<Rightarrow> string \<Rightarrow> bool" where
  "endswith s p = startswith (rev s) (rev p)"

text \<open>\<open>s.split(c)\<close> for a one-character separator, and \<open>s.split(c, 1)[0]\<close>.\<close>

fun py_split :: "char \<Rightarrow> string \<Rightarrow> string list" where
  "py_split c [] = [[]]"
| "py_split c (x # xs) = (if x = c then [] # py_split c xs
     else (case py_split c xs of [] \<Rightarrow> [[x]] | w # ws \<Rightarrow> (x # w) # ws))"

definition before_char :: "char \<Rightarrow> string \<Rightarrow> string" where
  "before_char c s = takeWhile (\<lambda>x. x \<noteq> c) s"

definition is_line_break :: "char \<Rightarrow> bool" where
  \<comment> \<open>where \<open>str.splitlines\<close> splits, on the code points below 256\<close>
  "is_line_break c = (let n = (of_char c :: nat) in (10 \<le> n \<and> n \<le> 13) \<or> (28 \<le> n \<and> n \<le> 30) \<or> n = 133)"

text \<open>\<open>s in t\<close> for strings.\<close>

definition is_substring :: "string \<Rightarrow> string \<Rightarrow> bool" where
  "is_substring s t = list_ex (\<lambda>i. startswith (drop i t) s) [0..<Suc (length t)]"

definition py_sorted_set :: "'a::linorder list \<Rightarrow> 'a list" where
  \<comment> \<open>\<open>sorted(set(xs))\<close>\<close>
  "py_sorted_set xs = sort (remdups xs)"

lemma set_py_sorted_set [simp]: "set (py_sorted_set xs) = set xs"
  by (simp add: py_sorted_set_def)

lemma distinct_py_sorted_set [simp]: "distinct (py_sorted_set xs)"
  by (simp add: py_sorted_set_def)

lemma sorted_py_sorted_set [simp]: "sorted (py_sorted_set xs)"
  by (simp add: py_sorted_set_def)

lemma py_sorted_set_cong: "set xs = set ys \<Longrightarrow> py_sorted_set xs = py_sorted_set ys"
  by (rule sorted_distinct_set_unique) auto

lemma py_sorted_set_Nil_iff [simp]: "py_sorted_set xs = [] \<longleftrightarrow> xs = []"
  by (metis set_empty set_py_sorted_set)

lemma startswith_append [simp]: "startswith (p @ s) p"
  by (simp add: startswith_def)

lemma startswith_iff: "startswith s p \<longleftrightarrow> (\<exists>t. s = p @ t)"
  by (auto simp: startswith_def) (metis append_take_drop_id)

lemma py_split_not_Nil [simp]: "py_split c s \<noteq> []"
  by (induction s) (auto split: list.splits)

lemma hd_py_split: "hd (py_split c s) = before_char c s"
  by (induction s) (auto simp: before_char_def split: list.splits)

definition trimmed :: "string \<Rightarrow> bool" where
  "trimmed s \<longleftrightarrow> s = [] \<or> \<not> py_is_space (hd s) \<and> \<not> py_is_space (last s)"

lemma strip_trimmed: "trimmed s \<Longrightarrow> py_strip s = s"
proof -
  have drop: "dropWhile py_is_space xs = xs" if "xs = [] \<or> \<not> py_is_space (hd xs)" for xs using that by (cases xs) auto
  assume "trimmed s"
  then show ?thesis using drop [of s] drop [of "rev s"] by (auto simp: trimmed_def py_strip_def hd_rev)
qed

lemma trimmed_strip: "trimmed (py_strip s)"
proof -
  define t where "t = dropWhile py_is_space s"
  define u where "u = rev (dropWhile py_is_space (rev t))"
  have t: "t = u @ rev (takeWhile py_is_space (rev t))"
    by (metis rev_append rev_rev_ident takeWhile_dropWhile_id u_def)
  have "\<not> py_is_space (hd u) \<and> \<not> py_is_space (last u)" if "u \<noteq> []"
  proof
    have "hd u = hd t" using t that by (metis hd_append2)
    then show "\<not> py_is_space (hd u)" using that t hd_dropWhile [of py_is_space s] by (metis Nil_is_append_conv t_def)
    show "\<not> py_is_space (last u)" using that hd_dropWhile [of py_is_space "rev t"] by (simp add: u_def last_rev)
  qed
  then show ?thesis by (auto simp: trimmed_def py_strip_def t_def u_def)
qed

lemma py_strip_idem: "py_strip (py_strip s) = py_strip s"
  by (rule strip_trimmed) (rule trimmed_strip)

lemma trimmed_between: "\<not> py_is_space c \<Longrightarrow> trimmed t \<Longrightarrow> t \<noteq> [] \<Longrightarrow> trimmed (c # s @ t)"
  by (simp add: trimmed_def)

section \<open>Floats\<close>

datatype pyfloat = PFin rat | PPosInf | PNegInf | PNaN

definition py_round :: "nat \<Rightarrow> rat \<Rightarrow> rat" where
  \<comment> \<open>\<open>round(x, n)\<close>: the nearest multiple of \<open>10^-n\<close>, the even one of two\<close>
  "py_round n x = (let y = x * 10 ^ n; k = \<lfloor>y\<rfloor>; d = y - of_int k in
     of_int (if d < 1 / 2 \<or> d = 1 / 2 \<and> even k then k else k + 1) / 10 ^ n)"

fun pf_le :: "pyfloat \<Rightarrow> pyfloat \<Rightarrow> bool" where
  "pf_le PNaN _ = False"
| "pf_le _ PNaN = False"
| "pf_le PNegInf _ = True"
| "pf_le _ PPosInf = True"
| "pf_le (PFin a) (PFin b) = (a \<le> b)"
| "pf_le _ _ = False"

fun pf_eq :: "pyfloat \<Rightarrow> pyfloat \<Rightarrow> bool" where
  "pf_eq PNaN _ = False"
| "pf_eq _ PNaN = False"
| "pf_eq a b = (a = b)"

definition pf_less :: "pyfloat \<Rightarrow> pyfloat \<Rightarrow> bool" where
  "pf_less a b = (pf_le a b \<and> \<not> pf_eq a b)"

fun pf_is_finite :: "pyfloat \<Rightarrow> bool" where
  "pf_is_finite (PFin _) = True"
| "pf_is_finite _ = False"

lemma pf_less_Fin [simp]: "pf_less (PFin a) (PFin b) \<longleftrightarrow> a < b"
  by (auto simp: pf_less_def)

section \<open>Values of type Any\<close>

text \<open>What \<open>json.loads\<close> can produce, and what tool arguments and payloads hold.\<close>

datatype pyval = PNone | PBool bool | PInt int | PFloat pyfloat | PStr string
  | PList "pyval list" | PDict "(string \<times> pyval) list"

fun is_str :: "pyval \<Rightarrow> bool" where
  "is_str (PStr _) = True"
| "is_str _ = False"

fun is_dict :: "pyval \<Rightarrow> bool" where
  "is_dict (PDict _) = True"
| "is_dict _ = False"

fun is_list :: "pyval \<Rightarrow> bool" where
  "is_list (PList _) = True"
| "is_list _ = False"

lemma size_dict_value: "(k, v) \<in> set d \<Longrightarrow> size v < Suc (size_list (size_prod (\<lambda>_. 0) size) d)"
  by (induction d) auto

text \<open>Truth value testing: \<open>bool(x)\<close>.\<close>

fun py_truthy :: "pyval \<Rightarrow> bool" where
  "py_truthy PNone = False"
| "py_truthy (PBool b) = b"
| "py_truthy (PInt n) = (n \<noteq> 0)"
| "py_truthy (PFloat f) = (\<not> pf_eq f (PFin 0))"
| "py_truthy (PStr s) = (s \<noteq> [])"
| "py_truthy (PList xs) = (xs \<noteq> [])"
| "py_truthy (PDict d) = (d \<noteq> [])"

text \<open>\<open>x.get(key)\<close> on a value known to be a dict; \<open>None\<close> for a missing key.\<close>

fun py_get :: "pyval \<Rightarrow> string \<Rightarrow> pyval" where
  "py_get (PDict d) k = (case map_of d k of None \<Rightarrow> PNone | Some v \<Rightarrow> v)"
| "py_get _ k = PNone"

text \<open>Following a dotted path the way the executor does: \<open>None\<close> as soon as the value is
  not a dict.\<close>

fun py_walk :: "pyval \<Rightarrow> string list \<Rightarrow> pyval" where
  "py_walk v [] = v"
| "py_walk v (p # ps) = (if is_dict v then py_walk (py_get v p) ps else PNone)"

section \<open>Comparing values\<close>

text \<open>Numbers of different types compare by value, \<open>True\<close> is 1; dictionaries compare without
  their order.\<close>

fun num_of :: "pyval \<Rightarrow> pyfloat option" where
  "num_of (PBool b) = Some (PFin (if b then 1 else 0))"
| "num_of (PInt n) = Some (PFin (of_int n))"
| "num_of (PFloat f) = Some f"
| "num_of _ = None"

function (sequential) py_eq :: "pyval \<Rightarrow> pyval \<Rightarrow> bool" where
  "py_eq (PStr s) (PStr t) = (s = t)"
| "py_eq PNone PNone = True"
| "py_eq (PList xs) (PList ys) =
     (length xs = length ys \<and> (\<forall>p\<in>set (zip xs ys). py_eq (fst p) (snd p)))"
| "py_eq (PDict d) (PDict e) =
     (length d = length e \<and> (\<forall>p\<in>set d. case map_of e (fst p) of None \<Rightarrow> False | Some w \<Rightarrow> py_eq (snd p) w))"
| "py_eq a b = (case (num_of a, num_of b) of (Some f, Some g) \<Rightarrow> pf_eq f g | _ \<Rightarrow> False)"
  by pat_completeness auto
termination
  by (relation "measure (size \<circ> fst)")
     (auto dest: set_zip_leftD size_dict_value simp: size_list_estimation less_Suc_eq_le size_list_estimation')

section \<open>repr and str\<close>

text \<open>The text of a value. The text of a float is an argument: its digits are not modelled.\<close>

fun digits :: "nat \<Rightarrow> string" where
  "digits n = (if n < 10 then [char_of (48 + n)] else digits (n div 10) @ [char_of (48 + n mod 10)])"

declare digits.simps [simp del]

definition int_repr :: "int \<Rightarrow> string" where
  "int_repr n = (if n < 0 then CHR ''-'' # digits (nat (- n)) else digits (nat n))"

definition hex_digit :: "nat \<Rightarrow> char" where
  "hex_digit n = char_of (if n < 10 then 48 + n else 87 + n)"

definition repr_char :: "char \<Rightarrow> char \<Rightarrow> string" where
  "repr_char quote c = (let n = (of_char c :: nat); backslash = char_of (92 :: nat) in
     if c = quote \<or> n = 92 then [backslash, c]
     else if n = 10 then [backslash, CHR ''n'']
     else if n = 13 then [backslash, CHR ''r'']
     else if n = 9 then [backslash, CHR ''t'']
     else if n < 32 \<or> (127 \<le> n \<and> n \<le> 160) \<or> n = 173
       then [backslash, CHR ''x'', hex_digit (n div 16), hex_digit (n mod 16)]
     else [c])"

definition str_repr :: "string \<Rightarrow> string" where
  \<comment> \<open>single quotes, unless the text has a single quote and no double quote\<close>
  "str_repr s = (let single = char_of (39 :: nat); double = char_of (34 :: nat);
      quote = (if single \<in> set s \<and> double \<notin> set s then double else single)
     in [quote] @ concat (map (repr_char quote) s) @ [quote])"

definition join :: "string \<Rightarrow> string list \<Rightarrow> string" where
  "join sep xs = concat (case xs of [] \<Rightarrow> [] | y # ys \<Rightarrow> y # map (\<lambda>z. sep @ z) ys)"

fun py_repr :: "(pyfloat \<Rightarrow> string) \<Rightarrow> pyval \<Rightarrow> string" where
  "py_repr fr PNone = ''None''"
| "py_repr fr (PBool b) = (if b then ''True'' else ''False'')"
| "py_repr fr (PInt n) = int_repr n"
| "py_repr fr (PFloat f) = fr f"
| "py_repr fr (PStr s) = str_repr s"
| "py_repr fr (PList xs) = ''['' @ join '', '' (map (py_repr fr) xs) @ '']''"
| "py_repr fr (PDict d) = ''{'' @ join '', '' (map (\<lambda>p. str_repr (fst p) @ '': '' @ py_repr fr (snd p)) d) @ ''}''"

definition py_str :: "(pyfloat \<Rightarrow> string) \<Rightarrow> pyval \<Rightarrow> string" where
  "py_str fr v = (case v of PStr s \<Rightarrow> s | _ \<Rightarrow> py_repr fr v)"

section \<open>Sorting\<close>

lemma insort_key_snoc: "f y \<le> f x \<Longrightarrow> insort_key f y (zs @ [x]) = insort_key f y zs @ [x]"
  by (induction zs) auto

lemma sort_key_snoc: "\<forall>y\<in>set xs. f y \<le> f x \<Longrightarrow> sort_key f (xs @ [x]) = sort_key f xs @ [x]"
  by (induction xs) (auto simp: insort_key_snoc)

section \<open>SQL result limits\<close>

definition sql_limit :: "int \<Rightarrow> 'a list \<Rightarrow> 'a list" where
  \<comment> \<open>\<open>LIMIT n\<close>; a negative limit is no limit\<close>
  "sql_limit n xs = (if n < 0 then xs else take (nat n) xs)"

end
