(* ===== verification/EAP_Kahn.thy ===== *)
theory EAP_Kahn
  imports EAP_Prelude
begin

text \<open>
  The topological sort that \<^verbatim>\<open>src/eap/protocol/models.py\<close> uses for macros and for
  persisted workflow graphs: adjacency sets and in-degrees kept in two dictionaries, and a
  frontier that is popped at the front, extended by the targets whose in-degree drops to
  zero, and sorted again. The source spells the loop out three times; the three uses share
  the definitions below. The correctness statement is the one the validators rely on: the
  order is complete exactly when the graph has no cycle, and every node comes after its
  predecessors.
\<close>

section \<open>The algorithm\<close>

text \<open>\<open>adjacency = {id: set()}\<close>, \<open>in_degree = {id: 0}\<close>.\<close>

definition empty_adjacency :: "'k list \<Rightarrow> ('k, 'k list) dict" where
  "empty_adjacency ids = map (\<lambda>i. (i, [])) ids"

definition zero_in_degree :: "'k list \<Rightarrow> ('k, int) dict" where
  "zero_in_degree ids = map (\<lambda>i. (i, 0)) ids"

text \<open>``if target not in adjacency[source]: adjacency[source].add(target);
  in\_degree[target] += 1''. A missing key raises; the error is the key.\<close>

definition link :: "('k, 'k list) dict \<times> ('k, int) dict \<Rightarrow> 'k \<Rightarrow> 'k
    \<Rightarrow> 'k + ('k, 'k list) dict \<times> ('k, int) dict" where
  "link g source target = (let adjacency = fst g; in_degree = snd g in
     case map_of adjacency source of None \<Rightarrow> Inl source
     | Some ts \<Rightarrow> if target \<in> set ts then Inr (adjacency, in_degree)
         else (case map_of in_degree target of None \<Rightarrow> Inl target
           | Some n \<Rightarrow> Inr (AList.update source (ts @ [target]) adjacency,
                           AList.update target (n + 1) in_degree)))"

text \<open>The inner loop over the sorted targets of the popped node.\<close>

fun relax :: "'k list \<Rightarrow> ('k, int) dict \<Rightarrow> 'k list \<Rightarrow> 'k + ('k, int) dict \<times> 'k list" where
  "relax [] in_degree frontier = Inr (in_degree, frontier)"
| "relax (t # ts) in_degree frontier = (case map_of in_degree t of None \<Rightarrow> Inl t
     | Some n \<Rightarrow> relax ts (AList.update t (n - 1) in_degree)
                   (if n - 1 = 0 then frontier @ [t] else frontier))"

abbreviation positives :: "('k, int) dict \<Rightarrow> nat" where
  "positives d \<equiv> length (filter (\<lambda>p. 0 < snd p) d)"

lemma positives_update:
  "map_of d t = Some n \<Longrightarrow>
     positives (AList.update t m d) + (if 0 < n then 1 else 0)
       = positives d + (if 0 < m then 1 else 0)"
  by (induction d) (auto split: if_splits)

lemma relax_measure:
  "relax ts d fr = Inr (d', fr') \<Longrightarrow> length fr' + positives d' \<le> length fr + positives d"
proof (induction ts d fr rule: relax.induct)
  case (2 t ts d fr)
  then obtain n where n: "map_of d t = Some n" by (auto split: option.splits)
  have "length fr' + positives d' \<le>
    length (if n - 1 = 0 then fr @ [t] else fr) + positives (AList.update t (n - 1) d)"
    using 2 n by auto
  moreover have "positives (AList.update t (n - 1) d) + (if 0 < n then 1 else 0)
       = positives d + (if 0 < n - 1 then 1 else 0)"
    by (rule positives_update [OF n])
  ultimately show ?case by (auto split: if_splits)
qed auto

function kahn_loop :: "('k::linorder, 'k list) dict \<Rightarrow> 'k list \<Rightarrow> ('k, int) dict \<Rightarrow> 'k list
    \<Rightarrow> 'k + 'k list" where
  "kahn_loop adjacency [] in_degree ordered = Inr ordered"
| "kahn_loop adjacency (current # frontier) in_degree ordered =
     (case map_of adjacency current of None \<Rightarrow> Inl current
      | Some ts \<Rightarrow> (case relax (sort ts) in_degree frontier of Inl e \<Rightarrow> Inl e
          | Inr (in_degree', frontier') \<Rightarrow>
              kahn_loop adjacency (sort frontier') in_degree' (ordered @ [current])))"
  by pat_completeness auto
termination
  by (relation "measure (\<lambda>(_, fr, d, _). length fr + positives d)")
     (auto dest!: relax_measure)

definition kahn :: "('k::linorder, 'k list) dict \<Rightarrow> ('k, int) dict \<Rightarrow> 'k + 'k list" where
  "kahn adjacency in_degree =
     kahn_loop adjacency (sort (map fst (filter (\<lambda>p. snd p = 0) in_degree))) in_degree []"

section \<open>The graph a pair of dictionaries stands for\<close>

definition edges :: "('k, 'k list) dict \<Rightarrow> ('k \<times> 'k) set" where
  "edges adjacency = {(u, v). \<exists>ts. map_of adjacency u = Some ts \<and> v \<in> set ts}"

definition preds :: "('k \<times> 'k) set \<Rightarrow> 'k \<Rightarrow> 'k set" where
  "preds E v = {u. (u, v) \<in> E}"

definition graph_ok :: "'k set \<Rightarrow> ('k, 'k list) dict \<times> ('k, int) dict \<Rightarrow> bool" where
  "graph_ok V g \<longleftrightarrow> finite V \<and> (\<forall>u. map_of (fst g) u = None \<longleftrightarrow> u \<notin> V)
     \<and> (\<forall>u. map_of (snd g) u = None \<longleftrightarrow> u \<notin> V)
     \<and> distinct (map fst (snd g))
     \<and> (\<forall>u ts. map_of (fst g) u = Some ts \<longrightarrow> distinct ts \<and> set ts \<subseteq> V)
     \<and> (\<forall>v\<in>V. map_of (snd g) v = Some (int (card (preds (edges (fst g)) v))))"

text \<open>An order in which every element comes after its predecessors.\<close>

fun topo :: "('k \<times> 'k) set \<Rightarrow> 'k set \<Rightarrow> 'k list \<Rightarrow> bool" where
  "topo E seen [] \<longleftrightarrow> True"
| "topo E seen (x # xs) \<longleftrightarrow> x \<notin> seen \<and> preds E x \<subseteq> seen \<and> topo E (insert x seen) xs"

lemma topo_snoc [simp]:
  "topo E seen (xs @ [x]) \<longleftrightarrow>
     topo E seen xs \<and> x \<notin> seen \<union> set xs \<and> preds E x \<subseteq> seen \<union> set xs"
  by (induction xs arbitrary: seen) auto

lemma topo_distinct: "topo E seen xs \<Longrightarrow> distinct xs \<and> set xs \<inter> seen = {}"
  by (induction xs arbitrary: seen) auto

lemma topo_split:
  "topo E seen (xs @ x # ys) \<Longrightarrow> preds E x \<subseteq> seen \<union> set xs"
  by (induction xs arbitrary: seen) auto

lemma topo_closed: "topo E {} xs \<Longrightarrow> v \<in> set xs \<Longrightarrow> preds E v \<subseteq> set xs"
  by (metis split_list topo_split Un_subset_iff empty_subsetI set_append subset_trans sup.cobounded1
      sup_bot_left)

lemma topo_acyclic:
  assumes "topo E {} xs" and "\<And>u v. (u, v) \<in> E \<Longrightarrow> v \<in> set xs"
  shows "acyclic E"
proof -
  have "topo E seen xs \<Longrightarrow> (\<forall>s\<in>seen. \<forall>u. (u, s) \<in> E\<^sup>+ \<longrightarrow> u \<in> seen \<and> u \<noteq> s) \<Longrightarrow>
     \<forall>s\<in>seen \<union> set xs. \<forall>u. (u, s) \<in> E\<^sup>+ \<longrightarrow> u \<in> seen \<union> set xs \<and> u \<noteq> s" for seen
  proof (induction xs arbitrary: seen)
    case (Cons x xs)
    have "\<forall>u. (u, x) \<in> E\<^sup>+ \<longrightarrow> u \<in> seen"
    proof (intro allI impI)
      fix u assume "(u, x) \<in> E\<^sup>+"
      then obtain w where w: "(w, x) \<in> E" "u = w \<or> (u, w) \<in> E\<^sup>+"
        by (metis tranclE)
      with Cons.prems have "w \<in> seen" by (auto simp: preds_def)
      with w Cons.prems(2) show "u \<in> seen" by auto
    qed
    then have "\<forall>s\<in>insert x seen. \<forall>u. (u, s) \<in> E\<^sup>+ \<longrightarrow> u \<in> insert x seen \<and> u \<noteq> s"
      using Cons.prems by auto
    with Cons.IH [of "insert x seen"] Cons.prems(1) show ?case by auto
  qed auto
  from this [of "{}"] assms(1)
  have "\<forall>s\<in>set xs. \<forall>u. (u, s) \<in> E\<^sup>+ \<longrightarrow> u \<noteq> s" by simp
  moreover have "(u, v) \<in> E\<^sup>+ \<Longrightarrow> v \<in> set xs" for u v
    by (erule tranclE) (auto dest: assms(2))
  ultimately show ?thesis by (auto simp: acyclic_def)
qed

section \<open>Building a graph\<close>

lemma map_of_empty_adjacency:
  "map_of (empty_adjacency ids) u = (if u \<in> set ids then Some [] else None)"
  by (induction ids) (auto simp: empty_adjacency_def)

lemma map_of_zero_in_degree:
  "map_of (zero_in_degree ids) u = (if u \<in> set ids then Some 0 else None)"
  by (induction ids) (auto simp: zero_in_degree_def)

lemma edges_empty [simp]: "edges (empty_adjacency ids) = {}"
  by (auto simp: edges_def map_of_empty_adjacency split: if_splits)

lemma graph_ok_empty:
  "distinct ids \<Longrightarrow> graph_ok (set ids) (empty_adjacency ids, zero_in_degree ids)"
  by (auto simp: graph_ok_def map_of_empty_adjacency map_of_zero_in_degree preds_def dom_def
      split: if_splits)
     (simp add: zero_in_degree_def comp_def)

lemma edges_update:
  "map_of a u = Some ts \<Longrightarrow> edges (AList.update u (ts @ [v]) a) = insert (u, v) (edges a)"
  by (auto simp: edges_def split: if_splits)

lemma graph_okD:
  assumes "graph_ok V g"
  shows "finite V" and "u \<in> V \<Longrightarrow> \<exists>ts. map_of (fst g) u = Some ts"
    and "map_of (fst g) u = Some ts \<Longrightarrow> u \<in> V \<and> distinct ts \<and> set ts \<subseteq> V"
    and "v \<in> V \<Longrightarrow> map_of (snd g) v = Some (int (card (preds (edges (fst g)) v)))"
    and "map_of (snd g) v = Some n \<Longrightarrow> v \<in> V"
    and "distinct (map fst (snd g))"
  using assms unfolding graph_ok_def by (blast, metis option.exhaust, metis option.distinct(1), blast,
    metis option.distinct(1), blast)

lemma graph_ok_None:
  assumes "graph_ok V g"
  shows "map_of (fst g) w = None \<longleftrightarrow> w \<notin> V" and "map_of (snd g) w = None \<longleftrightarrow> w \<notin> V"
  using assms unfolding graph_ok_def by blast+

lemma edges_in_nodes: "graph_ok V g \<Longrightarrow> (u, v) \<in> edges (fst g) \<Longrightarrow> u \<in> V \<and> v \<in> V"
  by (auto simp: edges_def dest: graph_okD(3))

lemma finite_preds: "graph_ok V g \<Longrightarrow> finite (preds (edges (fst g)) v)"
  by (rule finite_subset [of _ V]) (auto simp: preds_def dest: edges_in_nodes graph_okD(1))

lemma link_ok:
  assumes ok: "graph_ok V g" and u: "u \<in> V" and v: "v \<in> V"
  obtains g' where "link g u v = Inr g'" "graph_ok V g'"
    "edges (fst g') = insert (u, v) (edges (fst g))"
proof -
  obtain a d where g: "g = (a, d)" by (cases g)
  obtain ts where ts: "map_of a u = Some ts" using graph_okD(2) [OF ok u] by (auto simp: g)
  obtain n where n: "map_of d v = Some n" using graph_okD(4) [OF ok v] by (auto simp: g)
  show ?thesis
  proof (cases "v \<in> set ts")
    case True
    then have "edges a = insert (u, v) (edges a)" using ts by (auto simp: edges_def)
    with True ok ts show ?thesis by (intro that [of g]) (auto simp: link_def g)
  next
    case False
    let ?a = "AList.update u (ts @ [v]) a" and ?d = "AList.update v (n + 1) d"
    have E: "edges ?a = insert (u, v) (edges a)" by (rule edges_update [OF ts])
    have new: "u \<notin> preds (edges a) v" using False ts by (auto simp: preds_def edges_def)
    have fin: "finite (preds (edges a) w)" for w using finite_preds [OF ok] by (simp add: g)
    have P: "preds (edges ?a) w = (if w = v then insert u (preds (edges a) v) else preds (edges a) w)" for w
      by (auto simp: E preds_def)
    have nd: "n = int (card (preds (edges a) v))" using graph_okD(4) [OF ok v] n by (simp add: g)
    have "graph_ok V (?a, ?d)" unfolding graph_ok_def fst_conv snd_conv
    proof (intro conjI allI ballI)
      show "finite V" by (rule graph_okD(1) [OF ok])
      show "map_of ?a w = None \<longleftrightarrow> w \<notin> V" for w 
        using graph_ok_None(1) [OF ok] u by (auto simp: g simp del: map_of_eq_None_iff)
      show "map_of ?d w = None \<longleftrightarrow> w \<notin> V" for w 
        using graph_ok_None(2) [OF ok] v by (auto simp: g simp del: map_of_eq_None_iff)
      show "distinct (map fst ?d)" using graph_okD(6) [OF ok] by (simp add: g distinct_update)
      show "map_of ?a w = Some xs \<longrightarrow> distinct xs \<and> set xs \<subseteq> V" for w xs
        using graph_okD(3) [OF ok, of w xs] graph_okD(3) [OF ok, of u ts] ts False v
        by (auto simp: g split: if_splits)
      show "map_of ?d w = Some (int (card (preds (edges ?a) w)))" if "w \<in> V" for w
        using graph_okD(4) [OF ok that] new fin by (simp add: g P nd)
    qed
    with False ts n E show ?thesis
      by (intro that [of "(?a, ?d)"]) (auto simp: link_def g)
  qed
qed

text \<open>Adding a list of edges over known nodes never raises and yields exactly these edges.\<close>

lemma foldR_link_ok:
  assumes "graph_ok V g" and "set es \<subseteq> V \<times> V"
  shows "\<exists>g'. foldR (\<lambda>g e. link g (fst e) (snd e)) g es = Inr g' \<and> graph_ok V g'
     \<and> edges (fst g') = edges (fst g) \<union> set es"
  using assms
proof (induction es arbitrary: g)
  case (Cons e es)
  then have uv: "fst e \<in> V" "snd e \<in> V" by auto
  obtain g1 where g1: "link g (fst e) (snd e) = Inr g1" "graph_ok V g1"
      "edges (fst g1) = insert (fst e, snd e) (edges (fst g))"
    by (rule link_ok [OF Cons.prems(1) uv])
  from Cons.IH [OF g1(2)] Cons.prems(2) g1 show ?case by fastforce
qed auto

section \<open>Correctness of the loop\<close>

lemma relax_spec:
  assumes "distinct ts" and "\<And>t. t \<in> set ts \<Longrightarrow> map_of d t \<noteq> None"
  shows "\<exists>d'. relax ts d fr = Inr (d', fr @ filter (\<lambda>t. map_of d t = Some 1) ts)
     \<and> (\<forall>v. map_of d' v = (if v \<in> set ts then map_option (\<lambda>n. n - 1) (map_of d v) else map_of d v))"
  using assms
proof (induction ts arbitrary: d fr)
  case (Cons t ts)
  then obtain n where n: "map_of d t = Some n" by fastforce
  let ?d = "AList.update t (n - 1) d"
  let ?fr = "if n - 1 = 0 then fr @ [t] else fr"
  have "\<exists>d'. relax ts ?d ?fr = Inr (d', ?fr @ filter (\<lambda>t. map_of ?d t = Some 1) ts)
     \<and> (\<forall>v. map_of d' v = (if v \<in> set ts then map_option (\<lambda>n. n - 1) (map_of ?d v) else map_of ?d v))"
    using Cons by (intro Cons.IH) auto
  then obtain d' where d': "relax ts ?d ?fr = Inr (d', ?fr @ filter (\<lambda>t. map_of ?d t = Some 1) ts)"
    "\<And>v. map_of d' v = (if v \<in> set ts then map_option (\<lambda>n. n - 1) (map_of ?d v) else map_of ?d v)"
    by blast
  have "filter (\<lambda>x. map_of ?d x = Some 1) ts = filter (\<lambda>x. map_of d x = Some 1) ts"
    using Cons.prems(1) by (intro filter_cong) auto
  with d' n Cons.prems(1) show ?case by auto
qed simp

definition kahn_inv :: "'k set \<Rightarrow> ('k \<times> 'k) set \<Rightarrow> 'k list \<Rightarrow> ('k, int) dict \<Rightarrow> 'k list \<Rightarrow> bool" where
  "kahn_inv V E fr d ord \<longleftrightarrow> distinct (fr @ ord) \<and> set (fr @ ord) \<subseteq> V \<and> topo E {} ord
     \<and> (\<forall>v\<in>V. map_of d v = Some (int (card (preds E v - set ord))))
     \<and> set fr = {v \<in> V - set ord. preds E v \<subseteq> set ord}"

lemma kahn_inv_step:
  assumes inv: "kahn_inv V (edges a) (c # fr) d ord" and ts: "map_of a c = Some ts"
    and dts: "distinct ts" "set ts \<subseteq> V" and fin: "\<And>v. finite (preds (edges a) v)"
  obtains d' fr' where "relax (sort ts) d fr = Inr (d', fr')"
    "kahn_inv V (edges a) (sort fr') d' (ord @ [c])"
proof -
  let ?E = "edges a"
  let ?new = "filter (\<lambda>t. map_of d t = Some 1) (sort ts)"
  have D: "map_of d v = Some (int (card (preds ?E v - set ord)))" if "v \<in> V" for v
    using inv that by (auto simp: kahn_inv_def)
  have cV: "c \<in> V" "c \<notin> set ord" "c \<notin> set fr" "preds ?E c \<subseteq> set ord"
    using inv by (auto simp: kahn_inv_def)
  have succ: "c \<in> preds ?E v \<longleftrightarrow> v \<in> set ts" for v
    using ts by (auto simp: preds_def edges_def)
  obtain d' where d': "relax (sort ts) d fr = Inr (d', fr @ ?new)"
    "\<And>v. map_of d' v = (if v \<in> set ts then map_option (\<lambda>n. n - 1) (map_of d v) else map_of d v)"
    using relax_spec [of "sort ts" d fr] dts D by (auto simp: subset_iff)
  have cd: "preds ?E v - set (ord @ [c]) = preds ?E v - set ord - {c}" for v by auto
  have deg': "map_of d' v = Some (int (card (preds ?E v - set (ord @ [c]))))" if "v \<in> V" for v
  proof (cases "v \<in> set ts")
    case True
    then have "c \<in> preds ?E v - set ord" using succ cV by auto
    moreover from this fin [of v] have "0 < card (preds ?E v - set ord)"
      by (auto simp: card_gt_0_iff)
    ultimately have "int (card (preds ?E v - set ord - {c})) = int (card (preds ?E v - set ord)) - 1"
      by (simp add: card_Diff_singleton of_nat_diff Suc_leI)
    with True D [OF that] show ?thesis unfolding cd by (simp add: d'(2))
  next
    case False
    then have "preds ?E v - set ord - {c} = preds ?E v - set ord" using succ by auto
    with False D [OF that] show ?thesis unfolding cd by (simp add: d'(2))
  qed
  have one: "card (preds ?E v - set ord) = 1 \<longleftrightarrow> preds ?E v - set ord = {c}" if "v \<in> set ts" for v
    using that succ [of v] cV(2) by (metis DiffI One_nat_def card_1_singleton_iff singletonD)
  have new: "set ?new = {v \<in> set ts. preds ?E v - set ord = {c}}"
    using D dts(2) one by (auto simp: subset_iff)
  have fr: "set fr = {v \<in> V - set ord. preds ?E v \<subseteq> set ord} - {c}"
    using inv by (auto simp: kahn_inv_def)
  have closed: "v \<in> set ord \<Longrightarrow> preds ?E v \<subseteq> set ord" for v
    using inv by (metis kahn_inv_def topo_closed)
  have disj: "set ?new \<inter> set fr = {}" unfolding new fr using cV(2) by auto
  have setfr: "set (fr @ ?new) = {v \<in> V - set (ord @ [c]). preds ?E v \<subseteq> set (ord @ [c])}"
    (is "?L = ?R")
  proof
    show "?L \<subseteq> ?R"
      unfolding set_append new fr using closed succ dts(2) cV by auto
    show "?R \<subseteq> ?L"
    proof
      fix v assume v: "v \<in> ?R"
      then show "v \<in> ?L"
        unfolding set_append new fr using succ [of v] cV(2) by (cases "v \<in> set ts") auto
    qed
  qed
  have "kahn_inv V ?E (sort (fr @ ?new)) d' (ord @ [c])"
    unfolding kahn_inv_def using inv deg' setfr disj dts cV
    by (auto simp: kahn_inv_def)
  with d'(1) that show ?thesis by blast
qed

lemma kahn_loop_inv:
  assumes "graph_ok V (a, d0)" and "kahn_inv V (edges a) fr d ord"
  shows "\<exists>res d'. kahn_loop a fr d ord = Inr res \<and> kahn_inv V (edges a) [] d' res"
  using assms
proof (induction a fr d ord rule: kahn_loop.induct)
  case (2 a c fr d ord)
  have fin: "\<And>v. finite (preds (edges a) v)" using finite_preds [OF 2(2)] by simp
  have "c \<in> V" using 2(3) by (auto simp: kahn_inv_def)
  then obtain ts where ts: "map_of a c = Some ts" using graph_okD(2) [OF 2(2), of c] by auto
  then have dts: "distinct ts" "set ts \<subseteq> V" using graph_okD(3) [OF 2(2), of c ts] by auto
  obtain d' fr' where r: "relax (sort ts) d fr = Inr (d', fr')"
      "kahn_inv V (edges a) (sort fr') d' (ord @ [c])"
    by (rule kahn_inv_step [OF 2(3) ts dts fin])
  show ?case using 2(1) [OF ts r(1) refl 2(2) r(2)] ts r(1) by simp
qed auto

lemma kahn_inv_init:
  assumes ok: "graph_ok V (a, d)"
  shows "kahn_inv V (edges a) (sort (map fst (filter (\<lambda>p. snd p = 0) d))) d []"
proof -
  let ?fr = "map fst (filter (\<lambda>p. snd p = 0) d)"
  have dd: "distinct (map fst d)" using graph_okD(6) [OF ok] by simp
  then have "distinct ?fr" by (rule distinct_map_filter)
  moreover have "set ?fr = {v \<in> V. preds (edges a) v = {}}"
  proof -
    have "v \<in> set ?fr \<longleftrightarrow> map_of d v = Some 0" for v
      using dd by (auto simp: image_iff map_of_eq_Some_iff)
    also have "map_of d v = Some 0 \<longleftrightarrow> v \<in> V \<and> preds (edges a) v = {}" for v
      using graph_okD(4,5) [OF ok, of v] finite_preds [OF ok, of v] by auto
    finally show ?thesis by auto
  qed
  ultimately show ?thesis using graph_okD(4) [OF ok] by (auto simp: kahn_inv_def)
qed

text \<open>The result of \<open>kahn\<close> on a graph: a topological order of a predecessor-closed part of
  the nodes that cannot be extended.\<close>

lemma kahn_result:
  assumes "graph_ok V (a, d)"
  obtains res where "kahn a d = Inr res" "topo (edges a) {} res" "distinct res" "set res \<subseteq> V"
    "\<And>v. v \<in> V \<Longrightarrow> preds (edges a) v \<subseteq> set res \<Longrightarrow> v \<in> set res"
proof -
  obtain res d' where "kahn a d = Inr res" "kahn_inv V (edges a) [] d' res"
    using kahn_loop_inv [OF assms kahn_inv_init [OF assms]] by (auto simp: kahn_def)
  then show ?thesis by (intro that) (auto simp: kahn_inv_def)
qed

lemma kahn_complete_iff_acyclic:
  assumes ok: "graph_ok V (a, d)"
  obtains res where "kahn a d = Inr res" "topo (edges a) {} res" "set res \<subseteq> V"
    "length res = card V \<longleftrightarrow> acyclic (edges a)"
proof -
  obtain res where res: "kahn a d = Inr res" "topo (edges a) {} res" "distinct res" "set res \<subseteq> V"
    "\<And>v. v \<in> V \<Longrightarrow> preds (edges a) v \<subseteq> set res \<Longrightarrow> v \<in> set res"
    by (rule kahn_result [OF ok]) auto
  have finV: "finite V" by (rule graph_okD(1) [OF ok])
  have EV: "edges a \<subseteq> V \<times> V" using edges_in_nodes [OF ok] by auto
  have "set res = V" if acyc: "acyclic (edges a)"
  proof (rule ccontr)
    assume "set res \<noteq> V"
    then obtain v where "v \<in> V - set res" using res(4) by auto
    moreover have "wf (edges a)"
      using finite_subset [OF EV] finV acyc by (intro finite_acyclic_wf) auto
    ultimately obtain m where m: "m \<in> V - set res" "\<And>u. (u, m) \<in> edges a \<Longrightarrow> u \<notin> V - set res"
      by (metis wfE_min)
    then have "preds (edges a) m \<subseteq> set res" using EV by (auto simp: preds_def)
    with res(5) m(1) show False by auto
  qed
  moreover have "acyclic (edges a)" if "set res = V"
    using res(2) EV that by (intro topo_acyclic [of _ res]) auto
  moreover have "length res = card V \<longleftrightarrow> set res = V"
    using res(3,4) finV by (metis card_subset_eq distinct_card)
  ultimately show ?thesis using res that by blast
qed

end
