(* ===== verification/EAP_Models.thy ===== *)
theory EAP_Models
  imports EAP_Kahn
begin

text \<open>
  The data model and its validators, \<^verbatim>\<open>src/eap/protocol/models.py\<close>: tool calls, branching
  rules, approvals, retry and execution limits, trace events, macro requests and persisted
  workflow graphs. A Pydantic model is a record, each of its validators a function into
  \<open>models_error + \<dots>\<close> with one error constructor per \<^verbatim>\<open>raise\<close>, and a \<^verbatim>\<open>Field\<close>
  bound is a check of its own. Times are microseconds, durations and rates exact rationals.
\<close>

section \<open>Errors\<close>

datatype models_error =
    FieldBound string
  | RejectNeedsReason
  | EmptyCondition
  | NoBranchTarget
  | BurstWithoutRate
  | GlobalBurstWithoutRate
  | EmptyToolName
  | EmptyScopes
  | BadOperation
  | EventNeedsOutput string
  | EventForbids string
  | EventNeedsError string
  | EventNeedsDelay
  | BadRole
  | DuplicateStepId
  | BadBranchTarget string string
  | SelfBranch string string
  | UnknownApprovalStep string
  | ApprovalNotRequired string
  | NestingTooDeep
  | UnknownSource string
  | UnknownTarget string
  | CyclicMacro
  | EmptyNodeId
  | SelfEdge
  | EmptyWorkflowId
  | NoNodes
  | DuplicateNodeId string
  | DuplicateNodeStepId string
  | UnknownEdgeSource string
  | UnknownEdgeTarget string
  | BranchEdgeWithoutRule string
  | BranchEdgeMismatch string
  | CyclicGraph
  | MissingKey string

section \<open>Pointers, errors, approvals, tool calls\<close>

record pointer_response =
  pr_pointer_id :: string
  pr_summary :: string
  pr_metadata :: "(string, pyval) dict option"

record tool_error_payload =
  te_error_type :: string
  te_message :: string
  te_step_id :: string
  te_tool_name :: string
  te_details :: "(string, pyval) dict option"

record approval_checkpoint =
  ac_required :: bool
  ac_prompt :: "string option"

datatype decision_type = APPROVE | REJECT

record approval_decision =
  ad_decision :: decision_type
  ad_reason :: "string option"

definition validate_reason :: "approval_decision \<Rightarrow> models_error + approval_decision" where
  "validate_reason d =
     (if ad_decision d = REJECT then
        (case ad_reason d of None \<Rightarrow> Inl RejectNeedsReason
         | Some r \<Rightarrow> if py_strip r = [] then Inl RejectNeedsReason else Inr d)
      else Inr d)"

record branching_rule =
  br_condition :: string
  br_true :: "string list"
  br_false :: "string list"
  br_fallback :: "string list"
  br_allow_early_exit :: bool

abbreviation branch_targets :: "branching_rule \<Rightarrow> string list" where
  "branch_targets b \<equiv> br_true b @ br_false b @ br_fallback b"

definition validate_branch_rule :: "branching_rule \<Rightarrow> models_error + branching_rule" where
  "validate_branch_rule b =
     (if py_strip (br_condition b) = [] then Inl EmptyCondition
      else let has_targets = (br_true b \<noteq> [] \<or> br_false b \<noteq> [] \<or> br_fallback b \<noteq> [])
           in if \<not> has_targets \<and> \<not> br_allow_early_exit b then Inl NoBranchTarget else Inr b)"

record tool_call =
  tc_tool_name :: string
  tc_arguments :: "(string, pyval) dict"
  tc_step_id :: string
  tc_branching :: "branching_rule option"
  tc_approval :: "approval_checkpoint option"

section \<open>Retry policy and execution limits\<close>

record retry_policy =
  rp_max_attempts :: int
  rp_initial_delay :: rat
  rp_backoff :: rat
  rp_retryable :: "string list"

definition check_retry_policy :: "retry_policy \<Rightarrow> models_error + retry_policy" where
  "check_retry_policy p =
     (if rp_max_attempts p < 1 then Inl (FieldBound ''max_attempts'')
      else if rp_initial_delay p < 0 then Inl (FieldBound ''initial_delay_seconds'')
      else if rp_backoff p < 1 then Inl (FieldBound ''backoff_multiplier'') else Inr p)"

definition default_retry_policy :: retry_policy where
  "default_retry_policy = \<lparr>rp_max_attempts = 3, rp_initial_delay = 1 / 4, rp_backoff = 2,
     rp_retryable = [''RuntimeError'', ''TimeoutError'', ''ConnectionError'']\<rparr>"

record tool_limit =
  tl_max_concurrency :: "int option"
  tl_rps :: "rat option"
  tl_burst :: "int option"

definition validate_bucket_contract :: "tool_limit \<Rightarrow> models_error + tool_limit" where
  "validate_bucket_contract l =
     (if (opt_holds (\<lambda>n. n < 1) (tl_max_concurrency l)) then Inl (FieldBound ''max_concurrency'')
      else if (opt_holds (\<lambda>r. r \<le> 0) (tl_rps l)) then Inl (FieldBound ''requests_per_second'')
      else if (opt_holds (\<lambda>n. n < 1) (tl_burst l)) then Inl (FieldBound ''burst_capacity'')
      else if tl_burst l \<noteq> None \<and> tl_rps l = None then Inl BurstWithoutRate else Inr l)"

record exec_limits =
  el_max_global :: int
  el_max_runtime :: "rat option"
  el_max_depth :: int
  el_global_rps :: "rat option"
  el_global_burst :: "int option"
  el_per_tool :: "(string, tool_limit) dict"

definition default_exec_limits :: exec_limits where
  "default_exec_limits = \<lparr>el_max_global = 8, el_max_runtime = None, el_max_depth = 32,
     el_global_rps = None, el_global_burst = None, el_per_tool = []\<rparr>"

definition check_exec_limits_fields :: "exec_limits \<Rightarrow> models_error + exec_limits" where
  "check_exec_limits_fields l =
     (if el_max_global l < 1 then Inl (FieldBound ''max_global_concurrency'')
      else if (opt_holds (\<lambda>r. r \<le> 0) (el_max_runtime l)) then Inl (FieldBound ''max_total_runtime_seconds'')
      else if el_max_depth l < 1 \<or> 256 < el_max_depth l then Inl (FieldBound ''max_reference_resolution_depth'')
      else if (opt_holds (\<lambda>r. r \<le> 0) (el_global_rps l)) then Inl (FieldBound ''global_requests_per_second'')
      else if (opt_holds (\<lambda>n. n < 1) (el_global_burst l)) then Inl (FieldBound ''global_burst_capacity'')
      else Inr l)"

definition validate_execution_limits :: "exec_limits \<Rightarrow> models_error + exec_limits" where
  "validate_execution_limits l =
     (if el_global_burst l \<noteq> None \<and> el_global_rps l = None then Inl GlobalBurstWithoutRate
      else bindR (checkR (\<lambda>k. raise_if (py_strip k = []) EmptyToolName) (dict_keys (el_per_tool l)))
             (\<lambda>_. Inr l))"

section \<open>Trace events\<close>

datatype event_type = REPLAYED | QUEUED | APPROVAL_REQUIRED | APPROVED | REJECTED
  | STARTED | RETRIED | FAILED | COMPLETED

record trace_event =
  ev_run_id :: string
  ev_step_id :: string
  ev_tool_name :: string
  ev_type :: event_type
  ev_timestamp :: int
  ev_attempt :: int
  ev_arguments :: "(string, pyval) dict option"
  ev_inputs :: "(string, string) dict option"
  ev_output :: "string option"
  ev_duration :: "rat option"
  ev_retry_delay :: "rat option"
  ev_error :: "tool_error_payload option"
  ev_actor_id :: "string option"
  ev_scopes :: "string list option"
  ev_operation :: "string option"

definition check_event_fields :: "trace_event \<Rightarrow> models_error + trace_event" where
  "check_event_fields e =
     (if ev_attempt e < 1 then Inl (FieldBound ''attempt'')
      else if (opt_holds (\<lambda>d. d < 0) (ev_duration e)) then Inl (FieldBound ''duration_ms'')
      else if (opt_holds (\<lambda>d. d < 0) (ev_retry_delay e)) then Inl (FieldBound ''retry_delay_seconds'')
      else Inr e)"

definition has_output :: "trace_event \<Rightarrow> bool" where
  \<comment> \<open>\<open>bool(self.output_pointer_id)\<close>: neither \<open>None\<close> nor the empty string\<close>
  "has_output e = (case ev_output e of None \<Rightarrow> False | Some s \<Rightarrow> s \<noteq> [])"

definition normalize_event_scopes :: "trace_event \<Rightarrow> models_error + trace_event" where
  "normalize_event_scopes e =
     (case ev_scopes e of None \<Rightarrow> Inr e
      | Some ss \<Rightarrow> (let ns = py_sorted_set (filter (\<lambda>s. s \<noteq> []) (map py_strip ss))
          in if ns = [] then Inl EmptyScopes else Inr (e\<lparr>ev_scopes := Some ns\<rparr>)))"

definition check_event_payload :: "trace_event \<Rightarrow> models_error + unit" where
  "check_event_payload e = (let out = has_output e; err = (ev_error e \<noteq> None); dur = (ev_duration e \<noteq> None) in
     case ev_type e of
       REPLAYED \<Rightarrow> if \<not> out then Inl (EventNeedsOutput ''replayed'')
                   else raise_if err (EventForbids ''replayed'')
     | QUEUED \<Rightarrow> raise_if (out \<or> err \<or> dur) (EventForbids ''queued'')
     | APPROVAL_REQUIRED \<Rightarrow> raise_if (out \<or> err \<or> dur) (EventForbids ''approval_required'')
     | APPROVED \<Rightarrow> raise_if (out \<or> err \<or> dur) (EventForbids ''approved'')
     | REJECTED \<Rightarrow> if \<not> err then Inl (EventNeedsError ''rejected'')
                   else raise_if out (EventForbids ''rejected'')
     | STARTED \<Rightarrow> raise_if (out \<or> err) (EventForbids ''started'')
     | RETRIED \<Rightarrow> if \<not> err then Inl (EventNeedsError ''retried'')
                  else if ev_retry_delay e = None then Inl EventNeedsDelay
                  else raise_if out (EventForbids ''retried'')
     | FAILED \<Rightarrow> if \<not> err then Inl (EventNeedsError ''failed'')
                 else raise_if out (EventForbids ''failed'')
     | COMPLETED \<Rightarrow> if \<not> out then Inl (EventNeedsOutput ''completed'')
                    else raise_if err (EventForbids ''completed''))"

definition validate_event_contract :: "trace_event \<Rightarrow> models_error + trace_event" where
  "validate_event_contract e =
     bindR (normalize_event_scopes e) (\<lambda>e'.
       (case ev_operation e' of
          Some op \<Rightarrow> if op \<notin> {''execute'', ''resume''} then Inl BadOperation
                     else bindR (check_event_payload e') (\<lambda>_. Inr e')
        | None \<Rightarrow> bindR (check_event_payload e') (\<lambda>_. Inr e')))"

definition make_event :: "trace_event \<Rightarrow> models_error + trace_event" where
  \<comment> \<open>constructing \<open>ExecutionTraceEvent(\<dots>)\<close>: field bounds, then the model validator\<close>
  "make_event e = bindR (check_event_fields e) validate_event_contract"

section \<open>Conversations\<close>

datatype memory_strategy = FULL | WINDOW | SUMMARY

record conv_session =
  cs_session_id :: string
  cs_created :: int
  cs_updated :: int
  cs_strategy :: memory_strategy
  cs_window_limit :: "int option"
  cs_summary :: "string option"
  cs_metadata :: "(string, pyval) dict option"

definition check_session :: "conv_session \<Rightarrow> models_error + conv_session" where
  "check_session s = (if (opt_holds (\<lambda>n. n < 1) (cs_window_limit s))
     then Inl (FieldBound ''window_turn_limit'') else Inr s)"

record conv_turn =
  ct_turn_id :: string
  ct_session_id :: string
  ct_role :: string
  ct_content :: string
  ct_created :: int
  ct_pointer_ids :: "string list"
  ct_macro_run_id :: "string option"
  ct_metadata :: "(string, pyval) dict option"

definition validate_role :: "conv_turn \<Rightarrow> models_error + conv_turn" where
  "validate_role t = (if ct_role t \<notin> {''user'', ''assistant'', ''system''} then Inl BadRole else Inr t)"

section \<open>Macro requests\<close>

record macro_request =
  mr_steps :: "tool_call list"
  mr_final_only :: bool
  mr_retry :: retry_policy
  mr_limits :: "exec_limits option"
  mr_approvals :: "(string, approval_decision) dict"

abbreviation step_ids :: "macro_request \<Rightarrow> string list" where
  "step_ids m \<equiv> map tc_step_id (mr_steps m)"

subsection \<open>References\<close>

text \<open>\<open>$step:<id>.<path>\<close> and \<open>$<id>.<path>\<close> in an argument value name the step before the
  first dot. An empty reference text names nothing.\<close>

definition string_reference :: "string \<Rightarrow> string list" where
  "string_reference s =
     (if startswith s ''$step:'' then
        (let ref = drop 6 s in if ref \<noteq> [] then [before_char (CHR ''.'') ref] else [])
      else if startswith s ''$'' \<and> \<not> startswith s ''ptr_'' then
        (let ref = drop 1 s in if ref \<noteq> [] then [before_char (CHR ''.'') ref] else [])
      else [])"

fun extract_argument_step_references :: "nat \<Rightarrow> nat \<Rightarrow> pyval \<Rightarrow> models_error + string list" where
  "extract_argument_step_references depth max_depth v =
     (if max_depth < depth then Inl NestingTooDeep
      else (case v of
          PStr s \<Rightarrow> Inr (string_reference s)
        | PDict d \<Rightarrow> bindR (mapR (\<lambda>p. extract_argument_step_references (Suc depth) max_depth (snd p)) d)
                        (\<lambda>rs. Inr (concat rs))
        | PList xs \<Rightarrow> bindR (mapR (\<lambda>x. extract_argument_step_references (Suc depth) max_depth x) xs)
                        (\<lambda>rs. Inr (concat rs))
        | _ \<Rightarrow> Inr []))"

declare extract_argument_step_references.simps [simp del]

lemmas extract_simps = extract_argument_step_references.simps [of _ _ PNone]
  extract_argument_step_references.simps [of _ _ "PBool b" for b]
  extract_argument_step_references.simps [of _ _ "PInt n" for n]
  extract_argument_step_references.simps [of _ _ "PFloat f" for f]
  extract_argument_step_references.simps [of _ _ "PStr s" for s]
  extract_argument_step_references.simps [of _ _ "PList xs" for xs]
  extract_argument_step_references.simps [of _ _ "PDict d" for d]

text \<open>The regular expression \<^verbatim>\<open>\$step:([A-Za-z0-9_\-]+)(?:\.([A-Za-z0-9_\.]+))?\<close>, scanned from
  the left without overlaps: the text as a list of literal characters and matched references.\<close>

datatype ref_piece = Lit char | Ref string "string option"

definition is_id_char :: "char \<Rightarrow> bool" where
  "is_id_char c = (let n = (of_char c :: nat)
     in (48 \<le> n \<and> n \<le> 57) \<or> (65 \<le> n \<and> n \<le> 90) \<or> (97 \<le> n \<and> n \<le> 122) \<or> c = CHR ''_'' \<or> c = CHR ''-'')"

definition is_path_char :: "char \<Rightarrow> bool" where
  "is_path_char c = ((is_id_char c \<and> c \<noteq> CHR ''-'') \<or> c = CHR ''.'')"

definition match_reference :: "string \<Rightarrow> (string \<times> string option \<times> string) option" where
  "match_reference s =
     (if startswith s ''$step:'' then
        (let rest = drop 6 s; name = takeWhile is_id_char rest; after = dropWhile is_id_char rest
         in if name = [] then None
            else (case after of
                c # r \<Rightarrow> if c = CHR ''.'' \<and> takeWhile is_path_char r \<noteq> []
                         then Some (name, Some (takeWhile is_path_char r), dropWhile is_path_char r)
                         else Some (name, None, after)
              | [] \<Rightarrow> Some (name, None, [])))
      else None)"

lemma match_reference_shorter:
  "match_reference s = Some (n, p, r) \<Longrightarrow> length r < length s"
proof -
  assume m: "match_reference s = Some (n, p, r)"
  then have "startswith s ''$step:''" by (auto simp: match_reference_def split: if_splits)
  then have s: "length s = 6 + length (drop 6 s)" by (auto simp: startswith_iff)
  have "length r \<le> length (drop 6 s)"
    using m length_dropWhile_le [of is_id_char "drop 6 s"]
    by (auto simp: match_reference_def Let_def split: if_splits list.splits
        intro: le_trans [OF length_dropWhile_le])
  with s show ?thesis by simp
qed

function ref_pieces :: "string \<Rightarrow> ref_piece list" where
  "ref_pieces [] = []"
| "ref_pieces (c # cs) = (case match_reference (c # cs) of
     None \<Rightarrow> Lit c # ref_pieces cs
   | Some (name, path, rest) \<Rightarrow> Ref name path # ref_pieces rest)"
  by pat_completeness auto
termination
  by (relation "measure length") (auto dest: match_reference_shorter)

definition extract_condition_step_references :: "string \<Rightarrow> string list" where
  "extract_condition_step_references condition =
     concat (map (\<lambda>p. case p of Lit _ \<Rightarrow> [] | Ref name _ \<Rightarrow> [name]) (ref_pieces condition))"

subsection \<open>The dependency graph\<close>

definition add_edge :: "string list \<Rightarrow> (string, string list) dict \<times> (string, int) dict
    \<Rightarrow> string \<times> string \<Rightarrow> models_error + (string, string list) dict \<times> (string, int) dict" where
  "add_edge ids g e =
     (if fst e \<notin> set ids then Inl (UnknownSource (fst e))
      else if snd e \<notin> set ids then Inl (UnknownTarget (snd e))
      else (case link g (fst e) (snd e) of Inl k \<Rightarrow> Inl (MissingKey k) | Inr g' \<Rightarrow> Inr g'))"

definition step_edges :: "string list \<Rightarrow> tool_call \<Rightarrow> models_error + (string \<times> string) list" where
  "step_edges ids step =
     bindR (mapR (\<lambda>p. extract_argument_step_references 0 32 (snd p)) (tc_arguments step)) (\<lambda>refs.
       Inr (map (\<lambda>d. (d, tc_step_id step)) (filter (\<lambda>d. d \<in> set ids) (concat refs))
         @ (case tc_branching step of None \<Rightarrow> []
            | Some b \<Rightarrow>
                map (\<lambda>d. (d, tc_step_id step))
                  (filter (\<lambda>d. d \<noteq> tc_step_id step \<and> d \<in> set ids)
                    (extract_condition_step_references (br_condition b)))
              @ map (\<lambda>t. (tc_step_id step, t)) (branch_targets b))))"

definition add_step_edges :: "string list \<Rightarrow> (string, string list) dict \<times> (string, int) dict
    \<Rightarrow> tool_call \<Rightarrow> models_error + (string, string list) dict \<times> (string, int) dict" where
  "add_step_edges ids g step = bindR (step_edges ids step) (\<lambda>es. foldR (add_edge ids) g es)"

definition validate_dependency_graph_acyclic :: "macro_request \<Rightarrow> models_error + unit" where
  "validate_dependency_graph_acyclic m =
     (let ids = remdups (step_ids m) in
      bindR (foldR (add_step_edges ids) (empty_adjacency ids, zero_in_degree ids) (mr_steps m)) (\<lambda>g.
        (case kahn (fst g) (snd g) of Inl k \<Rightarrow> Inl (MissingKey k)
         | Inr ordered \<Rightarrow> raise_if (length ordered \<noteq> length ids) CyclicMacro)))"

definition check_branch_targets :: "macro_request \<Rightarrow> tool_call \<Rightarrow> models_error + unit" where
  "check_branch_targets m step =
     (case tc_branching step of None \<Rightarrow> Inr ()
      | Some b \<Rightarrow> checkR (\<lambda>t. if t \<notin> set (step_ids m) then Inl (BadBranchTarget t (tc_step_id step))
           else raise_if (t = tc_step_id step) (SelfBranch t (tc_step_id step))) (branch_targets b))"

definition requires_approval :: "tool_call \<Rightarrow> bool" where
  "requires_approval step = opt_holds ac_required (tc_approval step)"

definition check_approval :: "macro_request \<Rightarrow> string \<Rightarrow> models_error + unit" where
  "check_approval m sid =
     (case map_of (rev (map (\<lambda>s. (tc_step_id s, s)) (mr_steps m))) sid of
        None \<Rightarrow> Inl (UnknownApprovalStep sid)
      | Some step \<Rightarrow> raise_if (\<not> requires_approval step) (ApprovalNotRequired sid))"

definition validate_branch_targets :: "macro_request \<Rightarrow> models_error + macro_request" where
  "validate_branch_targets m =
     (if length (remdups (step_ids m)) \<noteq> length (mr_steps m) then Inl DuplicateStepId
      else bindR (checkR (check_branch_targets m) (mr_steps m)) (\<lambda>_.
           bindR (checkR (check_approval m) (dict_keys (mr_approvals m))) (\<lambda>_.
           bindR (validate_dependency_graph_acyclic m) (\<lambda>_. Inr m))))"

section \<open>Persisted workflow graphs\<close>

datatype edge_kind = DEPENDENCY | BRANCH_TRUE | BRANCH_FALSE | BRANCH_FALLBACK

record graph_node =
  gn_node_id :: string
  gn_step :: tool_call
  gn_label :: "string option"
  gn_x :: rat
  gn_y :: rat

definition validate_node :: "graph_node \<Rightarrow> models_error + graph_node" where
  "validate_node n = (if py_strip (gn_node_id n) = [] then Inl EmptyNodeId else Inr n)"

record graph_edge =
  ge_source :: string
  ge_target :: string
  ge_kind :: edge_kind

definition validate_edge :: "graph_edge \<Rightarrow> models_error + graph_edge" where
  "validate_edge e = (if ge_source e = ge_target e then Inl SelfEdge else Inr e)"

record workflow_graph =
  wg_workflow_id :: string
  wg_version :: int
  wg_nodes :: "graph_node list"
  wg_edges :: "graph_edge list"
  wg_created :: int
  wg_updated :: int
  wg_metadata :: "(string, pyval) dict option"

text \<open>The three branch sets of a node: by source edge, or by its branching rule.\<close>

record branch_sets =
  bs_true :: "string list"
  bs_false :: "string list"
  bs_fallback :: "string list"

abbreviation no_branch_sets :: branch_sets where
  "no_branch_sets \<equiv> \<lparr>bs_true = [], bs_false = [], bs_fallback = []\<rparr>"

fun add_branch :: "edge_kind \<Rightarrow> string \<Rightarrow> branch_sets \<Rightarrow> branch_sets" where
  "add_branch BRANCH_TRUE t b = b\<lparr>bs_true := List.insert t (bs_true b)\<rparr>"
| "add_branch BRANCH_FALSE t b = b\<lparr>bs_false := List.insert t (bs_false b)\<rparr>"
| "add_branch BRANCH_FALLBACK t b = b\<lparr>bs_fallback := List.insert t (bs_fallback b)\<rparr>"
| "add_branch DEPENDENCY t b = b"

definition register_node :: "(string, graph_node) dict \<Rightarrow> graph_node
    \<Rightarrow> models_error + (string, graph_node) dict" where
  "register_node seen n =
     (if dict_has seen (gn_node_id n) then Inl (DuplicateNodeId (gn_node_id n))
      else if tc_step_id (gn_step n) \<in> set (map (tc_step_id \<circ> gn_step \<circ> snd) seen)
        then Inl (DuplicateNodeStepId (tc_step_id (gn_step n)))
      else Inr (AList.update (gn_node_id n) n seen))"

definition classify_edge :: "(string, graph_node) dict
    \<Rightarrow> (string, branch_sets) dict \<times> graph_edge list \<Rightarrow> graph_edge
    \<Rightarrow> models_error + (string, branch_sets) dict \<times> graph_edge list" where
  "classify_edge node_ids acc e =
     (case map_of node_ids (ge_source e) of None \<Rightarrow> Inl (UnknownEdgeSource (ge_source e))
      | Some source_node \<Rightarrow>
        (case map_of node_ids (ge_target e) of None \<Rightarrow> Inl (UnknownEdgeTarget (ge_target e))
         | Some target_node \<Rightarrow>
           if ge_kind e = DEPENDENCY then Inr (fst acc, snd acc @ [e])
           else if tc_branching (gn_step source_node) = None
             then Inl (BranchEdgeWithoutRule (ge_source e))
           else Inr (AList.update (ge_source e)
                  (add_branch (ge_kind e) (tc_step_id (gn_step target_node))
                    (dict_get_or (fst acc) (ge_source e) no_branch_sets)) (fst acc), snd acc)))"

definition check_branch_edges :: "(string, branch_sets) dict \<Rightarrow> graph_node \<Rightarrow> models_error + unit" where
  "check_branch_edges by_source n =
     (case tc_branching (gn_step n) of None \<Rightarrow> Inr ()
      | Some b \<Rightarrow> (let actual = dict_get_or by_source (gn_node_id n) no_branch_sets in
          raise_if (set (bs_true actual) \<noteq> set (br_true b)
              \<or> set (bs_false actual) \<noteq> set (br_false b)
              \<or> set (bs_fallback actual) \<noteq> set (br_fallback b))
            (BranchEdgeMismatch (gn_node_id n))))"

definition graph_order :: "string list \<Rightarrow> graph_edge list \<Rightarrow> models_error + string list" where
  \<comment> \<open>the adjacency, in-degree and frontier loops over the dependency edges\<close>
  "graph_order node_ids dependency_edges =
     (case foldR (\<lambda>g e. link g (ge_source e) (ge_target e))
             (empty_adjacency node_ids, zero_in_degree node_ids) dependency_edges of
        Inl k \<Rightarrow> Inl (MissingKey k)
      | Inr g \<Rightarrow> (case kahn (fst g) (snd g) of Inl k \<Rightarrow> Inl (MissingKey k) | Inr ord \<Rightarrow> Inr ord))"

definition validate_dependency_acyclic :: "string list \<Rightarrow> graph_edge list \<Rightarrow> models_error + unit" where
  "validate_dependency_acyclic node_ids dependency_edges =
     bindR (graph_order node_ids dependency_edges)
       (\<lambda>ordered. raise_if (length ordered \<noteq> length node_ids) CyclicGraph)"

definition validate_graph :: "workflow_graph \<Rightarrow> models_error + workflow_graph" where
  "validate_graph g =
     (if py_strip (wg_workflow_id g) = [] then Inl EmptyWorkflowId
      else if wg_nodes g = [] then Inl NoNodes
      else bindR (foldR register_node [] (wg_nodes g)) (\<lambda>node_ids.
           bindR (foldR (classify_edge node_ids) ([], []) (wg_edges g)) (\<lambda>acc.
           bindR (checkR (check_branch_edges (fst acc)) (wg_nodes g)) (\<lambda>_.
           bindR (validate_dependency_acyclic (dict_keys node_ids) (snd acc)) (\<lambda>_. Inr g)))))"

definition to_batched_macro_request :: "workflow_graph \<Rightarrow> bool \<Rightarrow> retry_policy option
    \<Rightarrow> exec_limits option \<Rightarrow> models_error + macro_request" where
  "to_batched_macro_request g return_final_state_only retry limits =
     (let ids = remdups (map gn_node_id (wg_nodes g));
          node_map = rev (map (\<lambda>n. (gn_node_id n, n)) (wg_nodes g)) in
      bindR (graph_order ids (filter (\<lambda>e. ge_kind e = DEPENDENCY) (wg_edges g))) (\<lambda>ordered.
        if length ordered \<noteq> length (wg_nodes g) then Inl CyclicGraph
        else bindR (mapR (\<lambda>i. case map_of node_map i of None \<Rightarrow> Inl (MissingKey i)
                                | Some n \<Rightarrow> Inr (gn_step n)) ordered) (\<lambda>steps.
          validate_branch_targets
            \<lparr>mr_steps = steps, mr_final_only = return_final_state_only,
             mr_retry = (case retry of None \<Rightarrow> default_retry_policy | Some r \<Rightarrow> r),
             mr_limits = limits, mr_approvals = []\<rparr>)))"

section \<open>What macro validation accepts\<close>

text \<open>The references of a value, its nesting depth and the dependency relation of a macro,
  stated without reference to the algorithm.\<close>

inductive mentions :: "pyval \<Rightarrow> string \<Rightarrow> bool" where
  mentions_str: "r \<in> set (string_reference s) \<Longrightarrow> mentions (PStr s) r"
| mentions_list: "v \<in> set xs \<Longrightarrow> mentions v r \<Longrightarrow> mentions (PList xs) r"
| mentions_dict: "(k, v) \<in> set d \<Longrightarrow> mentions v r \<Longrightarrow> mentions (PDict d) r"

inductive_simps mentions_simps [simp]:
  "mentions PNone r" "mentions (PBool b) r" "mentions (PInt n) r" "mentions (PFloat f) r"
  "mentions (PStr s) r" "mentions (PList xs) r" "mentions (PDict d) r"

fun nesting :: "pyval \<Rightarrow> nat" where
  "nesting (PList xs) = foldr (\<lambda>v n. max (Suc (nesting v)) n) xs 0"
| "nesting (PDict d) = foldr (\<lambda>p n. max (Suc (nesting (snd p))) n) d 0"
| "nesting _ = 0"

definition macro_deps :: "macro_request \<Rightarrow> (string \<times> string) set" where
  "macro_deps m = {(u, v). \<exists>s\<in>set (mr_steps m).
     (v = tc_step_id s \<and> u \<in> set (step_ids m) \<and>
        ((\<exists>p\<in>set (tc_arguments s). mentions (snd p) u)
         \<or> (\<exists>b. tc_branching s = Some b \<and> u \<noteq> v
              \<and> u \<in> set (extract_condition_step_references (br_condition b)))))
     \<or> (u = tc_step_id s \<and> (\<exists>b. tc_branching s = Some b \<and> v \<in> set (branch_targets b)))}"

definition targets_ok :: "macro_request \<Rightarrow> bool" where
  "targets_ok m \<longleftrightarrow> (\<forall>s\<in>set (mr_steps m). \<forall>b. tc_branching s = Some b \<longrightarrow>
     (\<forall>t\<in>set (branch_targets b). t \<in> set (step_ids m) \<and> t \<noteq> tc_step_id s))"

definition approvals_ok :: "macro_request \<Rightarrow> bool" where
  "approvals_ok m \<longleftrightarrow> (\<forall>sid\<in>set (dict_keys (mr_approvals m)).
     \<exists>s\<in>set (mr_steps m). tc_step_id s = sid \<and> requires_approval s)"

definition nesting_ok :: "macro_request \<Rightarrow> bool" where
  "nesting_ok m \<longleftrightarrow> (\<forall>s\<in>set (mr_steps m). \<forall>p\<in>set (tc_arguments s). nesting (snd p) \<le> 32)"

definition refs_spec :: "nat \<Rightarrow> nat \<Rightarrow> pyval \<Rightarrow> bool" where
  "refs_spec d M v \<longleftrightarrow> (if d + nesting v \<le> M
     then \<exists>rs. extract_argument_step_references d M v = Inr rs \<and> (\<forall>r. r \<in> set rs \<longleftrightarrow> mentions v r)
     else extract_argument_step_references d M v = Inl NestingTooDeep)"

lemma extract_items:
  assumes "\<And>x. x \<in> set xs \<Longrightarrow> refs_spec (Suc d) M (g x)" and "d \<le> M"
  shows "if d + foldr (\<lambda>x n. max (Suc (nesting (g x))) n) xs 0 \<le> M
    then \<exists>rss. mapR (\<lambda>x. extract_argument_step_references (Suc d) M (g x)) xs = Inr rss
       \<and> (\<forall>r. r \<in> set (concat rss) \<longleftrightarrow> (\<exists>x\<in>set xs. mentions (g x) r))
    else mapR (\<lambda>x. extract_argument_step_references (Suc d) M (g x)) xs = Inl NestingTooDeep"
  using assms(1)
proof (induction xs)
  case Nil
  then show ?case using assms(2) by auto
next
  case (Cons x xs)
  let ?n = "foldr (\<lambda>x n. max (Suc (nesting (g x))) n) xs 0"
  have x: "refs_spec (Suc d) M (g x)" using Cons.prems by simp
  show ?case
  proof (cases "Suc d + nesting (g x) \<le> M \<and> d + ?n \<le> M")
    case True
    obtain rs where rs: "extract_argument_step_references (Suc d) M (g x) = Inr rs"
        "\<forall>r. r \<in> set rs \<longleftrightarrow> mentions (g x) r"
      using x True unfolding refs_spec_def by auto
    obtain rss where "mapR (\<lambda>x. extract_argument_step_references (Suc d) M (g x)) xs = Inr rss"
        "\<forall>r. r \<in> set (concat rss) \<longleftrightarrow> (\<exists>x\<in>set xs. mentions (g x) r)"
      using Cons.IH Cons.prems True by auto
    with True rs show ?thesis by (simp add: nat_add_max_right)
  next
    case False
    moreover have "\<not> d + ?n \<le> M \<Longrightarrow>
        mapR (\<lambda>x. extract_argument_step_references (Suc d) M (g x)) xs = Inl NestingTooDeep"
      using Cons.IH Cons.prems by (simp only: if_False list.set_intros)
    ultimately show ?thesis using x by (auto simp: refs_spec_def nat_add_max_right split: if_splits sum.splits)
  qed
qed

lemma extract_refs_spec: "refs_spec d M v"
proof (induction d M v rule: extract_argument_step_references.induct)
  case (1 d M v)
  note E = extract_argument_step_references.simps [of d M v]
  show ?case
  proof (cases "M < d")
    case True
    then show ?thesis by (simp add: refs_spec_def E)
  next
    case False
    then have dM: "d \<le> M" by simp
    show ?thesis
    proof (cases v)
      case (PList xs)
      have "if d + nesting v \<le> M then \<exists>rss. mapR (extract_argument_step_references (Suc d) M) xs = Inr rss
           \<and> (\<forall>r. r \<in> set (concat rss) \<longleftrightarrow> mentions v r)
         else mapR (extract_argument_step_references (Suc d) M) xs = Inl NestingTooDeep"
        using extract_items [of xs d M "\<lambda>v. v", OF "1.IH"(1) [OF False PList] dM]
        by (auto simp: PList split: if_splits)
      with False show ?thesis by (auto simp: refs_spec_def extract_simps PList split: if_splits)
    next
      case (PDict ds)
      have "if d + nesting v \<le> M
         then \<exists>rss. mapR (\<lambda>p. extract_argument_step_references (Suc d) M (snd p)) ds = Inr rss
           \<and> (\<forall>r. r \<in> set (concat rss) \<longleftrightarrow> mentions v r)
         else mapR (\<lambda>p. extract_argument_step_references (Suc d) M (snd p)) ds = Inl NestingTooDeep"
        using extract_items [of ds d M snd, OF "1.IH"(2) [OF False PDict] dM]
        by (fastforce simp: PDict split: if_splits)
      with False show ?thesis by (auto simp: refs_spec_def extract_simps PDict split: if_splits)
    qed (use False in \<open>auto simp: refs_spec_def extract_simps\<close>)
  qed
qed

text \<open>The edges one step contributes, and the whole graph.\<close>

definition step_deps :: "string set \<Rightarrow> tool_call \<Rightarrow> (string \<times> string) set" where
  "step_deps ids s =
     {(u, v). v = tc_step_id s \<and> u \<in> ids \<and> ((\<exists>p\<in>set (tc_arguments s). mentions (snd p) u)
        \<or> (\<exists>b. tc_branching s = Some b \<and> u \<noteq> v \<and> u \<in> set (extract_condition_step_references (br_condition b))))}
     \<union> {(u, v). u = tc_step_id s \<and> (\<exists>b. tc_branching s = Some b \<and> v \<in> set (branch_targets b))}"

lemma macro_deps_eq: "macro_deps m = (\<Union>s\<in>set (mr_steps m). step_deps (set (step_ids m)) s)"
  by (auto simp: macro_deps_def step_deps_def)

lemma args_refs_spec:
  assumes "\<forall>p\<in>set args. nesting (snd p) \<le> 32"
  shows "\<exists>rss. mapR (\<lambda>p. extract_argument_step_references 0 32 (snd p)) args = Inr rss
     \<and> (\<forall>r. r \<in> set (concat rss) \<longleftrightarrow> (\<exists>p\<in>set args. mentions (snd p) r))"
  using assms
proof (induction args)
  case (Cons p args)
  then obtain rs where "extract_argument_step_references 0 32 (snd p) = Inr rs"
      "\<forall>r. r \<in> set rs \<longleftrightarrow> mentions (snd p) r"
    using extract_refs_spec [of 0 32 "snd p"] by (auto simp: refs_spec_def)
  with Cons show ?case by fastforce
qed auto

lemma step_edges_spec:
  assumes "\<forall>p\<in>set (tc_arguments s). nesting (snd p) \<le> 32"
  obtains es where "step_edges ids s = Inr es" "set es = step_deps (set ids) s"
proof -
  obtain rss where rss: "mapR (\<lambda>p. extract_argument_step_references 0 32 (snd p)) (tc_arguments s) = Inr rss"
     "\<forall>r. r \<in> set (concat rss) \<longleftrightarrow> (\<exists>p\<in>set (tc_arguments s). mentions (snd p) r)"
    using args_refs_spec [OF assms] by auto
  show ?thesis
    by (rule that, simp add: step_edges_def rss(1))
       (use rss(2) in \<open>auto simp: step_deps_def split: option.splits\<close>)
qed

lemma foldR_add_edge:
  assumes "set es \<subseteq> set ids \<times> set ids" and "graph_ok (set ids) g"
  shows "\<exists>g'. foldR (add_edge ids) g es = Inr g' \<and> graph_ok (set ids) g'
     \<and> edges (fst g') = edges (fst g) \<union> set es"
  using assms
proof (induction es arbitrary: g)
  case (Cons e es)
  then have uv: "fst e \<in> set ids" "snd e \<in> set ids" by auto
  obtain g1 where "link g (fst e) (snd e) = Inr g1" "graph_ok (set ids) g1"
      "edges (fst g1) = insert (fst e, snd e) (edges (fst g))"
    by (rule link_ok [OF Cons.prems(2) uv])
  with Cons.IH [of g1] Cons.prems(1) uv show ?case by (fastforce simp: add_edge_def)
qed auto

definition step_fits :: "string set \<Rightarrow> tool_call \<Rightarrow> bool" where
  "step_fits ids s \<longleftrightarrow> tc_step_id s \<in> ids \<and> (\<forall>p\<in>set (tc_arguments s). nesting (snd p) \<le> 32)
     \<and> (\<forall>b. tc_branching s = Some b \<longrightarrow> set (branch_targets b) \<subseteq> ids)"

lemma step_deps_subset: "step_fits ids s \<Longrightarrow> step_deps ids s \<subseteq> ids \<times> ids"
  by (auto simp: step_deps_def step_fits_def)

lemma foldR_add_step_edges:
  assumes "\<forall>s\<in>set ss. step_fits (set ids) s" and "graph_ok (set ids) g"
  shows "\<exists>g'. foldR (add_step_edges ids) g ss = Inr g' \<and> graph_ok (set ids) g'
     \<and> edges (fst g') = edges (fst g) \<union> (\<Union>s\<in>set ss. step_deps (set ids) s)"
  using assms
proof (induction ss arbitrary: g)
  case (Cons s ss)
  obtain es where es: "step_edges ids s = Inr es" "set es = step_deps (set ids) s"
    using step_edges_spec [of s ids] Cons.prems(1) by (auto simp: step_fits_def)
  have "set es \<subseteq> set ids \<times> set ids"
    using Cons.prems(1) unfolding es(2) by (intro step_deps_subset) simp
  from foldR_add_edge [OF this Cons.prems(2)] obtain g1 where g1:
      "foldR (add_edge ids) g es = Inr g1" "graph_ok (set ids) g1"
      "edges (fst g1) = edges (fst g) \<union> set es" by auto
  have "add_step_edges ids g s = Inr g1" by (simp add: add_step_edges_def es(1) g1(1))
  moreover obtain g' where "foldR (add_step_edges ids) g1 ss = Inr g'" "graph_ok (set ids) g'"
     "edges (fst g') = edges (fst g1) \<union> (\<Union>s\<in>set ss. step_deps (set ids) s)"
    using Cons.IH [OF _ g1(2)] Cons.prems(1) by (auto simp del: split_paired_Ex split_paired_All)
  ultimately show ?case
    by (intro exI [of _ g']) (simp add: g1(3) es(2) Un_assoc)
qed auto

lemma acyclic_check_iff:
  assumes t: "targets_ok m"
  shows "validate_dependency_graph_acyclic m = Inr () \<longleftrightarrow> nesting_ok m \<and> acyclic (macro_deps m)"
proof (cases "nesting_ok m")
  case True
  let ?ids = "remdups (step_ids m)"
  have "\<forall>s\<in>set (mr_steps m). step_fits (set ?ids) s"
    using t True by (fastforce simp: nesting_ok_def targets_ok_def step_fits_def)
  from foldR_add_step_edges [OF this graph_ok_empty [of ?ids]] obtain a d where g: "foldR (add_step_edges ?ids) (empty_adjacency ?ids, zero_in_degree ?ids) (mr_steps m) = Inr (a, d)"
     "graph_ok (set ?ids) (a, d)" "edges a = macro_deps m" by (auto simp: macro_deps_eq)
  obtain res where res: "kahn a d = Inr res" "length res = card (set ?ids) \<longleftrightarrow> acyclic (edges a)"
    by (rule kahn_complete_iff_acyclic [OF g(2)])
  have "card (set ?ids) = length ?ids" by (rule distinct_card) simp
  with g res True show ?thesis
    by (simp add: validate_dependency_graph_acyclic_def Let_def)
next
  case False
  then obtain s p where sp: "s \<in> set (mr_steps m)" "p \<in> set (tc_arguments s)" "32 < nesting (snd p)"
    by (auto simp: nesting_ok_def not_le)
  have E: "extract_argument_step_references 0 32 (snd p) = Inl NestingTooDeep"
    using extract_refs_spec [of 0 32 "snd p"] sp(3) by (simp add: refs_spec_def)
  have "step_edges ids s \<noteq> Inr es" for ids es
  proof
    assume "step_edges ids s = Inr es"
    then obtain rss where "mapR (\<lambda>x. extract_argument_step_references 0 32 (snd x))
        (tc_arguments s) = Inr rss" unfolding step_edges_def bindR_Inr_iff by blast
    from mapR_Inr_step [OF this sp(2)] E show False by simp
  qed
  then have "add_step_edges ids g s \<noteq> Inr g'" for ids g g'
    by (auto simp: add_step_edges_def res_simps)
  then have "foldR (add_step_edges ids) g (mr_steps m) \<noteq> Inr g'" for ids g g'
    using foldR_all_steps [of "add_step_edges ids" g "mr_steps m" g' s] sp(1) by blast
  then have "validate_dependency_graph_acyclic m \<noteq> Inr ()"
    unfolding validate_dependency_graph_acyclic_def Let_def bindR_Inr_iff by blast
  with False show ?thesis by simp
qed

lemma targets_check_iff: "checkR (check_branch_targets m) (mr_steps m) = Inr u \<longleftrightarrow> targets_ok m"
  by (auto simp: res_simps targets_ok_def check_branch_targets_def split: option.splits if_splits)

lemma approvals_check_iff:
  assumes "distinct (step_ids m)"
  shows "checkR (check_approval m) (dict_keys (mr_approvals m)) = Inr u \<longleftrightarrow> approvals_ok m"
proof -
  have "check_approval m sid = Inr () \<longleftrightarrow> (\<exists>s\<in>set (mr_steps m). tc_step_id s = sid \<and> requires_approval s)" for sid
  proof -
    let ?al = "rev (map (\<lambda>s. (tc_step_id s, s)) (mr_steps m))"
    have "distinct (map fst ?al)" 
      using assms by (simp add: rev_map comp_def) (metis distinct_rev rev_map)
    then have "map_of ?al sid = Some s \<longleftrightarrow> s \<in> set (mr_steps m) \<and> tc_step_id s = sid" for s
      by (auto simp: map_of_eq_Some_iff)
    then show ?thesis unfolding check_approval_def
      by (cases "map_of ?al sid") (auto simp del: map_of_eq_None_iff, metis)
  qed
  then show ?thesis by (simp add: res_simps approvals_ok_def)
qed

lemma distinct_iff_length_remdups: "length (remdups xs) = length xs \<longleftrightarrow> distinct xs"
  by (metis distinct_remdups distinct_remdups_id length_remdups_eq)

lemma validate_macro_iff:
  "validate_branch_targets m = Inr m \<longleftrightarrow>
     distinct (step_ids m) \<and> targets_ok m \<and> approvals_ok m \<and> nesting_ok m \<and> acyclic (macro_deps m)"
  using distinct_iff_length_remdups [of "step_ids m"] approvals_check_iff [of m]
    acyclic_check_iff [of m] targets_check_iff [of m]
  by (auto simp: validate_branch_targets_def res_simps)

section \<open>What graph validation accepts, and what a graph compiles to\<close>

definition graph_deps :: "graph_edge list \<Rightarrow> (string \<times> string) set" where
  "graph_deps es = {(ge_source e, ge_target e) |e. e \<in> set es \<and> ge_kind e = DEPENDENCY}"

text \<open>The step ids reached from a node by edges of one kind.\<close>

definition branch_reach :: "workflow_graph \<Rightarrow> edge_kind \<Rightarrow> string \<Rightarrow> string set" where
  "branch_reach g k i = {tc_step_id (gn_step t) |e t. e \<in> set (wg_edges g) \<and> t \<in> set (wg_nodes g)
     \<and> ge_kind e = k \<and> ge_source e = i \<and> ge_target e = gn_node_id t}"

definition graph_accepts :: "workflow_graph \<Rightarrow> bool" where
  "graph_accepts g \<longleftrightarrow> py_strip (wg_workflow_id g) \<noteq> [] \<and> wg_nodes g \<noteq> []
     \<and> distinct (map gn_node_id (wg_nodes g)) \<and> distinct (map (tc_step_id \<circ> gn_step) (wg_nodes g))
     \<and> (\<forall>e\<in>set (wg_edges g). ge_source e \<in> gn_node_id ` set (wg_nodes g)
          \<and> ge_target e \<in> gn_node_id ` set (wg_nodes g))
     \<and> (\<forall>n\<in>set (wg_nodes g). case tc_branching (gn_step n) of
          None \<Rightarrow> (\<forall>e\<in>set (wg_edges g). ge_source e = gn_node_id n \<longrightarrow> ge_kind e = DEPENDENCY)
        | Some b \<Rightarrow> branch_reach g BRANCH_TRUE (gn_node_id n) = set (br_true b)
            \<and> branch_reach g BRANCH_FALSE (gn_node_id n) = set (br_false b)
            \<and> branch_reach g BRANCH_FALLBACK (gn_node_id n) = set (br_fallback b))
     \<and> acyclic (graph_deps (wg_edges g))"

lemma graph_acceptsD:
  assumes "graph_accepts g"
  shows "distinct (map gn_node_id (wg_nodes g))" "distinct (map (tc_step_id \<circ> gn_step) (wg_nodes g))"
    and "e \<in> set (wg_edges g) \<Longrightarrow> ge_source e \<in> gn_node_id ` set (wg_nodes g)"
    and "e \<in> set (wg_edges g) \<Longrightarrow> ge_target e \<in> gn_node_id ` set (wg_nodes g)"
    and "n \<in> set (wg_nodes g) \<Longrightarrow> tc_branching (gn_step n) = None \<Longrightarrow> e \<in> set (wg_edges g)
      \<Longrightarrow> ge_source e = gn_node_id n \<Longrightarrow> ge_kind e = DEPENDENCY"
    and "acyclic (graph_deps (wg_edges g))"
  using assms unfolding graph_accepts_def by (simp_all, fastforce)

lemma foldR_register_node:
  "foldR register_node seen ns = Inr res \<longleftrightarrow>
     distinct (map gn_node_id ns) \<and> distinct (map (tc_step_id \<circ> gn_step) ns)
     \<and> gn_node_id ` set ns \<inter> set (dict_keys seen) = {}
     \<and> (tc_step_id \<circ> gn_step) ` set ns \<inter> (tc_step_id \<circ> gn_step \<circ> snd) ` set seen = {}
     \<and> res = seen @ map (\<lambda>n. (gn_node_id n, n)) ns"
proof (induction ns arbitrary: seen)
  case (Cons n ns)
  have upd: "gn_node_id n \<notin> set (dict_keys seen) \<Longrightarrow>
      AList.update (gn_node_id n) n seen = seen @ [(gn_node_id n, n)]"
    by (induction seen) auto
  show ?case
    using Cons.IH [of "seen @ [(gn_node_id n, n)]"] upd
    by (auto simp: register_node_def map_of_eq_None_iff split: if_splits)
qed auto

fun pick :: "edge_kind \<Rightarrow> branch_sets \<Rightarrow> string list" where
  "pick BRANCH_TRUE b = bs_true b"
| "pick BRANCH_FALSE b = bs_false b"
| "pick BRANCH_FALLBACK b = bs_fallback b"
| "pick DEPENDENCY b = []"

lemma set_pick_add_branch:
  "set (pick k (add_branch k' t b)) = (if k = k' \<and> k \<noteq> DEPENDENCY then insert t (set (pick k b)) else set (pick k b))"
  by (cases k; cases k') auto

definition edge_fits :: "(string, graph_node) dict \<Rightarrow> graph_edge \<Rightarrow> bool" where
  "edge_fits nodes e \<longleftrightarrow> dict_has nodes (ge_source e) \<and> dict_has nodes (ge_target e)
     \<and> (ge_kind e \<noteq> DEPENDENCY \<longrightarrow>
          opt_holds (\<lambda>n. tc_branching (gn_step n) \<noteq> None) (map_of nodes (ge_source e)))"

definition reached :: "(string, graph_node) dict \<Rightarrow> graph_edge list \<Rightarrow> edge_kind \<Rightarrow> string \<Rightarrow> string set" where
  "reached nodes es k i = {tc_step_id (gn_step t) |e t. e \<in> set es \<and> ge_kind e = k \<and> ge_source e = i
     \<and> map_of nodes (ge_target e) = Some t}"

lemma classify_edge_fits: "(\<exists>acc'. classify_edge nodes acc e = Inr acc') \<longleftrightarrow> edge_fits nodes e"
  by (auto simp: classify_edge_def edge_fits_def split: option.splits)

lemma classify_edge_step:
  assumes "classify_edge nodes acc e = Inr acc'"
  shows "snd acc' = snd acc @ filter (\<lambda>e. ge_kind e = DEPENDENCY) [e]"
    and "k \<noteq> DEPENDENCY \<Longrightarrow> set (pick k (dict_get_or (fst acc') i no_branch_sets))
      = set (pick k (dict_get_or (fst acc) i no_branch_sets)) \<union> reached nodes [e] k i"
  using assms
  by (auto simp: classify_edge_def reached_def set_pick_add_branch split: option.splits if_splits)

lemma foldR_classify_edge:
  assumes "foldR (classify_edge nodes) acc es = Inr acc'"
  shows "(\<forall>e\<in>set es. edge_fits nodes e) \<and> snd acc' = snd acc @ filter (\<lambda>e. ge_kind e = DEPENDENCY) es
    \<and> (k \<noteq> DEPENDENCY \<longrightarrow> set (pick k (dict_get_or (fst acc') i no_branch_sets))
      = set (pick k (dict_get_or (fst acc) i no_branch_sets)) \<union> reached nodes es k i)"
  using assms
proof (induction es arbitrary: acc)
  case Nil
  then show ?case by (simp add: reached_def)
next
  case (Cons e es)
  then obtain acc1 where a1: "classify_edge nodes acc e = Inr acc1"
      "foldR (classify_edge nodes) acc1 es = Inr acc'"
    by (auto split: sum.splits)
  have "reached nodes (e # es) k i = reached nodes [e] k i \<union> reached nodes es k i"
    by (auto simp: reached_def)
  with Cons.IH [OF a1(2)] classify_edge_step(1) [OF a1(1)]
    classify_edge_step(2) [OF a1(1), of k i] a1(1) classify_edge_fits [of nodes acc e]
  show ?case by auto
qed

lemma foldR_classify_edge_total:
  "\<forall>e\<in>set es. edge_fits nodes e \<Longrightarrow> \<exists>acc'. foldR (classify_edge nodes) acc es = Inr acc'"
proof (induction es arbitrary: acc)
  case (Cons e es)
  then obtain acc1 where "classify_edge nodes acc e = Inr acc1"
    using classify_edge_fits [of nodes acc e] by auto
  with Cons show ?case by simp
qed simp

lemma map_of_nodes:
  assumes "distinct (map gn_node_id ns)"
  shows "map_of (map (\<lambda>n. (gn_node_id n, n)) ns) i = Some n \<longleftrightarrow> n \<in> set ns \<and> gn_node_id n = i"
  using assms by (subst map_of_eq_Some_iff) (auto simp: comp_def)

lemma graph_order_spec:
  assumes "distinct ids" and "\<forall>e\<in>set es. ge_source e \<in> set ids \<and> ge_target e \<in> set ids"
    and "\<forall>e\<in>set es. ge_kind e = DEPENDENCY"
  obtains ord where "graph_order ids es = Inr ord" "topo (graph_deps es) {} ord" "set ord \<subseteq> set ids"
    "length ord = length ids \<longleftrightarrow> acyclic (graph_deps es)"
proof -
  let ?E = "map (\<lambda>e. (ge_source e, ge_target e)) es"
  have es: "foldR (\<lambda>g e. link g (ge_source e) (ge_target e)) g es = foldR (\<lambda>g e. link g (fst e) (snd e)) g ?E" for g
    by (induction es arbitrary: g) (auto split: sum.splits)
  have E: "set ?E = graph_deps es" using assms(3) by (auto simp: graph_deps_def)
  have "set ?E \<subseteq> set ids \<times> set ids" using assms(2) by auto
  then obtain a d where g: "foldR (\<lambda>g e. link g (ge_source e) (ge_target e))
      (empty_adjacency ids, zero_in_degree ids) es = Inr (a, d)" "graph_ok (set ids) (a, d)"
      "edges a = graph_deps es"
    using foldR_link_ok [OF graph_ok_empty [OF assms(1)], of ?E] E by (auto simp: es)
  obtain ord where "kahn a d = Inr ord" "topo (edges a) {} ord" "set ord \<subseteq> set ids"
    "length ord = card (set ids) \<longleftrightarrow> acyclic (edges a)"
    by (rule kahn_complete_iff_acyclic [OF g(2)])
  with g that assms(1) show ?thesis by (simp add: graph_order_def distinct_card)
qed

lemma acyclic_dependency_check:
  assumes "distinct ids" and "\<forall>e\<in>set es. ge_source e \<in> set ids \<and> ge_target e \<in> set ids"
    and "\<forall>e\<in>set es. ge_kind e = DEPENDENCY"
  shows "validate_dependency_acyclic ids es = Inr u \<longleftrightarrow> acyclic (graph_deps es)"
  by (rule graph_order_spec [OF assms]) (simp add: validate_dependency_acyclic_def)

lemma branch_check_iff:
  "check_branch_edges bys n = Inr () \<longleftrightarrow> (\<forall>b. tc_branching (gn_step n) = Some b \<longrightarrow>
     set (pick BRANCH_TRUE (dict_get_or bys (gn_node_id n) no_branch_sets)) = set (br_true b)
   \<and> set (pick BRANCH_FALSE (dict_get_or bys (gn_node_id n) no_branch_sets)) = set (br_false b)
   \<and> set (pick BRANCH_FALLBACK (dict_get_or bys (gn_node_id n) no_branch_sets)) = set (br_fallback b))"
  by (auto simp: check_branch_edges_def Let_def split: option.splits)

lemma validate_graph_iff: "validate_graph g = Inr g \<longleftrightarrow> graph_accepts g"
proof (cases "distinct (map gn_node_id (wg_nodes g)) \<and> distinct (map (tc_step_id \<circ> gn_step) (wg_nodes g))
    \<and> py_strip (wg_workflow_id g) \<noteq> [] \<and> wg_nodes g \<noteq> []")
  case False
  then show ?thesis
    by (auto simp: validate_graph_def graph_accepts_def bindR_Inr_iff foldR_register_node)
next
  case True
  let ?N = "map (\<lambda>n. (gn_node_id n, n)) (wg_nodes g)"
  let ?D = "filter (\<lambda>e. ge_kind e = DEPENDENCY) (wg_edges g)"
  have N: "foldR register_node [] (wg_nodes g) = Inr ?N" using True by (auto simp: foldR_register_node)
  have keys: "dict_keys ?N = map gn_node_id (wg_nodes g)" by simp
  have look: "map_of ?N i = Some n \<longleftrightarrow> n \<in> set (wg_nodes g) \<and> gn_node_id n = i" for i n
    using True by (intro map_of_nodes) simp
  have has: "dict_has ?N i \<longleftrightarrow> i \<in> gn_node_id ` set (wg_nodes g)" for i
    by (auto simp: map_of_eq_None_iff image_image)
  have reach: "reached ?N (wg_edges g) k i = branch_reach g k i" for k i
    unfolding reached_def branch_reach_def look by (rule Collect_cong) metis
  have D: "graph_deps ?D = graph_deps (wg_edges g)" by (auto simp: graph_deps_def)
  show ?thesis
  proof (cases "\<forall>e\<in>set (wg_edges g). edge_fits ?N e")
    case False
    then have "foldR (classify_edge ?N) ([], []) (wg_edges g) \<noteq> Inr acc" for acc
      using foldR_classify_edge [of ?N "([], [])" "wg_edges g" acc] by blast
    then have "validate_graph g \<noteq> Inr g"
      unfolding validate_graph_def by (simp add: N bindR_Inr_iff)
    moreover have "edge_fits ?N e" if acc: "graph_accepts g" and e: "e \<in> set (wg_edges g)" for e
    proof -
      obtain n where n: "n \<in> set (wg_nodes g)" "gn_node_id n = ge_source e"
        and t: "ge_target e \<in> gn_node_id ` set (wg_nodes g)"
        using graph_acceptsD(3,4) [OF acc e] by auto
      moreover have "tc_branching (gn_step n) = None \<Longrightarrow> ge_kind e = DEPENDENCY"
        using graph_acceptsD(5) [OF acc n(1) _ e] n(2) by simp
      ultimately show ?thesis
        unfolding edge_fits_def has opt_holds_iff look by (metis imageI)
    qed
    ultimately show ?thesis using False by blast
  next
    case fits: True
    obtain bys deps where acc: "foldR (classify_edge ?N) ([], []) (wg_edges g) = Inr (bys, deps)"
      using foldR_classify_edge_total [OF fits, of "([], [])"] by auto
    have deps: "deps = ?D" using foldR_classify_edge [OF acc] by simp
    have pick: "set (pick k (dict_get_or bys i no_branch_sets)) = branch_reach g k i"
      if "k \<noteq> DEPENDENCY" for k i
      using foldR_classify_edge [OF acc, of k i] that reach by (cases k) (auto simp: dict_get_or_def)
    have ends: "\<forall>e\<in>set (wg_edges g). ge_source e \<in> gn_node_id ` set (wg_nodes g)
          \<and> ge_target e \<in> gn_node_id ` set (wg_nodes g)"
      using fits has by (auto simp: edge_fits_def)
    have nobranch: "ge_kind e = DEPENDENCY" if "n \<in> set (wg_nodes g)" "tc_branching (gn_step n) = None"
        "e \<in> set (wg_edges g)" "ge_source e = gn_node_id n" for n e
      using fits that look [of "gn_node_id n" n] by (auto simp: edge_fits_def)
    have cyc: "validate_dependency_acyclic (dict_keys ?N) deps = Inr u \<longleftrightarrow> acyclic (graph_deps (wg_edges g))" for u
      unfolding deps D [symmetric] using True ends by (intro acyclic_dependency_check) (auto simp: comp_def)
    have "validate_graph g = Inr g \<longleftrightarrow>
        (\<forall>n\<in>set (wg_nodes g). check_branch_edges bys n = Inr ()) \<and> acyclic (graph_deps (wg_edges g))"
      using True by (simp add: validate_graph_def N acc bindR_Inr_iff checkR_Inr_iff cyc del: map_map)
    moreover have "check_branch_edges bys n = Inr () \<longleftrightarrow> (case tc_branching (gn_step n) of
          None \<Rightarrow> (\<forall>e\<in>set (wg_edges g). ge_source e = gn_node_id n \<longrightarrow> ge_kind e = DEPENDENCY)
        | Some b \<Rightarrow> branch_reach g BRANCH_TRUE (gn_node_id n) = set (br_true b)
            \<and> branch_reach g BRANCH_FALSE (gn_node_id n) = set (br_false b)
            \<and> branch_reach g BRANCH_FALLBACK (gn_node_id n) = set (br_fallback b))"
      if "n \<in> set (wg_nodes g)" for n
      using nobranch [OF that]
      by (simp add: branch_check_iff pick del: pick.simps split: option.splits)
    ultimately show ?thesis
      unfolding graph_accepts_def using True ends by (simp cong: ball_cong)
  qed
qed

text \<open>Compiling an accepted graph: the steps are those of the nodes, each once, with every
  dependency edge pointing forward, and only macro validation can still reject them.\<close>

definition compiles_to :: "workflow_graph \<Rightarrow> tool_call list \<Rightarrow> bool" where
  "compiles_to g steps \<longleftrightarrow> (\<exists>ord. topo (graph_deps (wg_edges g)) {} (map gn_node_id ord)
     \<and> distinct ord \<and> set ord = set (wg_nodes g) \<and> steps = map gn_step ord)"

lemma lookup_nodes:
  assumes "distinct (map gn_node_id ns)" and "set ord \<subseteq> gn_node_id ` set ns"
  obtains os where "mapR (\<lambda>i. case map_of (rev (map (\<lambda>n. (gn_node_id n, n)) ns)) i of
      None \<Rightarrow> Inl (MissingKey i) | Some n \<Rightarrow> Inr (gn_step n)) ord = Inr (map gn_step os)"
    "map gn_node_id os = ord" "set os \<subseteq> set ns"
proof -
  let ?m = "map_of (rev (map (\<lambda>n. (gn_node_id n, n)) ns))"
  have m: "?m i = Some n \<longleftrightarrow> n \<in> set ns \<and> gn_node_id n = i" for i n
    using map_of_nodes [of "rev ns" i n] assms(1) by (simp add: rev_map [symmetric])
  have "\<exists>os. mapR (\<lambda>i. case ?m i of None \<Rightarrow> Inl (MissingKey i) | Some n \<Rightarrow> Inr (gn_step n)) ord
      = Inr (map gn_step os) \<and> map gn_node_id os = ord \<and> set os \<subseteq> set ns"
    using assms(2)
  proof (induction ord)
    case (Cons i ord)
    then obtain n os where "n \<in> set ns" "gn_node_id n = i" "set os \<subseteq> set ns" "map gn_node_id os = ord"
      "mapR (\<lambda>i. case ?m i of None \<Rightarrow> Inl (MissingKey i) | Some n \<Rightarrow> Inr (gn_step n)) ord = Inr (map gn_step os)"
      by auto
    moreover from this have "?m i = Some n" by (simp only: m) 
    ultimately show ?case by (intro exI [of _ "n # os"]) simp
  qed simp
  then show ?thesis using that by blast
qed

lemma graph_compiles:
  assumes "validate_graph g = Inr g"
  shows "\<exists>steps. compiles_to g steps \<and> to_batched_macro_request g final retry limits =
     validate_branch_targets \<lparr>mr_steps = steps, mr_final_only = final,
       mr_retry = (case retry of None \<Rightarrow> default_retry_policy | Some r \<Rightarrow> r),
       mr_limits = limits, mr_approvals = []\<rparr>"
proof -
  have ok: "graph_accepts g" using assms by (simp add: validate_graph_iff)
  let ?ids = "map gn_node_id (wg_nodes g)"
  let ?D = "filter (\<lambda>e. ge_kind e = DEPENDENCY) (wg_edges g)"
  have ids: "distinct ?ids" "remdups ?ids = ?ids" using graph_acceptsD(1) [OF ok] by (simp_all add: distinct_remdups_id)
  have D: "graph_deps ?D = graph_deps (wg_edges g)" by (auto simp: graph_deps_def)
  obtain ord where ord: "graph_order ?ids ?D = Inr ord" "topo (graph_deps (wg_edges g)) {} ord" "set ord \<subseteq> set ?ids"
    "length ord = length ?ids"
  proof (rule graph_order_spec [OF ids(1), of ?D])
    show "\<forall>e\<in>set ?D. ge_source e \<in> set ?ids \<and> ge_target e \<in> set ?ids"
      using graph_acceptsD(3,4) [OF ok] by auto
  qed (use that graph_acceptsD(6) [OF ok] D in auto)
  obtain os where os: "mapR (\<lambda>i. case map_of (rev (map (\<lambda>n. (gn_node_id n, n)) (wg_nodes g))) i of
      None \<Rightarrow> Inl (MissingKey i) | Some n \<Rightarrow> Inr (gn_step n)) ord = Inr (map gn_step os)"
    "map gn_node_id os = ord" "set os \<subseteq> set (wg_nodes g)"
    using lookup_nodes [OF ids(1), of ord] ord(3) by auto
  have dist: "distinct os" using topo_distinct [OF ord(2)] os(2) by (auto simp: distinct_map)
  have "set os = set (wg_nodes g)"
    using os(2,3) ord(4) dist ids(1)
    by (intro card_subset_eq) (auto simp: distinct_card distinct_map dest: arg_cong [where f = length])
  with dist os(2) ord(2) have "compiles_to g (map gn_step os)"
    unfolding compiles_to_def by blast
  with os(1) ord show ?thesis
    unfolding to_batched_macro_request_def Let_def ids(2)
    by (intro exI [of _ "map gn_step os"]) simp
qed

section \<open>Properties of the data model\<close>

text \<open>C27: \<open>BatchedMacroRequest\<close> accepts a macro exactly when its step ids are distinct, every
  branch target is another step of the macro, every approval names a step that asks for one,
  no argument nests deeper than 32 levels, and the relation ``step \<open>v\<close> mentions step \<open>u\<close> in an
  argument or a condition, or is a branch target of \<open>u\<close>'' has no cycle. The frontier loop with its
  in-degree counters thus decides acyclicity, and no lookup in its dictionaries fails.\<close>

theorem macro_validation_exact:
  "validate_branch_targets m = Inr m \<longleftrightarrow>
     distinct (step_ids m) \<and> targets_ok m \<and> approvals_ok m \<and> nesting_ok m \<and> acyclic (macro_deps m)"
  by (rule validate_macro_iff)

text \<open>C30: \<open>PersistedWorkflowGraph.validate_graph\<close> accepts exactly the graphs with a workflow id, at
  least one node, distinct node and step ids, edges between known nodes, branch edges that reach
  exactly the targets of the branching rule of their source, and no cycle of dependency edges.\<close>

theorem graph_validation_exact: "validate_graph g = Inr g \<longleftrightarrow> graph_accepts g"
  by (rule validate_graph_iff)


definition sample_step :: "string \<Rightarrow> (string, pyval) dict \<Rightarrow> tool_call" where
  "sample_step i args = \<lparr>tc_tool_name = ''t'', tc_arguments = args, tc_step_id = i,
     tc_branching = None, tc_approval = None\<rparr>"

definition sample_graph :: workflow_graph where
  "sample_graph = \<lparr>wg_workflow_id = ''w'', wg_version = 1,
     wg_nodes = [\<lparr>gn_node_id = ''n2'', gn_step = sample_step ''b'' [], gn_label = None, gn_x = 0, gn_y = 0\<rparr>,
       \<lparr>gn_node_id = ''n1'', gn_step = sample_step ''a'' [], gn_label = None, gn_x = 0, gn_y = 0\<rparr>],
     wg_edges = [\<lparr>ge_source = ''n1'', ge_target = ''n2'', ge_kind = DEPENDENCY\<rparr>],
     wg_created = 0, wg_updated = 0, wg_metadata = None\<rparr>"


end
