(* ===== verification/EAP_Registry.thy ===== *)
theory EAP_Registry
  imports EAP_Prelude
begin

text \<open>
  The tool registry and the plugin loader, \<^verbatim>\<open>src/eap/environment/tool_registry.py\<close> and
  \<^verbatim>\<open>plugin_loader.py\<close>. The registry is a record of the four dictionaries of the class; a
  function value is of any type \<open>'f\<close>, and an object that is not callable is \<open>None\<close>. The
  JSON-Schema package and the SHA-256 digest are not part of the repository: they are the
  fields of \<open>schema_lib\<close>, an argument of the operations that call them.
\<close>

section \<open>State and errors\<close>

record schema_lib =
  js_available :: bool
  js_check_schema :: "pyval \<Rightarrow> bool"
  js_accepts :: "pyval \<Rightarrow> (string, pyval) dict \<Rightarrow> bool"
  js_digest :: "pyval \<Rightarrow> string"

record 'f registry =
  rg_tools :: "(string, 'f) dict"
  rg_schemas :: "(string, pyval) dict"
  rg_hashes :: "(string, string) dict"
  rg_validators :: "(string, pyval) dict"

definition empty_registry :: "'f registry" where
  "empty_registry = \<lparr>rg_tools = [], rg_schemas = [], rg_hashes = [], rg_validators = []\<rparr>"

datatype registry_error =
    BadToolName | NotCallable | SchemaNotObject | SchemaNameMismatch | ParametersNotObject
  | ParametersType | PropertiesNotObject | RequiredNotStrings | RequiredUnknown "string list"
  | AdditionalNotBool
  | ToolNotObject | ManifestNotObject | ManifestName | ManifestTools
  | UnknownTool string | RegistryKey string
  | MissingFields "pyval list" | UnknownFields "string list" | WrongType string
  | NotInEnum string | TooShort string | TooLong string | TooSmall string | TooLarge string
  | TooFewItems string | TooManyItems string | SchemaRejects
  | PyTypeError | PyAttributeError

section \<open>The schema contract\<close>

definition validate_schema_contract :: "string \<Rightarrow> pyval \<Rightarrow> registry_error + unit" where
  "validate_schema_contract tool_name schema =
     (if \<not> is_dict schema then Inl SchemaNotObject
      else if py_get schema ''name'' \<noteq> PStr tool_name then Inl SchemaNameMismatch
      else case py_get schema ''parameters'' of
        PDict ps \<Rightarrow>
          (let params = PDict ps in
           if py_get params ''type'' \<notin> {PNone, PStr ''object''} then Inl ParametersType
           else (case py_get params ''properties'' of
             PDict properties \<Rightarrow>
               (case (case map_of ps ''required'' of None \<Rightarrow> PList [] | Some r \<Rightarrow> r) of
                  PList required \<Rightarrow>
                    (if \<not> list_all is_str required then Inl RequiredNotStrings
                     else let names = map (\<lambda>v. case v of PStr s \<Rightarrow> s | _ \<Rightarrow> []) required;
                              invalid = filter (\<lambda>f. \<not> dict_has properties f) names
                          in if invalid \<noteq> [] then Inl (RequiredUnknown invalid)
                             else (case py_get params ''additionalProperties'' of
                                 PNone \<Rightarrow> Inr () | PBool _ \<Rightarrow> Inr () | _ \<Rightarrow> Inl AdditionalNotBool))
                | _ \<Rightarrow> Inl RequiredNotStrings)
           | _ \<Rightarrow> Inl PropertiesNotObject))
      | _ \<Rightarrow> Inl ParametersNotObject)"

section \<open>Registration\<close>

definition hashed_name :: "schema_lib \<Rightarrow> string \<Rightarrow> pyval \<Rightarrow> string" where
  "hashed_name lib name schema = name @ ''_'' @ js_digest lib schema"

definition register :: "schema_lib \<Rightarrow> 'f registry \<Rightarrow> string \<Rightarrow> 'f option \<Rightarrow> pyval
    \<Rightarrow> registry_error + 'f registry" where
  "register lib r name func schema =
     (if py_strip name = [] then Inl BadToolName
      else case func of None \<Rightarrow> Inl NotCallable
      | Some f \<Rightarrow>
        bindR (validate_schema_contract name schema) (\<lambda>_.
          let params = py_get schema ''parameters'';
              cleared = filter (\<lambda>p. fst p \<noteq> name) (rg_validators r)
          in Inr (r\<lparr>rg_tools := AList.update name f (rg_tools r),
                    rg_schemas := AList.update name schema (rg_schemas r),
                    rg_hashes := AList.update name (hashed_name lib name schema) (rg_hashes r),
                    rg_validators := (if js_available lib \<and> is_dict params \<and> js_check_schema lib params
                                      then AList.update name params cleared else cleared)\<rparr>)))"

text \<open>A tool of a plugin manifest: a \<open>ToolDefinition\<close>, an object payload, or anything else.\<close>

datatype 'f plugin_tool =
    ToolDefinition string "'f option" pyval
  | ToolPayload pyval "'f option" pyval
  | ToolOther

record 'f plugin_manifest =
  pm_name :: pyval
  pm_tools :: "'f plugin_tool list option"

fun normalize_tool_definition :: "'f plugin_tool \<Rightarrow> registry_error + (string \<times> 'f option \<times> pyval)" where
  "normalize_tool_definition (ToolDefinition name func schema) = Inr (name, func, schema)"
| "normalize_tool_definition ToolOther = Inl ToolNotObject"
| "normalize_tool_definition (ToolPayload name func schema) =
     (case name of
        PStr n \<Rightarrow> if py_strip n = [] then Inl BadToolName
                  else if func = None then Inl NotCallable
                  else if \<not> is_dict schema then Inl SchemaNotObject
                  else Inr (n, func, schema)
      | _ \<Rightarrow> Inl BadToolName)"

text \<open>The tools of a manifest are registered one by one; the tools before a bad one stay registered,
  so the state is returned with the outcome.\<close>

fun register_tools :: "schema_lib \<Rightarrow> 'f registry \<Rightarrow> 'f plugin_tool list
    \<Rightarrow> (registry_error + string list) \<times> 'f registry" where
  "register_tools lib r [] = (Inr [], r)"
| "register_tools lib r (t # ts) =
     (case normalize_tool_definition t of Inl e \<Rightarrow> (Inl e, r)
      | Inr (name, func, schema) \<Rightarrow>
        (case register lib r name func schema of Inl e \<Rightarrow> (Inl e, r)
         | Inr r' \<Rightarrow> (case register_tools lib r' ts of
             (Inl e, r'') \<Rightarrow> (Inl e, r'') | (Inr ns, r'') \<Rightarrow> (Inr (name # ns), r''))))"

definition register_plugin_manifest :: "schema_lib \<Rightarrow> 'f registry \<Rightarrow> 'f plugin_manifest option
    \<Rightarrow> (registry_error + string list) \<times> 'f registry" where
  "register_plugin_manifest lib r manifest =
     (case manifest of None \<Rightarrow> (Inl ManifestNotObject, r)
      | Some m \<Rightarrow>
        (case pm_name m of
           PStr n \<Rightarrow> if py_strip n = [] then (Inl ManifestName, r)
             else (case pm_tools m of None \<Rightarrow> (Inl ManifestTools, r)
               | Some ts \<Rightarrow> if ts = [] then (Inl ManifestTools, r) else register_tools lib r ts)
         | _ \<Rightarrow> (Inl ManifestName, r)))"

section \<open>Plugin loading\<close>

text \<open>An entry point: its name and what loading it gives (\<open>None\<close> when \<open>load()\<close> raises).\<close>

record 'f entry_point =
  ep_name :: string
  ep_loaded :: "'f plugin_manifest option option"

record load_report =
  lr_plugins :: "pyval list"
  lr_tools :: "string list"
  lr_failed :: "string list"

definition resolve_manifest_from_entry_point :: "'f entry_point \<Rightarrow> 'f plugin_manifest option" where
  \<comment> \<open>a falsy \<open>plugin_name\<close> is replaced by the entry point's name; \<open>None\<close> is the raised error\<close>
  "resolve_manifest_from_entry_point ep =
     (case ep_loaded ep of None \<Rightarrow> None | Some None \<Rightarrow> None
      | Some (Some m) \<Rightarrow> Some (if py_truthy (pm_name m) then m else m\<lparr>pm_name := PStr (ep_name ep)\<rparr>))"

fun load_plugins_into_registry :: "schema_lib \<Rightarrow> bool \<Rightarrow> 'f registry \<Rightarrow> load_report \<Rightarrow> 'f entry_point list
    \<Rightarrow> (string + load_report) \<times> 'f registry" where
  \<comment> \<open>in strict mode the first failure raises \<open>PluginLoadError\<close>, here the entry point's name\<close>
  "load_plugins_into_registry lib strict r rep [] = (Inr rep, r)"
| "load_plugins_into_registry lib strict r rep (ep # eps) =
     (case (case resolve_manifest_from_entry_point ep of None \<Rightarrow> (None, r)
            | Some m \<Rightarrow> (case register_plugin_manifest lib r (Some m) of
                (Inl e, r') \<Rightarrow> (None, r') | (Inr ns, r') \<Rightarrow> (Some (pm_name m, ns), r'))) of
        (Some (n, ns), r') \<Rightarrow> load_plugins_into_registry lib strict r'
            (rep\<lparr>lr_plugins := lr_plugins rep @ [n], lr_tools := lr_tools rep @ ns\<rparr>) eps
      | (None, r') \<Rightarrow> if strict then (Inl (ep_name ep), r')
            else load_plugins_into_registry lib strict r' (rep\<lparr>lr_failed := lr_failed rep @ [ep_name ep]\<rparr>) eps)"

section \<open>Lookup\<close>

definition resolve_original_name :: "'f registry \<Rightarrow> string \<Rightarrow> registry_error + string" where
  "resolve_original_name r ref =
     (case find (\<lambda>p. ref = fst p \<or> ref = snd p) (rg_hashes r) of
        None \<Rightarrow> Inl (UnknownTool ref) | Some p \<Rightarrow> Inr (fst p))"

definition get_tool :: "'f registry \<Rightarrow> string \<Rightarrow> registry_error + 'f" where
  "get_tool r ref = bindR (resolve_original_name r ref) (\<lambda>n.
     case map_of (rg_tools r) n of None \<Rightarrow> Inl (RegistryKey n) | Some f \<Rightarrow> Inr f)"

definition get_schema :: "'f registry \<Rightarrow> string \<Rightarrow> registry_error + pyval" where
  "get_schema r ref = bindR (resolve_original_name r ref) (\<lambda>n.
     case map_of (rg_schemas r) n of None \<Rightarrow> Inl (RegistryKey n) | Some v \<Rightarrow> Inr v)"

definition sorted_by_tool_name :: "(string, 'v) dict \<Rightarrow> (string, 'v) dict" where
  "sorted_by_tool_name d = sort_key fst d"

definition get_hashed_manifest :: "'f registry \<Rightarrow> (string, string) dict" where
  "get_hashed_manifest r = sorted_by_tool_name (rg_hashes r)"

definition get_agent_manifest :: "'f registry \<Rightarrow> (string, pyval) dict" where
  \<comment> \<open>a dict comprehension over the sorted names: a later entry under the same id replaces\<close>
  "get_agent_manifest r = foldl (\<lambda>acc p. AList.update (snd p)
       (py_get (dict_get_or (rg_schemas r) (fst p) PNone) ''parameters'') acc) [] (get_hashed_manifest r)"

section \<open>Argument validation\<close>

definition is_type_valid :: "pyval \<Rightarrow> pyval \<Rightarrow> bool" where
  "is_type_valid expected v =
     (if expected = PStr ''string'' then is_str v
      else if expected = PStr ''boolean'' then (case v of PBool _ \<Rightarrow> True | _ \<Rightarrow> False)
      else if expected = PStr ''integer'' then (case v of PInt _ \<Rightarrow> True | _ \<Rightarrow> False)
      else if expected = PStr ''number'' then (case v of PInt _ \<Rightarrow> True | PFloat _ \<Rightarrow> True | _ \<Rightarrow> False)
      else if expected = PStr ''object'' then is_dict v
      else if expected = PStr ''array'' then is_list v
      else True)"

text \<open>\<open>a < b\<close> for a number \<open>a\<close>, and \<open>x in c\<close>; both raise \<open>TypeError\<close> where Python does.\<close>

definition num_less :: "pyfloat \<Rightarrow> pyval \<Rightarrow> registry_error + bool" where
  "num_less f w = (case num_of w of None \<Rightarrow> Inl PyTypeError | Some g \<Rightarrow> Inr (pf_less f g))"

definition num_greater :: "pyfloat \<Rightarrow> pyval \<Rightarrow> registry_error + bool" where
  "num_greater f w = (case num_of w of None \<Rightarrow> Inl PyTypeError | Some g \<Rightarrow> Inr (pf_less g f))"

fun py_in :: "pyval \<Rightarrow> pyval \<Rightarrow> registry_error + bool" where
  "py_in v (PList xs) = Inr (list_ex (py_eq v) xs)"
| "py_in (PStr s) (PDict d) = Inr (dict_has d s)"
| "py_in (PList _) (PDict d) = Inl PyTypeError"
| "py_in (PDict _) (PDict d) = Inl PyTypeError"
| "py_in v (PDict d) = Inr False"
| "py_in (PStr s) (PStr t) = Inr (is_substring s t)"
| "py_in v w = Inl PyTypeError"

definition check_bound :: "pyval \<Rightarrow> (pyval \<Rightarrow> registry_error + bool) \<Rightarrow> registry_error \<Rightarrow> registry_error + unit" where
  \<comment> \<open>``if bound is not None and \<dots>: raise''\<close>
  "check_bound bound test err =
     (if bound = PNone then Inr () else bindR (test bound) (\<lambda>b. raise_if b err))"

definition py_len :: "pyval \<Rightarrow> pyfloat" where
  "py_len v = PFin (case v of PStr s \<Rightarrow> of_nat (length s) | PList xs \<Rightarrow> of_nat (length xs)
     | PDict d \<Rightarrow> of_nat (length d) | _ \<Rightarrow> 0)"

definition py_num :: "pyval \<Rightarrow> pyfloat" where
  "py_num v = (case num_of v of Some f \<Rightarrow> f | None \<Rightarrow> PNaN)"

definition validate_field :: "(string, pyval) dict \<Rightarrow> string \<times> pyval \<Rightarrow> registry_error + unit" where
  "validate_field properties kv =
     (let key = fst kv; v = snd kv;
          field = (case map_of properties key of None \<Rightarrow> PDict [] | Some f \<Rightarrow> f) in
      if \<not> is_dict field then Inl PyAttributeError
      else let expected = py_get field ''type''; allowed = py_get field ''enum'' in
      if py_truthy expected \<and> \<not> is_type_valid expected v then Inl (WrongType key)
      else bindR (check_bound allowed (\<lambda>c. bindR (py_in v c) (\<lambda>b. Inr (\<not> b))) (NotInEnum key)) (\<lambda>_.
      if expected = PStr ''string'' then
        bindR (check_bound (py_get field ''minLength'') (num_less (py_len v)) (TooShort key)) (\<lambda>_.
        check_bound (py_get field ''maxLength'') (num_greater (py_len v)) (TooLong key))
      else if expected \<in> {PStr ''integer'', PStr ''number''} then
        bindR (check_bound (py_get field ''minimum'') (num_less (py_num v)) (TooSmall key)) (\<lambda>_.
        check_bound (py_get field ''maximum'') (num_greater (py_num v)) (TooLarge key))
      else if expected = PStr ''array'' then
        bindR (check_bound (py_get field ''minItems'') (num_less (py_len v)) (TooFewItems key)) (\<lambda>_.
        check_bound (py_get field ''maxItems'') (num_greater (py_len v)) (TooManyItems key))
      else Inr ()))"

definition validate_arguments_builtin :: "pyval \<Rightarrow> (string, pyval) dict \<Rightarrow> registry_error + unit" where
  "validate_arguments_builtin params arguments =
     (case params of PDict ps \<Rightarrow>
       (case (case map_of ps ''properties'' of None \<Rightarrow> PDict [] | Some p \<Rightarrow> p,
              case map_of ps ''required'' of None \<Rightarrow> PList [] | Some q \<Rightarrow> q) of
          (PDict properties, PList required) \<Rightarrow>
            (let missing = filter (\<lambda>v. case v of PStr k \<Rightarrow> \<not> dict_has arguments k | _ \<Rightarrow> True) required;
                 unknown = filter (\<lambda>k. \<not> dict_has properties k) (dict_keys arguments)
             in if missing \<noteq> [] then Inl (MissingFields missing)
                else if map_of ps ''additionalProperties'' = Some (PBool False) \<and> unknown \<noteq> []
                  then Inl (UnknownFields unknown)
                else checkR (validate_field properties) arguments)
        | _ \<Rightarrow> Inl PyAttributeError)
      | _ \<Rightarrow> Inl PyAttributeError)"

definition validate_arguments :: "schema_lib \<Rightarrow> 'f registry \<Rightarrow> string \<Rightarrow> (string, pyval) dict
    \<Rightarrow> registry_error + unit" where
  "validate_arguments lib r ref arguments =
     bindR (get_schema r ref) (\<lambda>schema. bindR (resolve_original_name r ref) (\<lambda>original.
       let params = (case schema of PDict sd \<Rightarrow> (case map_of sd ''parameters'' of None \<Rightarrow> PDict [] | Some p \<Rightarrow> p)
                     | _ \<Rightarrow> PNone) in
       if \<not> is_dict params then Inl PyAttributeError
       else if py_get params ''type'' \<notin> {PNone, PStr ''object''} then Inl ParametersType
       else case map_of (rg_validators r) original of
         Some schema' \<Rightarrow> raise_if (\<not> js_accepts lib schema' arguments) SchemaRejects
       | None \<Rightarrow> validate_arguments_builtin params arguments))"

section \<open>The registry invariant\<close>

text \<open>The dictionaries have the same names, each schema satisfies the contract, each id is the name
  with the digest of its schema, and validators exist only for registered names.\<close>

definition registry_ok :: "schema_lib \<Rightarrow> 'f registry \<Rightarrow> bool" where
  "registry_ok lib r \<longleftrightarrow> dict_keys (rg_tools r) = dict_keys (rg_hashes r)
     \<and> dict_keys (rg_schemas r) = dict_keys (rg_hashes r) \<and> distinct (dict_keys (rg_hashes r))
     \<and> (\<forall>n v. map_of (rg_schemas r) n = Some v \<longrightarrow>
          validate_schema_contract n v = Inr () \<and> map_of (rg_hashes r) n = Some (hashed_name lib n v))
     \<and> (\<forall>n p. map_of (rg_validators r) n = Some p \<longrightarrow>
          js_available lib \<and> js_check_schema lib p
          \<and> (\<exists>v. map_of (rg_schemas r) n = Some v \<and> py_get v ''parameters'' = p))"

lemma registry_ok_empty: "registry_ok lib empty_registry"
  by (simp add: registry_ok_def empty_registry_def)

lemma dict_keys_update: "dict_keys (AList.update k v d) = (if k \<in> set (dict_keys d) then dict_keys d else dict_keys d @ [k])"
  by (induction d) auto

lemma map_of_filter_neq: "map_of (filter (\<lambda>p. fst p \<noteq> k) d) = (map_of d)(k := None)"
  by (induction d) auto

lemma register_ok:
  assumes ok: "registry_ok lib r" and reg: "register lib r name func schema = Inr r'"
  shows "registry_ok lib r'"
proof -
  obtain f where f: "func = Some f" using reg by (auto simp: register_def split: if_splits option.splits)
  have con: "validate_schema_contract name schema = Inr ()"
    using reg by (auto simp: register_def f bindR_Inr_iff split: if_splits)
  define cleared where "cleared = filter (\<lambda>p. fst p \<noteq> name) (rg_validators r)"
  have r': "r' = r\<lparr>rg_tools := AList.update name f (rg_tools r), rg_schemas := AList.update name schema (rg_schemas r),
       rg_hashes := AList.update name (hashed_name lib name schema) (rg_hashes r),
       rg_validators := (if js_available lib \<and> is_dict (py_get schema ''parameters'')
             \<and> js_check_schema lib (py_get schema ''parameters'')
          then AList.update name (py_get schema ''parameters'') cleared else cleared)\<rparr>"
    using reg by (auto simp: register_def f bindR_Inr_iff cleared_def Let_def split: if_splits)
  have cl: "map_of cleared = (map_of (rg_validators r))(name := None)"
    by (simp add: cleared_def map_of_filter_neq)
  show ?thesis
    using ok con unfolding registry_ok_def r' by (auto simp: dict_keys_update cl split: if_splits)
qed

lemma register_tools_ok:
  "registry_ok lib r \<Longrightarrow> registry_ok lib (snd (register_tools lib r ts))"
proof (induction ts arbitrary: r)
  case (Cons t ts)
  have "registry_ok lib (snd (register_tools lib r' ts))" if "register lib r name func schema = Inr r'"
    for name func schema r'
    by (rule Cons.IH [OF register_ok [OF Cons.prems that]])
  then show ?case using Cons.prems by (fastforce split: sum.splits prod.splits)
qed simp

lemma register_plugin_manifest_ok:
  "registry_ok lib r \<Longrightarrow> registry_ok lib (snd (register_plugin_manifest lib r m))"
  by (auto simp: register_plugin_manifest_def register_tools_ok split: option.splits pyval.splits)

lemma load_plugins_ok:
  "registry_ok lib r \<Longrightarrow> registry_ok lib (snd (load_plugins_into_registry lib strict r rep eps))"
proof (induction eps arbitrary: r rep)
  case (Cons ep eps)
  have m: "registry_ok lib r'" if "register_plugin_manifest lib r (Some m) = (x, r')" for m x r'
    using register_plugin_manifest_ok [OF Cons.prems, of "Some m"] that by simp
  show ?case
    using Cons.prems Cons.IH by (cases strict) (auto split: option.splits prod.splits sum.splits dest!: m)
qed simp

lemma resolve_registered:
  assumes "registry_ok lib r" and "resolve_original_name r ref = Inr n"
  obtains f v where "map_of (rg_tools r) n = Some f" "map_of (rg_schemas r) n = Some v"
    "ref = n \<or> ref = hashed_name lib n v" "validate_schema_contract n v = Inr ()"
proof -
  obtain h where p: "(n, h) \<in> set (rg_hashes r)" "ref = n \<or> ref = h"
  proof -
    obtain p where "find (\<lambda>p. ref = fst p \<or> ref = snd p) (rg_hashes r) = Some p" "n = fst p"
      using assms(2) by (auto simp: resolve_original_name_def split: option.splits)
    then have "p \<in> set (rg_hashes r)" "ref = n \<or> ref = snd p" by (auto simp: find_Some_iff)
    with \<open>n = fst p\<close> show ?thesis by (intro that [of "snd p"]) auto
  qed
  then have h: "map_of (rg_hashes r) n = Some h" using assms(1) by (simp add: registry_ok_def)
  have n: "n \<in> set (dict_keys (rg_hashes r))" using p(1) by force
  then have "dict_has (rg_tools r) n" "dict_has (rg_schemas r) n"
    using assms(1) unfolding registry_ok_def dict_has_iff by auto
  then obtain f v where fv: "map_of (rg_tools r) n = Some f" "map_of (rg_schemas r) n = Some v" by auto
  then have "validate_schema_contract n v = Inr ()" "h = hashed_name lib n v"
    using assms(1) h unfolding registry_ok_def by auto
  with fv p that show ?thesis by blast
qed

section \<open>Lookup after registration\<close>

text \<open>No other tool's name or id is the new name or the new id.\<close>

definition no_clash :: "schema_lib \<Rightarrow> 'f registry \<Rightarrow> string \<Rightarrow> pyval \<Rightarrow> bool" where
  "no_clash lib r name schema \<longleftrightarrow> (\<forall>p\<in>set (rg_hashes r). fst p \<noteq> name \<longrightarrow>
     fst p \<noteq> hashed_name lib name schema \<and> snd p \<noteq> name \<and> snd p \<noteq> hashed_name lib name schema)"

lemma find_update:
  assumes "\<And>p. p \<in> set d \<Longrightarrow> fst p \<noteq> k \<Longrightarrow> \<not> P p" and "P (k, v)" and "distinct (dict_keys d)"
  shows "find P (AList.update k v d) = Some (k, v)"
  using assms by (induction d) auto

lemma register_lookup:
  assumes ok: "registry_ok lib r" and reg: "register lib r name func schema = Inr r'"
    and nc: "no_clash lib r name schema" and ref: "ref \<in> {name, hashed_name lib name schema}"
  shows "resolve_original_name r' ref = Inr name \<and> func \<noteq> None \<and> get_tool r' ref = Inr (the func)
    \<and> get_schema r' ref = Inr schema"
proof -
  obtain f where f: "func = Some f" using reg by (auto simp: register_def split: if_splits option.splits)
  have r': "rg_hashes r' = AList.update name (hashed_name lib name schema) (rg_hashes r)"
      "rg_tools r' = AList.update name f (rg_tools r)" "rg_schemas r' = AList.update name schema (rg_schemas r)"
    using reg by (auto simp: register_def f bindR_Inr_iff Let_def split: if_splits)
  have "find (\<lambda>p. ref = fst p \<or> ref = snd p) (rg_hashes r') = Some (name, hashed_name lib name schema)"
    unfolding r' using nc ref ok by (intro find_update) (auto simp: no_clash_def registry_ok_def)
  then show ?thesis by (simp add: resolve_original_name_def get_tool_def get_schema_def r' f)
qed

section \<open>What the built-in argument check accepts\<close>

definition field_fits :: "pyval \<Rightarrow> pyval \<Rightarrow> bool" where
  "field_fits field v \<longleftrightarrow> is_dict field
     \<and> (py_truthy (py_get field ''type'') \<longrightarrow> is_type_valid (py_get field ''type'') v)
     \<and> (py_get field ''enum'' \<noteq> PNone \<longrightarrow> py_in v (py_get field ''enum'') = Inr True)
     \<and> (py_get field ''type'' = PStr ''string'' \<longrightarrow>
          (\<forall>n. py_get field ''minLength'' = PInt n \<longrightarrow> pf_le (PFin (of_int n)) (py_len v))
        \<and> (\<forall>n. py_get field ''maxLength'' = PInt n \<longrightarrow> pf_le (py_len v) (PFin (of_int n))))
     \<and> (py_get field ''type'' = PStr ''array'' \<longrightarrow>
          (\<forall>n. py_get field ''minItems'' = PInt n \<longrightarrow> pf_le (PFin (of_int n)) (py_len v))
        \<and> (\<forall>n. py_get field ''maxItems'' = PInt n \<longrightarrow> pf_le (py_len v) (PFin (of_int n))))"

definition arguments_fit :: "(string, pyval) dict \<Rightarrow> (string, pyval) dict \<Rightarrow> bool" where
  "arguments_fit ps arguments \<longleftrightarrow>
     (\<forall>q. map_of ps ''required'' = Some (PList q) \<longrightarrow> (\<forall>k. PStr k \<in> set q \<longrightarrow> dict_has arguments k))
   \<and> (\<forall>d. map_of ps ''properties'' = Some (PDict d) \<longrightarrow>
        (map_of ps ''additionalProperties'' = Some (PBool False) \<longrightarrow> set (dict_keys arguments) \<subseteq> set (dict_keys d))
      \<and> (\<forall>k v f. (k, v) \<in> set arguments \<longrightarrow> map_of d k = Some f \<longrightarrow> field_fits f v))"

lemma check_bound_Inr:
  "check_bound b test e = Inr u \<longleftrightarrow> b = PNone \<or> test b = Inr False"
  by (auto simp: check_bound_def bindR_Inr_iff)

lemma num_less_PInt: "num_less (PFin a) (PInt n) = Inr False \<longleftrightarrow> of_int n \<le> a"
  "num_greater (PFin a) (PInt n) = Inr False \<longleftrightarrow> a \<le> of_int n"
  by (auto simp: num_less_def num_greater_def)

lemma validate_field_fits:
  assumes "validate_field properties (k, v) = Inr ()" and "map_of properties k = Some f"
  shows "field_fits f v"
proof -
  obtain a where a: "py_len v = PFin a" by (simp add: py_len_def)
  show ?thesis
    using assms
    by (auto simp: validate_field_def Let_def field_fits_def bindR_Inr_iff check_bound_Inr a num_less_PInt
        split: if_splits)
qed

lemma validate_builtin_fits:
  assumes "validate_arguments_builtin (PDict ps) arguments = Inr ()"
  shows "arguments_fit ps arguments"
proof -
  obtain d q where dq: "(case map_of ps ''properties'' of None \<Rightarrow> PDict [] | Some p \<Rightarrow> p) = PDict d"
      "(case map_of ps ''required'' of None \<Rightarrow> PList [] | Some q \<Rightarrow> q) = PList q"
    using assms by (auto simp: validate_arguments_builtin_def split: pyval.splits)
  have miss: "PStr k \<in> set q \<Longrightarrow> dict_has arguments k" for k
    using assms by (auto simp: validate_arguments_builtin_def dq Let_def filter_empty_conv split: if_splits)
  have unk: "map_of ps ''additionalProperties'' = Some (PBool False) \<Longrightarrow>
        filter (\<lambda>k. \<not> dict_has d k) (dict_keys arguments) = []"
    and fields: "\<forall>p\<in>set arguments. validate_field d p = Inr ()"
    using assms by (auto simp: validate_arguments_builtin_def dq Let_def checkR_Inr_iff split: if_splits)
  have "set (dict_keys arguments) \<subseteq> set (dict_keys d)"
    if "map_of ps ''additionalProperties'' = Some (PBool False)"
    using unk [OF that] unfolding filter_empty_conv dict_has_iff by blast
  moreover have "field_fits f v" if "(k, v) \<in> set arguments" "map_of d k = Some f" for k v f
    using fields that by (intro validate_field_fits [of d k v f]) auto
  ultimately show ?thesis
    using dq miss unfolding arguments_fit_def by (auto split: option.splits)
qed

section \<open>Properties of the registry\<close>


text \<open>A registered tool is found under its name and under its hashed id, with the function and the
  schema it was registered with, provided no other tool uses one of the two strings. (Without the
  proviso the older tool answers: a tool may be registered under the hashed id of another.)\<close>

theorem registered_tool_found:
  assumes "registry_ok lib r" and "register lib r name func schema = Inr r'" and "no_clash lib r name schema"
    and "ref \<in> {name, hashed_name lib name schema}"
  shows "func \<noteq> None \<and> get_tool r' ref = Inr (the func) \<and> get_schema r' ref = Inr schema"
  using register_lookup [OF assms] by blast

text \<open>Arguments that pass \<open>validate_arguments\<close> of a tool without a compiled JSON-Schema validator
  carry every required field, no unknown one when additional properties are off, and values that
  have the declared type, are in the enumeration and respect the length and item bounds.\<close>

theorem builtin_validation_sound:
  assumes "registry_ok lib r" and "resolve_original_name r ref = Inr n" and "map_of (rg_validators r) n = None"
    and "validate_arguments lib r ref arguments = Inr ()"
  shows "\<exists>schema ps. get_schema r ref = Inr schema \<and> py_get schema ''parameters'' = PDict ps
     \<and> arguments_fit ps arguments"
proof -
  obtain v where v: "map_of (rg_schemas r) n = Some v" "validate_schema_contract n v = Inr ()"
    by (rule resolve_registered [OF assms(1,2)]) blast
  have g: "get_schema r ref = Inr v" by (simp add: get_schema_def assms(2) v(1))
  obtain sd ps where ps: "v = PDict sd" "map_of sd ''parameters'' = Some (PDict ps)"
    using v(2) by (cases v) (auto simp: validate_schema_contract_def split: if_splits pyval.splits option.splits)
  have "validate_arguments_builtin (PDict ps) arguments = Inr ()"
    using assms(3,4) by (auto simp: validate_arguments_def g assms(2) ps Let_def split: if_splits)
  from validate_builtin_fits [OF this] g ps show ?thesis by simp
qed

definition sample_lib :: schema_lib where
  "sample_lib = \<lparr>js_available = False, js_check_schema = (\<lambda>_. False), js_accepts = (\<lambda>_ _. True),
     js_digest = (\<lambda>_. ''0a1b2c3d'')\<rparr>"

definition sample_schema :: pyval where
  "sample_schema = PDict [(''name'', PStr ''add''), (''parameters'', PDict [(''type'', PStr ''object''),
     (''properties'', PDict [(''x'', PDict [(''type'', PStr ''integer'')])]), (''required'', PList [PStr ''x''])])]"

definition sample_registry :: "nat registry" where
  "sample_registry = (case register sample_lib empty_registry ''add'' (Some 7) sample_schema of Inr r \<Rightarrow> r | Inl _ \<Rightarrow> empty_registry)"

lemma sample_registered: "register sample_lib empty_registry ''add'' (Some 7) sample_schema = Inr sample_registry"
  by code_simp


theorem registered_tool_found_witness:
  "registry_ok sample_lib (empty_registry :: nat registry) \<and> no_clash sample_lib (empty_registry :: nat registry) ''add'' sample_schema \<and>
   get_tool sample_registry ''add_0a1b2c3d'' = Inr 7 \<and> get_schema sample_registry ''add_0a1b2c3d'' = Inr sample_schema"
proof -
  have "no_clash sample_lib (empty_registry :: nat registry) ''add'' sample_schema"
    by (simp add: no_clash_def empty_registry_def)
  moreover have "hashed_name sample_lib ''add'' sample_schema = ''add_0a1b2c3d''" by code_simp
  ultimately show ?thesis
    using registered_tool_found [OF registry_ok_empty sample_registered, of "''add_0a1b2c3d''"]
    by (simp add: registry_ok_empty)
qed

theorem builtin_validation_sound_witness:
  "resolve_original_name sample_registry ''add'' = Inr ''add'' \<and>
   map_of (rg_validators sample_registry) ''add'' = None \<and>
   validate_arguments sample_lib sample_registry ''add'' [(''x'', PInt 3)] = Inr () \<and>
   (\<exists>schema ps. get_schema sample_registry ''add'' = Inr schema \<and> py_get schema ''parameters'' = PDict ps
     \<and> arguments_fit ps [(''x'', PInt 3)])"
proof -
  have "resolve_original_name sample_registry ''add'' = Inr ''add''"
    "map_of (rg_validators sample_registry) ''add'' = None"
    "validate_arguments sample_lib sample_registry ''add'' [(''x'', PInt 3)] = Inr ()" by code_simp+
  with builtin_validation_sound [OF register_ok [OF registry_ok_empty sample_registered], of "''add''"]
  show ?thesis by blast
qed

end
