(* ===== verification/EAP_Safe_Eval.thy ===== *)
theory EAP_Safe_Eval
  imports EAP_Prelude
begin

text \<open>
  The evaluator of branch conditions, \<^verbatim>\<open>src/eap/environment/safe_eval.py\<close>. The syntax tree is
  a datatype with a constructor per node kind the validator allows and one for every other
  node. Python's parser is an argument (\<open>parse\<close>, \<open>None\<close> for a syntax error), and so is object
  identity (\<open>ident\<close>), which the language leaves open for literals. The validator is the
  counting visitor, the evaluator the recursive function of the source; both are total.
\<close>

section \<open>Syntax trees\<close>

datatype literal = CNone | CBool bool | CInt int | CFloat pyfloat | CStr string | COther string

datatype bool_op = BAnd | BOr

datatype unary_op = UNot | UOther string

datatype cmp_op = Eq | NotEq | Lt | LtE | Gt | GtE | In | NotIn | Is | IsNot

datatype expr =
    Constant literal
  | EList "expr list"
  | ETuple "expr list"
  | ESet "expr list"
  | EDict "expr option list" "expr list"
  | BoolOp bool_op "expr list"
  | UnaryOp unary_op expr
  | Compare expr "cmp_op list" "expr list"
  | EOther string

datatype unsafe_error =
    EmptyExpression | ExpressionTooLong | BadSyntax | TooComplex
  | UnsupportedConstruct string | UnsupportedLiteral string | UnsupportedUnary | DictUnpacking
  | ContainerTooLarge string | SetNotScalar | DictKeyNotScalar
  | OrderedNotScalar | OrderedTypes | MembershipOperand | NotBoolean
  | UnhashableType | StringMembership

section \<open>The validator\<close>

text \<open>Visiting a node counts it and fails when the count passes the limit. A list and a tuple have a
  \<open>Load\<close> child, the operators of the other nodes are children too.\<close>

definition max_nodes :: nat where "max_nodes = 256"

definition count_node :: "nat \<Rightarrow> unsafe_error + nat" where
  "count_node n = (if max_nodes < Suc n then Inl TooComplex else Inr (Suc n))"

fun count_nodes :: "nat \<Rightarrow> 'a list \<Rightarrow> unsafe_error + nat" where
  "count_nodes n [] = Inr n"
| "count_nodes n (x # xs) = bindR (count_node n) (\<lambda>m. count_nodes m xs)"

fun validate_expr :: "expr \<Rightarrow> nat \<Rightarrow> unsafe_error + nat"
  and validate_exprs :: "expr list \<Rightarrow> nat \<Rightarrow> unsafe_error + nat"
  and validate_keys :: "expr option list \<Rightarrow> nat \<Rightarrow> unsafe_error + nat" where
  "validate_expr (Constant c) n = bindR (count_node n) (\<lambda>m.
     case c of COther t \<Rightarrow> Inl (UnsupportedLiteral t) | _ \<Rightarrow> Inr m)"
| "validate_expr (EList es) n = bindR (count_node n) (\<lambda>m. bindR (validate_exprs es m) count_node)"
| "validate_expr (ETuple es) n = bindR (count_node n) (\<lambda>m. bindR (validate_exprs es m) count_node)"
| "validate_expr (ESet es) n = bindR (count_node n) (\<lambda>m. validate_exprs es m)"
| "validate_expr (EDict ks vs) n = bindR (count_node n) (\<lambda>m.
     if None \<in> set ks then Inl DictUnpacking
     else bindR (validate_keys ks m) (\<lambda>m'. validate_exprs vs m'))"
| "validate_expr (BoolOp op es) n = bindR (count_node n) (\<lambda>m.
     bindR (count_node m) (\<lambda>m'. validate_exprs es m'))"
| "validate_expr (UnaryOp op e) n = bindR (count_node n) (\<lambda>m.
     case op of UOther t \<Rightarrow> Inl UnsupportedUnary
     | UNot \<Rightarrow> bindR (count_node m) (\<lambda>m'. validate_expr e m'))"
| "validate_expr (Compare l ops cs) n = bindR (count_node n) (\<lambda>m.
     bindR (validate_expr l m) (\<lambda>m'. bindR (count_nodes m' ops) (\<lambda>m''. validate_exprs cs m'')))"
| "validate_expr (EOther t) n = bindR (count_node n) (\<lambda>_. Inl (UnsupportedConstruct t))"
| "validate_exprs [] n = Inr n"
| "validate_exprs (e # es) n = bindR (validate_expr e n) (\<lambda>m. validate_exprs es m)"
| "validate_keys [] n = Inr n"
| "validate_keys (None # ks) n = validate_keys ks n"
| "validate_keys (Some k # ks) n = bindR (validate_expr k n) (\<lambda>m. validate_keys ks m)"

section \<open>Values\<close>

datatype ev = VNone | VBool bool | VInt int | VFloat pyfloat | VStr string
  | VList "ev list" | VTuple "ev list" | VSet "ev list" | VDict "(ev \<times> ev) list"

fun ev_num :: "ev \<Rightarrow> pyfloat option" where
  "ev_num (VBool b) = Some (PFin (if b then 1 else 0))"
| "ev_num (VInt n) = Some (PFin (of_int n))"
| "ev_num (VFloat f) = Some f"
| "ev_num _ = None"

fun scalar_eq :: "ev \<Rightarrow> ev \<Rightarrow> bool" where
  \<comment> \<open>\<open>==\<close> on the values that may be keys or set elements\<close>
  "scalar_eq (VStr s) (VStr t) = (s = t)"
| "scalar_eq VNone VNone = True"
| "scalar_eq a b = (case (ev_num a, ev_num b) of (Some f, Some g) \<Rightarrow> pf_eq f g | _ \<Rightarrow> False)"

function (sequential) ev_eq :: "ev \<Rightarrow> ev \<Rightarrow> bool" where
  "ev_eq (VList xs) (VList ys) = (length xs = length ys \<and> (\<forall>p\<in>set (zip xs ys). ev_eq (fst p) (snd p)))"
| "ev_eq (VTuple xs) (VTuple ys) = (length xs = length ys \<and> (\<forall>p\<in>set (zip xs ys). ev_eq (fst p) (snd p)))"
| "ev_eq (VSet xs) (VSet ys) = (length xs = length ys \<and> (\<forall>x\<in>set xs. \<exists>y\<in>set ys. scalar_eq x y))"
| "ev_eq (VDict d) (VDict e) = (length d = length e \<and>
     (\<forall>p\<in>set d. case find (\<lambda>q. scalar_eq (fst p) (fst q)) e of None \<Rightarrow> False | Some q \<Rightarrow> ev_eq (snd p) (snd q)))"
| "ev_eq a b = scalar_eq a b"
  by pat_completeness auto

lemma size_ev_dict: "(k, v) \<in> set d \<Longrightarrow> size v < Suc (size_list (size_prod size size) d)"
  by (induction d) auto

termination ev_eq
  by (relation "measure (size \<circ> fst)")
     (auto dest: set_zip_leftD size_ev_dict simp: less_Suc_eq_le size_list_estimation')

fun ev_truthy :: "ev \<Rightarrow> bool" where
  "ev_truthy VNone = False"
| "ev_truthy (VBool b) = b"
| "ev_truthy (VInt n) = (n \<noteq> 0)"
| "ev_truthy (VFloat f) = (\<not> pf_eq f (PFin 0))"
| "ev_truthy (VStr s) = (s \<noteq> [])"
| "ev_truthy (VList xs) = (xs \<noteq> [])"
| "ev_truthy (VTuple xs) = (xs \<noteq> [])"
| "ev_truthy (VSet xs) = (xs \<noteq> [])"
| "ev_truthy (VDict d) = (d \<noteq> [])"

fun ev_scalar :: "ev \<Rightarrow> bool" where
  "ev_scalar (VList _) = False" | "ev_scalar (VTuple _) = False"
| "ev_scalar (VSet _) = False" | "ev_scalar (VDict _) = False"
| "ev_scalar _ = True"

fun ev_hashable :: "ev \<Rightarrow> bool" where
  "ev_hashable (VList _) = False"
| "ev_hashable (VSet _) = False"
| "ev_hashable (VDict _) = False"
| "ev_hashable (VTuple xs) = list_all ev_hashable xs"
| "ev_hashable _ = True"

section \<open>The evaluator\<close>

definition to_scalar :: "ev \<Rightarrow> unsafe_error + ev" where
  "to_scalar v = (if ev_scalar v \<and> v \<noteq> VNone then Inr v else Inl OrderedNotScalar)"

text \<open>Operands of one type only; \<open>bool\<close> and \<open>int\<close> are different types here.\<close>

fun ordered_less :: "ev \<Rightarrow> ev \<Rightarrow> (bool \<times> bool) option" where
  \<comment> \<open>\<open>(left < right, left \<le> right)\<close>, \<open>None\<close> for different types\<close>
  "ordered_less (VBool a) (VBool b) = Some (\<not> a \<and> b, a \<longrightarrow> b)"
| "ordered_less (VInt a) (VInt b) = Some (a < b, a \<le> b)"
| "ordered_less (VFloat a) (VFloat b) = Some (pf_less a b, pf_le a b)"
| "ordered_less (VStr a) (VStr b) = Some (a < b, a \<le> b)"
| "ordered_less _ _ = None"

definition evaluate_ordered_comparison :: "cmp_op \<Rightarrow> ev \<Rightarrow> ev \<Rightarrow> unsafe_error + bool" where
  "evaluate_ordered_comparison op l r =
     bindR (to_scalar l) (\<lambda>a. bindR (to_scalar r) (\<lambda>b.
       case op of
         Lt \<Rightarrow> (case ordered_less a b of None \<Rightarrow> Inl OrderedTypes | Some p \<Rightarrow> Inr (fst p))
       | LtE \<Rightarrow> (case ordered_less a b of None \<Rightarrow> Inl OrderedTypes | Some p \<Rightarrow> Inr (snd p))
       | Gt \<Rightarrow> (case ordered_less b a of None \<Rightarrow> Inl OrderedTypes | Some p \<Rightarrow> Inr (fst p))
       | GtE \<Rightarrow> (case ordered_less b a of None \<Rightarrow> Inl OrderedTypes | Some p \<Rightarrow> Inr (snd p))
       | _ \<Rightarrow> Inl OrderedTypes))"

definition contains :: "ev \<Rightarrow> ev \<Rightarrow> unsafe_error + bool" where
  \<comment> \<open>\<open>left in right\<close>; an unhashable left operand of a set or dict and a non-string one of a string
     raise \<open>TypeError\<close>, which is not an \<open>UnsafeExpressionError\<close>. A set in a set is compared as a
     frozen set and found in no set of scalars.\<close>
  "contains l r = (case r of
       VList xs \<Rightarrow> Inr (list_ex (ev_eq l) xs)
     | VTuple xs \<Rightarrow> Inr (list_ex (ev_eq l) xs)
     | VSet xs \<Rightarrow> (case l of VSet _ \<Rightarrow> Inr False
         | _ \<Rightarrow> if ev_hashable l then Inr (list_ex (ev_eq l) xs) else Inl UnhashableType)
     | VDict d \<Rightarrow> if ev_hashable l then Inr (list_ex (ev_eq l) (map fst d)) else Inl UnhashableType
     | VStr t \<Rightarrow> (case l of VStr s \<Rightarrow> Inr (is_substring s t) | _ \<Rightarrow> Inl StringMembership)
     | _ \<Rightarrow> Inl MembershipOperand)"

definition compare_values :: "(ev \<Rightarrow> ev \<Rightarrow> bool) \<Rightarrow> cmp_op \<Rightarrow> ev \<Rightarrow> ev \<Rightarrow> unsafe_error + bool" where
  "compare_values ident op l r = (case op of
       Eq \<Rightarrow> Inr (ev_eq l r)
     | NotEq \<Rightarrow> Inr (\<not> ev_eq l r)
     | In \<Rightarrow> contains l r
     | NotIn \<Rightarrow> bindR (contains l r) (\<lambda>b. Inr (\<not> b))
     | Is \<Rightarrow> Inr (ident l r)
     | IsNot \<Rightarrow> Inr (\<not> ident l r)
     | _ \<Rightarrow> evaluate_ordered_comparison op l r)"

fun const_value :: "literal \<Rightarrow> unsafe_error + ev" where
  "const_value CNone = Inr VNone"
| "const_value (CBool b) = Inr (VBool b)"
| "const_value (CInt n) = Inr (VInt n)"
| "const_value (CFloat f) = Inr (VFloat f)"
| "const_value (CStr s) = Inr (VStr s)"
| "const_value (COther t) = Inl (UnsupportedLiteral t)"

definition max_items :: nat where "max_items = 128"

fun set_of_values :: "ev list \<Rightarrow> ev list" where
  \<comment> \<open>\<open>set(values)\<close>: the first of several equal elements stays\<close>
  "set_of_values [] = []"
| "set_of_values (v # vs) = v # filter (\<lambda>w. \<not> scalar_eq v w) (set_of_values vs)"

fun dict_assign :: "(ev \<times> ev) list \<Rightarrow> ev \<Rightarrow> ev \<Rightarrow> (ev \<times> ev) list" where
  "dict_assign [] k v = [(k, v)]"
| "dict_assign ((k', v') # d) k v = (if scalar_eq k' k then (k', v) # d else (k', v') # dict_assign d k v)"

function (sequential) evaluate_node :: "(ev \<Rightarrow> ev \<Rightarrow> bool) \<Rightarrow> expr \<Rightarrow> unsafe_error + ev"
  and evaluate_nodes :: "(ev \<Rightarrow> ev \<Rightarrow> bool) \<Rightarrow> expr list \<Rightarrow> unsafe_error + ev list"
  and evaluate_items :: "(ev \<Rightarrow> ev \<Rightarrow> bool) \<Rightarrow> expr option list \<Rightarrow> expr list \<Rightarrow> (ev \<times> ev) list
        \<Rightarrow> unsafe_error + ev"
  and evaluate_chain :: "(ev \<Rightarrow> ev \<Rightarrow> bool) \<Rightarrow> ev \<Rightarrow> cmp_op list \<Rightarrow> expr list \<Rightarrow> unsafe_error + ev" where
  "evaluate_node ident (Constant c) = const_value c"
| "evaluate_node ident (EList es) = (if max_items < length es then Inl (ContainerTooLarge ''list'')
     else bindR (evaluate_nodes ident es) (\<lambda>vs. Inr (VList vs)))"
| "evaluate_node ident (ETuple es) = (if max_items < length es then Inl (ContainerTooLarge ''tuple'')
     else bindR (evaluate_nodes ident es) (\<lambda>vs. Inr (VTuple vs)))"
| "evaluate_node ident (ESet es) = (if max_items < length es then Inl (ContainerTooLarge ''set'')
     else bindR (evaluate_nodes ident es) (\<lambda>vs.
       if \<not> list_all ev_scalar vs then Inl SetNotScalar else Inr (VSet (set_of_values vs))))"
| "evaluate_node ident (EDict ks vs) = (if max_items < length ks then Inl (ContainerTooLarge ''dict'')
     else evaluate_items ident ks vs [])"
| "evaluate_node ident (BoolOp op es) = bindR (evaluate_nodes ident es) (\<lambda>vs.
     case op of BAnd \<Rightarrow> Inr (VBool (list_all ev_truthy vs)) | BOr \<Rightarrow> Inr (VBool (list_ex ev_truthy vs)))"
| "evaluate_node ident (UnaryOp op e) = (case op of
       UNot \<Rightarrow> bindR (evaluate_node ident e) (\<lambda>v. Inr (VBool (\<not> ev_truthy v)))
     | UOther t \<Rightarrow> Inl UnsupportedUnary)"
| "evaluate_node ident (Compare l ops cs) = bindR (evaluate_node ident l) (\<lambda>v. evaluate_chain ident v ops cs)"
| "evaluate_node ident (EOther t) = Inl (UnsupportedConstruct t)"
| "evaluate_nodes ident [] = Inr []"
| "evaluate_nodes ident (e # es) = bindR (evaluate_node ident e) (\<lambda>v.
     bindR (evaluate_nodes ident es) (\<lambda>vs. Inr (v # vs)))"
| "evaluate_items ident (k # ks) (e # es) d = (case k of None \<Rightarrow> Inl DictUnpacking
     | Some k' \<Rightarrow> bindR (evaluate_node ident k') (\<lambda>kv.
         if \<not> ev_scalar kv then Inl DictKeyNotScalar
         else bindR (evaluate_node ident e) (\<lambda>v. evaluate_items ident ks es (dict_assign d kv v))))"
| "evaluate_items ident [] es d = Inr (VDict d)"
| "evaluate_items ident ks [] d = Inr (VDict d)"
| "evaluate_chain ident l (op # ops) (c # cs) = bindR (evaluate_node ident c) (\<lambda>r.
     bindR (compare_values ident op l r) (\<lambda>b. if b then evaluate_chain ident r ops cs else Inr (VBool False)))"
| "evaluate_chain ident l [] cs = Inr (VBool True)"
| "evaluate_chain ident l ops [] = Inr (VBool True)"
  by pat_completeness auto

termination
  by (relation "measure (\<lambda>x. case x of
        Inl (Inl (_, e)) \<Rightarrow> size e
      | Inl (Inr (_, es)) \<Rightarrow> size_list size es
      | Inr (Inl (_, ks, es, _)) \<Rightarrow> size_list (size_option size) ks + size_list size es
      | Inr (Inr (_, _, _, es)) \<Rightarrow> size_list size es)") auto

definition max_length :: nat where "max_length = 2048"

definition evaluate_safe_expression :: "(string \<Rightarrow> expr option) \<Rightarrow> (ev \<Rightarrow> ev \<Rightarrow> bool) \<Rightarrow> string
    \<Rightarrow> unsafe_error + bool" where
  "evaluate_safe_expression parse ident expression =
     (if py_strip expression = [] then Inl EmptyExpression
      else if max_length < length expression then Inl ExpressionTooLong
      else case parse expression of None \<Rightarrow> Inl BadSyntax
        | Some tree \<Rightarrow>
            bindR (bindR (count_node 0) (validate_expr tree)) (\<lambda>_.
            bindR (evaluate_node ident tree) (\<lambda>v. case v of VBool b \<Rightarrow> Inr b | _ \<Rightarrow> Inl NotBoolean)))"

section \<open>What the validator accepts\<close>

fun nodes :: "expr \<Rightarrow> nat" where
  "nodes (Constant c) = 1"
| "nodes (EList es) = 2 + sum_list (map nodes es)"
| "nodes (ETuple es) = 2 + sum_list (map nodes es)"
| "nodes (ESet es) = 1 + sum_list (map nodes es)"
| "nodes (EDict ks vs) = 1 + sum_list (map (\<lambda>k. case k of None \<Rightarrow> 0 | Some e \<Rightarrow> nodes e) ks) + sum_list (map nodes vs)"
| "nodes (BoolOp op es) = 2 + sum_list (map nodes es)"
| "nodes (UnaryOp op e) = 2 + nodes e"
| "nodes (Compare l ops cs) = 1 + nodes l + length ops + sum_list (map nodes cs)"
| "nodes (EOther t) = 1"

fun only_allowed :: "expr \<Rightarrow> bool" where
  "only_allowed (Constant c) = (case c of COther _ \<Rightarrow> False | _ \<Rightarrow> True)"
| "only_allowed (EList es) = list_all only_allowed es"
| "only_allowed (ETuple es) = list_all only_allowed es"
| "only_allowed (ESet es) = list_all only_allowed es"
| "only_allowed (EDict ks vs) = (list_all (\<lambda>k. case k of None \<Rightarrow> False | Some e \<Rightarrow> only_allowed e) ks \<and> list_all only_allowed vs)"
| "only_allowed (BoolOp op es) = list_all only_allowed es"
| "only_allowed (UnaryOp op e) = (op = UNot \<and> only_allowed e)"
| "only_allowed (Compare l ops cs) = (only_allowed l \<and> list_all only_allowed cs)"
| "only_allowed (EOther t) = False"

lemma count_node_iff: "count_node n = Inr m \<longleftrightarrow> m = Suc n \<and> m \<le> max_nodes"
  by (auto simp: count_node_def)

lemma count_nodes_iff:
  "n \<le> max_nodes \<Longrightarrow> count_nodes n xs = Inr m \<longleftrightarrow> m = n + length xs \<and> m \<le> max_nodes"
  by (induction xs arbitrary: n) (auto simp: bindR_Inr_iff count_node_iff)

lemma keys_split:
  "list_all (\<lambda>k. case k of None \<Rightarrow> False | Some e \<Rightarrow> P e) ks \<longleftrightarrow>
     None \<notin> set ks \<and> list_all (\<lambda>k. case k of None \<Rightarrow> True | Some e \<Rightarrow> P e) ks"
  by (induction ks) (auto split: option.splits)

lemma validate_exact_all:
  "n \<le> max_nodes \<Longrightarrow> validate_expr e n = Inr m \<longleftrightarrow> only_allowed e \<and> m = n + nodes e \<and> m \<le> max_nodes"
  "n \<le> max_nodes \<Longrightarrow> validate_exprs es n = Inr m \<longleftrightarrow>
     list_all only_allowed es \<and> m = n + sum_list (map nodes es) \<and> m \<le> max_nodes"
  "n \<le> max_nodes \<Longrightarrow> validate_keys ks n = Inr m \<longleftrightarrow>
     list_all (\<lambda>k. case k of None \<Rightarrow> True | Some e \<Rightarrow> only_allowed e) ks
     \<and> m = n + sum_list (map (\<lambda>k. case k of None \<Rightarrow> 0 | Some e \<Rightarrow> nodes e) ks) \<and> m \<le> max_nodes"
proof (induction e n and es n and ks n arbitrary: m and m and m
    rule: validate_expr_validate_exprs_validate_keys.induct)
  case (1 c n)
  then show ?case by (cases c) (auto simp: bindR_Inr_iff count_node_iff)
next
  case (7 op e n)
  then show ?case by (cases op) (auto simp: bindR_Inr_iff count_node_iff)
qed (auto simp: bindR_Inr_iff count_node_iff count_nodes_iff keys_split)

lemmas validate_expr_exact = validate_exact_all(1)

section \<open>After validation\<close>

text \<open>The errors that would mean that an unsupported construct was evaluated.\<close>

fun unsupported :: "unsafe_error \<Rightarrow> bool" where
  "unsupported (UnsupportedConstruct t) = True"
| "unsupported (UnsupportedLiteral t) = True"
| "unsupported UnsupportedUnary = True"
| "unsupported DictUnpacking = True"
| "unsupported _ = False"

lemma contains_supported: "contains l r = Inl e \<Longrightarrow> \<not> unsupported e"
  by (auto simp: contains_def split: ev.splits if_splits)

lemma compare_values_supported: "compare_values ident op l r = Inl e \<Longrightarrow> \<not> unsupported e"
  by (cases op) (auto simp: compare_values_def evaluate_ordered_comparison_def to_scalar_def bindR_Inl_iff
      dest: contains_supported split: option.splits if_splits)

lemma evaluate_supported_all:
  "only_allowed e \<Longrightarrow> evaluate_node ident e = Inl err \<Longrightarrow> \<not> unsupported err"
  "list_all only_allowed es \<Longrightarrow> evaluate_nodes ident es = Inl err \<Longrightarrow> \<not> unsupported err"
  "list_all (\<lambda>k. case k of None \<Rightarrow> False | Some e \<Rightarrow> only_allowed e) ks \<Longrightarrow> list_all only_allowed es'
     \<Longrightarrow> evaluate_items ident ks es' d = Inl err \<Longrightarrow> \<not> unsupported err"
  "list_all only_allowed cs \<Longrightarrow> evaluate_chain ident l ops cs = Inl err \<Longrightarrow> \<not> unsupported err"
proof (induction ident e and ident es and ident ks es' d and ident l ops cs arbitrary: err and err and err and err
    rule: evaluate_node_evaluate_nodes_evaluate_items_evaluate_chain.induct)
  case (1 ident c)
  then show ?case by (cases c) auto
next
  case (6 ident op es)
  then show ?case by (cases op) (auto simp: bindR_Inl_iff)
next
  case (7 ident op e)
  then show ?case by (cases op) (auto simp: bindR_Inl_iff)
next
  case (12 ident k ks e es d)
  then show ?case by (cases k) (auto simp: bindR_Inl_iff split: if_splits)
next
  case (15 ident l op ops c cs)
  then show ?case by (auto simp: bindR_Inl_iff dest: compare_values_supported split: if_splits)
qed (auto simp: bindR_Inl_iff split: if_splits)

section \<open>Properties of the evaluator\<close>

text \<open>C37: \<open>evaluate_safe_expression\<close> returns \<open>b\<close> exactly when the text is not blank, has at most 2048
  characters, parses to a tree of fewer than 256 nodes below the root that uses only the allowed
  constructs, and this tree evaluates to the boolean \<open>b\<close>.\<close>

theorem safe_expression_exact:
  "evaluate_safe_expression parse ident s = Inr b \<longleftrightarrow>
     py_strip s \<noteq> [] \<and> length s \<le> 2048 \<and>
     (\<exists>e. parse s = Some e \<and> only_allowed e \<and> nodes e < 256 \<and> evaluate_node ident e = Inr (VBool b))"
proof -
  have "(\<exists>m. validate_expr e (Suc 0) = Inr m) \<longleftrightarrow> only_allowed e \<and> nodes e < 256" for e
    by (auto simp: validate_expr_exact max_nodes_def)
  moreover have "(case v of VBool b \<Rightarrow> Inr b | _ \<Rightarrow> Inl NotBoolean) = Inr b \<longleftrightarrow> v = VBool b" for v
    by (cases v) auto
  ultimately show ?thesis
    by (auto simp: evaluate_safe_expression_def bindR_Inr_iff count_node_def max_nodes_def max_length_def
        split: option.splits)
qed

text \<open>Once the validator has accepted a tree, no unsupported construct is ever evaluated: every
  error the evaluator still raises is about sizes, operand types or a result that is no boolean.\<close>

theorem validated_never_unsupported:
  assumes "validate_expr e n = Inr m" and "n \<le> max_nodes" and "evaluate_node ident e = Inl err"
  shows "\<not> unsupported err"
  using evaluate_supported_all(1) [of e ident err] validate_expr_exact [OF assms(2), of e m] assms(1,3) by blast

theorem validated_never_unsupported_witness:
  "validate_expr (Compare (Constant (CInt 1)) [Lt] [Constant (CStr ''a'')]) 1 = Inr 5 \<and>
   evaluate_node (=) (Compare (Constant (CInt 1)) [Lt] [Constant (CStr ''a'')]) = Inl OrderedTypes \<and>
   \<not> unsupported OrderedTypes"
proof -
  have "validate_expr (Compare (Constant (CInt 1)) [Lt] [Constant (CStr ''a'')]) 1 = Inr 5"
    "(1::nat) \<le> max_nodes"
    "evaluate_node (=) (Compare (Constant (CInt 1)) [Lt] [Constant (CStr ''a'')]) = Inl OrderedTypes"
    by code_simp+
  with validated_never_unsupported [of "Compare (Constant (CInt 1)) [Lt] [Constant (CStr ''a'')]" 1 5 "(=)" OrderedTypes]
  show ?thesis by blast
qed

end
