(* ===== verification/EAP_Pointer_Store.thy ===== *)
theory EAP_Pointer_Store
  imports EAP_Prelude "HOL-Library.Product_Lexorder"
begin

text \<open>
  The pointer vault, \<^verbatim>\<open>src/eap/protocol/storage/base.py\<close> and \<^verbatim>\<open>sqlite_store.py\<close>. The
  abstract backend class is the locale \<open>pointer_backend\<close>: the four abstract methods are its
  operations, what they promise of the finite map a backend stands for are its laws, and the
  two template methods of the base class, \<open>list_expired_pointers\<close> and
  \<open>cleanup_expired_pointers\<close>, are proved correct once from these laws. The SQLite store is a
  table of rows in insertion order; it is shown to be such a backend. An ISO time stamp is
  its number of microseconds, an absent or empty expiry is \<open>None\<close>.
\<close>

section \<open>Rows\<close>

record pointer_row =
  pw_id :: string
  pw_raw :: string
  pw_summary :: string
  pw_meta :: "(string, pyval) dict"
  pw_created :: int
  pw_ttl :: "int option"
  pw_expires :: "int option"

record pointer_info =
  pi_id :: string
  pi_summary :: string
  pi_meta :: "(string, pyval) dict"
  pi_created :: int
  pi_ttl :: "int option"
  pi_expires :: "int option"
  pi_expired :: bool

datatype store_error = PointerMissing string | DuplicatePointer string | StoreClosed | BadLimit | BackendError

definition is_expired :: "int option \<Rightarrow> int \<Rightarrow> bool" where
  "is_expired expires_at now = (case expires_at of None \<Rightarrow> False | Some t \<Rightarrow> t \<le> now)"

definition row_info :: "int \<Rightarrow> pointer_row \<Rightarrow> pointer_info" where
  "row_info now r = \<lparr>pi_id = pw_id r, pi_summary = pw_summary r, pi_meta = pw_meta r,
     pi_created = pw_created r, pi_ttl = pw_ttl r, pi_expires = pw_expires r,
     pi_expired = is_expired (pw_expires r) now\<rparr>"

lemma row_info_simps [simp]:
  "pi_id (row_info now r) = pw_id r" "pi_expires (row_info now r) = pw_expires r"
  "pi_expired (row_info now r) = is_expired (pw_expires r) now" "pi_created (row_info now r) = pw_created r"
  by (simp_all add: row_info_def)

definition bad_limit :: "int option \<Rightarrow> bool" where
  "bad_limit limit = opt_holds (\<lambda>n. n \<le> 0) limit"

definition take_limit :: "int option \<Rightarrow> 'a list \<Rightarrow> 'a list" where
  "take_limit limit xs = (case limit of None \<Rightarrow> xs | Some n \<Rightarrow> take (nat n) xs)"

section \<open>The template methods of the base class\<close>

text \<open>The listing and deletion methods the subclass provides are arguments.\<close>

definition list_expired_pointers ::
    "('s \<Rightarrow> bool \<Rightarrow> int \<Rightarrow> int option \<Rightarrow> store_error + pointer_info list)
     \<Rightarrow> 's \<Rightarrow> int \<Rightarrow> int option \<Rightarrow> store_error + pointer_info list" where
  "list_expired_pointers listing s now limit =
     (if bad_limit limit then Inl BadLimit
      else bindR (listing s True now None) (\<lambda>all_rows.
        Inr (take_limit limit (filter (\<lambda>row. is_expired (pi_expires row) now) all_rows))))"

record cleanup_report =
  cr_deleted :: "string list"
  cr_remaining :: nat
  cr_ran_at :: int

fun delete_rows :: "('s \<Rightarrow> string \<Rightarrow> store_error + bool \<times> 's) \<Rightarrow> 's \<Rightarrow> string list
    \<Rightarrow> store_error + string list \<times> 's" where
  "delete_rows delete s [] = Inr ([], s)"
| "delete_rows delete s (i # is) =
     bindR (delete s i) (\<lambda>(ok, s1). bindR (delete_rows delete s1 is) (\<lambda>(ds, s2).
       Inr (if ok then i # ds else ds, s2)))"

definition cleanup_expired_pointers ::
    "('s \<Rightarrow> bool \<Rightarrow> int \<Rightarrow> int option \<Rightarrow> store_error + pointer_info list)
     \<Rightarrow> ('s \<Rightarrow> string \<Rightarrow> store_error + bool \<times> 's)
     \<Rightarrow> 's \<Rightarrow> int \<Rightarrow> int option \<Rightarrow> store_error + cleanup_report \<times> 's" where
  "cleanup_expired_pointers listing delete s now limit =
     bindR (list_expired_pointers listing s now limit) (\<lambda>expired.
     bindR (delete_rows delete s (map pi_id expired)) (\<lambda>(deleted, s').
     bindR (list_expired_pointers listing s' now None) (\<lambda>rest.
       Inr (\<lparr>cr_deleted = deleted, cr_remaining = length rest, cr_ran_at = now\<rparr>, s'))))"

section \<open>SQLite\<close>

record sqlite_store =
  sq_rows :: "pointer_row list"
  sq_closed :: bool

definition sq_connect :: sqlite_store where
  "sq_connect = \<lparr>sq_rows = [], sq_closed = False\<rparr>"

definition sq_close :: "sqlite_store \<Rightarrow> sqlite_store" where
  "sq_close s = s\<lparr>sq_closed := True\<rparr>"

definition sq_store_pointer :: "sqlite_store \<Rightarrow> pointer_row \<Rightarrow> store_error + sqlite_store" where
  \<comment> \<open>\<open>INSERT\<close> under a primary key: a second row with the same id is an integrity error\<close>
  "sq_store_pointer s r =
     (if sq_closed s then Inl StoreClosed
      else if pw_id r \<in> set (map pw_id (sq_rows s)) then Inl (DuplicatePointer (pw_id r))
      else Inr (s\<lparr>sq_rows := sq_rows s @ [r]\<rparr>))"

definition sq_retrieve_pointer :: "sqlite_store \<Rightarrow> string \<Rightarrow> store_error + string" where
  "sq_retrieve_pointer s i =
     (if sq_closed s then Inl StoreClosed
      else case find (\<lambda>r. pw_id r = i) (sq_rows s) of None \<Rightarrow> Inl (PointerMissing i)
        | Some r \<Rightarrow> Inr (pw_raw r))"

definition newest_first :: "(string \<Rightarrow> string) \<Rightarrow> pointer_row list \<Rightarrow> pointer_row list" where
  \<comment> \<open>\<open>ORDER BY created_at_utc DESC, pointer_id DESC\<close>, ids compared by their sort keys\<close>
  "newest_first collate rows = rev (sort_key (\<lambda>r. (pw_created r, collate (pw_id r))) rows)"

definition sq_list_pointers :: "sqlite_store \<Rightarrow> bool \<Rightarrow> int \<Rightarrow> int option \<Rightarrow> store_error + pointer_info list" where
  "sq_list_pointers s include_expired now limit =
     (if bad_limit limit then Inl BadLimit
      else if sq_closed s then Inl StoreClosed
      else Inr (map (row_info now) (take_limit limit (newest_first (\<lambda>i. i)
        (filter (\<lambda>r. include_expired \<or> (case pw_expires r of None \<Rightarrow> True | Some t \<Rightarrow> now < t)) (sq_rows s))))))"

definition sq_delete_pointer :: "sqlite_store \<Rightarrow> string \<Rightarrow> store_error + bool \<times> sqlite_store" where
  "sq_delete_pointer s i =
     (if sq_closed s then Inl StoreClosed
      else let kept = filter (\<lambda>r. pw_id r \<noteq> i) (sq_rows s)
           in Inr (length kept < length (sq_rows s), s\<lparr>sq_rows := kept\<rparr>))"

section \<open>Operations on a remote store\<close>

text \<open>An operation that talks to a server: it may fail after it has changed the state.\<close>

type_synonym ('c, 'a) command = "'c \<Rightarrow> (store_error + 'a) \<times> 'c"

definition bindC :: "('c, 'a) command \<Rightarrow> ('a \<Rightarrow> ('c, 'b) command) \<Rightarrow> ('c, 'b) command" where
  "bindC m f c = (case m c of (Inl e, c') \<Rightarrow> (Inl e, c') | (Inr x, c') \<Rightarrow> f x c')"

definition liftC :: "store_error + 'a \<Rightarrow> ('c, 'a) command" where
  "liftC r c = (r, c)"

definition end_state :: "(store_error + unit) \<times> 'c \<Rightarrow> store_error + 'c" where
  "end_state r = (case r of (Inl e, _) \<Rightarrow> Inl e | (Inr _, c) \<Rightarrow> Inr c)"

definition outcome_bool :: "(store_error + bool) \<times> 'c \<Rightarrow> store_error + bool \<times> 'c" where
  "outcome_bool r = (case r of (Inl e, _) \<Rightarrow> Inl e | (Inr b, c) \<Rightarrow> Inr (b, c))"

lemma command_simps [simp]:
  "bindC m f c = (case m c of (Inl e, c') \<Rightarrow> (Inl e, c') | (Inr x, c') \<Rightarrow> f x c')" "liftC r c = (r, c)"
  "end_state (Inl e, c) = Inl e" "end_state (Inr u, c) = Inr c" "outcome_bool (Inl e, c) = Inl e" "outcome_bool (Inr b, c) = Inr (b, c)"
  by (simp_all add: bindC_def liftC_def end_state_def outcome_bool_def)

section \<open>The contract of a backend\<close>

definition listing_by :: "(string \<Rightarrow> string) \<Rightarrow> (string \<rightharpoonup> pointer_row) \<Rightarrow> pointer_row list \<Rightarrow> bool" where
  \<comment> \<open>the rows of the map, each once, newest first, and by the sort key of the id where the times are equal\<close>
  "listing_by collate v rows \<longleftrightarrow> distinct (map pw_id rows) \<and> (\<forall>r. r \<in> set rows \<longleftrightarrow> v (pw_id r) = Some r)
     \<and> sorted_wrt (\<lambda>a b. (pw_created b, collate (pw_id b)) \<le> (pw_created a, collate (pw_id a))) rows"

abbreviation listing_of :: "(string \<rightharpoonup> pointer_row) \<Rightarrow> pointer_row list \<Rightarrow> bool" where
  "listing_of \<equiv> listing_by (\<lambda>i. i)"

locale pointer_backend =
  fixes store :: "'s \<Rightarrow> pointer_row \<Rightarrow> store_error + 's"
    and retrieve :: "'s \<Rightarrow> string \<Rightarrow> store_error + string"
    and listing :: "'s \<Rightarrow> bool \<Rightarrow> int \<Rightarrow> int option \<Rightarrow> store_error + pointer_info list"
    and delete :: "'s \<Rightarrow> string \<Rightarrow> store_error + bool \<times> 's"
    and vault :: "'s \<Rightarrow> string \<rightharpoonup> pointer_row"
    and usable :: "'s \<Rightarrow> bool"
    and storable :: "pointer_row \<Rightarrow> bool"
    and addressable :: "string \<Rightarrow> bool"
    and collate :: "string \<Rightarrow> string"
  assumes store_fresh: "usable s \<Longrightarrow> storable r \<Longrightarrow> vault s (pw_id r) = None \<Longrightarrow>
      \<exists>s'. store s r = Inr s' \<and> usable s' \<and> vault s' = (vault s)(pw_id r \<mapsto> r)"
    and retrieve_spec: "usable s \<Longrightarrow> addressable i \<Longrightarrow> retrieve s i =
      (case vault s i of None \<Rightarrow> Inl (PointerMissing i) | Some r \<Rightarrow> Inr (pw_raw r))"
    and listing_spec: "usable s \<Longrightarrow> \<exists>rows. listing_by collate (vault s) rows \<and> (\<forall>now. listing s True now None = Inr (map (row_info now) rows))"
    and delete_spec: "usable s \<Longrightarrow> addressable i \<Longrightarrow> \<exists>s'. delete s i = Inr (vault s i \<noteq> None, s') \<and> usable s'
      \<and> vault s' = (vault s)(i := None)"
    and vault_id: "usable s \<Longrightarrow> vault s i = Some r \<Longrightarrow> pw_id r = i \<and> addressable i"
    and storable_id: "storable r \<Longrightarrow> addressable (pw_id r)"
begin

lemma retrieve_after_store:
  assumes "usable s" and "storable r" and "vault s (pw_id r) = None" and "store s r = Inr s'"
  shows "usable s' \<and> retrieve s' (pw_id r) = Inr (pw_raw r)
    \<and> (\<forall>i. i \<noteq> pw_id r \<and> addressable i \<longrightarrow> retrieve s' i = retrieve s i)"
  using store_fresh [OF assms(1,2,3)] assms(4) retrieve_spec [OF assms(1)] storable_id [OF assms(2)] by (auto simp: retrieve_spec)

lemma delete_rows_spec:
  assumes "usable s" and "distinct is" and "\<forall>i\<in>set is. vault s i \<noteq> None"
  shows "\<exists>s'. delete_rows delete s is = Inr (is, s') \<and> usable s' \<and> vault s' = (vault s) |` (- set is)"
  using assms
proof (induction "is" arbitrary: s)
  case Nil
  then show ?case by (simp add: restrict_map_def)
next
  case (Cons i "is")
  obtain s1 where s1: "delete s i = Inr (True, s1)" "usable s1" "vault s1 = (vault s)(i := None)"
    using delete_spec [OF Cons.prems(1), of i] vault_id [OF Cons.prems(1), of i] Cons.prems(3) by auto
  have "\<forall>j\<in>set is. vault s1 j \<noteq> None" using Cons.prems(2,3) s1(3) by auto
  with Cons.IH [OF s1(2)] Cons.prems(2) obtain s2 where "delete_rows delete s1 is = Inr (is, s2)" "usable s2"
      "vault s2 = (vault s1) |` (- set is)" by auto
  moreover have "((vault s)(i := None)) |` (- set is) = (vault s) |` (- set (i # is))"
    by (auto simp: restrict_map_def)
  ultimately show ?case using s1 by auto
qed

lemma expired_spec:
  assumes "usable s" and "listing_by collate (vault s) rows"
    and "\<forall>now. listing s True now None = Inr (map (row_info now) rows)" and "\<not> bad_limit limit"
  shows "list_expired_pointers listing s now limit =
     Inr (take_limit limit (map (row_info now) (filter (\<lambda>r. is_expired (pw_expires r) now) rows)))"
  using assms by (simp add: list_expired_pointers_def filter_map comp_def)

lemma set_take_limit: "set (take_limit limit xs) \<subseteq> set xs"
  by (auto simp: take_limit_def dest: in_set_takeD split: option.splits)

lemma listing_unique_rows:
  "listing_by collate v rows \<Longrightarrow> listing_by collate v rows' \<Longrightarrow> length (filter P rows) = length (filter P rows')"
  by (simp add: listing_by_def distinct_map)
     (metis (mono_tags, lifting) distinct_card distinct_filter set_filter Collect_cong)

lemma length_listing:
  assumes "listing_by collate v rows"
  shows "length (filter P rows) = card {i. \<exists>r. v i = Some r \<and> pw_id r = i \<and> P r}"
proof -
  have "pw_id ` set (filter P rows) = {i. \<exists>r. v i = Some r \<and> pw_id r = i \<and> P r}"
    using assms by (auto simp: listing_by_def)
  moreover have "inj_on pw_id (set (filter P rows))" "distinct (filter P rows)"
    using assms by (auto simp: listing_by_def distinct_map inj_on_def)
  ultimately show ?thesis by (metis card_image distinct_card)
qed

theorem cleanup_spec:
  assumes u: "usable s" and l: "\<not> bad_limit limit"
  obtains rep s' rows where "cleanup_expired_pointers listing delete s now limit = Inr (rep, s')"
    "usable s'" "listing_by collate (vault s) rows"
    "cr_deleted rep = take_limit limit (map pw_id (filter (\<lambda>r. is_expired (pw_expires r) now) rows))"
    "vault s' = (vault s) |` (- set (cr_deleted rep))"
    "cr_remaining rep = card {i. \<exists>r. vault s' i = Some r \<and> is_expired (pw_expires r) now}"
proof -
  obtain rows where rows: "listing_by collate (vault s) rows"
      "\<forall>now. listing s True now None = Inr (map (row_info now) rows)"
    using listing_spec [OF u] by auto
  let ?x = "filter (\<lambda>r. is_expired (pw_expires r) now) rows"
  let ?ids = "take_limit limit (map pw_id ?x)"
  have ids: "map pi_id (take_limit limit (map (row_info now) ?x)) = ?ids"
    by (simp add: take_limit_def take_map comp_def split: option.splits)
  have "distinct ?ids"
    using rows(1) by (auto simp: take_limit_def listing_by_def distinct_map_filter split: option.splits)
  moreover have "\<forall>i\<in>set ?ids. vault s i \<noteq> None"
    using rows(1) set_take_limit [of limit "map pw_id ?x"] by (auto simp: listing_by_def)
  ultimately obtain s' where s': "delete_rows delete s ?ids = Inr (?ids, s')" "usable s'"
      "vault s' = (vault s) |` (- set ?ids)"
    using delete_rows_spec [OF u] by blast
  obtain rows' where rows': "listing_by collate (vault s') rows'"
      "\<forall>now. listing s' True now None = Inr (map (row_info now) rows')"
    using listing_spec [OF s'(2)] by auto
  let ?rep = "\<lparr>cr_deleted = ?ids,
    cr_remaining = length (filter (\<lambda>r. is_expired (pw_expires r) now) rows'), cr_ran_at = now\<rparr>"
  have "cleanup_expired_pointers listing delete s now limit = Inr (?rep, s')"
    using expired_spec [OF u rows l] expired_spec [OF s'(2) rows', of None] ids s'(1)
    by (simp add: cleanup_expired_pointers_def bad_limit_def take_limit_def)
  moreover have "cr_remaining ?rep = card {i. \<exists>r. vault s' i = Some r \<and> is_expired (pw_expires r) now}"
    using length_listing [OF rows'(1)] vault_id [OF s'(2)]
    by simp (metis (mono_tags, lifting))
  ultimately show ?thesis using that s' rows by simp
qed

end

section \<open>The SQLite store is a backend\<close>

definition sq_vault :: "sqlite_store \<Rightarrow> string \<rightharpoonup> pointer_row" where
  "sq_vault s = map_of (map (\<lambda>r. (pw_id r, r)) (sq_rows s))"

definition sq_usable :: "sqlite_store \<Rightarrow> bool" where
  "sq_usable s \<longleftrightarrow> \<not> sq_closed s \<and> distinct (map pw_id (sq_rows s))"

lemma sq_vault_Some:
  "sq_usable s \<Longrightarrow> sq_vault s i = Some r \<longleftrightarrow> r \<in> set (sq_rows s) \<and> pw_id r = i"
  unfolding sq_vault_def sq_usable_def by (subst map_of_eq_Some_iff) (auto simp: comp_def)

lemma sq_vault_None: "sq_vault s i = None \<longleftrightarrow> i \<notin> pw_id ` set (sq_rows s)"
  by (auto simp: sq_vault_def map_of_eq_None_iff image_image)

lemma sq_vault_find: "find (\<lambda>r. pw_id r = i) (sq_rows s) = sq_vault s i"
proof -
  have "find (\<lambda>r. pw_id r = i) rows = map_of (map (\<lambda>r. (pw_id r, r)) rows) i" for rows
    by (induction rows) auto
  then show ?thesis by (simp add: sq_vault_def)
qed

lemma newest_first_sorted:
  "sorted_wrt (\<lambda>a b. (pw_created b, collate (pw_id b)) \<le> (pw_created a, collate (pw_id a))) (newest_first collate rows)"
proof -
  have "sorted_wrt (\<lambda>a b. (pw_created a, collate (pw_id a)) \<le> (pw_created b, collate (pw_id b)))
     (sort_key (\<lambda>r. (pw_created r, collate (pw_id r))) rows)"
    using sorted_sort_key [of "\<lambda>r. (pw_created r, collate (pw_id r))" rows] by (simp add: sorted_map)
  then show ?thesis by (simp add: newest_first_def sorted_wrt_rev)
qed

lemma set_newest_first [simp]: "set (newest_first collate rows) = set rows"
  by (simp add: newest_first_def)

lemma distinct_newest_first: "distinct (map pw_id rows) \<Longrightarrow> distinct (map pw_id (newest_first collate rows))"
  by (auto simp: newest_first_def distinct_map rev_map)

interpretation sq: pointer_backend sq_store_pointer sq_retrieve_pointer sq_list_pointers
  sq_delete_pointer sq_vault sq_usable "\<lambda>_. True" "\<lambda>_. True" "\<lambda>i. i"
proof unfold_locales
  fix s and r :: pointer_row assume u: "sq_usable s" and n: "sq_vault s (pw_id r) = None"
  let ?s = "s\<lparr>sq_rows := sq_rows s @ [r]\<rparr>"
  have "sq_store_pointer s r = Inr ?s" "sq_usable ?s"
    using u n by (auto simp: sq_store_pointer_def sq_usable_def sq_vault_None)
  moreover have "sq_vault ?s = (sq_vault s)(pw_id r \<mapsto> r)"
    using n by (auto simp: sq_vault_def map_add_def split: option.splits)
  ultimately show "\<exists>s'. sq_store_pointer s r = Inr s' \<and> sq_usable s'
      \<and> sq_vault s' = (sq_vault s)(pw_id r \<mapsto> r)" by blast
next
  fix s i assume "sq_usable s"
  then show "sq_retrieve_pointer s i =
      (case sq_vault s i of None \<Rightarrow> Inl (PointerMissing i) | Some r \<Rightarrow> Inr (pw_raw r))"
    by (simp add: sq_retrieve_pointer_def sq_usable_def sq_vault_find)
next
  fix s assume u: "sq_usable s"
  show "\<exists>rows. listing_of (sq_vault s) rows \<and>
      (\<forall>now. sq_list_pointers s True now None = Inr (map (row_info now) rows))"
    using u distinct_newest_first [of "sq_rows s" "\<lambda>i. i"] newest_first_sorted [of "\<lambda>i. i" "sq_rows s"]
    by (intro exI [of _ "newest_first (\<lambda>i. i) (sq_rows s)"])
       (simp add: listing_by_def sq_vault_Some sq_list_pointers_def bad_limit_def take_limit_def sq_usable_def)
next
  fix s i assume u: "sq_usable s"
  let ?s = "s\<lparr>sq_rows := filter (\<lambda>r. pw_id r \<noteq> i) (sq_rows s)\<rparr>"
  have "length (filter (\<lambda>r. pw_id r \<noteq> i) (sq_rows s)) < length (sq_rows s) \<longleftrightarrow> sq_vault s i \<noteq> None"
    using length_filter_less [of _ "sq_rows s" "\<lambda>r. pw_id r \<noteq> i"]
    by (auto simp: sq_vault_None) (metis (mono_tags, lifting) filter_True imageI less_irrefl)
  moreover have "sq_vault ?s = (sq_vault s)(i := None)"
  proof -
    have "map_of (map (\<lambda>r. (pw_id r, r)) (filter (\<lambda>r. pw_id r \<noteq> i) rows))
       = (map_of (map (\<lambda>r. (pw_id r, r)) rows))(i := None)" for rows by (induction rows) auto
    then show ?thesis by (simp add: sq_vault_def)
  qed
  ultimately show "\<exists>s'. sq_delete_pointer s i = Inr (sq_vault s i \<noteq> None, s') \<and> sq_usable s'
      \<and> sq_vault s' = (sq_vault s)(i := None)"
    using u by (auto simp: sq_delete_pointer_def sq_usable_def Let_def distinct_map_filter)
next
  fix s i r assume "sq_usable s" "sq_vault s i = Some r"
  then show "pw_id r = i \<and> True" by (simp add: sq_vault_Some)
qed simp_all

section \<open>Properties of the pointer vault\<close>

text \<open>C32: a stored pointer is retrieved with the text that was stored, no other pointer changes, and
  a second insert under a used id is refused with the vault unchanged.\<close>

theorem store_then_retrieve:
  assumes "sq_usable s"
  shows "case sq_store_pointer s r of
       Inr s' \<Rightarrow> sq_vault s (pw_id r) = None \<and> sq_usable s' \<and> sq_retrieve_pointer s' (pw_id r) = Inr (pw_raw r)
         \<and> (\<forall>i. i \<noteq> pw_id r \<longrightarrow> sq_retrieve_pointer s' i = sq_retrieve_pointer s i)
     | Inl e \<Rightarrow> e = DuplicatePointer (pw_id r) \<and> sq_vault s (pw_id r) \<noteq> None"
proof (cases "sq_vault s (pw_id r)")
  case None
  then obtain s' where "sq_store_pointer s r = Inr s'" using sq.store_fresh [OF assms TrueI] by blast
  with sq.retrieve_after_store [OF assms TrueI None this] None show ?thesis by simp
next
  case (Some r')
  then have "pw_id r \<in> pw_id ` set (sq_rows s)" using sq_vault_None [of s "pw_id r"] by auto
  with Some assms show ?thesis by (simp add: sq_store_pointer_def sq_usable_def)
qed

text \<open>\<open>cleanup_expired_pointers\<close> deletes exactly the expired pointers, newest first and at most
  \<open>limit\<close> of them, leaves every other pointer as it was, and reports how many expired ones remain;
  without a limit none does.\<close>

theorem cleanup_deletes_expired:
  assumes "sq_usable s" and "\<not> bad_limit limit"
  shows "\<exists>rep s' rows. cleanup_expired_pointers sq_list_pointers sq_delete_pointer s now limit = Inr (rep, s')
     \<and> sq_usable s' \<and> listing_of (sq_vault s) rows
     \<and> cr_deleted rep = take_limit limit (map pw_id (filter (\<lambda>r. is_expired (pw_expires r) now) rows))
     \<and> sq_vault s' = (sq_vault s) |` (- set (cr_deleted rep))
     \<and> cr_remaining rep = card {i. \<exists>r. sq_vault s' i = Some r \<and> is_expired (pw_expires r) now}
     \<and> (limit = None \<longrightarrow> cr_remaining rep = 0)"
proof -
  obtain rep s' rows where c: "cleanup_expired_pointers sq_list_pointers sq_delete_pointer s now limit = Inr (rep, s')"
    "sq_usable s'" "listing_of (sq_vault s) rows"
    "cr_deleted rep = take_limit limit (map pw_id (filter (\<lambda>r. is_expired (pw_expires r) now) rows))"
    "sq_vault s' = (sq_vault s) |` (- set (cr_deleted rep))"
    "cr_remaining rep = card {i. \<exists>r. sq_vault s' i = Some r \<and> is_expired (pw_expires r) now}"
    by (rule sq.cleanup_spec [OF assms, where now = now])
  moreover have "cr_remaining rep = 0" if "limit = None"
  proof -
    have "\<not> is_expired (pw_expires r) now" if "sq_vault s' i = Some r" for i r
      using that c(3,4,5) sq.vault_id [OF assms(1), of i r] \<open>limit = None\<close>
      by (auto simp: take_limit_def listing_by_def restrict_map_def split: if_splits)
    then have none: "{i. \<exists>r. sq_vault s' i = Some r \<and> is_expired (pw_expires r) now} = {}" by blast
    show ?thesis unfolding c(6) none by simp
  qed
  ultimately show ?thesis by blast
qed

definition sample_row :: "string \<Rightarrow> int \<Rightarrow> pointer_row" where
  "sample_row i t = \<lparr>pw_id = i, pw_raw = ''x'', pw_summary = [], pw_meta = [], pw_created = 0,
     pw_ttl = Some 1, pw_expires = Some t\<rparr>"

definition sample_store :: sqlite_store where
  "sample_store = \<lparr>sq_rows = [sample_row ''ptr_a'' 5, sample_row ''ptr_b'' 9], sq_closed = False\<rparr>"

theorem store_then_retrieve_witness:
  "sq_usable sample_store \<and> (case sq_store_pointer sample_store (sample_row ''ptr_c'' 7) of
       Inr s' \<Rightarrow> sq_retrieve_pointer s' ''ptr_c'' = Inr ''x''
     | Inl e \<Rightarrow> False)"
proof -
  have u: "sq_usable sample_store" by code_simp
  have "isl (sq_store_pointer sample_store (sample_row ''ptr_c'' 7)) = False" by code_simp
  with store_then_retrieve [OF u, of "sample_row ''ptr_c'' 7"] u
  show ?thesis by (auto simp: sample_row_def split: sum.splits)
qed

theorem cleanup_deletes_expired_witness:
  "sq_usable sample_store \<and> \<not> bad_limit None \<and>
   (\<exists>rep s' rows. cleanup_expired_pointers sq_list_pointers sq_delete_pointer sample_store 6 None = Inr (rep, s')
     \<and> listing_of (sq_vault sample_store) rows
     \<and> cr_deleted rep = take_limit None (map pw_id (filter (\<lambda>r. is_expired (pw_expires r) 6) rows))
     \<and> cr_remaining rep = 0)"
proof -
  have u: "sq_usable sample_store" by code_simp
  moreover have "\<not> bad_limit None" by code_simp
  ultimately show ?thesis using cleanup_deletes_expired [of sample_store None 6] by blast
qed

end
