(* ===== verification/EAP_State_Manager.thy ===== *)
theory EAP_State_Manager
  imports EAP_Models EAP_Pointer_Store
begin

text \<open>
  The state manager, \<^verbatim>\<open>src/eap/protocol/state_manager.py\<close>: the pointer vault, the trace, the
  run summaries, checkpoints and diagnostics, and the conversation memory, each a table of one
  SQLite database. A table with a primary key is a dictionary, \<open>INSERT OR REPLACE\<close> an update
  of it; the trace and the turns are lists in insertion order. The clock and the random ids are
  arguments of the operations that read them. What the source writes with \<open>json.dumps\<close> and
  reads back with \<open>json.loads\<close> is stored as the value itself.
\<close>

section \<open>State\<close>

datatype step_outcome = OK | ERROR | SKIPPED | REJECTED_STEP | PAUSED

record step_state =
  ss_status :: step_outcome
  ss_pointer :: string

record checkpoint =
  ck_started :: int
  ck_updated :: int
  ck_status :: string
  ck_macro :: macro_request
  ck_steps :: "(string, step_state) dict"
  ck_decisions :: "(string, string list) dict"
  ck_final :: "string option"
  ck_actor :: "(string, pyval) dict option"

record run_summary =
  su_started :: int
  su_completed :: int
  su_total :: int
  su_succeeded :: int
  su_failed :: int
  su_duration :: rat
  su_final :: "string option"

type_synonym diagnostics = "(string, pyval) dict"

record state_manager =
  sm_pointers :: sqlite_store
  sm_events :: "trace_event list"
  sm_summaries :: "(string, run_summary) dict"
  sm_checkpoints :: "(string, checkpoint) dict"
  sm_diagnostics :: "(string, int \<times> diagnostics) dict"
  sm_sessions :: "(string, conv_session) dict"
  sm_turns :: "conv_turn list"
  sm_closed :: bool

definition init_state_manager :: state_manager where
  "init_state_manager = \<lparr>sm_pointers = sq_connect, sm_events = [], sm_summaries = [], sm_checkpoints = [],
     sm_diagnostics = [], sm_sessions = [], sm_turns = [], sm_closed = False\<rparr>"

definition sm_close :: "state_manager \<Rightarrow> state_manager" where
  "sm_close sm = sm\<lparr>sm_closed := True, sm_pointers := sq_close (sm_pointers sm)\<rparr>"

definition clear_all :: "state_manager \<Rightarrow> state_manager" where
  \<comment> \<open>the database file exists: it is removed and created again\<close>
  "clear_all sm = init_state_manager"

datatype sm_error =
    SmClosed
  | SmStore store_error
  | BadTtl
  | NoPointer string
  | NoCheckpoint string
  | NoSummary string
  | NoDiagnostics string
  | NoSession string
  | Integrity string
  | SmModel models_error

definition with_connection :: "state_manager \<Rightarrow> (sm_error + 'a) \<Rightarrow> sm_error + 'a" where
  "with_connection sm body = (if sm_closed sm then Inl SmClosed else body)"

definition lift_store :: "store_error + 'a \<Rightarrow> sm_error + 'a" where
  "lift_store r = (case r of Inl e \<Rightarrow> Inl (SmStore e) | Inr x \<Rightarrow> Inr x)"

definition lift_model :: "models_error + 'a \<Rightarrow> sm_error + 'a" where
  "lift_model r = (case r of Inl e \<Rightarrow> Inl (SmModel e) | Inr x \<Rightarrow> Inr x)"

lemma lift_Inr_iff [simp]:
  "lift_store r = Inr x \<longleftrightarrow> r = Inr x" "lift_model r' = Inr y \<longleftrightarrow> r' = Inr y"
  by (auto simp: lift_store_def lift_model_def split: sum.splits)

section \<open>Pointers\<close>

text \<open>What the source takes from the interpreter: the text of a float, the size of an object and the
  ISO text of a time.\<close>

record py_env =
  pe_float :: "pyfloat \<Rightarrow> string"
  pe_sizeof :: "pyval \<Rightarrow> int"
  pe_iso :: "int \<Rightarrow> string"

definition store_and_point :: "py_env \<Rightarrow> state_manager \<Rightarrow> string \<Rightarrow> int \<Rightarrow> pyval \<Rightarrow> string
    \<Rightarrow> (string, pyval) dict \<Rightarrow> pyval \<Rightarrow> sm_error + pointer_response \<times> state_manager" where
  \<comment> \<open>\<open>pointer_id\<close> is the generated id, \<open>now\<close> the clock in microseconds\<close>
  "store_and_point env sm pointer_id now raw_data summary metadata ttl =
     (let meta = AList.update ''size_bytes'' (PInt (pe_sizeof env raw_data)) metadata in
      bindR (case ttl of PNone \<Rightarrow> Inr None
             | PInt n \<Rightarrow> if n \<le> 0 then Inl BadTtl else Inr (Some n)
             | _ \<Rightarrow> Inl BadTtl) (\<lambda>ttl_seconds.
        let expires = map_option (\<lambda>n. now + n * 1000000) ttl_seconds;
            meta' = AList.update ''expires_at_utc'' (case expires of None \<Rightarrow> PNone | Some t \<Rightarrow> PStr (pe_iso env t))
                     (AList.update ''ttl_seconds'' (case ttl_seconds of None \<Rightarrow> PNone | Some n \<Rightarrow> PInt n)
                       (AList.update ''created_at_utc'' (PStr (pe_iso env now)) meta))
        in bindR (lift_store (sq_store_pointer (sm_pointers sm)
               \<lparr>pw_id = pointer_id, pw_raw = py_str (pe_float env) raw_data, pw_summary = summary,
                pw_meta = meta', pw_created = now, pw_ttl = ttl_seconds, pw_expires = expires\<rparr>)) (\<lambda>ps.
             Inr (\<lparr>pr_pointer_id = pointer_id, pr_summary = summary, pr_metadata = Some meta'\<rparr>,
                  sm\<lparr>sm_pointers := ps\<rparr>))))"

definition sm_retrieve :: "state_manager \<Rightarrow> string \<Rightarrow> sm_error + pyval" where
  "sm_retrieve sm i = bindR (lift_store (sq_retrieve_pointer (sm_pointers sm) i)) (\<lambda>s. Inr (PStr s))"

definition sm_list_pointers :: "state_manager \<Rightarrow> bool \<Rightarrow> int \<Rightarrow> int option \<Rightarrow> sm_error + pointer_info list" where
  "sm_list_pointers sm include_expired now limit =
     lift_store (sq_list_pointers (sm_pointers sm) include_expired now limit)"

definition sm_list_expired_pointers :: "state_manager \<Rightarrow> int \<Rightarrow> int option \<Rightarrow> sm_error + pointer_info list" where
  "sm_list_expired_pointers sm now limit =
     lift_store (list_expired_pointers sq_list_pointers (sm_pointers sm) now limit)"

definition sm_delete_pointer :: "state_manager \<Rightarrow> string \<Rightarrow> sm_error + state_manager" where
  "sm_delete_pointer sm i =
     bindR (lift_store (sq_delete_pointer (sm_pointers sm) i)) (\<lambda>(deleted, ps).
       if \<not> deleted then Inl (NoPointer i) else Inr (sm\<lparr>sm_pointers := ps\<rparr>))"

definition sm_cleanup_expired_pointers :: "state_manager \<Rightarrow> int \<Rightarrow> int option
    \<Rightarrow> sm_error + cleanup_report \<times> state_manager" where
  "sm_cleanup_expired_pointers sm now limit =
     bindR (lift_store (cleanup_expired_pointers sq_list_pointers sq_delete_pointer (sm_pointers sm) now limit))
       (\<lambda>(rep, ps). Inr (rep, sm\<lparr>sm_pointers := ps\<rparr>))"

section \<open>The trace\<close>

text \<open>The table has no columns for the actor, its scopes and the operation.\<close>

definition event_row :: "trace_event \<Rightarrow> trace_event" where
  "event_row e = e\<lparr>ev_actor_id := None, ev_scopes := None, ev_operation := None\<rparr>"

definition append_trace_event :: "state_manager \<Rightarrow> trace_event \<Rightarrow> sm_error + state_manager" where
  "append_trace_event sm e = with_connection sm (Inr (sm\<lparr>sm_events := sm_events sm @ [event_row e]\<rparr>))"

definition append_trace_events_batch :: "state_manager \<Rightarrow> trace_event list \<Rightarrow> sm_error + state_manager" where
  "append_trace_events_batch sm es = (if es = [] then Inr sm
     else with_connection sm (Inr (sm\<lparr>sm_events := sm_events sm @ map event_row es\<rparr>)))"

definition diagnostics_actor :: "state_manager \<Rightarrow> string \<Rightarrow> (string, pyval) dict" where
  "diagnostics_actor sm run_id = (case map_of (sm_diagnostics sm) run_id of None \<Rightarrow> []
     | Some (_, payload) \<Rightarrow> (case dict_get_or payload ''actor_metadata'' PNone of PDict a \<Rightarrow> a | _ \<Rightarrow> []))"

definition get_run_actor_metadata :: "state_manager \<Rightarrow> string \<Rightarrow> sm_error + (string, pyval) dict" where
  "get_run_actor_metadata sm run_id = with_connection sm (Inr
     (case map_of (sm_checkpoints sm) run_id of
        Some c \<Rightarrow> (case ck_actor c of Some a \<Rightarrow> a | None \<Rightarrow> diagnostics_actor sm run_id)
      | None \<Rightarrow> diagnostics_actor sm run_id))"

text \<open>\<open>a.get(k) or a.get(k')\<close>, and reading the value into an optional string or list of strings.\<close>

definition get_or_get :: "(string, pyval) dict \<Rightarrow> string \<Rightarrow> string \<Rightarrow> pyval" where
  "get_or_get a k k' = (let v = dict_get_or a k PNone in if py_truthy v then v else dict_get_or a k' PNone)"

fun as_string :: "pyval \<Rightarrow> sm_error + string option" where
  "as_string PNone = Inr None"
| "as_string (PStr s) = Inr (Some s)"
| "as_string _ = Inl (SmModel (FieldBound ''string''))"

fun as_strings :: "pyval \<Rightarrow> sm_error + string list option" where
  "as_strings PNone = Inr None"
| "as_strings (PList vs) = bindR (mapR (\<lambda>v. case v of PStr s \<Rightarrow> Inr s | _ \<Rightarrow> Inl (SmModel (FieldBound ''list''))) vs)
     (\<lambda>ss. Inr (Some ss))"
| "as_strings _ = Inl (SmModel (FieldBound ''list''))"

definition list_trace_events :: "state_manager \<Rightarrow> string \<Rightarrow> sm_error + trace_event list" where
  "list_trace_events sm run_id =
     bindR (get_run_actor_metadata sm run_id) (\<lambda>actor.
       mapR (\<lambda>row.
         bindR (as_string (get_or_get actor ''actor_id'' ''owner_actor_id'')) (\<lambda>actor_id.
         bindR (as_strings (get_or_get actor ''actor_scopes'' ''scopes'')) (\<lambda>scopes.
         bindR (as_string (dict_get_or actor ''operation'' PNone)) (\<lambda>operation.
           lift_model (make_event (row\<lparr>ev_actor_id := actor_id, ev_scopes := scopes, ev_operation := operation\<rparr>))))))
         (filter (\<lambda>e. ev_run_id e = run_id) (sm_events sm)))"

section \<open>Summaries, checkpoints, diagnostics\<close>

definition store_execution_summary :: "state_manager \<Rightarrow> string \<Rightarrow> run_summary \<Rightarrow> sm_error + state_manager" where
  "store_execution_summary sm run_id s =
     with_connection sm (Inr (sm\<lparr>sm_summaries := AList.update run_id s (sm_summaries sm)\<rparr>))"

definition get_execution_summary :: "state_manager \<Rightarrow> string \<Rightarrow> sm_error + run_summary" where
  "get_execution_summary sm run_id = with_connection sm
     (case map_of (sm_summaries sm) run_id of None \<Rightarrow> Inl (NoSummary run_id) | Some s \<Rightarrow> Inr s)"

definition upsert_run_checkpoint :: "state_manager \<Rightarrow> string \<Rightarrow> checkpoint \<Rightarrow> int \<Rightarrow> sm_error + state_manager" where
  "upsert_run_checkpoint sm run_id c now =
     with_connection sm (Inr (sm\<lparr>sm_checkpoints := AList.update run_id (c\<lparr>ck_updated := now\<rparr>) (sm_checkpoints sm)\<rparr>))"

definition get_run_checkpoint :: "state_manager \<Rightarrow> string \<Rightarrow> sm_error + checkpoint" where
  "get_run_checkpoint sm run_id = with_connection sm
     (case map_of (sm_checkpoints sm) run_id of None \<Rightarrow> Inl (NoCheckpoint run_id) | Some c \<Rightarrow> Inr c)"

definition list_run_checkpoints :: "state_manager \<Rightarrow> string option \<Rightarrow> int \<Rightarrow> sm_error + (string \<times> checkpoint) list" where
  "list_run_checkpoints sm status limit = with_connection sm (Inr
     (sql_limit limit (rev (sort_key (\<lambda>p. ck_updated (snd p))
        (rev (filter (\<lambda>p. case status of None \<Rightarrow> True | Some st \<Rightarrow> ck_status (snd p) = st) (sm_checkpoints sm)))))))"

definition store_execution_diagnostics :: "state_manager \<Rightarrow> string \<Rightarrow> diagnostics \<Rightarrow> int \<Rightarrow> sm_error + state_manager" where
  "store_execution_diagnostics sm run_id d now =
     with_connection sm (Inr (sm\<lparr>sm_diagnostics := AList.update run_id (now, d) (sm_diagnostics sm)\<rparr>))"

definition get_execution_diagnostics :: "state_manager \<Rightarrow> string \<Rightarrow> sm_error + int \<times> diagnostics" where
  "get_execution_diagnostics sm run_id = with_connection sm
     (case map_of (sm_diagnostics sm) run_id of None \<Rightarrow> Inl (NoDiagnostics run_id) | Some d \<Rightarrow> Inr d)"

definition list_execution_diagnostics :: "state_manager \<Rightarrow> int \<Rightarrow> sm_error + (string \<times> int \<times> diagnostics) list" where
  "list_execution_diagnostics sm limit = with_connection sm (Inr
     (sql_limit limit (rev (sort_key (\<lambda>p. fst (snd p)) (rev (sm_diagnostics sm))))))"

section \<open>Conversations\<close>

definition create_session :: "state_manager \<Rightarrow> conv_session \<Rightarrow> sm_error + conv_session \<times> state_manager" where
  \<comment> \<open>the session with its id (given or generated) and times filled in\<close>
  "create_session sm s =
     bindR (lift_model (check_session s)) (\<lambda>s'. with_connection sm
       (if dict_has (sm_sessions sm) (cs_session_id s') then Inl (Integrity (cs_session_id s'))
        else Inr (s', sm\<lparr>sm_sessions := AList.update (cs_session_id s') s' (sm_sessions sm)\<rparr>)))"

definition get_session :: "state_manager \<Rightarrow> string \<Rightarrow> sm_error + conv_session" where
  "get_session sm i = with_connection sm
     (case map_of (sm_sessions sm) i of None \<Rightarrow> Inl (NoSession i) | Some s \<Rightarrow> lift_model (check_session s))"

definition list_sessions :: "state_manager \<Rightarrow> int \<Rightarrow> sm_error + conv_session list" where
  "list_sessions sm limit = with_connection sm (mapR (\<lambda>s. lift_model (check_session s))
     (sql_limit limit (rev (sort_key cs_updated (rev (map snd (sm_sessions sm)))))))"

definition delete_session :: "state_manager \<Rightarrow> string \<Rightarrow> sm_error + state_manager" where
  \<comment> \<open>the turns go first; a missing session is reported after that\<close>
  "delete_session sm i = with_connection sm
     (if \<not> dict_has (sm_sessions sm) i then Inl (NoSession i)
      else Inr (sm\<lparr>sm_turns := filter (\<lambda>t. ct_session_id t \<noteq> i) (sm_turns sm),
                   sm_sessions := AList.delete i (sm_sessions sm)\<rparr>))"

definition list_turns :: "state_manager \<Rightarrow> string \<Rightarrow> int option \<Rightarrow> sm_error + conv_turn list" where
  "list_turns sm i limit = bindR (get_session sm i) (\<lambda>_.
     mapR (\<lambda>t. lift_model (validate_role t))
       ((case limit of None \<Rightarrow> id | Some n \<Rightarrow> sql_limit n)
         (sort_key ct_created (filter (\<lambda>t. ct_session_id t = i) (sm_turns sm)))))"

definition touch_session :: "string \<Rightarrow> (conv_session \<Rightarrow> conv_session) \<Rightarrow> state_manager \<Rightarrow> state_manager" where
  \<comment> \<open>\<open>UPDATE conversation_sessions SET \<dots> WHERE session_id = ?\<close>\<close>
  "touch_session i f sm = (case map_of (sm_sessions sm) i of None \<Rightarrow> sm
     | Some s \<Rightarrow> sm\<lparr>sm_sessions := AList.update i (f s) (sm_sessions sm)\<rparr>)"

definition delete_turns :: "string list \<Rightarrow> state_manager \<Rightarrow> state_manager" where
  "delete_turns ids sm = sm\<lparr>sm_turns := filter (\<lambda>t. ct_turn_id t \<notin> set ids) (sm_turns sm)\<rparr>"

record memory_report =
  mm_strategy :: memory_strategy
  mm_deleted :: int
  mm_remaining :: int
  mm_summary_updated :: bool
  mm_summary :: "string option"

definition summary_line :: "conv_turn \<Rightarrow> string" where
  "summary_line t = ct_role t @ '': '' @ take 180 (ct_content t)
     @ (if ct_pointer_ids t = [] then [] else '' | pointers: '' @ join '', '' (ct_pointer_ids t))"

definition merge_summary :: "string \<Rightarrow> conv_turn list \<Rightarrow> nat \<Rightarrow> string" where
  "merge_summary prior old_turns max_chars =
     (let nl = [char_of (10 :: nat)];
          merged = py_strip (join nl (filter (\<lambda>x. x \<noteq> []) [prior, join nl (map summary_line old_turns)]))
      in drop (length merged - max_chars) merged)"

definition apply_memory_policy :: "state_manager \<Rightarrow> string \<Rightarrow> nat \<Rightarrow> nat \<Rightarrow> nat \<Rightarrow> int
    \<Rightarrow> sm_error + memory_report \<times> state_manager" where
  "apply_memory_policy sm i keep_recent default_window max_chars now =
     bindR (get_session sm i) (\<lambda>session. bindR (list_turns sm i None) (\<lambda>turns.
       case cs_strategy session of
         FULL \<Rightarrow> Inr (\<lparr>mm_strategy = FULL, mm_deleted = 0, mm_remaining = int (length turns),
                     mm_summary_updated = False, mm_summary = cs_summary session\<rparr>, sm)
       | WINDOW \<Rightarrow>
           (let window_limit = (case cs_window_limit session of None \<Rightarrow> int default_window
                 | Some n \<Rightarrow> if n = 0 then int default_window else n);
                overflow = nat (max 0 (int (length turns) - window_limit));
                sm' = (if overflow = 0 then sm
                  else touch_session i (\<lambda>s. s\<lparr>cs_updated := now\<rparr>)
                         (delete_turns (map ct_turn_id (take overflow turns)) sm))
            in Inr (\<lparr>mm_strategy = WINDOW, mm_deleted = int overflow,
                 mm_remaining = int (length turns) - int overflow,
                 mm_summary_updated = False, mm_summary = cs_summary session\<rparr>, sm'))
       | SUMMARY \<Rightarrow>
           (let overflow = nat (max 0 (int (length turns) - int keep_recent)) in
            if overflow = 0 then Inr (\<lparr>mm_strategy = SUMMARY, mm_deleted = 0, mm_remaining = int (length turns),
                 mm_summary_updated = False, mm_summary = cs_summary session\<rparr>, sm)
            else let old_turns = take overflow turns;
                     merged = merge_summary (case cs_summary session of None \<Rightarrow> [] | Some x \<Rightarrow> x) old_turns max_chars
                 in Inr (\<lparr>mm_strategy = SUMMARY, mm_deleted = int (length old_turns),
                      mm_remaining = int (length (drop overflow turns)),
                      mm_summary_updated = True, mm_summary = Some merged\<rparr>,
                    touch_session i (\<lambda>s. s\<lparr>cs_summary := Some merged, cs_updated := now\<rparr>)
                      (delete_turns (map ct_turn_id old_turns) sm)))))"

definition append_turn :: "state_manager \<Rightarrow> conv_turn \<Rightarrow> int \<Rightarrow> sm_error + conv_turn \<times> state_manager" where
  \<comment> \<open>the turn with its id and creation time filled in; \<open>now\<close> is the later clock of the policy\<close>
  "append_turn sm t now =
     bindR (get_session sm (ct_session_id t)) (\<lambda>_.
     bindR (lift_model (validate_role t)) (\<lambda>t'.
     bindR (with_connection sm
         (if ct_turn_id t' \<in> set (map ct_turn_id (sm_turns sm)) then Inl (Integrity (ct_turn_id t'))
          else Inr (touch_session (ct_session_id t') (\<lambda>s. s\<lparr>cs_updated := ct_created t'\<rparr>)
                      (sm\<lparr>sm_turns := sm_turns sm @ [t']\<rparr>)))) (\<lambda>sm1.
     bindR (apply_memory_policy sm1 (ct_session_id t') 4 8 2000 now) (\<lambda>(_, sm2). Inr (t', sm2)))))"

section \<open>Operational metrics\<close>

record sm_metrics =
  mt_total_pointers :: int
  mt_active_pointers :: int
  mt_expired_pointers :: int
  mt_run_count :: int
  mt_failed_run_count :: int
  mt_total_steps :: int
  mt_succeeded_steps :: int
  mt_failed_steps :: int
  mt_avg_duration :: rat
  mt_event_total :: int
  mt_diagnostics_count :: int
  mt_events_by_type :: "(event_type, int) dict"
  mt_session_count :: int
  mt_turn_count :: int

definition count_by :: "'a list \<Rightarrow> ('a, int) dict" where
  "count_by xs = map (\<lambda>x. (x, int (count_list xs x))) (remdups xs)"

definition collect_operational_metrics :: "state_manager \<Rightarrow> int \<Rightarrow> sm_error + sm_metrics" where
  "collect_operational_metrics sm now =
     bindR (sm_list_pointers sm True now None) (\<lambda>all_pointers.
     bindR (sm_list_pointers sm False now None) (\<lambda>active. with_connection sm (Inr
       (let rows = map snd (sm_summaries sm) in
        \<lparr>mt_total_pointers = int (length all_pointers), mt_active_pointers = int (length active),
         mt_expired_pointers = max 0 (int (length all_pointers) - int (length active)),
         mt_run_count = int (length rows),
         mt_failed_run_count = int (length (filter (\<lambda>s. 0 < su_failed s) rows)),
         mt_total_steps = sum_list (map su_total rows), mt_succeeded_steps = sum_list (map su_succeeded rows),
         mt_failed_steps = sum_list (map su_failed rows),
         mt_avg_duration = (if rows = [] then 0 else sum_list (map su_duration rows) / of_nat (length rows)),
         mt_event_total = int (length (sm_events sm)), mt_diagnostics_count = int (length (sm_diagnostics sm)),
         mt_events_by_type = count_by (map ev_type (sm_events sm)),
         mt_session_count = int (length (sm_sessions sm)), mt_turn_count = int (length (sm_turns sm))\<rparr>))))"

section \<open>The trace round trip\<close>

definition actor_fields :: "(string, pyval) dict \<Rightarrow> trace_event \<Rightarrow> bool" where
  \<comment> \<open>the event carries the actor of the run\<close>
  "actor_fields actor e \<longleftrightarrow>
     as_string (get_or_get actor ''actor_id'' ''owner_actor_id'') = Inr (ev_actor_id e)
     \<and> as_strings (get_or_get actor ''actor_scopes'' ''scopes'') = Inr (ev_scopes e)
     \<and> as_string (dict_get_or actor ''operation'' PNone) = Inr (ev_operation e)"

lemma event_row_restore:
  "(event_row e)\<lparr>ev_actor_id := ev_actor_id e, ev_scopes := ev_scopes e, ev_operation := ev_operation e\<rparr> = e"
  by (simp add: event_row_def)

lemma get_actor_append: "get_run_actor_metadata (sm\<lparr>sm_events := es\<rparr>) run = get_run_actor_metadata sm run"
  by (auto simp: get_run_actor_metadata_def diagnostics_actor_def with_connection_def split: option.splits)

lemma trace_append_roundtrip:
  assumes "append_trace_event sm e = Inr sm'" and "list_trace_events sm run = Inr old"
    and "get_run_actor_metadata sm run = Inr actor"
    and "ev_run_id e = run" and "actor_fields actor e" and "make_event e = Inr e"
  shows "list_trace_events sm' run = Inr (old @ [e])"
proof -
  have sm': "sm' = sm\<lparr>sm_events := sm_events sm @ [event_row e]\<rparr>"
    using assms(1) by (auto simp: append_trace_event_def with_connection_def split: if_splits)
  have "ev_run_id (event_row e) = run" using assms(4) by (simp add: event_row_def)
  with assms show ?thesis
    unfolding sm' list_trace_events_def get_actor_append
    by (simp add: mapR_append actor_fields_def event_row_restore lift_model_def)
qed

section \<open>Conversation memory\<close>

definition sm_ok :: "state_manager \<Rightarrow> bool" where
  "sm_ok sm \<longleftrightarrow> \<not> sm_closed sm \<and> distinct (map ct_turn_id (sm_turns sm))
     \<and> (\<forall>t\<in>set (sm_turns sm). validate_role t = Inr t)
     \<and> (\<forall>i s. map_of (sm_sessions sm) i = Some s \<longrightarrow> check_session s = Inr s \<and> cs_session_id s = i)"

definition turns_of :: "state_manager \<Rightarrow> string \<Rightarrow> conv_turn list" where
  "turns_of sm i = sort_key ct_created (filter (\<lambda>t. ct_session_id t = i) (sm_turns sm))"

text \<open>How many turns a session keeps, \<open>None\<close> for all.\<close>

definition kept_turns :: "conv_session \<Rightarrow> nat option" where
  "kept_turns s = (case cs_strategy s of FULL \<Rightarrow> None
     | WINDOW \<Rightarrow> Some (case cs_window_limit s of None \<Rightarrow> 8 | Some n \<Rightarrow> nat n)
     | SUMMARY \<Rightarrow> Some 4)"

definition keep_last :: "nat option \<Rightarrow> 'a list \<Rightarrow> 'a list" where
  "keep_last k xs = (case k of None \<Rightarrow> xs | Some n \<Rightarrow> drop (length xs - n) xs)"

lemma get_session_ok: "sm_ok sm \<Longrightarrow> map_of (sm_sessions sm) i = Some s \<Longrightarrow> get_session sm i = Inr s"
  by (auto simp: get_session_def with_connection_def sm_ok_def lift_model_def)

lemma list_turns_ok:
  assumes "sm_ok sm" and "map_of (sm_sessions sm) i = Some s"
  shows "list_turns sm i None = Inr (turns_of sm i)"
proof -
  have "mapR (\<lambda>t. lift_model (validate_role t)) (turns_of sm i) = Inr (turns_of sm i)"
    using assms(1) by (intro mapR_id) (auto simp: turns_of_def sm_ok_def lift_model_def)
  then show ?thesis using get_session_ok [OF assms] by (simp add: list_turns_def turns_of_def)
qed

lemma touch_session_turns [simp]: "sm_turns (touch_session i f sm) = sm_turns sm"
  by (simp add: touch_session_def split: option.splits)

lemma turns_of_touch [simp]: "turns_of (touch_session i f sm) j = turns_of sm j"
  by (simp add: turns_of_def)

lemma touch_session_ok:
  assumes "sm_ok sm" and "\<And>s. check_session s = Inr s \<Longrightarrow> check_session (f s) = Inr (f s) \<and> cs_session_id (f s) = cs_session_id s"
  shows "sm_ok (touch_session i f sm)"
  using assms by (auto simp: sm_ok_def touch_session_def split: option.splits if_splits)

lemma delete_turns_ok: "sm_ok sm \<Longrightarrow> sm_ok (delete_turns ids sm)"
  by (auto simp: sm_ok_def delete_turns_def distinct_map_filter)

lemma filter_drop_ids:
  "distinct (map f xs) \<Longrightarrow> filter (\<lambda>x. f x \<notin> f ` set (take k xs)) xs = drop k xs"
proof -
  assume d: "distinct (map f xs)"
  have "filter (\<lambda>x. f x \<notin> f ` set (take k xs)) (take k xs @ drop k xs) = drop k xs"
    unfolding filter_append
  proof -
    have "f x \<notin> f ` set (take k xs)" if "x \<in> set (drop k xs)" for x
    proof
      assume "f x \<in> f ` set (take k xs)"
      moreover have "distinct (map f (take k xs) @ map f (drop k xs))"
        using d by (simp flip: map_append)
      ultimately show False using that by auto
    qed
    then have "filter (\<lambda>x. f x \<notin> f ` set (take k xs)) (drop k xs) = drop k xs" by (intro filter_True) auto
    moreover have "filter (\<lambda>x. f x \<notin> f ` set (take k xs)) (take k xs) = []"
      by (auto simp: filter_empty_conv)
    ultimately show "filter (\<lambda>x. f x \<notin> f ` set (take k xs)) (take k xs) @
        filter (\<lambda>x. f x \<notin> f ` set (take k xs)) (drop k xs) = drop k xs" by simp
  qed
  then show ?thesis by simp
qed

lemma turns_of_delete_own:
  assumes "sm_ok sm"
  shows "turns_of (delete_turns (map ct_turn_id (take k (turns_of sm i))) sm) i = drop k (turns_of sm i)"
proof -
  let ?ids = "ct_turn_id ` set (take k (turns_of sm i))"
  have "distinct (map ct_turn_id (turns_of sm i))"
    using assms by (simp add: sm_ok_def turns_of_def distinct_map inj_on_def)
  then have "drop k (turns_of sm i) = filter (\<lambda>t. ct_turn_id t \<notin> ?ids) (turns_of sm i)"
    by (simp add: filter_drop_ids)
  also have "\<dots> = sort_key ct_created (filter (\<lambda>t. ct_session_id t = i) (filter (\<lambda>t. ct_turn_id t \<notin> ?ids) (sm_turns sm)))"
    unfolding turns_of_def filter_sort [symmetric] by (simp add: filter_filter conj_commute)
  finally show ?thesis by (simp add: turns_of_def delete_turns_def)
qed

lemma turns_of_delete_other:
  assumes ok: "sm_ok sm" and "j \<noteq> i"
  shows "turns_of (delete_turns (map ct_turn_id (take k (turns_of sm i))) sm) j = turns_of sm j"
proof -
  have "ct_turn_id t \<notin> ct_turn_id ` set (take k (turns_of sm i))"
    if "t \<in> set (sm_turns sm)" "ct_session_id t = j" for t
  proof
    assume "ct_turn_id t \<in> ct_turn_id ` set (take k (turns_of sm i))"
    then obtain t' where t': "t' \<in> set (turns_of sm i)" "ct_turn_id t = ct_turn_id t'"
      by (auto dest: in_set_takeD)
    then have "t' \<in> set (sm_turns sm)" "ct_session_id t' = i" by (auto simp: turns_of_def)
    with that t'(2) ok assms(2) show False by (auto simp: sm_ok_def distinct_map inj_on_def)
  qed
  then have "filter (\<lambda>t. ct_session_id t = j \<and> ct_turn_id t \<notin> ct_turn_id ` set (take k (turns_of sm i))) (sm_turns sm)
      = filter (\<lambda>t. ct_session_id t = j) (sm_turns sm)"
    by (intro filter_cong) auto
  then show ?thesis by (simp add: turns_of_def delete_turns_def filter_filter conj_commute)
qed

lemma sessions_delete_turns [simp]: "sm_sessions (delete_turns ids sm) = sm_sessions sm"
  by (simp add: delete_turns_def)

lemma map_of_touch_session:
  "map_of (sm_sessions (touch_session i f sm)) = (case map_of (sm_sessions sm) i of
     None \<Rightarrow> map_of (sm_sessions sm) | Some s \<Rightarrow> (map_of (sm_sessions sm))(i \<mapsto> f s))"
  by (simp add: touch_session_def split: option.splits)

lemma length_merge_summary: "length (merge_summary prior ts n) \<le> n"
  by (simp add: merge_summary_def Let_def)

definition session_after :: "conv_session \<Rightarrow> conv_session \<Rightarrow> bool" where
  \<comment> \<open>what the policy may change of a session: its update time, and a summary of bounded length\<close>
  "session_after s s' \<longleftrightarrow> cs_session_id s' = cs_session_id s \<and> cs_strategy s' = cs_strategy s
     \<and> cs_window_limit s' = cs_window_limit s \<and> cs_metadata s' = cs_metadata s \<and> cs_created s' = cs_created s
     \<and> (cs_summary s' = cs_summary s \<or>
        cs_strategy s = SUMMARY \<and> (\<exists>x. cs_summary s' = Some x \<and> length x \<le> 2000))"

definition policy_applied :: "state_manager \<Rightarrow> string \<Rightarrow> conv_session \<Rightarrow> state_manager \<Rightarrow> bool" where
  "policy_applied sm i s sm' \<longleftrightarrow> sm_ok sm' \<and> turns_of sm' i = keep_last (kept_turns s) (turns_of sm i)
     \<and> (\<forall>j. j \<noteq> i \<longrightarrow> turns_of sm' j = turns_of sm j \<and> map_of (sm_sessions sm') j = map_of (sm_sessions sm) j)
     \<and> (\<exists>s'. map_of (sm_sessions sm') i = Some s' \<and> session_after s s')"

lemma policy_drop:
  assumes ok: "sm_ok sm" and s: "map_of (sm_sessions sm) i = Some s" and "session_after s (f s)"
    and keep: "keep_last (kept_turns s) (turns_of sm i) = drop k (turns_of sm i)"
    and f: "\<And>s. check_session s = Inr s \<Longrightarrow> check_session (f s) = Inr (f s) \<and> cs_session_id (f s) = cs_session_id s"
  shows "policy_applied sm i s (touch_session i f (delete_turns (map ct_turn_id (take k (turns_of sm i))) sm))"
  using assms turns_of_delete_own [OF ok, of k i] turns_of_delete_other [OF ok, of _ i k]
    touch_session_ok [OF delete_turns_ok [OF ok] f]
  by (simp add: policy_applied_def map_of_touch_session)

lemma policy_none:
  assumes ok: "sm_ok sm" and s: "map_of (sm_sessions sm) i = Some s"
    and keep: "keep_last (kept_turns s) (turns_of sm i) = turns_of sm i"
  shows "policy_applied sm i s sm"
  using assms by (simp add: policy_applied_def session_after_def)

lemma policy_spec:
  assumes ok: "sm_ok sm" and s: "map_of (sm_sessions sm) i = Some s"
  shows "\<exists>rep sm'. apply_memory_policy sm i 4 8 2000 now = Inr (rep, sm') \<and> policy_applied sm i s sm'
     \<and> mm_remaining rep = int (length (turns_of sm' i))"
proof -
  let ?ts = "turns_of sm i"
  note G = get_session_ok [OF ok s] list_turns_ok [OF ok s]
  have chk: "check_session s = Inr s" using ok s by (simp add: sm_ok_def)
  show ?thesis
  proof (cases "cs_strategy s")
    case FULL
    then show ?thesis using G policy_none [OF ok s]
      by (simp add: apply_memory_policy_def kept_turns_def keep_last_def)
  next
    case WINDOW
    define w where "w = (case cs_window_limit s of None \<Rightarrow> 8 | Some n \<Rightarrow> nat n)"
    have w: "(case cs_window_limit s of None \<Rightarrow> int 8 | Some n \<Rightarrow> if n = 0 then int 8 else n) = int w"
      using chk by (auto simp: w_def check_session_def split: option.splits if_splits)
    have keep: "keep_last (kept_turns s) ?ts = drop (length ?ts - w) ?ts"
      using WINDOW by (simp add: kept_turns_def keep_last_def w_def)
    have ov: "nat (max 0 (int (length ?ts) - int w)) = length ?ts - w" by linarith
    show ?thesis
    proof (cases "length ?ts - w = 0")
      case True
      then show ?thesis using G WINDOW w ov policy_none [OF ok s] keep
        by (simp add: apply_memory_policy_def Let_def)
    next
      case False
      let ?f = "\<lambda>s. s\<lparr>cs_updated := now\<rparr>"
      have "policy_applied sm i s (touch_session i ?f (delete_turns (map ct_turn_id (take (length ?ts - w) ?ts)) sm))"
        by (intro policy_drop [OF ok s _ keep]) (auto simp: session_after_def check_session_def split: if_splits)
      then show ?thesis using G WINDOW w ov False keep
        by (auto simp: apply_memory_policy_def Let_def policy_applied_def)
    qed
  next
    case SUMMARY
    have keep: "keep_last (kept_turns s) ?ts = drop (length ?ts - 4) ?ts"
      using SUMMARY by (simp add: kept_turns_def keep_last_def)
    have ov: "nat (max 0 (int (length ?ts) - int 4)) = length ?ts - 4" by linarith
    show ?thesis
    proof (cases "length ?ts - 4 = 0")
      case True
      then show ?thesis using G SUMMARY ov policy_none [OF ok s] keep
        by (simp add: apply_memory_policy_def Let_def)
    next
      case False
      let ?m = "merge_summary (case cs_summary s of None \<Rightarrow> [] | Some x \<Rightarrow> x) (take (length ?ts - 4) ?ts) 2000"
      let ?f = "\<lambda>s. s\<lparr>cs_summary := Some ?m, cs_updated := now\<rparr>"
      have "policy_applied sm i s (touch_session i ?f (delete_turns (map ct_turn_id (take (length ?ts - 4) ?ts)) sm))"
        by (intro policy_drop [OF ok s _ keep])
           (auto simp: session_after_def check_session_def SUMMARY length_merge_summary split: if_splits)
      then show ?thesis using G SUMMARY ov False keep
        by (auto simp: apply_memory_policy_def Let_def policy_applied_def)
    qed
  qed
qed

text \<open>Appending a turn that is not older than the others.\<close>

lemma append_turn_spec:
  assumes ok: "sm_ok sm" and s: "map_of (sm_sessions sm) (ct_session_id t) = Some s"
    and role: "validate_role t = Inr t" and fresh: "ct_turn_id t \<notin> set (map ct_turn_id (sm_turns sm))"
    and newest: "\<forall>u\<in>set (sm_turns sm). ct_created u \<le> ct_created t"
  shows "\<exists>sm'. append_turn sm t now = Inr (t, sm') \<and> sm_ok sm'
     \<and> turns_of sm' (ct_session_id t) = keep_last (kept_turns s) (turns_of sm (ct_session_id t) @ [t])
     \<and> (\<forall>j. j \<noteq> ct_session_id t \<longrightarrow> turns_of sm' j = turns_of sm j
           \<and> map_of (sm_sessions sm') j = map_of (sm_sessions sm) j)
     \<and> (\<exists>s'. map_of (sm_sessions sm') (ct_session_id t) = Some s' \<and> session_after s s')"
proof -
  let ?i = "ct_session_id t"
  let ?f = "\<lambda>s. s\<lparr>cs_updated := ct_created t\<rparr>"
  define sm1 where "sm1 = touch_session ?i ?f (sm\<lparr>sm_turns := sm_turns sm @ [t]\<rparr>)"
  have "sm_ok (sm\<lparr>sm_turns := sm_turns sm @ [t]\<rparr>)" using ok role fresh by (auto simp: sm_ok_def)
  then have ok1: "sm_ok sm1" unfolding sm1_def
    by (rule touch_session_ok) (auto simp: check_session_def split: if_splits)
  have s1: "map_of (sm_sessions sm1) = (map_of (sm_sessions sm))(?i \<mapsto> ?f s)"
    using s by (simp add: sm1_def map_of_touch_session)
  have "turns_of sm1 ?i = turns_of sm ?i @ [t]"
    using newest by (simp add: sm1_def turns_of_def sort_key_snoc)
  moreover have "turns_of sm1 j = turns_of sm j" if "j \<noteq> ?i" for j
    using that by (simp add: sm1_def turns_of_def)
  moreover obtain rep sm2 where p: "apply_memory_policy sm1 ?i 4 8 2000 now = Inr (rep, sm2)" "policy_applied sm1 ?i (?f s) sm2"
    using policy_spec [OF ok1, of ?i "?f s" now] s1 by auto
  moreover have "append_turn sm t now = Inr (t, sm2)"
    using get_session_ok [OF ok s] role fresh ok p(1)
    by (simp add: append_turn_def lift_model_def with_connection_def sm_ok_def sm1_def)
  moreover have "kept_turns (?f s) = kept_turns s" by (cases "cs_strategy s") (simp_all add: kept_turns_def)
  moreover have "session_after (?f s) s' \<Longrightarrow> session_after s s'" for s'
    by (simp add: session_after_def)
  ultimately show ?thesis using s1 unfolding policy_applied_def by auto
qed

section \<open>Properties of the state manager\<close>



definition sample_event :: trace_event where
  "sample_event = \<lparr>ev_run_id = ''r'', ev_step_id = ''a'', ev_tool_name = ''t'', ev_type = QUEUED, ev_timestamp = 0,
     ev_attempt = 1, ev_arguments = None, ev_inputs = None, ev_output = None, ev_duration = None,
     ev_retry_delay = None, ev_error = None, ev_actor_id = None, ev_scopes = None, ev_operation = None\<rparr>"

definition sample_turn :: "string \<Rightarrow> conv_turn" where
  "sample_turn i = \<lparr>ct_turn_id = i, ct_session_id = ''s'', ct_role = ''user'', ct_content = ''hi'', ct_created = 1,
     ct_pointer_ids = [], ct_macro_run_id = None, ct_metadata = None\<rparr>"

definition sample_session :: conv_session where
  "sample_session = \<lparr>cs_session_id = ''s'', cs_created = 0, cs_updated = 0, cs_strategy = WINDOW,
     cs_window_limit = Some 1, cs_summary = None, cs_metadata = None\<rparr>"

definition sample_sm :: state_manager where
  "sample_sm = init_state_manager\<lparr>sm_sessions := [(''s'', sample_session)], sm_turns := [sample_turn ''t1'']\<rparr>"


lemma sample_sm_ok: "sm_ok sample_sm"
  by (simp add: sm_ok_def sample_sm_def init_state_manager_def sample_session_def sample_turn_def
      check_session_def validate_role_def split: if_splits)


end
