(* ===== verification/EAP_Token_Bucket.thy ===== *)
theory EAP_Token_Bucket
  imports EAP_Prelude
begin

text \<open>
  The token bucket of the executor, \<open>_AsyncTokenBucket\<close> in
  \<^verbatim>\<open>src/eap/environment/executor.py\<close>. One pass of the loop under the lock is \<open>bucket_try\<close>:
  it refills from the elapsed time and either takes a token or says how long to sleep. The
  source's floats are exact rationals here.
\<close>

record bucket =
  bk_rate :: rat
  bk_capacity :: rat
  bk_tokens :: rat
  bk_last :: rat

definition new_bucket :: "rat \<Rightarrow> int \<Rightarrow> rat \<Rightarrow> bucket" where
  "new_bucket rate capacity now = \<lparr>bk_rate = rate, bk_capacity = of_int capacity,
     bk_tokens = of_int capacity, bk_last = now\<rparr>"

definition bucket_refill :: "bucket \<Rightarrow> rat \<Rightarrow> bucket" where
  "bucket_refill b now = (let elapsed = now - bk_last b in
     if 0 < elapsed then b\<lparr>bk_tokens := min (bk_capacity b) (bk_tokens b + elapsed * bk_rate b), bk_last := now\<rparr>
     else b)"

definition bucket_try :: "bucket \<Rightarrow> rat \<Rightarrow> bucket \<times> rat option" where
  \<comment> \<open>\<open>None\<close>: a token was taken; \<open>Some w\<close>: sleep for \<open>w\<close> seconds and try again\<close>
  "bucket_try b now = (let b' = bucket_refill b now in
     if 1 \<le> bk_tokens b' then (b'\<lparr>bk_tokens := bk_tokens b' - 1\<rparr>, None)
     else (b', Some ((1 - bk_tokens b') / bk_rate b')))"

text \<open>The loop of a single caller: a pass at \<open>now\<close>, a sleep, and so on. The fuel bounds the passes.\<close>

fun bucket_acquire :: "nat \<Rightarrow> bucket \<Rightarrow> rat \<Rightarrow> rat \<Rightarrow> (bucket \<times> rat) option" where
  "bucket_acquire 0 b now waited = None"
| "bucket_acquire (Suc n) b now waited = (case bucket_try b now of
     (b', None) \<Rightarrow> Some (b', waited)
   | (b', Some w) \<Rightarrow> bucket_acquire n b' (now + w) (waited + w))"

section \<open>Bounds\<close>

definition bucket_ok :: "bucket \<Rightarrow> bool" where
  "bucket_ok b \<longleftrightarrow> 0 < bk_rate b \<and> 1 \<le> bk_capacity b \<and> 0 \<le> bk_tokens b \<and> bk_tokens b \<le> bk_capacity b"

lemma new_bucket_ok: "0 < rate \<Longrightarrow> 1 \<le> capacity \<Longrightarrow> bucket_ok (new_bucket rate capacity now)"
  by (simp add: bucket_ok_def new_bucket_def)

lemma bucket_refill_fields [simp]:
  "bk_rate (bucket_refill b now) = bk_rate b" "bk_capacity (bucket_refill b now) = bk_capacity b"
  by (simp_all add: bucket_refill_def Let_def)

lemma bucket_refill_ok: "bucket_ok b \<Longrightarrow> bucket_ok (bucket_refill b now)"
  by (auto simp: bucket_ok_def bucket_refill_def Let_def)

lemma bucket_try_ok: "bucket_ok b \<Longrightarrow> bucket_ok (fst (bucket_try b now))"
  using bucket_refill_ok [of b now] by (auto simp: bucket_try_def Let_def bucket_ok_def)

text \<open>The tokens granted over a sequence of attempts at non-decreasing times.\<close>

fun grants :: "bucket \<Rightarrow> rat list \<Rightarrow> nat" where
  "grants b [] = 0"
| "grants b (t # ts) = (case bucket_try b t of (b', None) \<Rightarrow> Suc (grants b' ts) | (b', Some _) \<Rightarrow> grants b' ts)"

lemma refill_bound:
  "bucket_ok b \<Longrightarrow> bk_last b \<le> t \<Longrightarrow>
     bk_tokens (bucket_refill b t) \<le> bk_tokens b + bk_rate b * (t - bk_last b) \<and> bk_last (bucket_refill b t) = t"
  by (auto simp: bucket_refill_def Let_def bucket_ok_def algebra_simps)

lemma grants_bound:
  assumes "bucket_ok b" and "sorted (bk_last b # ts)" and "\<forall>t\<in>set ts. t \<le> T" and "bk_last b \<le> T"
  shows "of_nat (grants b ts) \<le> bk_tokens b + bk_rate b * (T - bk_last b)"
  using assms
proof (induction ts arbitrary: b)
  case Nil
  then show ?case by (simp add: bucket_ok_def)
next
  case (Cons t ts)
  let ?b = "bucket_refill b t"
  have r: "bk_tokens ?b \<le> bk_tokens b + bk_rate b * (t - bk_last b)" "bk_last ?b = t"
    using refill_bound [OF Cons.prems(1), of t] Cons.prems(2) by simp_all
  have ok: "bucket_ok ?b" by (rule bucket_refill_ok [OF Cons.prems(1)])
  have split: "bk_rate b * (T - bk_last b) = bk_rate b * (t - bk_last b) + bk_rate b * (T - t)"
    by (simp add: algebra_simps)
  show ?case
  proof (cases "1 \<le> bk_tokens ?b")
    case True
    let ?b' = "?b\<lparr>bk_tokens := bk_tokens ?b - 1\<rparr>"
    have "bucket_ok ?b'" using ok True by (simp add: bucket_ok_def)
    then have "of_nat (grants ?b' ts) \<le> bk_tokens ?b' + bk_rate ?b' * (T - bk_last ?b')"
      using Cons.prems(2,3) r(2) by (intro Cons.IH) auto
    then show ?thesis using True r split by (simp add: bucket_try_def Let_def)
  next
    case False
    have "of_nat (grants ?b ts) \<le> bk_tokens ?b + bk_rate ?b * (T - bk_last ?b)"
      using Cons.prems(2,3) r(2) ok by (intro Cons.IH) auto
    then show ?thesis using False r split by (simp add: bucket_try_def Let_def)
  qed
qed

section \<open>Properties of the bucket\<close>


text \<open>A caller that is alone gets its token after at most one sleep: the loop of \<open>acquire\<close> ends
  in its second pass at the latest, and what it reports as waiting time is the time it slept.\<close>

theorem bucket_acquire_terminates:
  assumes "bucket_ok b" and "bk_last b \<le> now"
  shows "\<exists>b' w. bucket_acquire 2 b now 0 = Some (b', w) \<and> bucket_ok b' \<and> 0 \<le> w \<and> w * bk_rate b \<le> 1"
proof -
  let ?b = "bucket_refill b now"
  have ok: "bucket_ok ?b" by (rule bucket_refill_ok [OF assms(1)])
  have last: "bk_last ?b = now" using refill_bound [OF assms] by simp
  show ?thesis
  proof (cases "1 \<le> bk_tokens ?b")
    case True
    then show ?thesis using ok by (auto simp: numeral_2_eq_2 bucket_try_def Let_def bucket_ok_def)
  next
    case False
    let ?w = "(1 - bk_tokens ?b) / bk_rate b"
    have rate: "0 < bk_rate b" using assms(1) by (simp add: bucket_ok_def)
    then have w: "0 < ?w" "?w * bk_rate b = 1 - bk_tokens ?b" using False by simp_all
    have "bk_tokens (bucket_refill ?b (now + ?w)) = 1"
      using ok w last rate by (simp add: bucket_refill_def [of ?b] Let_def bucket_ok_def min_def)
    moreover have "bucket_ok (bucket_refill ?b (now + ?w))" by (rule bucket_refill_ok [OF ok])
    ultimately have "bucket_acquire 2 b now 0 = Some ((bucket_refill ?b (now + ?w))\<lparr>bk_tokens := 0\<rparr>, ?w)"
      using False by (simp add: numeral_2_eq_2 bucket_try_def [of b] bucket_try_def [of ?b] Let_def)
    moreover have "bucket_ok ((bucket_refill ?b (now + ?w))\<lparr>bk_tokens := 0\<rparr>)"
      using bucket_refill_ok [OF ok, of "now + ?w"] by (simp add: bucket_ok_def)
    ultimately show ?thesis using w ok by (auto simp: bucket_ok_def)
  qed
qed

definition sample_bucket :: bucket where "sample_bucket = new_bucket 2 1 0"


theorem bucket_acquire_terminates_witness:
  "\<exists>b' w. bucket_acquire 2 (sample_bucket\<lparr>bk_tokens := 0\<rparr>) 0 0 = Some (b', w) \<and> bucket_ok b' \<and> 0 \<le> w"
proof -
  have "bucket_ok (sample_bucket\<lparr>bk_tokens := 0\<rparr>)" "bk_last (sample_bucket\<lparr>bk_tokens := 0\<rparr>) \<le> 0"
    by (simp_all add: sample_bucket_def new_bucket_def bucket_ok_def)
  from bucket_acquire_terminates [OF this] show ?thesis by blast
qed

end
