(* ===== verification/EAP_Executor.thy ===== *)
theory EAP_Executor
  imports EAP_State_Manager EAP_Registry EAP_Safe_Eval EAP_Token_Bucket
begin

text \<open>
  The macro executor, \<open>AsyncLocalExecutor\<close> in \<^verbatim>\<open>src/eap/environment/executor.py\<close>. A run has one
  task per step; the tasks share the variables of \<open>execute_macro\<close>, which are the fields of
  \<open>run_state\<close>. Between two \<open>await\<close>s that can suspend, a task runs alone, so the code of
  \<open>run_step\<close> is cut at these points: the program counter \<open>pc\<close> says where a task is suspended
  and \<open>task_step\<close> runs it to the next point. The locks of the source guard sections without
  an \<open>await\<close> and never block. What a step reads from outside (the clock, the outcome of the
  tool) is its \<open>reading\<close>; \<open>macro_step\<close> lets any enabled task move, in any order. The order in
  which a semaphore wakes its waiters is left open.

  An exception leaves the effects made before it in place, so the straight-line code is
  written in a state and exception monad. The texts of the exceptions the executor raises
  itself are not modelled; those of tools are kept.
\<close>

section \<open>State\<close>

datatype exn_kind = IsInputValidation | IsKeyError | IsOther

record exn =
  ex_name :: string
  ex_kind :: exn_kind
  ex_message :: string

definition exn_of :: "exn_kind \<Rightarrow> string \<Rightarrow> exn" where
  "exn_of k name = \<lparr>ex_name = name, ex_kind = k, ex_message = []\<rparr>"

definition validation_exn :: exn where "validation_exn = exn_of IsInputValidation ''InputValidationError''"

definition key_exn :: exn where "key_exn = exn_of IsKeyError ''KeyError''"

datatype tool_outcome = Returned pyval | Raised exn

record reading =
  rd_now :: int
  rd_elapsed :: rat
  rd_outcome :: tool_outcome

text \<open>What the loop over attempts carries: the resolved arguments, the pointers they came from, the
  attempt, the next delay and the time the step started.\<close>

record call =
  cl_args :: "(string, pyval) dict"
  cl_inputs :: "(string, string) dict"
  cl_attempt :: int
  cl_delay :: rat
  cl_started :: rat
  cl_wait_from :: rat
  cl_limited :: bool

datatype pc =
    Fresh
  | AwaitControllers rat
  | Resolving rat string
  | WantGlobal call
  | WantTool call
  | WantGlobalRate call rat rat
  | WantToolRate call rat rat
  | Running call
  | Backoff call rat
  | Finished pointer_response
  | Crashed exn

record wait_metric =
  wm_count :: int
  wm_seconds :: rat

record saturation =
  sa_global_concurrency :: wait_metric
  sa_tool_concurrency :: wait_metric
  sa_global_rate :: wait_metric
  sa_tool_rate :: wait_metric
  sa_inflight :: int
  sa_max_inflight :: int
  sa_inflight_tool :: "(string, int) dict"
  sa_max_inflight_tool :: "(string, int) dict"
  sa_rate_limited :: int

record run_state =
  rs_sm :: state_manager
  rs_minted :: nat
  rs_clock :: rat
  rs_futures :: "(string, string) dict"
  rs_status :: "(string, step_state) dict"
  rs_contexts :: "(string, pyval) dict"
  rs_decisions :: "(string, string list) dict"
  rs_early :: bool
  rs_replayed :: "string list"
  rs_global :: int
  rs_tool_sem :: "(string, int) dict"
  rs_bucket :: "bucket option"
  rs_tool_buckets :: "(string, bucket) dict"
  rs_metrics :: saturation
  rs_pcs :: "pc list"

record exec_env =
  xe_py :: py_env
  xe_lib :: schema_lib
  xe_registry :: "unit registry"
  xe_parse :: "string \<Rightarrow> expr option"
  xe_ident :: "ev \<Rightarrow> ev \<Rightarrow> bool"
  xe_mint :: "nat \<Rightarrow> string"
  xe_run_id :: string
  xe_started :: int
  xe_macro :: macro_request
  xe_limits :: exec_limits
  xe_actor :: "(string, pyval) dict"

section \<open>Tasks\<close>

type_synonym 'a task = "run_state \<Rightarrow> (exn + 'a) \<times> run_state"

definition retT :: "'a \<Rightarrow> 'a task" where "retT x s = (Inr x, s)"

definition raiseT :: "exn \<Rightarrow> 'a task" where "raiseT e s = (Inl e, s)"

definition bindT :: "'a task \<Rightarrow> ('a \<Rightarrow> 'b task) \<Rightarrow> 'b task" where
  "bindT m f s = (case m s of (Inl e, s') \<Rightarrow> (Inl e, s') | (Inr x, s') \<Rightarrow> f x s')"

definition tryT :: "'a task \<Rightarrow> (exn \<Rightarrow> 'a task) \<Rightarrow> 'a task" where
  "tryT m h s = (case m s of (Inl e, s') \<Rightarrow> h e s' | (Inr x, s') \<Rightarrow> (Inr x, s'))"

definition readT :: "(run_state \<Rightarrow> 'a) \<Rightarrow> 'a task" where "readT f s = (Inr (f s), s)"

definition modifyT :: "(run_state \<Rightarrow> run_state) \<Rightarrow> unit task" where "modifyT f s = (Inr (), f s)"

definition liftT :: "exn + 'a \<Rightarrow> 'a task" where "liftT r s = (r, s)"

fun sm_exn :: "sm_error \<Rightarrow> exn" where
  "sm_exn (SmStore (PointerMissing i)) = key_exn"
| "sm_exn (SmStore (DuplicatePointer i)) = exn_of IsOther ''IntegrityError''"
| "sm_exn (SmStore StoreClosed) = exn_of IsOther ''RuntimeError''"
| "sm_exn (SmStore BadLimit) = exn_of IsOther ''ValueError''"
| "sm_exn (SmStore BackendError) = exn_of IsOther ''ResponseError''"
| "sm_exn SmClosed = exn_of IsOther ''RuntimeError''"
| "sm_exn (NoPointer i) = key_exn"
| "sm_exn (NoCheckpoint i) = key_exn"
| "sm_exn (NoSummary i) = key_exn"
| "sm_exn (NoDiagnostics i) = key_exn"
| "sm_exn (NoSession i) = key_exn"
| "sm_exn BadTtl = exn_of IsOther ''ValueError''"
| "sm_exn (Integrity i) = exn_of IsOther ''IntegrityError''"
| "sm_exn (SmModel e) = exn_of IsOther ''ValidationError''"

fun registry_exn :: "registry_error \<Rightarrow> exn" where
  "registry_exn (UnknownTool t) = exn_of IsOther ''ValueError''"
| "registry_exn (RegistryKey t) = key_exn"
| "registry_exn PyTypeError = exn_of IsOther ''TypeError''"
| "registry_exn PyAttributeError = exn_of IsOther ''AttributeError''"
| "registry_exn _ = validation_exn"

definition liftE :: "('e \<Rightarrow> exn) \<Rightarrow> 'e + 'a \<Rightarrow> 'a task" where
  "liftE f r s = (case r of Inl e \<Rightarrow> (Inl (f e), s) | Inr x \<Rightarrow> (Inr x, s))"

definition on_sm :: "(state_manager \<Rightarrow> sm_error + 'a \<times> state_manager) \<Rightarrow> 'a task" where
  "on_sm f s = (case f (rs_sm s) of Inl e \<Rightarrow> (Inl (sm_exn e), s) | Inr (x, sm) \<Rightarrow> (Inr x, s\<lparr>rs_sm := sm\<rparr>))"

section \<open>Reading a macro\<close>

definition step_at :: "exec_env \<Rightarrow> nat \<Rightarrow> tool_call" where
  "step_at env i = mr_steps (xe_macro env) ! i"

abbreviation sid :: "exec_env \<Rightarrow> nat \<Rightarrow> string" where
  "sid env i \<equiv> tc_step_id (step_at env i)"

definition branch_controllers :: "macro_request \<Rightarrow> string \<Rightarrow> string list" where
  "branch_controllers m target = remdups (concat (map (\<lambda>step. case tc_branching step of None \<Rightarrow> []
     | Some b \<Rightarrow> if target \<in> set (branch_targets b) then [tc_step_id step] else []) (mr_steps m)))"

definition resolved_tool_name :: "exec_env \<Rightarrow> tool_call \<Rightarrow> string" where
  "resolved_tool_name env step = (case get_schema (xe_registry env) (tc_tool_name step) of
     Inl _ \<Rightarrow> tc_tool_name step
   | Inr schema \<Rightarrow> (case py_get schema ''name'' of PStr n \<Rightarrow> n | _ \<Rightarrow> tc_tool_name step))"

definition tool_limit_key :: "exec_env \<Rightarrow> tool_call \<Rightarrow> string option" where
  "tool_limit_key env step = (let per_tool = el_per_tool (xe_limits env); resolved = resolved_tool_name env step in
     if dict_has per_tool resolved then Some resolved
     else if dict_has per_tool (tc_tool_name step) then Some (tc_tool_name step) else None)"

definition tool_slot_key :: "exec_env \<Rightarrow> tool_call \<Rightarrow> string option" where
  \<comment> \<open>the key of the tool's semaphore, if it has one\<close>
  "tool_slot_key env step = (case tool_limit_key env step of None \<Rightarrow> None
     | Some k \<Rightarrow> (case map_of (el_per_tool (xe_limits env)) k of None \<Rightarrow> None
         | Some l \<Rightarrow> if tl_max_concurrency l = None then None else Some k))"

section \<open>Events, pointers and checkpoints\<close>

fun str_of :: "pyval \<Rightarrow> string option" where
  "str_of (PStr s) = Some s"
| "str_of _ = None"

definition actor_scopes :: "exec_env \<Rightarrow> string list option" where
  \<comment> \<open>the normalised scopes, \<open>None\<close> instead of an empty list\<close>
  "actor_scopes env = (case dict_get_or (xe_actor env) ''actor_scopes'' PNone of
     PList vs \<Rightarrow> if vs = [] then None else Some (List.map_filter str_of vs) | _ \<Rightarrow> None)"

definition base_event :: "exec_env \<Rightarrow> reading \<Rightarrow> tool_call \<Rightarrow> event_type \<Rightarrow> trace_event" where
  "base_event env rd step ty = \<lparr>ev_run_id = xe_run_id env, ev_step_id = tc_step_id step,
     ev_tool_name = tc_tool_name step, ev_type = ty, ev_timestamp = rd_now rd, ev_attempt = 1,
     ev_arguments = None, ev_inputs = None, ev_output = None, ev_duration = None, ev_retry_delay = None,
     ev_error = None, ev_actor_id = str_of (dict_get_or (xe_actor env) ''actor_id'' PNone),
     ev_scopes = actor_scopes env, ev_operation = str_of (dict_get_or (xe_actor env) ''operation'' PNone)\<rparr>"

definition emit :: "trace_event \<Rightarrow> unit task" where
  "emit e = bindT (liftE (\<lambda>_. exn_of IsOther ''ValidationError'') (make_event e)) (\<lambda>e'.
     on_sm (\<lambda>sm. bindR (append_trace_event sm e') (\<lambda>sm'. Inr ((), sm'))))"

definition pointer_metadata :: "exec_env \<Rightarrow> (string, pyval) dict \<Rightarrow> (string, pyval) dict" where
  "pointer_metadata env extra = foldl (\<lambda>d p. AList.update (fst p) (snd p) d)
     [(''execution_run_id'', PStr (xe_run_id env)),
      (''actor_id'', dict_get_or (xe_actor env) ''actor_id'' PNone),
      (''owner_actor_id'', dict_get_or (xe_actor env) ''owner_actor_id'' PNone)] extra"

definition put_pointer :: "exec_env \<Rightarrow> reading \<Rightarrow> pyval \<Rightarrow> string \<Rightarrow> (string, pyval) dict \<Rightarrow> pointer_response task" where
  "put_pointer env rd raw summary extra =
     bindT (readT rs_minted) (\<lambda>n. bindT (modifyT (\<lambda>s. s\<lparr>rs_minted := Suc n\<rparr>)) (\<lambda>_.
       on_sm (\<lambda>sm. store_and_point (xe_py env) sm (xe_mint env n) (rd_now rd) raw summary
         (pointer_metadata env extra) PNone)))"

fun outcome_name :: "step_outcome \<Rightarrow> string" where
  "outcome_name OK = ''ok''"
| "outcome_name ERROR = ''error''"
| "outcome_name SKIPPED = ''skipped''"
| "outcome_name REJECTED_STEP = ''rejected''"
| "outcome_name PAUSED = ''paused''"

definition context_entry :: "string \<Rightarrow> (string, pyval) dict option \<Rightarrow> pyval \<Rightarrow> step_outcome \<Rightarrow> pyval" where
  "context_entry pointer_id metadata raw status = PDict [(''pointer_id'', PStr pointer_id),
     (''metadata'', case metadata of None \<Rightarrow> PNone | Some d \<Rightarrow> PDict d), (''raw_data'', raw),
     (''status'', PStr (outcome_name status))]"

definition record_step :: "string \<Rightarrow> pointer_response \<Rightarrow> pyval \<Rightarrow> step_outcome \<Rightarrow> unit task" where
  \<comment> \<open>\<open>step_status[step_id] = \<dots>; step_contexts[step_id] = \<dots>\<close>\<close>
  "record_step i p raw status = modifyT (\<lambda>s. s\<lparr>
     rs_status := AList.update i \<lparr>ss_status = status, ss_pointer = pr_pointer_id p\<rparr> (rs_status s),
     rs_contexts := AList.update i (context_entry (pr_pointer_id p) (pr_metadata p) raw status) (rs_contexts s)\<rparr>)"

definition clear_decision :: "tool_call \<Rightarrow> unit task" where
  \<comment> \<open>\<open>if step.branching: branch_decisions[step_id] = set()\<close>\<close>
  "clear_decision step = (if tc_branching step = None then retT ()
     else modifyT (\<lambda>s. s\<lparr>rs_decisions := AList.update (tc_step_id step) [] (rs_decisions s)\<rparr>))"

definition set_future :: "string \<Rightarrow> string \<Rightarrow> unit task" where
  \<comment> \<open>\<open>if not done(): set_result(\<dots>)\<close>\<close>
  "set_future i p = modifyT (\<lambda>s. if dict_has (rs_futures s) i then s
     else s\<lparr>rs_futures := AList.update i p (rs_futures s)\<rparr>)"

definition checkpoint_of :: "exec_env \<Rightarrow> run_state \<Rightarrow> string \<Rightarrow> string option \<Rightarrow> checkpoint" where
  "checkpoint_of env s status final = \<lparr>ck_started = xe_started env, ck_updated = 0, ck_status = status,
     ck_macro = xe_macro env, ck_steps = rs_status s,
     ck_decisions = map (\<lambda>p. (fst p, py_sorted_set (snd p))) (rs_decisions s),
     ck_final = final, ck_actor = Some (xe_actor env)\<rparr>"

definition persist_checkpoint :: "exec_env \<Rightarrow> reading \<Rightarrow> string \<Rightarrow> string option \<Rightarrow> unit task" where
  "persist_checkpoint env rd status final = bindT (readT (\<lambda>s. checkpoint_of env s status final)) (\<lambda>c.
     on_sm (\<lambda>sm. bindR (upsert_run_checkpoint sm (xe_run_id env) c (rd_now rd)) (\<lambda>sm'. Inr ((), sm'))))"

section \<open>Branch conditions\<close>

definition is_word_char :: "char \<Rightarrow> bool" where
  \<comment> \<open>\<^verbatim>\<open>\w\<close> on the code points below 256\<close>
  "is_word_char c = (let n = (of_char c :: nat) in
     (48 \<le> n \<and> n \<le> 57) \<or> (65 \<le> n \<and> n \<le> 90) \<or> (97 \<le> n \<and> n \<le> 122) \<or> n = 95
     \<or> n \<in> {170, 178, 179, 181, 185, 186, 188, 189, 190} \<or> (192 \<le> n \<and> n \<noteq> 215 \<and> n \<noteq> 247))"

fun sub_words :: "(string \<Rightarrow> string) \<Rightarrow> string \<Rightarrow> string \<Rightarrow> string" where
  \<comment> \<open>\<^verbatim>\<open>re.sub(r"\bword\b", \<dots>)\<close>: a match is a maximal run of word characters\<close>
  "sub_words f acc [] = f (rev acc)"
| "sub_words f acc (c # cs) = (if is_word_char c then sub_words f (c # acc) cs
     else f (rev acc) @ c # sub_words f [] cs)"

definition replace_reference :: "exec_env \<Rightarrow> run_state \<Rightarrow> ref_piece \<Rightarrow> string" where
  "replace_reference env s p = (case p of Lit c \<Rightarrow> [c]
     | Ref name path \<Rightarrow> (let v = dict_get_or (rs_contexts s) name PNone in
         py_repr (pe_float (xe_py env)) (case path of None \<Rightarrow> v | Some q \<Rightarrow> py_walk v (py_split (CHR ''.'') q))))"

fun condition_exn :: "unsafe_error \<Rightarrow> exn" where
  "condition_exn UnhashableType = exn_of IsOther ''TypeError''"
| "condition_exn StringMembership = exn_of IsOther ''TypeError''"
| "condition_exn _ = validation_exn"

definition evaluate_branch_condition :: "exec_env \<Rightarrow> run_state \<Rightarrow> string \<Rightarrow> exn + bool" where
  "evaluate_branch_condition env s condition =
     (let replaced = concat (map (replace_reference env s) (ref_pieces condition));
          replaced = sub_words (\<lambda>w. if py_lower w = ''true'' then ''True'' else w) [] replaced;
          replaced = sub_words (\<lambda>w. if py_lower w = ''false'' then ''False'' else w) [] replaced
      in case evaluate_safe_expression (xe_parse env) (xe_ident env) replaced of
           Inl e \<Rightarrow> Inl (condition_exn e) | Inr b \<Rightarrow> Inr b)"

definition select_targets :: "tool_call \<Rightarrow> branching_rule \<Rightarrow> string list \<Rightarrow> unit task" where
  "select_targets step b targets = modifyT (\<lambda>s. s\<lparr>
     rs_decisions := AList.update (tc_step_id step) (remdups targets) (rs_decisions s),
     rs_early := (rs_early s \<or> br_allow_early_exit b \<and> targets = [])\<rparr>)"

definition resolve_branch_targets :: "exec_env \<Rightarrow> tool_call \<Rightarrow> bool \<Rightarrow> unit task" where
  \<comment> \<open>\<open>True\<close> for status \<open>ok\<close>, \<open>False\<close> for \<open>error\<close>\<close>
  "resolve_branch_targets env step ok = (case tc_branching step of None \<Rightarrow> retT ()
     | Some b \<Rightarrow> if \<not> ok then select_targets step b (br_fallback b)
         else bindT (readT (\<lambda>s. evaluate_branch_condition env s (br_condition b))) (\<lambda>r.
              bindT (liftT r) (\<lambda>c. select_targets step b (if c then br_true b else br_false b))))"

section \<open>Argument resolution\<close>

datatype 'a resolution = Blocked string | Unresolved exn | Resolved 'a

fun bindV :: "'a resolution \<Rightarrow> ('a \<Rightarrow> 'b resolution) \<Rightarrow> 'b resolution" where
  "bindV (Blocked r) f = Blocked r"
| "bindV (Unresolved e) f = Unresolved e"
| "bindV (Resolved x) f = f x"

definition after_char :: "char \<Rightarrow> string \<Rightarrow> string" where
  "after_char c s = drop (Suc (length (before_char c s))) s"

definition reference_payload :: "string \<Rightarrow> string" where
  "reference_payload v = (if startswith v ''$step:'' then drop 6 v else drop 1 v)"

definition reference_target :: "string \<Rightarrow> string" where
  "reference_target v = before_char (CHR ''.'') (reference_payload v)"

definition resolve_step_reference :: "exec_env \<Rightarrow> run_state \<Rightarrow> string \<Rightarrow> string \<Rightarrow> (string, string) dict
    \<Rightarrow> (pyval \<times> (string, string) dict) resolution" where
  "resolve_step_reference env s ref_value argument_key inputs =
     (let target = reference_target ref_value; path = after_char (CHR ''.'') (reference_payload ref_value) in
      if target \<notin> set (step_ids (xe_macro env)) then Unresolved key_exn
      else case map_of (rs_futures s) target of None \<Rightarrow> Blocked target
      | Some pointer_id \<Rightarrow>
          if map_option ss_status (map_of (rs_status s) target) \<noteq> Some OK then Unresolved key_exn
          else case sm_retrieve (rs_sm s) pointer_id of Inl e \<Rightarrow> Unresolved (sm_exn e)
            | Inr v \<Rightarrow> Resolved (py_walk v (if path = [] then [] else py_split (CHR ''.'') path),
                         AList.update argument_key pointer_id inputs))"

function (sequential) resolve_value :: "exec_env \<Rightarrow> run_state \<Rightarrow> int \<Rightarrow> string \<Rightarrow> pyval \<Rightarrow> (string, string) dict
        \<Rightarrow> (pyval \<times> (string, string) dict) resolution"
  and resolve_dict :: "exec_env \<Rightarrow> run_state \<Rightarrow> int \<Rightarrow> string \<Rightarrow> (string, pyval) dict \<Rightarrow> (string, string) dict
        \<Rightarrow> ((string, pyval) dict \<times> (string, string) dict) resolution"
  and resolve_list :: "exec_env \<Rightarrow> run_state \<Rightarrow> int \<Rightarrow> string \<Rightarrow> nat \<Rightarrow> pyval list \<Rightarrow> (string, string) dict
        \<Rightarrow> (pyval list \<times> (string, string) dict) resolution" where
  "resolve_value env s depth key v inputs =
     (if el_max_depth (xe_limits env) < depth then Unresolved validation_exn
      else case v of
        PStr t \<Rightarrow> if startswith t ''$'' then resolve_step_reference env s t key inputs
                  else if startswith t ''ptr_'' then
                    (case sm_retrieve (rs_sm s) t of Inl e \<Rightarrow> Unresolved (sm_exn e)
                     | Inr w \<Rightarrow> Resolved (w, AList.update key t inputs))
                  else Resolved (v, inputs)
      | PDict d \<Rightarrow> bindV (resolve_dict env s (depth + 1) key d inputs) (\<lambda>(d', inputs'). Resolved (PDict d', inputs'))
      | PList xs \<Rightarrow> bindV (resolve_list env s (depth + 1) key 0 xs inputs) (\<lambda>(xs', inputs'). Resolved (PList xs', inputs'))
      | _ \<Rightarrow> Resolved (v, inputs))"
| "resolve_dict env s depth key [] inputs = Resolved ([], inputs)"
| "resolve_dict env s depth key ((k, v) # d) inputs =
     bindV (resolve_value env s depth (key @ ''.'' @ k) v inputs) (\<lambda>(w, inputs').
     bindV (resolve_dict env s depth key d inputs') (\<lambda>(d', inputs''). Resolved ((k, w) # d', inputs'')))"
| "resolve_list env s depth key n [] inputs = Resolved ([], inputs)"
| "resolve_list env s depth key n (v # xs) inputs =
     bindV (resolve_value env s depth (key @ ''['' @ digits n @ '']'') v inputs) (\<lambda>(w, inputs').
     bindV (resolve_list env s depth key (Suc n) xs inputs') (\<lambda>(ws, inputs''). Resolved (w # ws, inputs'')))"
  by pat_completeness auto

termination
  by (relation "measure (\<lambda>x. case x of
        Inl (_, _, _, _, v, _) \<Rightarrow> size v
      | Inr (Inl (_, _, _, _, d, _)) \<Rightarrow> size_list (size_prod (\<lambda>_. 0) size) d
      | Inr (Inr (_, _, _, _, _, xs, _)) \<Rightarrow> size_list size xs)") auto

declare resolve_value.simps [simp del]

fun resolve_arguments :: "exec_env \<Rightarrow> run_state \<Rightarrow> (string, pyval) dict \<Rightarrow> (string, string) dict
    \<Rightarrow> ((string, pyval) dict \<times> (string, string) dict) resolution" where
  "resolve_arguments env s [] inputs = Resolved ([], inputs)"
| "resolve_arguments env s ((k, v) # args) inputs =
     bindV (resolve_value env s 0 k v inputs) (\<lambda>(w, inputs').
     bindV (resolve_arguments env s args inputs') (\<lambda>(ws, inputs''). Resolved ((k, w) # ws, inputs'')))"

section \<open>Straight-line parts of run\_step\<close>

definition error_payload :: "string \<Rightarrow> string \<Rightarrow> tool_call \<Rightarrow> (string, pyval) dict \<Rightarrow> tool_error_payload" where
  "error_payload error_type message step details = \<lparr>te_error_type = error_type, te_message = message,
     te_step_id = tc_step_id step, te_tool_name = tc_tool_name step, te_details = Some details\<rparr>"

definition payload_value :: "tool_error_payload \<Rightarrow> pyval" where
  \<comment> \<open>\<open>model_dump()\<close>\<close>
  "payload_value p = PDict [(''error_type'', PStr (te_error_type p)), (''message'', PStr (te_message p)),
     (''step_id'', PStr (te_step_id p)), (''tool_name'', PStr (te_tool_name p)),
     (''details'', case te_details p of None \<Rightarrow> PNone | Some d \<Rightarrow> PDict d)]"

definition conclude :: "exec_env \<Rightarrow> reading \<Rightarrow> tool_call \<Rightarrow> pointer_response \<Rightarrow> pc task" where
  \<comment> \<open>resolve the future, write the checkpoint, return the pointer\<close>
  "conclude env rd step p = bindT (set_future (tc_step_id step) (pr_pointer_id p)) (\<lambda>_.
     bindT (persist_checkpoint env rd ''active'' None) (\<lambda>_. retT (Finished p)))"

definition skip_step :: "exec_env \<Rightarrow> reading \<Rightarrow> tool_call \<Rightarrow> string \<Rightarrow> (string, pyval) dict \<Rightarrow> pc task" where
  "skip_step env rd step reason extra =
     (let raw = PDict ([(''status'', PStr ''skipped''), (''reason'', PStr reason), (''step_id'', PStr (tc_step_id step))] @ extra) in
      bindT (put_pointer env rd raw (''Step '' @ tc_step_id step @ '' skipped ('' @ map (\<lambda>c. if c = CHR ''_'' then CHR '' '' else c) reason @ '').'')
          [(''status'', PStr ''skipped''), (''reason'', PStr reason)]) (\<lambda>p.
      bindT (record_step (tc_step_id step) p raw SKIPPED) (\<lambda>_.
      bindT (clear_decision step) (\<lambda>_. conclude env rd step p))))"

definition approval_prompt :: "tool_call \<Rightarrow> pyval" where
  "approval_prompt step = (case tc_approval step of None \<Rightarrow> PNone
     | Some a \<Rightarrow> (case ac_prompt a of None \<Rightarrow> PNone | Some t \<Rightarrow> PStr t))"

definition pause_step :: "exec_env \<Rightarrow> reading \<Rightarrow> tool_call \<Rightarrow> pc task" where
  "pause_step env rd step =
     (let raw = PDict [(''status'', PStr ''paused''), (''reason'', PStr ''awaiting_approval''),
        (''step_id'', PStr (tc_step_id step)), (''approval_prompt'', approval_prompt step)] in
      bindT (put_pointer env rd raw (''Step '' @ tc_step_id step @ '' paused awaiting approval.'')
          [(''status'', PStr ''paused''), (''reason'', PStr ''awaiting_approval''),
           (''approval_prompt'', approval_prompt step)]) (\<lambda>p.
      bindT (record_step (tc_step_id step) p raw PAUSED) (\<lambda>_.
      bindT (clear_decision step) (\<lambda>_. conclude env rd step p))))"

definition reject_step :: "exec_env \<Rightarrow> reading \<Rightarrow> tool_call \<Rightarrow> approval_decision \<Rightarrow> pc task" where
  "reject_step env rd step d =
     (let reason = (case ad_reason d of None \<Rightarrow> ''Rejected by reviewer.'' | Some r \<Rightarrow> if r = [] then ''Rejected by reviewer.'' else r);
          err = error_payload ''approval_rejected'' reason step [(''approval_prompt'', approval_prompt step)] in
      bindT (emit ((base_event env rd step REJECTED)\<lparr>ev_error := Some err\<rparr>)) (\<lambda>_.
      bindT (put_pointer env rd (payload_value err) (''Step '' @ tc_step_id step @ '' rejected at approval checkpoint.'')
          [(''status'', PStr ''rejected''), (''error_type'', PStr ''approval_rejected'')]) (\<lambda>p.
      bindT (record_step (tc_step_id step) p (payload_value err) REJECTED_STEP) (\<lambda>_.
      bindT (resolve_branch_targets env step False) (\<lambda>_. conclude env rd step p)))))"

definition prepare_call :: "exec_env \<Rightarrow> tool_call \<Rightarrow> rat \<Rightarrow> pc task" where
  \<comment> \<open>resolve the arguments, validate them, look the tool up; or wait for a reference\<close>
  "prepare_call env step started =
     bindT (readT (\<lambda>s. resolve_arguments env s (tc_arguments step) [])) (\<lambda>r. case r of
       Blocked ref \<Rightarrow> retT (Resolving started ref)
     | Unresolved e \<Rightarrow> raiseT e
     | Resolved (args, inputs) \<Rightarrow>
         bindT (liftE registry_exn (validate_arguments (xe_lib env) (xe_registry env) (tc_tool_name step) args)) (\<lambda>_.
         bindT (liftE registry_exn (get_tool (xe_registry env) (tc_tool_name step))) (\<lambda>_.
         bindT (readT rs_clock) (\<lambda>t. retT (WantGlobal \<lparr>cl_args = args, cl_inputs = inputs, cl_attempt = 1,
           cl_delay = rp_initial_delay (mr_retry (xe_macro env)), cl_started = started,
           cl_wait_from = t, cl_limited = False\<rparr>)))))"

definition gate :: "exec_env \<Rightarrow> reading \<Rightarrow> tool_call \<Rightarrow> rat \<Rightarrow> pc task" where
  \<comment> \<open>early exit and approval, then the arguments\<close>
  "gate env rd step started = bindT (readT rs_early) (\<lambda>early.
     if early then skip_step env rd step ''early_exit'' []
     else if requires_approval step then
       bindT (emit (base_event env rd step APPROVAL_REQUIRED)) (\<lambda>_.
         case map_of (mr_approvals (xe_macro env)) (tc_step_id step) of
           None \<Rightarrow> pause_step env rd step
         | Some d \<Rightarrow> if ad_decision d = REJECT then reject_step env rd step d
             else bindT (emit (base_event env rd step APPROVED)) (\<lambda>_. prepare_call env step started))
     else prepare_call env step started)"

definition is_activated :: "exec_env \<Rightarrow> run_state \<Rightarrow> string \<Rightarrow> bool" where
  "is_activated env s i = list_ex (\<lambda>c. i \<in> set (dict_get_or (rs_decisions s) c []))
     (branch_controllers (xe_macro env) i)"

definition after_controllers :: "exec_env \<Rightarrow> reading \<Rightarrow> tool_call \<Rightarrow> rat \<Rightarrow> pc task" where
  "after_controllers env rd step started =
     bindT (readT (\<lambda>s. is_activated env s (tc_step_id step))) (\<lambda>active.
       if \<not> active then skip_step env rd step ''branch_not_selected''
         [(''controllers'', PList (map PStr (py_sorted_set (branch_controllers (xe_macro env) (tc_step_id step)))))]
       else gate env rd step started)"

fun error_type_of :: "exn_kind \<Rightarrow> string" where
  "error_type_of IsInputValidation = ''validation_error''"
| "error_type_of IsKeyError = ''dependency_error''"
| "error_type_of IsOther = ''tool_execution_error''"

definition fail_step :: "exec_env \<Rightarrow> reading \<Rightarrow> tool_call \<Rightarrow> rat \<Rightarrow> int \<Rightarrow> exn \<Rightarrow> pc task" where
  \<comment> \<open>the handler around the body of \<open>run_step\<close>\<close>
  "fail_step env rd step started attempts e =
     (let error_type = error_type_of (ex_kind e);
          err = error_payload error_type (ex_message e) step [(''attempts'', PInt attempts)] in
      bindT (readT rs_clock) (\<lambda>t.
      bindT (emit ((base_event env rd step FAILED)\<lparr>ev_attempt := max 1 attempts, ev_error := Some err,
          ev_duration := Some (py_round 3 ((t - started) * 1000))\<rparr>)) (\<lambda>_.
      bindT (put_pointer env rd (payload_value err) (''Step '' @ tc_step_id step @ '' failed with '' @ error_type @ ''.'')
          [(''status'', PStr ''error''), (''error_type'', PStr error_type)]) (\<lambda>p.
      bindT (record_step (tc_step_id step) p (payload_value err) ERROR) (\<lambda>_.
      bindT (resolve_branch_targets env step False) (\<lambda>_. conclude env rd step p))))))"

definition complete_step :: "exec_env \<Rightarrow> reading \<Rightarrow> tool_call \<Rightarrow> call \<Rightarrow> pyval \<Rightarrow> pc task" where
  "complete_step env rd step c raw =
     bindT (put_pointer env rd raw (''Completed step '' @ tc_step_id step @ '' successfully.'')
        [(''step_id'', PStr (tc_step_id step))]) (\<lambda>p.
     bindT (readT rs_clock) (\<lambda>t.
     bindT (record_step (tc_step_id step) p raw OK) (\<lambda>_.
     bindT (resolve_branch_targets env step True) (\<lambda>_.
     bindT (emit ((base_event env rd step COMPLETED)\<lparr>ev_attempt := cl_attempt c, ev_arguments := Some (cl_args c),
        ev_inputs := (if cl_inputs c = [] then None else Some (cl_inputs c)), ev_output := Some (pr_pointer_id p),
        ev_duration := Some (py_round 3 ((t - cl_started c) * 1000))\<rparr>)) (\<lambda>_. conclude env rd step p)))))"

section \<open>Starting a step\<close>

definition hydrate_pointer_response :: "exec_env \<Rightarrow> reading \<Rightarrow> string \<Rightarrow> string \<Rightarrow> pointer_response task" where
  "hydrate_pointer_response env rd pointer_id i =
     bindT (readT (\<lambda>s. map_option ss_status (map_of (rs_status s) i))) (\<lambda>status.
     let meta = Some [(''status'', case status of None \<Rightarrow> PNone | Some st \<Rightarrow> PStr (outcome_name st))] in
     if pointer_id = [] then retT \<lparr>pr_pointer_id = [],
         pr_summary = ''Step '' @ i @ '' recovered from checkpoint.'', pr_metadata = meta\<rparr>
     else bindT (on_sm (\<lambda>sm. bindR (sm_list_pointers sm True (rd_now rd) None) (\<lambda>l. Inr (l, sm)))) (\<lambda>infos.
       case find (\<lambda>x. pi_id x = pointer_id) infos of
         None \<Rightarrow> retT \<lparr>pr_pointer_id = pointer_id,
           pr_summary = ''Recovered pointer '' @ pointer_id @ '' for step '' @ i @ ''.'', pr_metadata = meta\<rparr>
       | Some x \<Rightarrow> retT \<lparr>pr_pointer_id = pointer_id, pr_summary = pi_summary x, pr_metadata = Some (pi_meta x)\<rparr>))"

definition replayable :: "step_state option \<Rightarrow> bool" where
  \<comment> \<open>a recorded final status with a pointer\<close>
  "replayable st = (case st of None \<Rightarrow> False | Some x \<Rightarrow> ss_status x \<noteq> PAUSED \<and> ss_pointer x \<noteq> [])"

definition replay_step :: "exec_env \<Rightarrow> reading \<Rightarrow> tool_call \<Rightarrow> string \<Rightarrow> pc task" where
  "replay_step env rd step pointer_id =
     bindT (set_future (tc_step_id step) pointer_id) (\<lambda>_.
     bindT (modifyT (\<lambda>s. s\<lparr>rs_replayed := List.insert (tc_step_id step) (rs_replayed s)\<rparr>)) (\<lambda>_.
     bindT (emit ((base_event env rd step REPLAYED)\<lparr>ev_output := Some pointer_id\<rparr>)) (\<lambda>_.
     bindT (hydrate_pointer_response env rd pointer_id (tc_step_id step)) (\<lambda>p. retT (Finished p)))))"

definition start_step :: "exec_env \<Rightarrow> reading \<Rightarrow> tool_call \<Rightarrow> pc task" where
  "start_step env rd step =
     bindT (readT (\<lambda>s. map_of (rs_status s) (tc_step_id step))) (\<lambda>existing.
     if replayable existing then replay_step env rd step (ss_pointer (the existing))
     else bindT (emit (base_event env rd step QUEUED)) (\<lambda>_. bindT (readT rs_clock) (\<lambda>started.
       if branch_controllers (xe_macro env) (tc_step_id step) \<noteq> [] then retT (AwaitControllers started)
       else tryT (gate env rd step started) (fail_step env rd step started 0))))"

section \<open>Slots and waiting times\<close>

definition record_wait :: "(saturation \<Rightarrow> wait_metric) \<Rightarrow> ((wait_metric \<Rightarrow> wait_metric) \<Rightarrow> saturation \<Rightarrow> saturation)
    \<Rightarrow> rat \<Rightarrow> run_state \<Rightarrow> run_state" where
  "record_wait get upd waited s = (if waited \<le> 0 then s
     else s\<lparr>rs_metrics := upd (\<lambda>_. \<lparr>wm_count = wm_count (get (rs_metrics s)) + 1,
        wm_seconds = wm_seconds (get (rs_metrics s)) + waited\<rparr>) (rs_metrics s)\<rparr>)"

definition on_slot_acquired :: "string option \<Rightarrow> run_state \<Rightarrow> run_state" where
  "on_slot_acquired tool_key s = (let m = rs_metrics s; n = sa_inflight m + 1;
      m1 = m\<lparr>sa_inflight := n, sa_max_inflight := max n (sa_max_inflight m)\<rparr> in
     case tool_key of None \<Rightarrow> s\<lparr>rs_metrics := m1\<rparr>
     | Some k \<Rightarrow> (let t = dict_get_or (sa_inflight_tool m) k 0 + 1;
          prior = dict_get_or (sa_max_inflight_tool m) k 0 in
        s\<lparr>rs_metrics := m1\<lparr>sa_inflight_tool := AList.update k t (sa_inflight_tool m),
          sa_max_inflight_tool := (if prior < t then AList.update k t (sa_max_inflight_tool m)
             else sa_max_inflight_tool m)\<rparr>\<rparr>))"

definition on_slot_released :: "string option \<Rightarrow> run_state \<Rightarrow> run_state" where
  "on_slot_released tool_key s = (let m = rs_metrics s; m1 = m\<lparr>sa_inflight := max 0 (sa_inflight m - 1)\<rparr> in
     case tool_key of None \<Rightarrow> s\<lparr>rs_metrics := m1\<rparr>
     | Some k \<Rightarrow> (let t = dict_get_or (sa_inflight_tool m) k 0 in
        s\<lparr>rs_metrics := m1\<lparr>sa_inflight_tool := (if t \<le> 1 then AList.delete k (sa_inflight_tool m)
             else AList.update k (t - 1) (sa_inflight_tool m))\<rparr>\<rparr>))"

definition sem_add :: "string option \<Rightarrow> int \<Rightarrow> run_state \<Rightarrow> run_state" where
  "sem_add slot n s = (case slot of None \<Rightarrow> s
     | Some k \<Rightarrow> s\<lparr>rs_tool_sem := AList.update k (dict_get_or (rs_tool_sem s) k 0 + n) (rs_tool_sem s)\<rparr>)"

definition release_slots :: "exec_env \<Rightarrow> tool_call \<Rightarrow> run_state \<Rightarrow> run_state" where
  \<comment> \<open>the \<open>finally\<close> block of an attempt that holds its slots\<close>
  "release_slots env step s = (let s1 = sem_add (tool_slot_key env step) 1 (on_slot_released (tool_limit_key env step) s)
     in s1\<lparr>rs_global := rs_global s1 + 1\<rparr>)"

section \<open>Suspension points\<close>

definition set_pc :: "nat \<Rightarrow> pc \<Rightarrow> run_state \<Rightarrow> run_state" where
  "set_pc i p s = s\<lparr>rs_pcs := (rs_pcs s)[i := p]\<rparr>"

definition settle :: "nat \<Rightarrow> pc task \<Rightarrow> run_state \<Rightarrow> run_state" where
  \<comment> \<open>run a task to its next suspension point; an exception that leaves \<open>run_step\<close> ends it\<close>
  "settle i m s = (case m s of (Inr p, s') \<Rightarrow> set_pc i p s' | (Inl e, s') \<Rightarrow> set_pc i (Crashed e) s')"

definition on_attempt_error :: "exec_env \<Rightarrow> reading \<Rightarrow> nat \<Rightarrow> call \<Rightarrow> exn \<Rightarrow> run_state \<Rightarrow> run_state" where
  \<comment> \<open>\<open>except Exception\<close> of the attempt: raise again, or announce the retry and sleep with the slots held\<close>
  "on_attempt_error env rd i c e s =
     (let step = step_at env i; policy = mr_retry (xe_macro env);
          err = error_payload ''tool_execution_error'' (ex_message e) step [(''attempts'', PInt (cl_attempt c))] in
      if ex_name e \<notin> set (rp_retryable policy) \<or> rp_max_attempts policy \<le> cl_attempt c
      then settle i (fail_step env rd step (cl_started c) (cl_attempt c) e) (release_slots env step s)
      else case emit ((base_event env rd step RETRIED)\<lparr>ev_attempt := cl_attempt c, ev_retry_delay := Some (cl_delay c),
               ev_error := Some err, ev_arguments := Some (cl_args c),
               ev_inputs := (if cl_inputs c = [] then None else Some (cl_inputs c))\<rparr>) s of
             (Inl e', s') \<Rightarrow> settle i (fail_step env rd step (cl_started c) (cl_attempt c) e') (release_slots env step s')
           | (Inr _, s') \<Rightarrow> set_pc i (Backoff c (rs_clock s' + cl_delay c)) s')"

definition start_tool :: "exec_env \<Rightarrow> reading \<Rightarrow> nat \<Rightarrow> call \<Rightarrow> run_state \<Rightarrow> run_state" where
  "start_tool env rd i c s =
     (let step = step_at env i;
          s1 = (if cl_limited c then s\<lparr>rs_metrics := (rs_metrics s)\<lparr>sa_rate_limited := sa_rate_limited (rs_metrics s) + 1\<rparr>\<rparr> else s) in
      case emit ((base_event env rd step STARTED)\<lparr>ev_attempt := cl_attempt c, ev_arguments := Some (cl_args c),
               ev_inputs := (if cl_inputs c = [] then None else Some (cl_inputs c))\<rparr>) s1 of
        (Inl e, s') \<Rightarrow> on_attempt_error env rd i c e s'
      | (Inr _, s') \<Rightarrow> set_pc i (Running c) s')"

definition tool_bucket :: "exec_env \<Rightarrow> nat \<Rightarrow> run_state \<Rightarrow> (string \<times> bucket) option" where
  "tool_bucket env i s = (case tool_limit_key env (step_at env i) of None \<Rightarrow> None
     | Some k \<Rightarrow> map_option (\<lambda>b. (k, b)) (map_of (rs_tool_buckets s) k))"

definition after_global_rate :: "exec_env \<Rightarrow> reading \<Rightarrow> nat \<Rightarrow> call \<Rightarrow> run_state \<Rightarrow> run_state" where
  "after_global_rate env rd i c s = (case tool_bucket env i s of
     None \<Rightarrow> start_tool env rd i c s
   | Some _ \<Rightarrow> set_pc i (WantToolRate c 0 (rs_clock s)) s)"

definition after_slots :: "exec_env \<Rightarrow> reading \<Rightarrow> nat \<Rightarrow> call \<Rightarrow> run_state \<Rightarrow> run_state" where
  "after_slots env rd i c s = (let s1 = on_slot_acquired (tool_limit_key env (step_at env i)) s in
     case rs_bucket s1 of None \<Rightarrow> after_global_rate env rd i c s1
     | Some _ \<Rightarrow> set_pc i (WantGlobalRate c 0 (rs_clock s1)) s1)"

definition task_step :: "exec_env \<Rightarrow> reading \<Rightarrow> nat \<Rightarrow> run_state \<Rightarrow> run_state option" where
  "task_step env rd i s0 =
     (let s = s0\<lparr>rs_clock := rs_clock s0 + rd_elapsed rd\<rparr>; step = step_at env i in
      case rs_pcs s ! i of
        Fresh \<Rightarrow> Some (settle i (start_step env rd step) s)
      | AwaitControllers t \<Rightarrow>
          if \<forall>c\<in>set (branch_controllers (xe_macro env) (tc_step_id step)). dict_has (rs_futures s) c
          then Some (settle i (tryT (after_controllers env rd step t) (fail_step env rd step t 0)) s) else None
      | Resolving t ref \<Rightarrow>
          if dict_has (rs_futures s) ref
          then Some (settle i (tryT (prepare_call env step t) (fail_step env rd step t 0)) s) else None
      | WantGlobal c \<Rightarrow>
          if rs_global s \<le> 0 then None
          else (let s1 = record_wait sa_global_concurrency sa_global_concurrency_update
                      (rs_clock s - cl_wait_from c) (s\<lparr>rs_global := rs_global s - 1\<rparr>) in
                Some (if tool_slot_key env step = None then after_slots env rd i c s1
                      else set_pc i (WantTool (c\<lparr>cl_wait_from := rs_clock s\<rparr>)) s1))
      | WantTool c \<Rightarrow>
          (case tool_slot_key env step of None \<Rightarrow> None
           | Some k \<Rightarrow> if dict_get_or (rs_tool_sem s) k 0 \<le> 0 then None
               else Some (after_slots env rd i c (record_wait sa_tool_concurrency sa_tool_concurrency_update
                      (rs_clock s - cl_wait_from c) (sem_add (Some k) (- 1) s))))
      | WantGlobalRate c waited wake \<Rightarrow>
          if rs_clock s < wake then None
          else (case rs_bucket s of None \<Rightarrow> None
            | Some b \<Rightarrow> (case bucket_try b (rs_clock s) of
                (b', Some w) \<Rightarrow> Some (set_pc i (WantGlobalRate c (waited + w) (rs_clock s + w)) (s\<lparr>rs_bucket := Some b'\<rparr>))
              | (b', None) \<Rightarrow> Some (after_global_rate env rd i (c\<lparr>cl_limited := cl_limited c \<or> 0 < waited\<rparr>)
                    (record_wait sa_global_rate sa_global_rate_update waited (s\<lparr>rs_bucket := Some b'\<rparr>)))))
      | WantToolRate c waited wake \<Rightarrow>
          if rs_clock s < wake then None
          else (case tool_bucket env i s of None \<Rightarrow> None
            | Some (k, b) \<Rightarrow> (case bucket_try b (rs_clock s) of
                (b', Some w) \<Rightarrow> Some (set_pc i (WantToolRate c (waited + w) (rs_clock s + w))
                    (s\<lparr>rs_tool_buckets := AList.update k b' (rs_tool_buckets s)\<rparr>))
              | (b', None) \<Rightarrow> Some (start_tool env rd i (c\<lparr>cl_limited := cl_limited c \<or> 0 < waited\<rparr>)
                    (record_wait sa_tool_rate sa_tool_rate_update waited
                      (s\<lparr>rs_tool_buckets := AList.update k b' (rs_tool_buckets s)\<rparr>)))))
      | Running c \<Rightarrow> Some (case rd_outcome rd of
            Returned v \<Rightarrow> settle i (tryT (complete_step env rd step c v)
                (fail_step env rd step (cl_started c) (cl_attempt c))) (release_slots env step s)
          | Raised e \<Rightarrow> on_attempt_error env rd i c e s)
      | Backoff c wake \<Rightarrow>
          if rs_clock s < wake then None
          else Some (set_pc i (WantGlobal (c\<lparr>cl_attempt := cl_attempt c + 1,
                 cl_delay := cl_delay c * rp_backoff (mr_retry (xe_macro env)),
                 cl_wait_from := rs_clock s, cl_limited := False\<rparr>)) (release_slots env step s))
      | Finished p \<Rightarrow> None
      | Crashed e \<Rightarrow> None)"

text \<open>Any task that is not blocked may run next, after any amount of time.\<close>

inductive macro_step :: "exec_env \<Rightarrow> run_state \<Rightarrow> run_state \<Rightarrow> bool" for env where
  macro_step: "i < length (rs_pcs s) \<Longrightarrow> 0 \<le> rd_elapsed rd \<Longrightarrow> task_step env rd i s = Some s'
     \<Longrightarrow> macro_step env s s'"

fun run_schedule :: "exec_env \<Rightarrow> run_state \<Rightarrow> (nat \<times> reading) list \<Rightarrow> run_state option" where
  "run_schedule env s [] = Some s"
| "run_schedule env s ((i, rd) # xs) = (if i < length (rs_pcs s) \<and> 0 \<le> rd_elapsed rd
     then (case task_step env rd i s of None \<Rightarrow> None | Some s' \<Rightarrow> run_schedule env s' xs) else None)"

section \<open>Who runs\<close>

definition nonempty_or_none :: "string \<Rightarrow> pyval" where
  "nonempty_or_none s = (if s = [] then PNone else PStr s)"

definition clean_scopes :: "py_env \<Rightarrow> pyval \<Rightarrow> pyval" where
  \<comment> \<open>a comma separated text or a list of scopes, stripped, without empty ones, as a sorted list\<close>
  "clean_scopes py v = PList (map PStr (py_sorted_set (filter (\<lambda>x. x \<noteq> []) (map py_strip
     (case v of PStr s \<Rightarrow> py_split (CHR '','') s | PList vs \<Rightarrow> map (py_str (pe_float py)) vs | _ \<Rightarrow> [])))))"

definition copy_text :: "(string, pyval) dict \<Rightarrow> string \<Rightarrow> (string, pyval) dict \<Rightarrow> (string, pyval) dict" where
  "copy_text source k d = (case map_of source k of
     Some (PStr v) \<Rightarrow> if py_strip v = [] then d else AList.update k (PStr (py_strip v)) d | _ \<Rightarrow> d)"

definition normalize_actor_metadata :: "py_env \<Rightarrow> (string, pyval) dict option \<Rightarrow> string \<Rightarrow> (string, pyval) dict" where
  "normalize_actor_metadata py actor_metadata operation =
     (let source = (case actor_metadata of None \<Rightarrow> [] | Some d \<Rightarrow> d);
          text = (\<lambda>k. py_strip (py_str (pe_float py) (dict_get_or source k (PStr []))));
          scopes_raw = (case map_of source ''actor_scopes'' of Some v \<Rightarrow> v | None \<Rightarrow> dict_get_or source ''scopes'' (PList []));
          base = [(''operation'', PStr operation), (''actor_id'', nonempty_or_none (text ''actor_id'')),
                  (''owner_actor_id'', nonempty_or_none (text ''owner_actor_id'')),
                  (''actor_scopes'', clean_scopes py scopes_raw)];
          d = copy_text source ''policy_template'' (copy_text source ''policy_profile'' (copy_text source ''auth_subject'' base))
      in if map_of source ''local_dev_auth'' = Some (PBool True) then AList.update ''local_dev_auth'' (PBool True) d else d)"

definition copy_truthy :: "(string, pyval) dict \<Rightarrow> (string, pyval) dict \<Rightarrow> string \<Rightarrow> (string, pyval) dict" where
  "copy_truthy source d k = (let v = dict_get_or source k PNone in if py_truthy v then AList.update k v d else d)"

definition merge_actor_metadata :: "(string, pyval) dict \<Rightarrow> (string, pyval) dict \<Rightarrow> string \<Rightarrow> (string, pyval) dict" where
  \<comment> \<open>on resume: the metadata of the checkpoint, overridden by what the caller gives\<close>
  "merge_actor_metadata normalized saved operation =
     (if saved = [] then normalized
      else AList.update ''operation'' (PStr operation) (foldl (copy_truthy normalized) saved
        [''actor_id'', ''actor_scopes'', ''auth_subject'', ''policy_profile'', ''policy_template'', ''local_dev_auth'']))"

definition finish_actor_metadata :: "py_env \<Rightarrow> (string, pyval) dict \<Rightarrow> string \<Rightarrow> (string, pyval) dict" where
  "finish_actor_metadata py d operation =
     (let d1 = (if py_truthy (dict_get_or d ''owner_actor_id'' PNone) then d
           else AList.update ''owner_actor_id'' (dict_get_or d ''actor_id'' PNone) d);
          d2 = (if py_truthy (dict_get_or d1 ''actor_id'' PNone) then d1
           else AList.update ''actor_id'' (dict_get_or d1 ''owner_actor_id'' PNone) d1);
          scopes = (case map_of d2 ''actor_scopes'' of Some v \<Rightarrow> v | None \<Rightarrow> dict_get_or d2 ''scopes'' (PList []))
      in AList.update ''operation'' (PStr operation) (AList.update ''actor_scopes'' (clean_scopes py scopes) d2))"

section \<open>Beginning and resuming a run\<close>

definition start_bucket :: "rat option \<Rightarrow> int option \<Rightarrow> rat \<Rightarrow> bucket option" where
  "start_bucket rps burst now = map_option (\<lambda>r. new_bucket r
     (case burst of Some n \<Rightarrow> if n = 0 then max 1 \<lfloor>r\<rfloor> else n | None \<Rightarrow> max 1 \<lfloor>r\<rfloor>) now) rps"

definition no_saturation :: saturation where
  "no_saturation = (let w = \<lparr>wm_count = 0, wm_seconds = 0\<rparr> in
     \<lparr>sa_global_concurrency = w, sa_tool_concurrency = w, sa_global_rate = w, sa_tool_rate = w,
      sa_inflight = 0, sa_max_inflight = 0, sa_inflight_tool = [], sa_max_inflight_tool = [], sa_rate_limited = 0\<rparr>)"

definition restored_futures :: "macro_request \<Rightarrow> (string, step_state) dict \<Rightarrow> (string, string) dict" where
  "restored_futures m status = map (\<lambda>p. (fst p, ss_pointer (snd p)))
     (filter (\<lambda>p. fst p \<in> set (step_ids m) \<and> replayable (Some (snd p))) status)"

definition restored_contexts :: "state_manager \<Rightarrow> (string, step_state) dict \<Rightarrow> (string, pyval) dict" where
  "restored_contexts sm status = map (\<lambda>p. (fst p, context_entry (ss_pointer (snd p)) None
       (case sm_retrieve sm (ss_pointer (snd p)) of Inl _ \<Rightarrow> PNone | Inr v \<Rightarrow> v) (ss_status (snd p))))
     (filter (\<lambda>p. ss_pointer (snd p) \<noteq> []) status)"

definition init_state :: "exec_env \<Rightarrow> state_manager \<Rightarrow> nat \<Rightarrow> rat \<Rightarrow> (string, step_state) dict
    \<Rightarrow> (string, string list) dict \<Rightarrow> run_state" where
  "init_state env sm minted now status decisions = (let l = xe_limits env in
     \<lparr>rs_sm = sm, rs_minted = minted, rs_clock = now,
      rs_futures = restored_futures (xe_macro env) status, rs_status = status,
      rs_contexts = restored_contexts sm status, rs_decisions = decisions, rs_early = False,
      rs_replayed = [], rs_global = el_max_global l,
      rs_tool_sem = List.map_filter (\<lambda>p. map_option (\<lambda>n. (fst p, n)) (tl_max_concurrency (snd p))) (el_per_tool l),
      rs_bucket = start_bucket (el_global_rps l) (el_global_burst l) now,
      rs_tool_buckets = List.map_filter (\<lambda>p. map_option (\<lambda>b. (fst p, b))
          (start_bucket (tl_rps (snd p)) (tl_burst (snd p)) now)) (el_per_tool l),
      rs_metrics = no_saturation, rs_pcs = replicate (length (mr_steps (xe_macro env))) Fresh\<rparr>)"

datatype begin_error = NotResumable string | BeginFailed exn

definition resumable :: "checkpoint \<Rightarrow> bool" where
  "resumable c \<longleftrightarrow> ck_status c \<in> {''active'', ''awaiting_approval''}"

definition begin_run :: "exec_env \<Rightarrow> reading \<Rightarrow> exec_limits \<Rightarrow> (string, pyval) dict option \<Rightarrow> bool
    \<Rightarrow> state_manager \<Rightarrow> nat \<Rightarrow> rat \<Rightarrow> begin_error + exec_env \<times> run_state" where
  \<comment> \<open>\<open>execute_macro\<close> up to the creation of the tasks\<close>
  "begin_run env0 rd default_limits actor resume sm minted now =
     (let operation = (if resume then ''resume'' else ''execute'');
          limits = (case mr_limits (xe_macro env0) of None \<Rightarrow> default_limits | Some l \<Rightarrow> l);
          normalized = normalize_actor_metadata (xe_py env0) actor operation in
      bindR (if resume
         then (case get_run_checkpoint sm (xe_run_id env0) of Inl e \<Rightarrow> Inl (BeginFailed (sm_exn e))
            | Inr c \<Rightarrow> if \<not> resumable c then Inl (NotResumable (ck_status c))
                else Inr (ck_started c, ck_steps c, ck_decisions c,
                   merge_actor_metadata normalized (case ck_actor c of None \<Rightarrow> [] | Some a \<Rightarrow> a) operation))
         else Inr (rd_now rd, [], [], normalized)) (\<lambda>(started, status, decisions, merged).
        let env = env0\<lparr>xe_limits := limits, xe_started := started,
                       xe_actor := finish_actor_metadata (xe_py env0) merged operation\<rparr>;
            s = init_state env sm minted now status decisions
        in case persist_checkpoint env rd ''active'' None s of
             (Inl e, _) \<Rightarrow> Inl (BeginFailed e) | (Inr _, s') \<Rightarrow> Inr (env, s')))"

definition resume_macro :: "state_manager \<Rightarrow> string \<Rightarrow> (string, approval_decision) dict
    \<Rightarrow> begin_error + macro_request" where
  \<comment> \<open>\<open>resume_run\<close>: the macro of the checkpoint with the new approvals, validated again\<close>
  "resume_macro sm run_id approvals = (case get_run_checkpoint sm run_id of Inl e \<Rightarrow> Inl (BeginFailed (sm_exn e))
     | Inr c \<Rightarrow> if \<not> resumable c then Inl (NotResumable (ck_status c))
         else (let m = ck_macro c;
                   m' = m\<lparr>mr_approvals := foldl (\<lambda>d p. AList.update (fst p) (snd p) d) (mr_approvals m) approvals\<rparr>
               in case validate_branch_targets m' of
                    Inl e \<Rightarrow> Inl (BeginFailed (exn_of IsOther ''ValidationError'')) | Inr m'' \<Rightarrow> Inr m''))"

section \<open>Time limit and end of a run\<close>

definition mark_step_timeout :: "exec_env \<Rightarrow> reading \<Rightarrow> tool_call \<Rightarrow> pointer_response task" where
  "mark_step_timeout env rd step =
     (let err = error_payload ''macro_timeout'' [] step
        [(''max_total_runtime_seconds'', case el_max_runtime (xe_limits env) of None \<Rightarrow> PNone | Some r \<Rightarrow> PFloat (PFin r))] in
      bindT (emit ((base_event env rd step FAILED)\<lparr>ev_error := Some err\<rparr>)) (\<lambda>_.
      bindT (put_pointer env rd (payload_value err) (''Step '' @ tc_step_id step @ '' failed with macro_timeout.'')
          [(''status'', PStr ''error''), (''error_type'', PStr ''macro_timeout'')]) (\<lambda>p.
      bindT (record_step (tc_step_id step) p (payload_value err) ERROR) (\<lambda>_.
      bindT (set_future (tc_step_id step) (pr_pointer_id p)) (\<lambda>_. retT p)))))"

fun timeout_results :: "exec_env \<Rightarrow> reading \<Rightarrow> (tool_call \<times> pc) list \<Rightarrow> pointer_response list task" where
  \<comment> \<open>after cancelling the tasks: results of the finished ones, recorded pointers, time-out marks\<close>
  "timeout_results env rd [] = retT []"
| "timeout_results env rd ((step, p) # xs) =
     bindT (case p of Finished r \<Rightarrow> retT r
       | _ \<Rightarrow> bindT (readT (\<lambda>s. map_of (rs_status s) (tc_step_id step))) (\<lambda>st. case st of
           Some x \<Rightarrow> if ss_pointer x \<noteq> [] then hydrate_pointer_response env rd (ss_pointer x) (tc_step_id step)
                     else mark_step_timeout env rd step
         | None \<Rightarrow> mark_step_timeout env rd step)) (\<lambda>r.
     bindT (timeout_results env rd xs) (\<lambda>rs. retT (r # rs)))"

definition expire_run :: "exec_env \<Rightarrow> reading \<Rightarrow> pointer_response list task" where
  "expire_run env rd = bindT (readT (\<lambda>s. zip (mr_steps (xe_macro env)) (rs_pcs s))) (\<lambda>ps.
     bindT (timeout_results env rd ps) (\<lambda>rs.
     bindT (persist_checkpoint env rd ''active'' None) (\<lambda>_. retT rs)))"

definition count_status :: "run_state \<Rightarrow> step_outcome set \<Rightarrow> int" where
  "count_status s sts = int (length (filter (\<lambda>p. ss_status (snd p) \<in> sts) (rs_status s)))"

definition final_status :: "run_state \<Rightarrow> string" where
  "final_status s = (if 0 < count_status s {PAUSED} then ''awaiting_approval'' else ''completed'')"

record approval_metrics =
  am_required :: int
  am_approved :: int
  am_rejected :: int
  am_paused :: int

definition approval_metrics_of :: "exec_env \<Rightarrow> run_state \<Rightarrow> approval_metrics" where
  "approval_metrics_of env s = (let required = int (length (filter requires_approval (mr_steps (xe_macro env))));
      paused = count_status s {PAUSED}; rejected = count_status s {REJECTED_STEP} in
     \<lparr>am_required = required, am_approved = max 0 (required - paused - rejected),
      am_rejected = rejected, am_paused = paused\<rparr>)"

text \<open>The values written to the diagnostics and to the metadata of the last result.\<close>

definition approval_value :: "approval_metrics \<Rightarrow> pyval" where
  "approval_value am = PDict [(''required_steps'', PInt (am_required am)), (''approved_steps'', PInt (am_approved am)),
     (''rejected_steps'', PInt (am_rejected am)), (''paused_steps'', PInt (am_paused am))]"

definition opt_int :: "int option \<Rightarrow> pyval" where "opt_int x = (case x of None \<Rightarrow> PNone | Some n \<Rightarrow> PInt n)"

definition opt_float :: "rat option \<Rightarrow> pyval" where
  "opt_float x = (case x of None \<Rightarrow> PNone | Some r \<Rightarrow> PFloat (PFin r))"

definition limits_value :: "exec_limits \<Rightarrow> pyval" where
  "limits_value l = PDict [(''max_global_concurrency'', PInt (el_max_global l)),
     (''global_requests_per_second'', opt_float (el_global_rps l)), (''global_burst_capacity'', opt_int (el_global_burst l)),
     (''per_tool'', PDict (map (\<lambda>(name, t). (name, PDict [(''max_concurrency'', opt_int (tl_max_concurrency t)),
        (''requests_per_second'', opt_float (tl_rps t)), (''burst_capacity'', opt_int (tl_burst t))])) (el_per_tool l)))]"

definition saturation_value :: "exec_limits \<Rightarrow> saturation \<Rightarrow> pyval" where
  "saturation_value l m = (let seconds = (\<lambda>w. PFloat (PFin (py_round 6 (wm_seconds w)))) in PDict
     [(''global_concurrency_wait_count'', PInt (wm_count (sa_global_concurrency m))),
      (''global_concurrency_wait_seconds'', seconds (sa_global_concurrency m)),
      (''per_tool_concurrency_wait_count'', PInt (wm_count (sa_tool_concurrency m))),
      (''per_tool_concurrency_wait_seconds'', seconds (sa_tool_concurrency m)),
      (''global_rate_wait_count'', PInt (wm_count (sa_global_rate m))),
      (''global_rate_wait_seconds'', seconds (sa_global_rate m)),
      (''per_tool_rate_wait_count'', PInt (wm_count (sa_tool_rate m))),
      (''per_tool_rate_wait_seconds'', seconds (sa_tool_rate m)),
      (''max_inflight_global'', PInt (sa_max_inflight m)),
      (''max_inflight_per_tool'', PDict (map (\<lambda>(k, n). (k, PInt n)) (sa_max_inflight_tool m))),
      (''total_rate_limited_attempts'', PInt (sa_rate_limited m)), (''configured_limits'', limits_value l)])"

definition step_status_value :: "(string, step_state) dict \<Rightarrow> pyval" where
  "step_status_value d = PDict (map (\<lambda>(i, st). (i, PDict [(''status'', PStr (outcome_name (ss_status st))),
     (''pointer_id'', PStr (ss_pointer st))])) d)"

definition finish_run :: "exec_env \<Rightarrow> reading \<Rightarrow> bool \<Rightarrow> pointer_response list \<Rightarrow> pointer_response option task" where
  \<comment> \<open>\<open>execute_macro\<close> after the tasks: checkpoint, summary, diagnostics, the last result with its metadata\<close>
  "finish_run env rd resume results =
     bindT (readT id) (\<lambda>s. let status = final_status s; final = (if results = [] then None else Some (last results));
        final_pointer = map_option pr_pointer_id final; approvals = approval_value (approval_metrics_of env s);
        saturated = saturation_value (xe_limits env) (rs_metrics s);
        replayed = PList (map PStr (py_sorted_set (rs_replayed s))) in
     bindT (persist_checkpoint env rd status final_pointer) (\<lambda>_.
     bindT (on_sm (\<lambda>sm. bindR (store_execution_summary sm (xe_run_id env)
         \<lparr>su_started = xe_started env, su_completed = rd_now rd, su_total = int (length (mr_steps (xe_macro env))),
          su_succeeded = count_status s {OK}, su_failed = count_status s {ERROR, REJECTED_STEP, PAUSED},
          su_duration = py_round 3 (max 0 (of_int (rd_now rd - xe_started env) / 1000)), su_final = final_pointer\<rparr>)
         (\<lambda>sm'. Inr ((), sm')))) (\<lambda>_.
     bindT (on_sm (\<lambda>sm. bindR (store_execution_diagnostics sm (xe_run_id env)
         [(''run_id'', PStr (xe_run_id env)), (''captured_at_utc'', PStr (pe_iso (xe_py env) (rd_now rd))),
          (''checkpoint_status'', PStr status), (''resumed_from_checkpoint'', PBool resume), (''replayed_steps'', replayed),
          (''approval_metrics'', approvals), (''saturation_metrics'', saturated),
          (''step_status'', step_status_value (rs_status s)), (''actor_metadata'', PDict (xe_actor env))]
         (rd_now rd)) (\<lambda>sm'. Inr ((), sm')))) (\<lambda>_.
     retT (map_option (\<lambda>r. r\<lparr>pr_metadata := Some (foldl (\<lambda>d p. AList.update (fst p) (snd p) d)
         (case pr_metadata r of None \<Rightarrow> [] | Some d \<Rightarrow> d)
         [(''execution_run_id'', PStr (xe_run_id env)), (''checkpoint_status'', PStr status),
          (''resumed_from_checkpoint'', PBool resume), (''replayed_steps'', replayed),
          (''approval_metrics'', approvals), (''saturation_metrics'', saturated),
          (''actor_metadata'', PDict (xe_actor env))])\<rparr>) final)))))"

fun task_results :: "pc list \<Rightarrow> exn + pointer_response list option" where
  \<comment> \<open>\<open>asyncio.gather\<close>: an exception of a task, all results, or \<open>None\<close> while some task runs\<close>
  "task_results [] = Inr (Some [])"
| "task_results (p # ps) = (case p of Crashed e \<Rightarrow> Inl e
     | Finished r \<Rightarrow> bindR (task_results ps) (\<lambda>rs. Inr (map_option (Cons r) rs))
     | _ \<Rightarrow> bindR (task_results ps) (\<lambda>_. Inr None))"

end
