(* ===== verification/EAP_Executor_Frames.thy ===== *)
theory EAP_Executor_Frames
  imports EAP_Executor
begin

text \<open>
  What the straight-line parts of the executor can change. A frame is a reflexive and transitive
  relation between the states before and after; the locale \<open>frame\<close> proves once that sequencing
  and exception handling stay within a frame. It is interpreted on the two frames of the
  executor: \<open>touches k\<close>, which allows the entries of step \<open>k\<close> to change and its future to be
  resolved once, and \<open>quiet\<close>, which allows neither.
\<close>

section \<open>Frames\<close>

definition framed :: "(run_state \<Rightarrow> run_state \<Rightarrow> bool) \<Rightarrow> 'a task \<Rightarrow> bool" where
  "framed R m \<longleftrightarrow> (\<forall>s. R s (snd (m s)))"

lemmas task_defs = retT_def raiseT_def bindT_def tryT_def readT_def modifyT_def liftT_def liftE_def on_sm_def

locale frame =
  fixes R :: "run_state \<Rightarrow> run_state \<Rightarrow> bool"
  assumes refl [simp]: "R s s"
    and trans: "R a b \<Longrightarrow> R b c \<Longrightarrow> R a c"
begin

lemma frame_ret: "framed R (retT x)"
  by (simp add: framed_def task_defs)

lemma frame_raise: "framed R (raiseT e)"
  by (simp add: framed_def task_defs)

lemma frame_read: "framed R (readT f)"
  by (simp add: framed_def task_defs)

lemma frame_lift: "framed R (liftT r)"
  by (simp add: framed_def task_defs)

lemma frame_liftE: "framed R (liftE f r)"
  by (simp add: framed_def task_defs split: sum.splits)

lemma frame_bind:
  assumes "framed R m" and "\<And>x. framed R (f x)"
  shows "framed R (bindT m f)"
  unfolding framed_def
proof
  fix s
  obtain r s' where m: "m s = (r, s')" by (cases "m s")
  then have "R s s'" using assms(1) unfolding framed_def by (metis snd_conv)
  then show "R s (snd (bindT m f s))"
    using assms(2) m by (cases r) (auto simp: framed_def bindT_def intro: trans)
qed

lemma frame_try:
  assumes "framed R m" and "\<And>e. framed R (h e)"
  shows "framed R (tryT m h)"
  unfolding framed_def
proof
  fix s
  obtain r s' where m: "m s = (r, s')" by (cases "m s")
  then have "R s s'" using assms(1) unfolding framed_def by (metis snd_conv)
  then show "R s (snd (tryT m h s))"
    using assms(2) m by (cases r) (auto simp: framed_def tryT_def intro: trans)
qed

lemma frame_modify: "(\<And>s. R s (f s)) \<Longrightarrow> framed R (modifyT f)"
  by (simp add: framed_def task_defs)

lemma frame_on_sm:
  "(\<And>s x sm. f (rs_sm s) = Inr (x, sm) \<Longrightarrow> R s (s\<lparr>rs_sm := sm\<rparr>)) \<Longrightarrow> framed R (on_sm f)"
  by (auto simp: framed_def on_sm_def split: sum.splits prod.splits)

lemmas frame_rules = frame_ret frame_raise frame_read frame_lift frame_liftE frame_bind frame_try

end

section \<open>The two frames of the executor\<close>

definition sm_extends :: "state_manager \<Rightarrow> state_manager \<Rightarrow> bool" where
  "sm_extends a b \<longleftrightarrow> sm_closed b = sm_closed a \<and> sq_closed (sm_pointers b) = sq_closed (sm_pointers a)
     \<and> (\<forall>i v. sm_retrieve a i = Inr v \<longrightarrow> sm_retrieve b i = Inr v)"

definition same_schedule :: "run_state \<Rightarrow> run_state \<Rightarrow> bool" where
  "same_schedule s s' \<longleftrightarrow> rs_pcs s' = rs_pcs s \<and> rs_global s' = rs_global s \<and> rs_tool_sem s' = rs_tool_sem s
     \<and> rs_bucket s' = rs_bucket s \<and> rs_tool_buckets s' = rs_tool_buckets s \<and> rs_clock s' = rs_clock s
     \<and> (rs_early s \<longrightarrow> rs_early s') \<and> sm_extends (rs_sm s) (rs_sm s')"

definition same_entries :: "string \<Rightarrow> run_state \<Rightarrow> run_state \<Rightarrow> bool" where
  "same_entries j s s' \<longleftrightarrow> map_of (rs_futures s') j = map_of (rs_futures s) j
     \<and> map_of (rs_status s') j = map_of (rs_status s) j \<and> map_of (rs_decisions s') j = map_of (rs_decisions s) j"

definition touches :: "string \<Rightarrow> run_state \<Rightarrow> run_state \<Rightarrow> bool" where
  "touches k s s' \<longleftrightarrow> same_schedule s s' \<and> (\<forall>j. j \<noteq> k \<longrightarrow> same_entries j s s')
     \<and> (\<forall>p. map_of (rs_futures s) k = Some p \<longrightarrow> map_of (rs_futures s') k = Some p)"

definition quiet :: "run_state \<Rightarrow> run_state \<Rightarrow> bool" where
  "quiet s s' \<longleftrightarrow> same_schedule s s' \<and> (\<forall>j. same_entries j s s')"

lemma sm_extends_refl [simp]: "sm_extends a a"
  by (simp add: sm_extends_def)

lemma sm_extends_trans: "sm_extends a b \<Longrightarrow> sm_extends b c \<Longrightarrow> sm_extends a c"
  by (auto simp: sm_extends_def)

lemma same_schedule_refl [simp]: "same_schedule s s"
  by (simp add: same_schedule_def)

lemma same_schedule_trans: "same_schedule a b \<Longrightarrow> same_schedule b c \<Longrightarrow> same_schedule a c"
  by (auto simp: same_schedule_def intro: sm_extends_trans)

interpretation tch: frame "touches k" for k
  by unfold_locales (auto simp: touches_def same_entries_def intro: same_schedule_trans)

interpretation qt: frame quiet
  by unfold_locales (auto simp: quiet_def same_entries_def intro: same_schedule_trans)

lemma quiet_touches: "quiet s s' \<Longrightarrow> touches k s s'"
  by (simp add: quiet_def touches_def same_entries_def)

lemma framed_quiet_touches: "framed quiet m \<Longrightarrow> framed (touches k) m"
  by (simp add: framed_def quiet_touches)

lemma retrieve_same_pointers: "sm_pointers sm' = sm_pointers sm \<Longrightarrow> sm_retrieve sm' i = sm_retrieve sm i"
  by (simp add: sm_retrieve_def)

lemma sm_extends_tables:
  "sm_pointers sm' = sm_pointers sm \<Longrightarrow> sm_closed sm' = sm_closed sm \<Longrightarrow> sm_extends sm sm'"
  by (simp add: sm_extends_def sm_retrieve_def)

lemma sm_extends_store:
  assumes "store_and_point py sm i now raw summary meta ttl = Inr (p, sm')"
  shows "sm_extends sm sm' \<and> pr_pointer_id p = i"
proof -
  obtain r ps where r: "sq_store_pointer (sm_pointers sm) r = Inr ps" "sm' = sm\<lparr>sm_pointers := ps\<rparr>"
      "pr_pointer_id p = i"
    using assms by (auto simp: store_and_point_def Let_def bindR_Inr_iff)
  then have ps: "ps = (sm_pointers sm)\<lparr>sq_rows := sq_rows (sm_pointers sm) @ [r]\<rparr>"
    by (auto simp: sq_store_pointer_def split: if_splits)
  have "find P xs = Some y \<Longrightarrow> find P (xs @ [r]) = Some y" for P :: "pointer_row \<Rightarrow> bool" and xs y
    by (induction xs) (auto split: if_splits)
  then have "sm_retrieve sm' j = Inr v" if "sm_retrieve sm j = Inr v" for j v
    using that unfolding r(2) ps
    by (auto simp: sm_retrieve_def sq_retrieve_pointer_def bindR_Inr_iff split: if_splits option.splits)
  then show ?thesis by (simp add: sm_extends_def r(2,3) ps)
qed

section \<open>Primitive effects\<close>

lemma quiet_emit: "framed quiet (emit e)"
  unfolding emit_def
  by (intro qt.frame_rules qt.frame_on_sm)
     (auto simp: quiet_def same_schedule_def same_entries_def append_trace_event_def with_connection_def
       bindR_Inr_iff intro!: sm_extends_tables split: if_splits)

lemma quiet_persist: "framed quiet (persist_checkpoint env rd st final)"
  unfolding persist_checkpoint_def
  by (intro qt.frame_rules qt.frame_on_sm)
     (auto simp: quiet_def same_schedule_def same_entries_def upsert_run_checkpoint_def with_connection_def
       bindR_Inr_iff intro!: sm_extends_tables split: if_splits)

lemma quiet_put_pointer: "framed quiet (put_pointer env rd raw summary extra)"
  unfolding put_pointer_def
  by (intro qt.frame_rules qt.frame_on_sm qt.frame_modify)
     (auto simp: quiet_def same_schedule_def same_entries_def dest: sm_extends_store)

lemma touches_record_step: "framed (touches k) (record_step k p raw st)"
  unfolding record_step_def
  by (intro tch.frame_modify) (simp add: touches_def same_schedule_def same_entries_def)

lemma touches_clear_decision: "framed (touches (tc_step_id step)) (clear_decision step)"
  unfolding clear_decision_def
  by (auto intro!: tch.frame_rules tch.frame_modify simp: touches_def same_schedule_def same_entries_def)

lemma touches_set_future: "framed (touches k) (set_future k p)"
  unfolding set_future_def
  by (intro tch.frame_modify) (auto simp: touches_def same_schedule_def same_entries_def)

lemma touches_select_targets: "framed (touches (tc_step_id step)) (select_targets step b ts)"
  unfolding select_targets_def
  by (intro tch.frame_modify) (simp add: touches_def same_schedule_def same_entries_def)

lemma touches_resolve_branch_targets: "framed (touches (tc_step_id step)) (resolve_branch_targets env step ok)"
  unfolding resolve_branch_targets_def
  by (auto intro!: tch.frame_rules touches_select_targets split: option.splits)

lemma quiet_hydrate: "framed quiet (hydrate_pointer_response env rd p i)"
  unfolding hydrate_pointer_response_def Let_def
  by (auto intro!: qt.frame_rules qt.frame_on_sm simp: bindR_Inr_iff split: option.splits)

lemmas quiet_prims = quiet_emit quiet_persist quiet_put_pointer quiet_hydrate

lemmas touches_prims = quiet_prims [THEN framed_quiet_touches] touches_record_step touches_clear_decision
  touches_set_future touches_resolve_branch_targets

section \<open>The parts of run\_step\<close>

lemma touches_conclude: "framed (touches (tc_step_id step)) (conclude env rd step p)"
  unfolding conclude_def by (intro tch.frame_rules touches_prims)

lemma touches_skip: "framed (touches (tc_step_id step)) (skip_step env rd step reason extra)"
  unfolding skip_step_def Let_def by (intro tch.frame_rules touches_prims touches_conclude)

lemma touches_pause: "framed (touches (tc_step_id step)) (pause_step env rd step)"
  unfolding pause_step_def Let_def by (intro tch.frame_rules touches_prims touches_conclude)

lemma touches_reject: "framed (touches (tc_step_id step)) (reject_step env rd step d)"
  unfolding reject_step_def Let_def by (intro tch.frame_rules touches_prims touches_conclude)

lemma touches_fail: "framed (touches (tc_step_id step)) (fail_step env rd step t n e)"
  unfolding fail_step_def Let_def by (intro tch.frame_rules touches_prims touches_conclude)

lemma touches_complete: "framed (touches (tc_step_id step)) (complete_step env rd step c raw)"
  unfolding complete_step_def by (intro tch.frame_rules touches_prims touches_conclude)

lemma quiet_prepare: "framed quiet (prepare_call env step t)"
  unfolding prepare_call_def
  by (intro qt.frame_bind qt.frame_read) (auto intro!: qt.frame_rules split: resolution.splits)

lemmas touches_parts = touches_skip touches_pause touches_reject touches_fail touches_complete
  quiet_prepare [THEN framed_quiet_touches]

lemma touches_gate: "framed (touches (tc_step_id step)) (gate env rd step t)"
  unfolding gate_def
  by (auto intro!: tch.frame_rules touches_prims touches_parts split: option.splits)

lemma touches_after_controllers: "framed (touches (tc_step_id step)) (after_controllers env rd step t)"
  unfolding after_controllers_def by (auto intro!: tch.frame_rules touches_parts touches_gate)

lemma touches_replay: "framed (touches (tc_step_id step)) (replay_step env rd step p)"
  unfolding replay_step_def
  by (intro tch.frame_rules touches_prims tch.frame_modify) (simp add: touches_def same_schedule_def same_entries_def)

lemma touches_start: "framed (touches (tc_step_id step)) (start_step env rd step)"
  unfolding start_step_def
  by (auto intro!: tch.frame_rules touches_prims touches_replay touches_gate touches_parts)

end
