(* ===== verification/EAP_Executor_Safety.thy ===== *)
theory EAP_Executor_Safety
  imports EAP_Executor_Frames
begin

text \<open>
  Safety of the executor: an invariant of every reachable state of a run, by induction over the
  steps of the interleaved tasks. It says that a task past its gate was approved and activated,
  that a task past argument resolution has all its dependencies completed successfully, that
  futures are resolved once and only by their own task, and how many slots the tasks hold.
\<close>

section \<open>References of a step\<close>

text \<open>The step a value refers to, as the executor reads it: any text that starts with a dollar sign.\<close>

inductive refers :: "pyval \<Rightarrow> string \<Rightarrow> bool" where
  refers_str: "startswith t ''$'' \<Longrightarrow> refers (PStr t) (reference_target t)"
| refers_list: "v \<in> set xs \<Longrightarrow> refers v r \<Longrightarrow> refers (PList xs) r"
| refers_dict: "(k, v) \<in> set d \<Longrightarrow> refers v r \<Longrightarrow> refers (PDict d) r"

inductive_simps refers_simps [simp]:
  "refers PNone r" "refers (PBool b) r" "refers (PInt n) r" "refers (PFloat f) r"
  "refers (PStr s) r" "refers (PList xs) r" "refers (PDict d) r"

definition step_refers :: "tool_call \<Rightarrow> string \<Rightarrow> bool" where
  "step_refers step r \<longleftrightarrow> (\<exists>p\<in>set (tc_arguments step). refers (snd p) r)"

definition dep_ok :: "exec_env \<Rightarrow> run_state \<Rightarrow> string \<Rightarrow> bool" where
  "dep_ok env s r \<longleftrightarrow> r \<in> set (step_ids (xe_macro env)) \<and> map_of (rs_futures s) r \<noteq> None
     \<and> map_option ss_status (map_of (rs_status s) r) = Some OK"

definition waits_for :: "exec_env \<Rightarrow> run_state \<Rightarrow> string \<Rightarrow> bool" where
  "waits_for env s r \<longleftrightarrow> r \<in> set (step_ids (xe_macro env)) \<and> map_of (rs_futures s) r = None"

lemma bindV_Resolved: "bindV m f = Resolved y \<longleftrightarrow> (\<exists>x. m = Resolved x \<and> f x = Resolved y)"
  by (cases m) auto

lemma bindV_Blocked: "bindV m f = Blocked r \<longleftrightarrow> m = Blocked r \<or> (\<exists>x. m = Resolved x \<and> f x = Blocked r)"
  by (cases m) auto

lemma resolve_step_reference_Resolved:
  "resolve_step_reference env s t key inputs = Resolved x \<Longrightarrow> dep_ok env s (reference_target t)"
  by (auto simp: resolve_step_reference_def dep_ok_def Let_def split: if_splits option.splits sum.splits)

lemma resolve_step_reference_Blocked:
  "resolve_step_reference env s t key inputs = Blocked r \<Longrightarrow> r = reference_target t \<and> waits_for env s r"
  by (auto simp: resolve_step_reference_def waits_for_def Let_def split: if_splits option.splits sum.splits)

lemma resolve_value_Resolved:
  "resolve_value env s depth key v inputs = Resolved x \<Longrightarrow> refers v r \<Longrightarrow> dep_ok env s r"
  "resolve_dict env s depth key d inputs = Resolved y \<Longrightarrow> (k, w) \<in> set d \<Longrightarrow> refers w r \<Longrightarrow> dep_ok env s r"
  "resolve_list env s depth key n xs inputs = Resolved z \<Longrightarrow> u \<in> set xs \<Longrightarrow> refers u r \<Longrightarrow> dep_ok env s r"
proof (induction env s depth key v inputs and env s depth key d inputs and env s depth key n xs inputs
    arbitrary: x r and y k w r and z u r rule: resolve_value_resolve_dict_resolve_list.induct)
  case (1 env s depth key v inputs)
  then show ?case
    by (cases v) (auto simp: resolve_value.simps [of env s depth key] bindV_Resolved
        dest: resolve_step_reference_Resolved split: if_splits sum.splits)
qed (auto simp: bindV_Resolved split: prod.splits)

lemma resolve_value_Blocked:
  "resolve_value env s depth key v inputs = Blocked r \<Longrightarrow> refers v r \<and> waits_for env s r"
  "resolve_dict env s depth key d inputs = Blocked r \<Longrightarrow> (\<exists>p\<in>set d. refers (snd p) r) \<and> waits_for env s r"
  "resolve_list env s depth key n xs inputs = Blocked r \<Longrightarrow> (\<exists>u\<in>set xs. refers u r) \<and> waits_for env s r"
proof (induction env s depth key v inputs and env s depth key d inputs and env s depth key n xs inputs
    arbitrary: r and r and r rule: resolve_value_resolve_dict_resolve_list.induct)
  case (1 env s depth key v inputs)
  show ?case
  proof (cases v)
    case (PStr t)
    then show ?thesis using 1(3) resolve_step_reference_Blocked [of env s t key inputs r]
      by (auto simp: resolve_value.simps [of env s depth key] split: if_splits sum.splits)
  next
    case (PList xs)
    then show ?thesis using 1 by (auto simp: resolve_value.simps [of env s depth key] bindV_Blocked split: if_splits)
  next
    case (PDict d)
    then show ?thesis using 1 by (fastforce simp: resolve_value.simps [of env s depth key] bindV_Blocked split: if_splits)
  qed (use 1(3) in \<open>auto simp: resolve_value.simps [of env s depth key] split: if_splits\<close>)
qed (auto simp: bindV_Blocked split: prod.splits)

lemma resolve_arguments_Resolved:
  "resolve_arguments env s args inputs = Resolved x \<Longrightarrow> p \<in> set args \<Longrightarrow> refers (snd p) r \<Longrightarrow> dep_ok env s r"
  by (induction env s args inputs arbitrary: x rule: resolve_arguments.induct)
     (auto simp: bindV_Resolved dest: resolve_value_Resolved(1) split: prod.splits)

lemma resolve_arguments_Blocked:
  "resolve_arguments env s args inputs = Blocked r \<Longrightarrow> (\<exists>p\<in>set args. refers (snd p) r) \<and> waits_for env s r"
proof (induction env s args inputs arbitrary: rule: resolve_arguments.induct)
  case (2 env s k v args inputs)
  then show ?case
    by (auto simp: bindV_Blocked dest: resolve_value_Blocked(1) split: prod.splits)
qed simp

section \<open>What a suspended task guarantees\<close>

fun final :: "pc \<Rightarrow> bool" where
  "final (Finished p) = True"
| "final (Crashed e) = True"
| "final _ = False"

fun pc_call :: "pc \<Rightarrow> call option" where
  "pc_call (WantGlobal c) = Some c"
| "pc_call (WantTool c) = Some c"
| "pc_call (WantGlobalRate c _ _) = Some c"
| "pc_call (WantToolRate c _ _) = Some c"
| "pc_call (Running c) = Some c"
| "pc_call (Backoff c _) = Some c"
| "pc_call _ = None"

fun holds_tool :: "pc \<Rightarrow> bool" where
  "holds_tool (WantGlobalRate c _ _) = True"
| "holds_tool (WantToolRate c _ _) = True"
| "holds_tool (Running c) = True"
| "holds_tool (Backoff c _) = True"
| "holds_tool _ = False"

fun holds_global :: "pc \<Rightarrow> bool" where
  "holds_global (WantTool c) = True"
| "holds_global p = holds_tool p"

definition approved :: "exec_env \<Rightarrow> tool_call \<Rightarrow> bool" where
  "approved env step \<longleftrightarrow> (requires_approval step \<longrightarrow>
     (\<exists>d. map_of (mr_approvals (xe_macro env)) (tc_step_id step) = Some d \<and> ad_decision d = APPROVE))"

definition activated :: "exec_env \<Rightarrow> run_state \<Rightarrow> tool_call \<Rightarrow> bool" where
  "activated env s step \<longleftrightarrow> branch_controllers (xe_macro env) (tc_step_id step) = [] \<or>
     (\<forall>c\<in>set (branch_controllers (xe_macro env) (tc_step_id step)). map_of (rs_futures s) c \<noteq> None)
     \<and> is_activated env s (tc_step_id step)"

definition deps_ok :: "exec_env \<Rightarrow> run_state \<Rightarrow> tool_call \<Rightarrow> bool" where
  "deps_ok env s step \<longleftrightarrow> (\<forall>r. step_refers step r \<longrightarrow> dep_ok env s r)"

definition pc_ok :: "exec_env \<Rightarrow> run_state \<Rightarrow> nat \<Rightarrow> pc \<Rightarrow> bool" where
  "pc_ok env s i p \<longleftrightarrow>
     (\<forall>t. p = AwaitControllers t \<longrightarrow> branch_controllers (xe_macro env) (sid env i) \<noteq> [])
   \<and> (\<forall>t r. p = Resolving t r \<longrightarrow> approved env (step_at env i) \<and> activated env s (step_at env i)
        \<and> step_refers (step_at env i) r \<and> r \<in> set (step_ids (xe_macro env)))
   \<and> (\<forall>c. pc_call p = Some c \<longrightarrow> approved env (step_at env i) \<and> activated env s (step_at env i)
        \<and> deps_ok env s (step_at env i) \<and> 1 \<le> cl_attempt c
        \<and> (cl_attempt c \<le> rp_max_attempts (mr_retry (xe_macro env)) \<or> cl_attempt c = 1))
   \<and> (\<forall>c w. p = Backoff c w \<longrightarrow> cl_attempt c < rp_max_attempts (mr_retry (xe_macro env)))
   \<and> (\<forall>c. p = WantTool c \<longrightarrow> tool_slot_key env (step_at env i) \<noteq> None)
   \<and> (\<forall>r. p = Finished r \<longrightarrow> map_of (rs_futures s) (sid env i) \<noteq> None)"

definition sem :: "run_state \<Rightarrow> string \<Rightarrow> int" where
  "sem s k = dict_get_or (rs_tool_sem s) k 0"

definition hg :: "pc \<Rightarrow> int" where "hg p = (if holds_global p then 1 else 0)"

definition ht :: "exec_env \<Rightarrow> nat \<Rightarrow> string \<Rightarrow> pc \<Rightarrow> int" where
  "ht env i k p = (if holds_tool p \<and> tool_slot_key env (step_at env i) = Some k then 1 else 0)"

text \<open>How a piece of a task's run relates the states around it: the entries of other steps stay.\<close>

definition touch0 :: "string \<Rightarrow> run_state \<Rightarrow> run_state \<Rightarrow> bool" where
  "touch0 k s s' \<longleftrightarrow> rs_pcs s' = rs_pcs s \<and> rs_clock s' = rs_clock s \<and> sm_extends (rs_sm s) (rs_sm s')
     \<and> (\<forall>j. j \<noteq> k \<longrightarrow> same_entries j s s')
     \<and> (\<forall>p. map_of (rs_futures s) k = Some p \<longrightarrow> map_of (rs_futures s') k = Some p)"

definition ended :: "string \<Rightarrow> run_state \<Rightarrow> pc \<Rightarrow> bool" where
  \<comment> \<open>the task is over, and its future is resolved unless it crashed\<close>
  "ended k s p \<longleftrightarrow> final p \<and> (\<forall>r. p = Finished r \<longrightarrow> map_of (rs_futures s) k \<noteq> None)"

definition arrives :: "exec_env \<Rightarrow> nat \<Rightarrow> pc \<Rightarrow> run_state \<Rightarrow> run_state \<Rightarrow> bool" where
  \<comment> \<open>from a state in which the task holds the slots of \<open>q\<close> to its next suspension point\<close>
  "arrives env i q s s' \<longleftrightarrow> (\<exists>p s2. s' = set_pc i p s2 \<and> touch0 (sid env i) s s2
     \<and> (final p \<or> same_entries (sid env i) s s2) \<and> pc_ok env s2 i p
     \<and> rs_global s2 + hg p = rs_global s + hg q
     \<and> (\<forall>k. sem s2 k + ht env i k p = sem s k + ht env i k q))"

lemma touch0_refl [simp]: "touch0 k s s"
  by (simp add: touch0_def same_entries_def)

lemma touch0_trans: "touch0 k a b \<Longrightarrow> touch0 k b c \<Longrightarrow> touch0 k a c"
  by (auto simp: touch0_def same_entries_def intro: sm_extends_trans)

lemma touches_touch0: "touches k s s' \<Longrightarrow> touch0 k s s'"
  by (simp add: touches_def touch0_def same_schedule_def)

lemma same_entries_refl [simp]: "same_entries j s s"
  by (simp add: same_entries_def)

lemma same_entries_trans: "same_entries j a b \<Longrightarrow> same_entries j b c \<Longrightarrow> same_entries j a c"
  by (simp add: same_entries_def)

text \<open>Bookkeeping of slots and metrics leaves the data alone.\<close>

definition same_data :: "run_state \<Rightarrow> run_state \<Rightarrow> bool" where
  "same_data s s' \<longleftrightarrow> rs_pcs s' = rs_pcs s \<and> rs_clock s' = rs_clock s \<and> rs_sm s' = rs_sm s
     \<and> rs_futures s' = rs_futures s \<and> rs_status s' = rs_status s \<and> rs_decisions s' = rs_decisions s"

lemma same_data_frames: "same_data s s' \<Longrightarrow> touch0 k s s' \<and> same_entries j s s'"
  by (simp add: same_data_def touch0_def same_entries_def)

lemma same_data_trans: "same_data a b \<Longrightarrow> same_data b c \<Longrightarrow> same_data a c"
  by (simp add: same_data_def)

lemma bookkeeping [simp]:
  "same_data s (record_wait get upd w s)" "rs_global (record_wait get upd w s) = rs_global s"
  "rs_tool_sem (record_wait get upd w s) = rs_tool_sem s"
  "rs_clock (record_wait get upd w s) = rs_clock s"
  "same_data s (on_slot_acquired key s)" "rs_global (on_slot_acquired key s) = rs_global s"
  "rs_tool_sem (on_slot_acquired key s) = rs_tool_sem s"
  "same_data s (on_slot_released key s)" "rs_global (on_slot_released key s) = rs_global s"
  "rs_tool_sem (on_slot_released key s) = rs_tool_sem s"
  "same_data s (sem_add slot n s)" "rs_global (sem_add slot n s) = rs_global s"
  "sem (sem_add slot n s) k = sem s k + (if slot = Some k then n else 0)"
  by (auto simp: record_wait_def on_slot_acquired_def on_slot_released_def sem_add_def same_data_def Let_def
      sem_def split: option.splits)

lemma bookkeeping_sem [simp]:
  "sem (record_wait get upd w s) k = sem s k" "sem (on_slot_acquired key s) k = sem s k"
  "sem (on_slot_released key s) k = sem s k"
  by (simp_all add: sem_def)

lemma release_slots_spec:
  "same_data s (release_slots env step s)" "rs_global (release_slots env step s) = rs_global s + 1"
  "sem (release_slots env step s) k = sem s k + (if tool_slot_key env step = Some k then 1 else 0)"
proof -
  let ?s = "sem_add (tool_slot_key env step) 1 (on_slot_released (tool_limit_key env step) s)"
  have "same_data s ?s" by (rule same_data_trans [OF bookkeeping(8) bookkeeping(11)])
  then show "same_data s (release_slots env step s)" by (simp add: release_slots_def Let_def same_data_def)
  show "rs_global (release_slots env step s) = rs_global s + 1" by (simp add: release_slots_def Let_def)
  have "sem (release_slots env step s) k = sem ?s k" by (simp add: release_slots_def Let_def sem_def)
  then show "sem (release_slots env step s) k = sem s k + (if tool_slot_key env step = Some k then 1 else 0)"
    by simp
qed

lemma all_entries_transfer:
  assumes "\<And>j. same_entries j s s'"
  shows "activated env s' step = activated env s step" "deps_ok env s' step = deps_ok env s step"
  using assms
  by (auto simp: activated_def deps_ok_def dep_ok_def same_entries_def is_activated_def dict_get_or_def)

lemma pc_ok_transfer:
  assumes "\<And>j. same_entries j s s'" and "pc_ok env s i p"
  shows "pc_ok env s' i p"
  using assms(2) assms(1) [of "sid env i"] by (simp add: pc_ok_def all_entries_transfer [OF assms(1)] same_entries_def)

lemma touch0_all: "touch0 k s s' \<Longrightarrow> same_entries k s s' \<Longrightarrow> same_entries j s s'"
  by (cases "j = k") (auto simp: touch0_def)

section \<open>From one suspension point to the next\<close>

definition ends :: "string \<Rightarrow> pc task \<Rightarrow> bool" where
  "ends k m \<longleftrightarrow> (\<forall>s p. fst (m s) = Inr p \<longrightarrow> ended k (snd (m s)) p)"

lemma ends_bind: "(\<And>x. ends k (f x)) \<Longrightarrow> ends k (bindT m f)"
  by (auto simp: ends_def bindT_def split: prod.splits sum.splits)

lemma ends_try: "ends k m \<Longrightarrow> (\<And>e. ends k (h e)) \<Longrightarrow> ends k (tryT m h)"
  unfolding ends_def tryT_def by (auto split: prod.splits sum.splits) (metis fst_conv snd_conv)

lemma ends_future:
  assumes m: "framed (touches k) (f ())" and fin: "\<And>s p. fst (f () s) = Inr p \<Longrightarrow> final p"
  shows "ends k (bindT (set_future k p) f)"
  unfolding ends_def
proof (intro allI impI)
  fix s q assume q: "fst (bindT (set_future k p) f s) = Inr q"
  let ?s = "if dict_has (rs_futures s) k then s else s\<lparr>rs_futures := AList.update k p (rs_futures s)\<rparr>"
  have b: "bindT (set_future k p) f s = f () ?s" by (simp add: bindT_def set_future_def modifyT_def)
  have "map_of (rs_futures ?s) k \<noteq> None" by simp
  moreover have "touches k ?s (snd (f () ?s))" using m unfolding framed_def by blast
  ultimately have "map_of (rs_futures (snd (f () ?s))) k \<noteq> None" unfolding touches_def by force
  with fin q show "ended k (snd (bindT (set_future k p) f s)) q" unfolding b ended_def by blast
qed

lemma ends_conclude: "ends (tc_step_id step) (conclude env rd step p)"
  unfolding conclude_def
proof (rule ends_future)
  show "framed (touches (tc_step_id step)) (bindT (persist_checkpoint env rd ''active'' None) (\<lambda>_. retT (Finished p)))"
    by (intro tch.frame_rules touches_prims)
qed (auto simp: bindT_def retT_def split: prod.splits sum.splits)

lemma ends_replay: "ends (tc_step_id step) (replay_step env rd step p)"
  unfolding replay_step_def
proof (rule ends_future)
  show "framed (touches (tc_step_id step)) (bindT (modifyT (\<lambda>s. s\<lparr>rs_replayed := List.insert (tc_step_id step) (rs_replayed s)\<rparr>)) (\<lambda>_.
     bindT (emit ((base_event env rd step REPLAYED)\<lparr>ev_output := Some p\<rparr>)) (\<lambda>_.
     bindT (hydrate_pointer_response env rd p (tc_step_id step)) (\<lambda>p. retT (Finished p)))))"
    by (intro tch.frame_rules tch.frame_modify touches_prims)
       (simp add: touches_def same_schedule_def same_entries_def)
qed (auto simp: bindT_def retT_def split: prod.splits sum.splits)

lemma ends_parts:
  "ends (tc_step_id step) (skip_step env rd step reason extra)" "ends (tc_step_id step) (pause_step env rd step)"
  "ends (tc_step_id step) (reject_step env rd step d)" "ends (tc_step_id step) (fail_step env rd step t n e)"
  "ends (tc_step_id step) (complete_step env rd step c raw)" "ends (tc_step_id step) (replay_step env rd step p)"
  unfolding skip_step_def pause_step_def reject_step_def fail_step_def complete_step_def Let_def
  by (intro ends_bind ends_conclude ends_replay)+

lemma hg_simps [simp]:
  "final p \<Longrightarrow> hg p = 0" "final p \<Longrightarrow> ht env i k p = 0" "hg Fresh = 0" "ht env i k Fresh = 0"
  "hg (WantGlobal c) = 0" "ht env i k (WantGlobal c) = 0" "hg (AwaitControllers t) = 0"
  "ht env i k (AwaitControllers t) = 0" "hg (Resolving t r) = 0" "ht env i k (Resolving t r) = 0"
  "hg (WantTool c) = 1" "ht env i k (WantTool c) = 0"
  by (cases p; simp add: hg_def ht_def)+

lemma hg_full [simp]:
  "holds_tool p \<Longrightarrow> hg p = 1"
  "holds_tool p \<Longrightarrow> ht env i k p = (if tool_slot_key env (step_at env i) = Some k then 1 else 0)"
  by (cases p; simp add: hg_def ht_def)+

lemma ended_pc_ok: "ended (sid env i) s p \<Longrightarrow> pc_ok env s i p"
  by (cases p) (auto simp: ended_def pc_ok_def)

lemma settle_arrives:
  assumes f: "framed (touches (sid env i)) m"
    and r: "\<And>p. fst (m s) = Inr p \<Longrightarrow> ended (sid env i) (snd (m s)) p \<or>
       (same_entries (sid env i) s (snd (m s)) \<and> pc_ok env (snd (m s)) i p \<and> \<not> holds_global p)"
  shows "arrives env i Fresh s (settle i m s)"
proof -
  obtain x s2 where m: "m s = (x, s2)" by (cases "m s")
  have t: "touches (sid env i) s s2" using f m unfolding framed_def by (metis snd_conv)
  then have sch: "rs_global s2 = rs_global s" "sem s2 k = sem s k" for k
    by (auto simp: touches_def same_schedule_def sem_def)
  have nh: "\<not> holds_global p \<Longrightarrow> hg p = 0 \<and> ht env i k p = 0" for p k
    by (cases p) (auto simp: hg_def ht_def)
  show ?thesis
  proof (cases x)
    case (Inl e)
    then show ?thesis unfolding arrives_def using m t sch touches_touch0 [OF t]
      by (intro exI [of _ "Crashed e"] exI [of _ s2]) (simp add: settle_def pc_ok_def)
  next
    case (Inr p)
    then have "(final p \<or> same_entries (sid env i) s s2 \<and> \<not> holds_global p) \<and> pc_ok env s2 i p"
      using r [of p] m ended_pc_ok [of env i s2 p] by (auto simp: ended_def)
    then show ?thesis unfolding arrives_def using m Inr sch touches_touch0 [OF t] nh [of p]
      by (intro exI [of _ p] exI [of _ s2]) (auto simp: settle_def)
  qed
qed

lemma settle_ends: "framed (touches (sid env i)) m \<Longrightarrow> ends (sid env i) m \<Longrightarrow> arrives env i Fresh s (settle i m s)"
  by (rule settle_arrives) (auto simp: ends_def)

lemma arrives_prefix:
  assumes a: "arrives env i q1 s1 s'" and t: "touch0 (sid env i) s s1" "same_entries (sid env i) s s1"
    and g: "rs_global s1 + hg q1 = rs_global s + hg q"
    and k: "\<And>k. sem s1 k + ht env i k q1 = sem s k + ht env i k q"
  shows "arrives env i q s s'"
proof -
  obtain p s2 where p: "s' = set_pc i p s2" "touch0 (sid env i) s1 s2"
      "final p \<or> same_entries (sid env i) s1 s2" "pc_ok env s2 i p"
      "rs_global s2 + hg p = rs_global s1 + hg q1" "\<forall>k. sem s2 k + ht env i k p = sem s1 k + ht env i k q1"
    using a unfolding arrives_def by blast
  then show ?thesis unfolding arrives_def using t g k touch0_trans [OF t(1) p(2)] same_entries_trans [OF t(2)]
    by (intro exI [of _ p] exI [of _ s2]) auto
qed

lemma arrives_here:
  assumes "same_data s s2" and "pc_ok env s2 i p" and "rs_global s2 + hg p = rs_global s + hg q"
    and "\<And>k. sem s2 k + ht env i k p = sem s k + ht env i k q"
  shows "arrives env i q s (set_pc i p s2)"
  using assms same_data_frames [OF assms(1)] unfolding arrives_def by blast

lemma arrives_release:
  assumes "holds_tool q" and "framed (touches (sid env i)) m" and "ends (sid env i) m"
  shows "arrives env i q s (settle i m (release_slots env (step_at env i) s))"
  using assms same_data_frames [OF release_slots_spec(1)]
  by (intro arrives_prefix [OF settle_ends]) (auto simp: release_slots_spec)

lemma emit_result:
  assumes "emit e s = (r, s')"
  shows "touch0 k s s'" "same_entries j s s'" "rs_global s' = rs_global s" "sem s' l = sem s l" "rs_clock s' = rs_clock s"
proof -
  have "quiet s s'" using quiet_emit [of e] assms unfolding framed_def by (metis snd_conv)
  then show "touch0 k s s'" "same_entries j s s'" "rs_global s' = rs_global s" "sem s' l = sem s l" "rs_clock s' = rs_clock s"
    by (auto simp: quiet_touches touches_touch0) (auto simp: quiet_def same_schedule_def sem_def)
qed

lemma on_attempt_error_arrives:
  assumes q: "holds_tool q" "pc_call q = Some c" and ok: "pc_ok env s i q"
  shows "arrives env i q s (on_attempt_error env rd i c e s)"
proof -
  let ?step = "step_at env i"
  have fail: "arrives env i q s' (settle i (fail_step env rd ?step t n e') (release_slots env ?step s'))" for s' t n e'
    using q(1) touches_fail ends_parts(4) by (rule arrives_release)
  show ?thesis
  proof (cases "ex_name e \<notin> set (rp_retryable (mr_retry (xe_macro env))) \<or> rp_max_attempts (mr_retry (xe_macro env)) \<le> cl_attempt c")
    case True
    then show ?thesis using fail by (simp add: on_attempt_error_def Let_def)
  next
    case False
    define ev where "ev = (base_event env rd ?step RETRIED)\<lparr>ev_attempt := cl_attempt c, ev_retry_delay := Some (cl_delay c),
      ev_error := Some (error_payload ''tool_execution_error'' (ex_message e) ?step [(''attempts'', PInt (cl_attempt c))]),
      ev_arguments := Some (cl_args c), ev_inputs := (if cl_inputs c = [] then None else Some (cl_inputs c))\<rparr>"
    obtain r s1 where em: "emit ev s = (r, s1)" by (cases "emit ev s")
    note E = emit_result [OF em]
    show ?thesis
    proof (cases r)
      case (Inl e')
      have "arrives env i q s (settle i (fail_step env rd ?step (cl_started c) (cl_attempt c) e') (release_slots env ?step s1))"
        using E by (intro arrives_prefix [OF fail]) auto
      then show ?thesis using False em Inl by (simp add: on_attempt_error_def Let_def ev_def)
    next
      case (Inr u)
      have "pc_ok env s1 i (Backoff c (rs_clock s1 + cl_delay c))"
        using pc_ok_transfer [OF E(2) ok] False q(2) by (simp add: pc_ok_def)
      then have "arrives env i q s (set_pc i (Backoff c (rs_clock s1 + cl_delay c)) s1)"
        unfolding arrives_def using E q(1) by (intro exI [of _ "Backoff c (rs_clock s1 + cl_delay c)"] exI [of _ s1]) auto
      then show ?thesis using False em Inr by (simp add: on_attempt_error_def Let_def ev_def)
    qed
  qed
qed

lemma pc_ok_call:
  assumes "pc_ok env s i q" and "pc_call q = Some c" and "pc_call p = Some c'" and "cl_attempt c' = cl_attempt c"
    and "\<And>c w. p \<noteq> Backoff c w" and "\<And>c. p \<noteq> WantTool c"
  shows "pc_ok env s i p"
  using assms by (auto simp: pc_ok_def)

lemma start_tool_arrives:
  assumes q: "holds_tool q" "pc_call q = Some c0" "cl_attempt c = cl_attempt c0" and ok: "pc_ok env s i q"
  shows "arrives env i q s (start_tool env rd i c s)"
proof -
  let ?step = "step_at env i"
  define s1 where "s1 = (if cl_limited c then s\<lparr>rs_metrics := (rs_metrics s)\<lparr>sa_rate_limited := sa_rate_limited (rs_metrics s) + 1\<rparr>\<rparr> else s)"
  define ev where "ev = (base_event env rd ?step STARTED)\<lparr>ev_attempt := cl_attempt c, ev_arguments := Some (cl_args c),
     ev_inputs := (if cl_inputs c = [] then None else Some (cl_inputs c))\<rparr>"
  have s1: "same_data s s1" "rs_global s1 = rs_global s" "sem s1 k = sem s k" for k
    by (auto simp: s1_def same_data_def sem_def)
  note D = same_data_frames [OF s1(1)]
  obtain r s2 where em: "emit ev s1 = (r, s2)" by (cases "emit ev s1")
  note E = emit_result [OF em]
  have t: "touch0 (sid env i) s s2" "same_entries j s s2" for j
    using D E touch0_trans same_entries_trans by blast+
  have run: "pc_ok env s2 i (Running c)"
    by (rule pc_ok_call [OF pc_ok_transfer [OF t(2) ok] q(2), where c' = c]) (simp_all add: q(3))
  have run_hold: "arrives env i (Running c) s' s'' \<Longrightarrow> arrives env i q s' s''" for s' s''
    using q(1) by (simp add: arrives_def)
  show ?thesis
  proof (cases r)
    case (Inl e)
    have "arrives env i q s2 (on_attempt_error env rd i c e s2)"
      by (rule run_hold, rule on_attempt_error_arrives) (simp_all add: run)
    then have "arrives env i q s (on_attempt_error env rd i c e s2)"
      by (rule arrives_prefix) (simp_all add: t E s1)
    then show ?thesis using em Inl by (simp add: start_tool_def Let_def s1_def ev_def)
  next
    case (Inr u)
    have "arrives env i q s (set_pc i (Running c) s2)"
      unfolding arrives_def using t run E s1 q(1) by (intro exI [of _ "Running c"] exI [of _ s2]) auto
    then show ?thesis using em Inr by (simp add: start_tool_def Let_def s1_def ev_def)
  qed
qed

lemma after_global_rate_arrives:
  assumes q: "holds_tool q" "pc_call q = Some c0" "cl_attempt c = cl_attempt c0" and ok: "pc_ok env s i q"
  shows "arrives env i q s (after_global_rate env rd i c s)"
proof (cases "tool_bucket env i s")
  case None
  then show ?thesis using start_tool_arrives [OF assms] by (simp add: after_global_rate_def)
next
  case (Some kb)
  have "pc_ok env s i (WantToolRate c 0 (rs_clock s))"
    by (rule pc_ok_call [OF ok q(2), where c' = c]) (simp_all add: q(3))
  then have "arrives env i q s (set_pc i (WantToolRate c 0 (rs_clock s)) s)"
    using q(1) by (intro arrives_here) (auto simp: same_data_def)
  with Some show ?thesis by (simp add: after_global_rate_def)
qed

lemma after_slots_arrives:
  assumes q: "holds_tool q" "pc_call q = Some c0" "cl_attempt c = cl_attempt c0" and ok: "pc_ok env s i q"
  shows "arrives env i q s (after_slots env rd i c s)"
proof -
  define s1 where "s1 = on_slot_acquired (tool_limit_key env (step_at env i)) s"
  have s1: "same_data s s1" "rs_global s1 = rs_global s" "sem s1 k = sem s k" for k
    by (simp_all add: s1_def)
  note D = same_data_frames [OF s1(1)]
  have ok1: "pc_ok env s1 i q" by (rule pc_ok_transfer [OF _ ok]) (use D in blast)
  show ?thesis
  proof (cases "rs_bucket s1")
    case None
    have "arrives env i q s (after_global_rate env rd i c s1)"
      by (rule arrives_prefix [OF after_global_rate_arrives [OF q ok1]]) (use D s1 in simp_all)
    with None show ?thesis by (simp add: after_slots_def Let_def s1_def)
  next
    case (Some b)
    have "pc_ok env s1 i (WantGlobalRate c 0 (rs_clock s1))"
      by (rule pc_ok_call [OF ok1 q(2), where c' = c]) (simp_all add: q(3))
    then have "arrives env i q s (set_pc i (WantGlobalRate c 0 (rs_clock s1)) s1)"
      using q(1) s1 by (intro arrives_here) auto
    with Some show ?thesis by (simp add: after_slots_def Let_def s1_def)
  qed
qed

section \<open>The gate\<close>

definition prepared :: "exec_env \<Rightarrow> tool_call \<Rightarrow> rat \<Rightarrow> run_state \<Rightarrow> pc \<Rightarrow> bool" where
  "prepared env step t s p \<longleftrightarrow>
     (\<exists>r. p = Resolving t r \<and> step_refers step r \<and> waits_for env s r)
   \<or> (\<exists>c. p = WantGlobal c \<and> cl_attempt c = 1 \<and> cl_started c = t \<and> deps_ok env s step)"

lemma prepare_state: "snd (prepare_call env step t s) = s"
  by (auto simp: prepare_call_def task_defs split: resolution.splits sum.splits prod.splits)

lemma prepare_result:
  assumes "fst (prepare_call env step t s) = Inr p"
  shows "prepared env step t s p"
proof (cases "resolve_arguments env s (tc_arguments step) []")
  case (Blocked r)
  then show ?thesis using assms resolve_arguments_Blocked [OF Blocked]
    by (auto simp: prepare_call_def task_defs prepared_def step_refers_def)
next
  case (Resolved x)
  then have "deps_ok env s step" using resolve_arguments_Resolved [OF Resolved]
    by (auto simp: deps_ok_def step_refers_def)
  moreover have "\<exists>c. p = WantGlobal c \<and> cl_attempt c = 1 \<and> cl_started c = t"
    using assms Resolved
    by (cases x; cases "validate_arguments (xe_lib env) (xe_registry env) (tc_tool_name step) (fst x)";
        cases "get_tool (xe_registry env) (tc_tool_name step)") (auto simp: prepare_call_def task_defs)
  ultimately show ?thesis by (auto simp: prepared_def)
next
  case (Unresolved e)
  then show ?thesis using assms by (simp add: prepare_call_def task_defs)
qed

lemma bindT_result:
  assumes "fst (bindT m f s) = Inr y"
  obtains x s1 where "m s = (Inr x, s1)" "fst (f x s1) = Inr y" "snd (bindT m f s) = snd (f x s1)"
  using assms by (auto simp: bindT_def split: prod.splits sum.splits)

lemma gate_result:
  assumes "fst (gate env rd step t s) = Inr p"
  shows "ended (tc_step_id step) (snd (gate env rd step t s)) p \<or> (quiet s (snd (gate env rd step t s)) \<and> approved env step
     \<and> prepared env step t (snd (gate env rd step t s)) p)"
proof (cases "rs_early s")
  case True
  then show ?thesis using assms ends_parts(1) by (auto simp: gate_def task_defs ends_def)
next
  case early: False
  show ?thesis
  proof (cases "requires_approval step")
    case False
    then have g: "gate env rd step t s = prepare_call env step t s"
      using early by (simp add: gate_def task_defs)
    show ?thesis using prepare_result [of env step t s p] assms False
      by (simp add: g prepare_state approved_def)
  next
    case True
    define m where "m = (\<lambda>_::unit. case map_of (mr_approvals (xe_macro env)) (tc_step_id step) of
           None \<Rightarrow> pause_step env rd step
         | Some d \<Rightarrow> if ad_decision d = REJECT then reject_step env rd step d
             else bindT (emit (base_event env rd step APPROVED)) (\<lambda>_. prepare_call env step t))"
    have g: "gate env rd step t s = bindT (emit (base_event env rd step APPROVAL_REQUIRED)) m s"
      using early True by (simp add: gate_def m_def readT_def bindT_def [of "readT rs_early"])
    obtain u s1 where s1: "emit (base_event env rd step APPROVAL_REQUIRED) s = (Inr u, s1)"
        "fst (m u s1) = Inr p" "snd (gate env rd step t s) = snd (m u s1)"
      using assms unfolding g by (rule bindT_result)
    have q1: "quiet s s1" using quiet_emit s1(1) unfolding framed_def by (metis snd_conv)
    show ?thesis
    proof (cases "\<exists>d. map_of (mr_approvals (xe_macro env)) (tc_step_id step) = Some d \<and> ad_decision d \<noteq> REJECT")
      case False
      then have "ended (tc_step_id step) (snd (m u s1)) p" using s1(2) ends_parts(2,3)
        by (auto simp: m_def ends_def split: option.splits if_splits)
      then show ?thesis using s1(3) by simp
    next
      case app: True
      then have m: "m u = bindT (emit (base_event env rd step APPROVED)) (\<lambda>_. prepare_call env step t)"
        by (auto simp: m_def)
      obtain v s2 where s2: "emit (base_event env rd step APPROVED) s1 = (Inr v, s2)"
          "fst (prepare_call env step t s2) = Inr p" "snd (m u s1) = snd (prepare_call env step t s2)"
        using s1(2) unfolding m by (rule bindT_result)
      have "quiet s1 s2" using quiet_emit s2(1) unfolding framed_def by (metis snd_conv)
      then have "quiet s s2" using q1 qt.trans by blast
      moreover have "approved env step" using app by (auto simp: approved_def) (metis decision_type.exhaust)
      ultimately show ?thesis using prepare_result [OF s2(2)] s1(3) s2(3) by (simp add: prepare_state)
    qed
  qed
qed

lemma try_fail_result:
  assumes "fst (tryT m (fail_step env rd step t n) s) = Inr p"
  shows "ended (tc_step_id step) (snd (tryT m (fail_step env rd step t n) s)) p
     \<or> fst (m s) = Inr p \<and> snd (tryT m (fail_step env rd step t n) s) = snd (m s)"
proof (cases "fst (m s)")
  case (Inl e)
  then have "tryT m (fail_step env rd step t n) s = fail_step env rd step t n e (snd (m s))"
    by (cases "m s") (simp add: tryT_def)
  then show ?thesis using assms ends_parts(4) by (auto simp: ends_def)
next
  case (Inr q)
  then show ?thesis using assms by (cases "m s") (simp add: tryT_def)
qed

lemma prepared_pc_ok:
  assumes "prepared env (step_at env i) t s p" and "approved env (step_at env i)" and "activated env s (step_at env i)"
  shows "pc_ok env s i p \<and> \<not> holds_global p"
  using assms by (auto simp: prepared_def pc_ok_def waits_for_def)

lemma quiet_entries: "quiet s s' \<Longrightarrow> same_entries j s s'"
  by (simp add: quiet_def)

text \<open>The three ways into the body of \<open>run_step\<close>: a fresh step, after its controllers, after a reference.\<close>

lemma body_arrives:
  assumes act: "activated env s (step_at env i)"
    and m: "m = gate env rd (step_at env i) t \<or> m = prepare_call env (step_at env i) t \<and> approved env (step_at env i)"
  shows "arrives env i Fresh s (settle i (tryT m (fail_step env rd (step_at env i) t n)) s)"
proof (rule settle_arrives)
  show "framed (touches (sid env i)) (tryT m (fail_step env rd (step_at env i) t n))"
    using m by (auto intro!: tch.frame_rules touches_gate touches_parts)
  fix p assume p: "fst (tryT m (fail_step env rd (step_at env i) t n) s) = Inr p"
  let ?s = "snd (tryT m (fail_step env rd (step_at env i) t n) s)"
  have "ended (sid env i) ?s p \<or> quiet s ?s \<and> approved env (step_at env i) \<and> prepared env (step_at env i) t ?s p"
    using try_fail_result [OF p] m gate_result [of env rd "step_at env i" t s p]
      prepare_result [of env "step_at env i" t s p] by (auto simp: prepare_state)
  then show "ended (sid env i) ?s p \<or> same_entries (sid env i) s ?s \<and> pc_ok env ?s i p \<and> \<not> holds_global p"
    using prepared_pc_ok [of env i t ?s p] all_entries_transfer(1) [of s ?s env "step_at env i"] act
    by (auto simp: quiet_entries)
qed

lemma after_controllers_arrives:
  assumes "branch_controllers (xe_macro env) (sid env i) \<noteq> []"
    and "\<forall>c\<in>set (branch_controllers (xe_macro env) (sid env i)). map_of (rs_futures s) c \<noteq> None"
  shows "arrives env i Fresh s (settle i (tryT (after_controllers env rd (step_at env i) t) (fail_step env rd (step_at env i) t n)) s)"
proof (cases "is_activated env s (sid env i)")
  case True
  then have "after_controllers env rd (step_at env i) t s = gate env rd (step_at env i) t s"
    by (simp add: after_controllers_def task_defs)
  then have "settle i (tryT (after_controllers env rd (step_at env i) t) (fail_step env rd (step_at env i) t n)) s
     = settle i (tryT (gate env rd (step_at env i) t) (fail_step env rd (step_at env i) t n)) s"
    by (simp add: settle_def tryT_def)
  moreover have "activated env s (step_at env i)" using True assms(2) by (simp add: activated_def)
  ultimately show ?thesis using body_arrives [of env s i] by simp
next
  case False
  let ?k = "skip_step env rd (step_at env i) ''branch_not_selected''
         [(''controllers'', PList (map PStr (py_sorted_set (branch_controllers (xe_macro env) (sid env i)))))]"
  have "settle i (tryT (after_controllers env rd (step_at env i) t) (fail_step env rd (step_at env i) t n)) s
     = settle i (tryT ?k (fail_step env rd (step_at env i) t n)) s"
    using False by (simp add: settle_def tryT_def after_controllers_def bindT_def readT_def)
  moreover have "arrives env i Fresh s (settle i (tryT ?k (fail_step env rd (step_at env i) t n)) s)"
    by (intro settle_ends tch.frame_rules touches_parts ends_try ends_parts)
  ultimately show ?thesis by simp
qed

section \<open>One step of one task\<close>

lemma start_arrives: "arrives env i Fresh s (settle i (start_step env rd (step_at env i)) s)"
proof (cases "replayable (map_of (rs_status s) (sid env i))")
  case True
  then have "settle i (start_step env rd (step_at env i)) s
     = settle i (replay_step env rd (step_at env i) (ss_pointer (the (map_of (rs_status s) (sid env i))))) s"
    by (simp add: settle_def start_step_def bindT_def readT_def)
  then show ?thesis using settle_ends [OF touches_replay ends_parts(6)] by metis
next
  case False
  let ?step = "step_at env i"
  obtain r s1 where em: "emit (base_event env rd ?step QUEUED) s = (r, s1)" by (cases "emit (base_event env rd ?step QUEUED) s")
  note E = emit_result [OF em]
  have st: "settle i (start_step env rd ?step) s = (case r of Inl e \<Rightarrow> set_pc i (Crashed e) s1
     | Inr _ \<Rightarrow> if branch_controllers (xe_macro env) (sid env i) \<noteq> [] then set_pc i (AwaitControllers (rs_clock s1)) s1
         else settle i (tryT (gate env rd ?step (rs_clock s1)) (fail_step env rd ?step (rs_clock s1) 0)) s1)"
    using False em by (simp add: settle_def start_step_def bindT_def readT_def retT_def split: sum.splits)
  have pre: "arrives env i Fresh s1 s' \<Longrightarrow> arrives env i Fresh s s'" for s'
    by (erule arrives_prefix) (use E in simp_all)
  have "arrives env i Fresh s1 (set_pc i (Crashed e) s1)" for e
    by (rule arrives_here) (simp_all add: same_data_def pc_ok_def)
  moreover have "arrives env i Fresh s1 (set_pc i (AwaitControllers (rs_clock s1)) s1)"
    if "branch_controllers (xe_macro env) (sid env i) \<noteq> []"
    using that by (intro arrives_here) (simp_all add: same_data_def pc_ok_def)
  moreover have "arrives env i Fresh s1 (settle i (tryT (gate env rd ?step (rs_clock s1)) (fail_step env rd ?step (rs_clock s1) 0)) s1)"
    if "branch_controllers (xe_macro env) (sid env i) = []"
    using that by (intro body_arrives) (simp_all add: activated_def)
  ultimately show ?thesis unfolding st using pre by (auto split: sum.splits)
qed

lemma arrives_slots:
  assumes "arrives env i q' s s'" and "hg q' = hg q" and "\<And>k. ht env i k q' = ht env i k q"
  shows "arrives env i q s s'"
  using assms by (simp add: arrives_def)

abbreviation tick :: "reading \<Rightarrow> run_state \<Rightarrow> run_state" where
  "tick rd s \<equiv> s\<lparr>rs_clock := rs_clock s + rd_elapsed rd\<rparr>"

lemma pc_ok_tick [simp]: "pc_ok env (s\<lparr>rs_clock := t\<rparr>) i p = pc_ok env s i p"
  by (simp add: pc_ok_def activated_def deps_ok_def dep_ok_def is_activated_def)

lemma want_global_arrives:
  fixes w :: rat and s :: run_state
  assumes ok: "pc_ok env s i (WantGlobal c)" and "0 < rs_global s"
  defines "s1 \<equiv> record_wait sa_global_concurrency sa_global_concurrency_update w (s\<lparr>rs_global := rs_global s - 1\<rparr>)"
  shows "arrives env i (WantGlobal c) s (if tool_slot_key env (step_at env i) = None then after_slots env rd i c s1
     else set_pc i (WantTool (c\<lparr>cl_wait_from := rs_clock s\<rparr>)) s1)"
proof -
  have s1: "same_data s s1" "rs_global s1 = rs_global s - 1" "sem s1 k = sem s k" for k
    using bookkeeping(1) [of "s\<lparr>rs_global := rs_global s - 1\<rparr>" sa_global_concurrency sa_global_concurrency_update w]
    by (simp_all add: s1_def same_data_def sem_def)
  note D = same_data_frames [OF s1(1)]
  have ok1: "pc_ok env s1 i (WantGlobal c)" by (rule pc_ok_transfer [OF _ ok]) (use D in blast)
  show ?thesis
  proof (cases "tool_slot_key env (step_at env i)")
    case None
    have run: "pc_ok env s1 i (Running c)" by (rule pc_ok_call [OF ok1, where c' = c]) simp_all
    have "arrives env i (WantGlobal c) s (after_slots env rd i c s1)"
      by (rule arrives_prefix [OF after_slots_arrives [OF _ _ refl run]]) (use D s1 None in simp_all)
    with None show ?thesis by simp
  next
    case (Some k)
    then have "pc_ok env s1 i (WantTool (c\<lparr>cl_wait_from := rs_clock s\<rparr>))" using ok1 by (auto simp: pc_ok_def)
    then have "arrives env i (WantGlobal c) s (set_pc i (WantTool (c\<lparr>cl_wait_from := rs_clock s\<rparr>)) s1)"
      using s1 by (intro arrives_here) auto
    with Some show ?thesis by simp
  qed
qed

lemma want_tool_arrives:
  assumes ok: "pc_ok env s i (WantTool c)" and k: "tool_slot_key env (step_at env i) = Some k"
  shows "arrives env i (WantTool c) s (after_slots env rd i c
     (record_wait sa_tool_concurrency sa_tool_concurrency_update w (sem_add (Some k) (- 1) s)))"
proof -
  define s1 where "s1 = record_wait sa_tool_concurrency sa_tool_concurrency_update w (sem_add (Some k) (- 1) s)"
  have s1: "same_data s s1" "rs_global s1 = rs_global s" "sem s1 l = sem s l + (if Some k = Some l then - 1 else 0)" for l
    using same_data_trans [OF bookkeeping(11) bookkeeping(1)] by (simp_all add: s1_def)
  note D = same_data_frames [OF s1(1)]
  have run: "pc_ok env s1 i (Running c)"
    by (rule pc_ok_call [OF pc_ok_transfer [OF _ ok], where c' = c]) (use D in auto)
  have "arrives env i (WantTool c) s (after_slots env rd i c s1)"
    by (rule arrives_prefix [OF after_slots_arrives [OF _ _ refl run]]) (use D s1 k in simp_all)
  then show ?thesis by (simp add: s1_def)
qed

lemma backoff_arrives:
  assumes ok: "pc_ok env s i (Backoff c w)"
  shows "arrives env i (Backoff c w) s (set_pc i (WantGlobal (c\<lparr>cl_attempt := cl_attempt c + 1, cl_delay := d,
     cl_wait_from := f, cl_limited := False\<rparr>)) (release_slots env (step_at env i) s))"
proof (rule arrives_here)
  show "same_data s (release_slots env (step_at env i) s)" by (rule release_slots_spec)
  have "pc_ok env (release_slots env (step_at env i) s) i (Backoff c w)"
    by (rule pc_ok_transfer [OF _ ok]) (use same_data_frames [OF release_slots_spec(1)] in blast)
  then show "pc_ok env (release_slots env (step_at env i) s) i (WantGlobal (c\<lparr>cl_attempt := cl_attempt c + 1, cl_delay := d,
     cl_wait_from := f, cl_limited := False\<rparr>))" by (auto simp: pc_ok_def)
qed (simp_all add: release_slots_spec)

lemma rate_pc_ok:
  assumes "pc_ok env s i q" and "pc_call q = Some c" and "p = WantGlobalRate c' a b \<or> p = WantToolRate c' a b"
    and "cl_attempt c' = cl_attempt c"
  shows "pc_ok env s i p"
  using assms by (auto simp: pc_ok_def)

lemma global_rate_arrives:
  assumes ok: "pc_ok env s i (WantGlobalRate c w0 w1)"
  shows "arrives env i (WantGlobalRate c w0 w1) s (set_pc i (WantGlobalRate c a b) (s\<lparr>rs_bucket := x\<rparr>))"
    and "arrives env i (WantGlobalRate c w0 w1) s (after_global_rate env rd i (c\<lparr>cl_limited := l\<rparr>)
       (record_wait sa_global_rate sa_global_rate_update w (s\<lparr>rs_bucket := x\<rparr>)))"
proof -
  let ?s = "s\<lparr>rs_bucket := x\<rparr>"
  have D: "same_data s ?s" "sem ?s k = sem s k" for k by (simp_all add: same_data_def sem_def)
  have ok1: "pc_ok env ?s i (WantGlobalRate c w0 w1)"
    by (rule pc_ok_transfer [OF _ ok]) (use same_data_frames [OF D(1)] in blast)
  show "arrives env i (WantGlobalRate c w0 w1) s (set_pc i (WantGlobalRate c a b) ?s)"
    using D rate_pc_ok [OF ok1, of c] by (intro arrives_here) auto
  let ?s2 = "record_wait sa_global_rate sa_global_rate_update w ?s"
  have D2: "same_data s ?s2" using same_data_trans [OF D(1) bookkeeping(1)] .
  have ok2: "pc_ok env ?s2 i (WantGlobalRate c w0 w1)"
    by (rule pc_ok_transfer [OF _ ok]) (use same_data_frames [OF D2] in blast)
  show "arrives env i (WantGlobalRate c w0 w1) s (after_global_rate env rd i (c\<lparr>cl_limited := l\<rparr>) ?s2)"
    by (rule arrives_prefix [OF after_global_rate_arrives [OF _ _ _ ok2, of c]]) (use same_data_frames [OF D2] D in simp_all)
qed

lemma tool_rate_arrives:
  assumes ok: "pc_ok env s i (WantToolRate c w0 w1)"
  shows "arrives env i (WantToolRate c w0 w1) s (set_pc i (WantToolRate c a b) (s\<lparr>rs_tool_buckets := x\<rparr>))"
    and "arrives env i (WantToolRate c w0 w1) s (start_tool env rd i (c\<lparr>cl_limited := l\<rparr>)
       (record_wait sa_tool_rate sa_tool_rate_update w (s\<lparr>rs_tool_buckets := x\<rparr>)))"
proof -
  let ?s = "s\<lparr>rs_tool_buckets := x\<rparr>"
  have D: "same_data s ?s" "sem ?s k = sem s k" for k by (simp_all add: same_data_def sem_def)
  have ok1: "pc_ok env ?s i (WantToolRate c w0 w1)"
    by (rule pc_ok_transfer [OF _ ok]) (use same_data_frames [OF D(1)] in blast)
  show "arrives env i (WantToolRate c w0 w1) s (set_pc i (WantToolRate c a b) ?s)"
    using D rate_pc_ok [OF ok1, of c] by (intro arrives_here) auto
  let ?s2 = "record_wait sa_tool_rate sa_tool_rate_update w ?s"
  have D2: "same_data s ?s2" using same_data_trans [OF D(1) bookkeeping(1)] .
  have ok2: "pc_ok env ?s2 i (WantToolRate c w0 w1)"
    by (rule pc_ok_transfer [OF _ ok]) (use same_data_frames [OF D2] in blast)
  show "arrives env i (WantToolRate c w0 w1) s (start_tool env rd i (c\<lparr>cl_limited := l\<rparr>) ?s2)"
    by (rule arrives_prefix [OF start_tool_arrives [OF _ _ _ ok2, of c]]) (use same_data_frames [OF D2] D in simp_all)
qed

lemma running_arrives:
  assumes ok: "pc_ok env s i (Running c)"
  shows "arrives env i (Running c) s (case out of
      Returned v \<Rightarrow> settle i (tryT (complete_step env rd (step_at env i) c v)
         (fail_step env rd (step_at env i) t n)) (release_slots env (step_at env i) s)
    | Raised e \<Rightarrow> on_attempt_error env rd i c e s)"
proof (cases out)
  case (Returned v)
  have "arrives env i (Running c) s (settle i (tryT (complete_step env rd (step_at env i) c v)
         (fail_step env rd (step_at env i) t n)) (release_slots env (step_at env i) s))"
    by (intro arrives_release tch.frame_rules touches_parts ends_try ends_parts) simp
  with Returned show ?thesis by simp
next
  case (Raised e)
  then show ?thesis using on_attempt_error_arrives [of "Running c" c, OF _ _ ok] by simp
qed

theorem task_step_arrives:
  assumes step: "task_step env rd i s = Some s'" and ok0: "pc_ok env s i (rs_pcs s ! i)"
  shows "arrives env i (rs_pcs s ! i) (tick rd s) s'"
proof -
  define q where "q = rs_pcs s ! i"
  have ok: "pc_ok env (tick rd s) i q" using ok0 by (simp add: q_def)
  note T = step [unfolded task_step_def Let_def, simplified, folded q_def]
  have "arrives env i q (tick rd s) s'"
  proof (cases q)
    case Fresh
    then show ?thesis using T start_arrives [of env i "tick rd s" rd] by simp
  next
    case (AwaitControllers t)
    then have "arrives env i Fresh (tick rd s) s'"
      using T ok after_controllers_arrives [of env i "tick rd s" rd t 0] by (auto simp: pc_ok_def split: if_splits)
    then show ?thesis by (rule arrives_slots) (simp_all add: AwaitControllers)
  next
    case (Resolving t r)
    then have "arrives env i Fresh (tick rd s) s'"
      using T ok body_arrives [of env "tick rd s" i "prepare_call env (step_at env i) t" rd t 0]
      by (auto simp: pc_ok_def split: if_splits)
    then show ?thesis by (rule arrives_slots) (simp_all add: Resolving)
  next
    case (WantGlobal c)
    then show ?thesis using T ok want_global_arrives [of env "tick rd s" i c] by (auto split: if_splits)
  next
    case (WantTool c)
    then show ?thesis using T ok want_tool_arrives [of env "tick rd s" i c] by (auto split: option.splits if_splits)
  next
    case (WantGlobalRate c a b)
    then show ?thesis using T ok global_rate_arrives [of env "tick rd s" i c a b]
      by (auto split: option.splits if_splits prod.splits)
  next
    case (WantToolRate c a b)
    then show ?thesis using T ok tool_rate_arrives [of env "tick rd s" i c a b]
      by (auto split: option.splits if_splits prod.splits)
  next
    case (Running c)
    then show ?thesis using T ok running_arrives [of env "tick rd s" i c, where out = "rd_outcome rd" and rd = rd] by auto
  next
    case (Backoff c w)
    then show ?thesis using T ok backoff_arrives [of env "tick rd s" i c w] by (auto split: if_splits)
  qed (use T in auto)
  then show ?thesis by (simp add: q_def)
qed

section \<open>The invariant\<close>

definition tool_cap :: "exec_env \<Rightarrow> string \<Rightarrow> int" where
  "tool_cap env k = (case map_of (el_per_tool (xe_limits env)) k of None \<Rightarrow> 0
     | Some l \<Rightarrow> (case tl_max_concurrency l of None \<Rightarrow> 0 | Some n \<Rightarrow> n))"

abbreviation tasks :: "exec_env \<Rightarrow> nat" where
  "tasks env \<equiv> length (mr_steps (xe_macro env))"

definition run_inv :: "exec_env \<Rightarrow> run_state \<Rightarrow> bool" where
  "run_inv env s \<longleftrightarrow> length (rs_pcs s) = tasks env
     \<and> (\<forall>i<tasks env. pc_ok env s i (rs_pcs s ! i))
     \<and> (\<forall>i<tasks env. map_of (rs_futures s) (sid env i) \<noteq> None \<longrightarrow>
          final (rs_pcs s ! i) \<or> rs_pcs s ! i = Fresh \<and> replayable (map_of (rs_status s) (sid env i)))
     \<and> rs_global s + (\<Sum>i<tasks env. hg (rs_pcs s ! i)) = el_max_global (xe_limits env)
     \<and> (\<forall>k. sem s k + (\<Sum>i<tasks env. ht env i k (rs_pcs s ! i)) = tool_cap env k)
     \<and> 0 \<le> rs_global s \<and> (\<forall>k. 0 \<le> sem s k)"

lemma run_invD:
  assumes "run_inv env s"
  shows "length (rs_pcs s) = tasks env"
    and "i < tasks env \<Longrightarrow> pc_ok env s i (rs_pcs s ! i)"
    and "i < tasks env \<Longrightarrow> map_of (rs_futures s) (sid env i) \<noteq> None \<Longrightarrow>
      final (rs_pcs s ! i) \<or> rs_pcs s ! i = Fresh \<and> replayable (map_of (rs_status s) (sid env i))"
    and "rs_global s + (\<Sum>i<tasks env. hg (rs_pcs s ! i)) = el_max_global (xe_limits env)"
    and "sem s k + (\<Sum>i<tasks env. ht env i k (rs_pcs s ! i)) = tool_cap env k"
    and "0 \<le> rs_global s" and "0 \<le> sem s k"
  using assms unfolding run_inv_def by auto

lemma sum_update:
  fixes f :: "nat \<Rightarrow> 'a \<Rightarrow> int"
  assumes "i < n" and "length xs = n"
  shows "(\<Sum>j<n. f j (xs[i := p] ! j)) = (\<Sum>j<n. f j (xs ! j)) - f i (xs ! i) + f i p"
proof -
  have "(\<Sum>j\<in>{..<n} - {i}. f j (xs[i := p] ! j)) = (\<Sum>j\<in>{..<n} - {i}. f j (xs ! j))"
    by (rule sum.cong) auto
  then show ?thesis
    using assms sum.remove [of "{..<n}" i "\<lambda>j. f j (xs[i := p] ! j)"] sum.remove [of "{..<n}" i "\<lambda>j. f j (xs ! j)"]
    by simp
qed

lemma set_pc_fields [simp]:
  "rs_pcs (set_pc i p s) = (rs_pcs s)[i := p]" "rs_global (set_pc i p s) = rs_global s"
  "sem (set_pc i p s) k = sem s k" "rs_futures (set_pc i p s) = rs_futures s" "rs_status (set_pc i p s) = rs_status s"
  "rs_decisions (set_pc i p s) = rs_decisions s" "rs_clock (set_pc i p s) = rs_clock s" "rs_sm (set_pc i p s) = rs_sm s"
  "rs_tool_sem (set_pc i p s) = rs_tool_sem s"
  by (simp_all add: set_pc_def sem_def)

lemma sid_in: "i < tasks env \<Longrightarrow> sid env i \<in> set (step_ids (xe_macro env))"
  by (simp add: step_at_def)

lemma sid_inj: "distinct (step_ids (xe_macro env)) \<Longrightarrow> i < tasks env \<Longrightarrow> j < tasks env \<Longrightarrow> sid env i = sid env j \<Longrightarrow> i = j"
  by (metis (no_types, lifting) length_map nth_eq_iff_index_eq nth_map step_at_def)

lemma step_id_index: "k \<in> set (step_ids (xe_macro env)) \<Longrightarrow> \<exists>j<tasks env. sid env j = k"
  by (auto simp: in_set_conv_nth step_at_def)

lemma controllers_in: "set (branch_controllers m k) \<subseteq> set (step_ids m)"
  by (auto simp: branch_controllers_def split: option.splits if_splits)

lemma pc_ok_stable:
  assumes st: "\<And>k. map_of (rs_futures s) k \<noteq> None \<Longrightarrow> same_entries k s s'"
    and ok: "pc_ok env s i p"
  shows "pc_ok env s' i p"
proof -
  have a: "activated env s' step" if "activated env s step" for step
  proof (cases "branch_controllers (xe_macro env) (tc_step_id step) = []")
    case True
    then show ?thesis by (simp add: activated_def)
  next
    case False
    then have C: "map_of (rs_futures s) c \<noteq> None \<and> same_entries c s s'"
      if "c \<in> set (branch_controllers (xe_macro env) (tc_step_id step))" for c
      using that \<open>activated env s step\<close> st controllers_in [of "xe_macro env" "tc_step_id step"] unfolding activated_def by blast
    moreover from that False have "is_activated env s (tc_step_id step)" by (simp add: activated_def)
    ultimately have "is_activated env s' (tc_step_id step)"
      by (auto simp: is_activated_def list_ex_iff same_entries_def dict_get_or_def)
    moreover have "map_of (rs_futures s') c \<noteq> None"
      if "c \<in> set (branch_controllers (xe_macro env) (tc_step_id step))" for c
      using C [OF that] by (simp add: same_entries_def)
    ultimately show ?thesis by (simp add: activated_def)
  qed
  have d: "deps_ok env s' step" if "deps_ok env s step" for step
    using that st by (auto simp: deps_ok_def dep_ok_def same_entries_def)
  have f: "map_of (rs_futures s') k \<noteq> None" if "map_of (rs_futures s) k \<noteq> None" for k
    using that st [OF that] by (simp add: same_entries_def)
  show ?thesis using ok a d f unfolding pc_ok_def by blast
qed

lemma bind_set_future: "map_of (rs_futures s) k \<noteq> None \<Longrightarrow> bindT (set_future k p) f s = f () s"
  by (simp add: bindT_def set_future_def modifyT_def)

lemma replay_fresh:
  assumes "task_step env rd i s = Some s'" and "rs_pcs s ! i = Fresh" and "i < length (rs_pcs s)"
    and "replayable (map_of (rs_status s) (sid env i))"
  shows "final (rs_pcs s' ! i)" and "map_of (rs_futures s) (sid env i) \<noteq> None \<Longrightarrow> same_entries j s s'"
proof -
  define m where "m = replay_step env rd (step_at env i) (ss_pointer (the (map_of (rs_status s) (sid env i))))"
  let ?s = "tick rd s"
  have s': "s' = settle i m ?s"
    using assms by (auto simp: task_step_def Let_def settle_def start_step_def bindT_def readT_def m_def)
  obtain r s2 where r: "m ?s = (r, s2)" by (cases "m ?s")
  have len: "i < length (rs_pcs s2)"
    using touches_replay [of "step_at env i" env rd] r assms(3) unfolding framed_def m_def touches_def same_schedule_def
    by (metis run_state.select_convs(15) run_state.surjective run_state.update_convs(3) snd_conv)
  show "final (rs_pcs s' ! i)"
    using ends_parts(6) r len unfolding s' settle_def m_def ends_def ended_def by (auto split: sum.splits) (metis fst_conv)
  assume fut: "map_of (rs_futures s) (sid env i) \<noteq> None"
  define m2 where "m2 = (\<lambda>_::unit. bindT (modifyT (\<lambda>s. s\<lparr>rs_replayed := List.insert (sid env i) (rs_replayed s)\<rparr>)) (\<lambda>_.
     bindT (emit ((base_event env rd (step_at env i) REPLAYED)\<lparr>ev_output := Some (ss_pointer (the (map_of (rs_status s) (sid env i))))\<rparr>)) (\<lambda>_.
     bindT (hydrate_pointer_response env rd (ss_pointer (the (map_of (rs_status s) (sid env i)))) (sid env i)) (\<lambda>p. retT (Finished p)))))"
  have "m ?s = m2 () ?s"
    using fut unfolding m_def replay_step_def m2_def by (simp add: bind_set_future)
  moreover have "framed quiet (m2 ())" unfolding m2_def
    by (intro qt.frame_rules quiet_prims qt.frame_modify) (simp add: quiet_def same_schedule_def same_entries_def)
  ultimately have "quiet ?s s2" using r unfolding framed_def by (metis snd_conv)
  then show "same_entries j s s'"
    unfolding s' settle_def r by (auto simp: quiet_def same_entries_def split: sum.splits)
qed

lemma settle_slots:
  assumes "framed (touches (sid env i)) m"
  shows "rs_global (settle i m s) = rs_global s" and "sem (settle i m s) k = sem s k"
proof -
  obtain r s2 where m: "m s = (r, s2)" by (cases "m s")
  then have "touches (sid env i) s s2" using assms unfolding framed_def by (metis snd_conv)
  then show "rs_global (settle i m s) = rs_global s" "sem (settle i m s) k = sem s k"
    using m by (auto simp: settle_def touches_def same_schedule_def sem_def split: sum.splits)
qed

lemma slots_nonneg:
  assumes step: "task_step env rd i s = Some s'" and ok: "pc_ok env s i (rs_pcs s ! i)"
    and nn: "0 \<le> rs_global s" "\<And>k. 0 \<le> sem s k"
  shows "0 \<le> rs_global s'" and "0 \<le> sem s' k"
proof -
  obtain p s2 where A: "s' = set_pc i p s2"
     "rs_global s2 + hg p = rs_global s + hg (rs_pcs s ! i)"
     "\<And>k. sem s2 k + ht env i k p = sem s k + ht env i k (rs_pcs s ! i)"
    using task_step_arrives [OF step ok] unfolding arrives_def by (auto simp: sem_def)
  have le1: "hg p \<le> 1" "ht env i k p \<le> 1" for k by (simp_all add: hg_def ht_def)
  define q where "q = rs_pcs s ! i"
  note T = step [unfolded task_step_def Let_def, simplified, folded q_def]
  have tick: "rs_global (tick rd s) = rs_global s" "sem (tick rd s) k = sem s k" for k by (simp_all add: sem_def)
  have S: "0 \<le> rs_global (settle i m (tick rd s)) \<and> (\<forall>k. 0 \<le> sem (settle i m (tick rd s)) k)"
    if "framed (touches (sid env i)) m" for m
    using settle_slots [OF that, of "tick rd s"] tick nn by simp
  have F: "framed (touches (sid env i)) (tryT (gate env rd (step_at env i) t) (fail_step env rd (step_at env i) t n))"
    "framed (touches (sid env i)) (tryT (after_controllers env rd (step_at env i) t) (fail_step env rd (step_at env i) t n))"
    "framed (touches (sid env i)) (tryT (prepare_call env (step_at env i) t) (fail_step env rd (step_at env i) t n))" for t n
    by (intro tch.frame_rules touches_gate touches_parts touches_after_controllers)+
  have main: "0 \<le> rs_global s' \<and> (\<forall>k. 0 \<le> sem s' k)"
  proof (cases "holds_tool q")
    case True
    have "ht env i k p \<le> ht env i k q" for k using True by (simp add: ht_def)
    then have "0 \<le> sem s2 k" for k using A(3) [of k] nn(2) [of k] by (smt (verit) q_def)
    moreover have "0 \<le> rs_global s2" using A(2) nn(1) le1(1) True by (simp add: q_def)
    ultimately show ?thesis using A(1) by simp
  next
    case False
    show ?thesis
    proof (cases q)
      case Fresh
      then show ?thesis using T S [OF touches_start] by auto
    next
      case (AwaitControllers t)
      then show ?thesis using T S [OF F(2)] by (auto split: if_splits)
    next
      case (Resolving t r)
      then show ?thesis using T S [OF F(3)] by (auto split: if_splits)
    next
      case (WantGlobal c)
      show ?thesis
      proof (cases "tool_slot_key env (step_at env i)")
        case None
        then have "ht env i k p = 0" for k by (simp add: ht_def)
        moreover have "0 < rs_global s" using T WantGlobal by (auto split: if_splits)
        ultimately show ?thesis using A(1,2) A(3) nn le1(1) WantGlobal by (simp add: q_def)
      next
        case (Some l)
        then show ?thesis using T nn WantGlobal by (auto simp: sem_def split: if_splits)
      qed
    next
      case (WantTool c)
      then obtain l where l: "tool_slot_key env (step_at env i) = Some l" "0 < sem s l"
        using T by (auto simp: sem_def split: option.splits if_splits)
      have "0 \<le> sem s' k" for k
        using A(1) A(3) [of k] nn(2) [of k] l le1 WantTool by (cases "k = l") (auto simp: q_def ht_def split: if_splits)
      then show ?thesis using A(1,2) nn(1) le1(1) WantTool by (simp add: q_def)
    qed (use False T in auto)
  qed
  then show "0 \<le> rs_global s'" "0 \<le> sem s' k" by auto
qed

text \<open>A step that has its result keeps it.\<close>

lemma settled_entries:
  assumes inv: "run_inv env s" and i: "i < tasks env" and step: "task_step env rd i s = Some s'"
    and fut: "map_of (rs_futures s) k \<noteq> None"
  shows "same_entries k s s'" and "k = sid env i \<Longrightarrow> final (rs_pcs s' ! i)"
proof -
  have len: "length (rs_pcs s) = tasks env" by (rule run_invD(1) [OF inv])
  have R: "rs_pcs s ! i = Fresh" "replayable (map_of (rs_status s) (sid env i))" if "k = sid env i"
    using run_invD(3) [OF inv i] that fut step by (cases "rs_pcs s ! i"; auto simp: task_step_def)+
  show "same_entries k s s'"
  proof (cases "k = sid env i")
    case True
    then show ?thesis using replay_fresh(2) [OF step R(1) _ R(2)] i len fut by simp
  next
    case False
    have "arrives env i (rs_pcs s ! i) (tick rd s) s'"
      by (rule task_step_arrives [OF step run_invD(2) [OF inv i]])
    then show ?thesis using False by (auto simp: arrives_def touch0_def same_entries_def)
  qed
  show "final (rs_pcs s' ! i)" if "k = sid env i"
    using replay_fresh(1) [OF step R(1) _ R(2)] that i len by simp
qed

lemma run_inv_step:
  assumes inv: "run_inv env s" and dist: "distinct (step_ids (xe_macro env))" and st: "macro_step env s s'"
  shows "run_inv env s'"
proof -
  obtain i rd where i: "i < tasks env" and step: "task_step env rd i s = Some s'"
    using st run_invD(1) [OF inv] by (auto elim: macro_step.cases)
  have len: "length (rs_pcs s) = tasks env" by (rule run_invD(1) [OF inv])
  have ok: "pc_ok env s i (rs_pcs s ! i)" using run_invD(2) [OF inv i] .
  obtain p s2 where A: "s' = set_pc i p s2" "touch0 (sid env i) (tick rd s) s2"
     "final p \<or> same_entries (sid env i) (tick rd s) s2" "pc_ok env s2 i p"
     "rs_global s2 + hg p = rs_global s + hg (rs_pcs s ! i)"
     "\<forall>k. sem s2 k + ht env i k p = sem s k + ht env i k (rs_pcs s ! i)"
    using task_step_arrives [OF step ok] unfolding arrives_def by (auto simp: sem_def)
  have pcs: "rs_pcs s' = (rs_pcs s)[i := p]" using A(1,2) by (simp add: touch0_def)
  have other: "same_entries k s s'" if "k \<noteq> sid env i" for k
    using A(1,2) that by (simp add: touch0_def same_entries_def)
  have own: "final p" if "map_of (rs_futures s) (sid env i) \<noteq> None"
    using settled_entries(2) [OF inv i step that refl] pcs i len by simp
  note stable = settled_entries(1) [OF inv i step]
  have "pc_ok env s' j (rs_pcs s' ! j)" if j: "j < tasks env" for j
  proof (cases "j = i")
    case True
    have "pc_ok env s' i p"
      by (rule pc_ok_transfer [OF _ A(4)]) (simp add: A(1) same_entries_def)
    then show ?thesis using True pcs i len by simp
  next
    case False
    then show ?thesis using pc_ok_stable [OF stable run_invD(2) [OF inv j]] pcs by simp
  qed
  moreover have "final (rs_pcs s' ! j) \<or> rs_pcs s' ! j = Fresh \<and> replayable (map_of (rs_status s') (sid env j))"
    if j: "j < tasks env" and fut: "map_of (rs_futures s') (sid env j) \<noteq> None" for j
  proof (cases "j = i")
    case True
    have "final p"
    proof (rule ccontr)
      assume "\<not> final p"
      then have "map_of (rs_futures s) (sid env i) \<noteq> None" using A(1,3) fut True by (auto simp: same_entries_def)
      with own \<open>\<not> final p\<close> show False by blast
    qed
    then show ?thesis using True pcs i len by simp
  next
    case False
    then have "same_entries (sid env j) s s'" using other sid_inj [OF dist j i] by blast
    then show ?thesis using run_invD(3) [OF inv j] fut False pcs by (simp add: same_entries_def)
  qed
  moreover have "rs_global s' + (\<Sum>j<tasks env. hg (rs_pcs s' ! j)) = el_max_global (xe_limits env)"
    using run_invD(4) [OF inv] A(1,5) sum_update [OF i len, of "\<lambda>_. hg" p] pcs by simp
  moreover have "sem s' k + (\<Sum>j<tasks env. ht env j k (rs_pcs s' ! j)) = tool_cap env k" for k
    using run_invD(5) [OF inv, of k] A(1) A(6) [rule_format, of k] sum_update [OF i len, of "\<lambda>j. ht env j k" p] pcs by simp
  moreover have "0 \<le> rs_global s'" "0 \<le> sem s' k" for k
    using slots_nonneg [OF step ok run_invD(6) [OF inv] run_invD(7) [OF inv]] by auto
  ultimately show ?thesis unfolding run_inv_def using pcs len by simp
qed

section \<open>Runs\<close>

definition limits_valid :: "exec_limits \<Rightarrow> bool" where
  "limits_valid l \<longleftrightarrow> check_exec_limits_fields l = Inr l \<and> distinct (dict_keys (el_per_tool l))
     \<and> (\<forall>p\<in>set (el_per_tool l). validate_bucket_contract (snd p) = Inr (snd p))"

text \<open>A run of a validated macro within valid limits, begun or resumed on a state manager whose
  checkpoints record every step at most once.\<close>

definition starts :: "exec_env \<Rightarrow> run_state \<Rightarrow> bool" where
  "starts env s0 \<longleftrightarrow> (\<exists>env0 rd limits actor resume sm minted now.
     begin_run env0 rd limits actor resume sm minted now = Inr (env, s0)
     \<and> (\<forall>c\<in>set (sm_checkpoints sm). distinct (dict_keys (ck_steps (snd c))))
     \<and> limits_valid (xe_limits env) \<and> validate_branch_targets (xe_macro env) = Inr (xe_macro env)
     \<and> check_retry_policy (mr_retry (xe_macro env)) = Inr (mr_retry (xe_macro env)))"

lemma starts_attempts: "starts env s0 \<Longrightarrow> 1 \<le> rp_max_attempts (mr_retry (xe_macro env))"
  by (auto simp: starts_def check_retry_policy_def split: if_splits)

lemma starts_distinct: "starts env s0 \<Longrightarrow> distinct (step_ids (xe_macro env))"
  by (auto simp: starts_def validate_macro_iff)

lemma map_of_restored:
  assumes "distinct (dict_keys status)" and "map_of (restored_futures m status) k = Some p"
  shows "replayable (map_of status k)"
proof -
  obtain x where x: "(k, x) \<in> set status" "replayable (Some x)"
    using assms(2) by (auto simp: restored_futures_def dest!: map_of_SomeD)
  then have "map_of status k = Some x" using assms(1) by simp
  with x show ?thesis by simp
qed

lemma map_of_map_filter:
  assumes "distinct (dict_keys d)"
  shows "map_of (List.map_filter (\<lambda>p. map_option (\<lambda>n. (fst p, n)) (f (snd p))) d) k = Option.bind (map_of d k) f"
  using assms
proof (induction d)
  case (Cons x d)
  have "k \<notin> set (dict_keys d) \<Longrightarrow> map_of (List.map_filter (\<lambda>p. map_option (\<lambda>n. (fst p, n)) (f (snd p))) d) k = None"
    by (auto simp: map_of_eq_None_iff map_filter_def image_iff)
  with Cons show ?case by (cases "f (snd x)") (auto simp: map_filter_simps split: option.splits)
qed (simp add: map_filter_simps)

lemma init_state_inv:
  assumes l: "limits_valid (xe_limits env)" and d: "distinct (dict_keys status)"
  shows "run_inv env (init_state env sm minted now status decisions)"
proof -
  let ?s = "init_state env sm minted now status decisions"
  have pcs: "i < tasks env \<Longrightarrow> rs_pcs ?s ! i = Fresh" for i by (simp add: init_state_def Let_def)
  have z: "(\<Sum>i<tasks env. hg (rs_pcs ?s ! i)) = 0" "(\<Sum>i<tasks env. ht env i k (rs_pcs ?s ! i)) = 0" for k
    by (auto intro!: sum.neutral simp: pcs)
  have cap: "sem ?s k = tool_cap env k" for k
    using l map_of_map_filter [of "el_per_tool (xe_limits env)" tl_max_concurrency k]
    by (auto simp: init_state_def Let_def sem_def dict_get_or_def tool_cap_def limits_valid_def
        split: option.splits Option.bind_splits)
  have nn: "0 \<le> tool_cap env k" for k
  proof (cases "map_of (el_per_tool (xe_limits env)) k")
    case (Some tl)
    then have "validate_bucket_contract tl = Inr tl" using l by (auto simp: limits_valid_def dest!: map_of_SomeD)
    then show ?thesis using Some by (auto simp: tool_cap_def validate_bucket_contract_def split: option.splits if_splits)
  qed (simp add: tool_cap_def)
  have "0 \<le> el_max_global (xe_limits env)"
    using l by (auto simp: limits_valid_def check_exec_limits_fields_def split: if_splits)
  moreover have "replayable (map_of (rs_status ?s) (sid env i))" if "map_of (rs_futures ?s) (sid env i) \<noteq> None" for i
    using that map_of_restored [OF d] by (auto simp: init_state_def Let_def)
  moreover have "pc_ok env ?s i Fresh" for i by (simp add: pc_ok_def)
  ultimately show ?thesis unfolding run_inv_def using pcs z cap nn by (simp add: init_state_def Let_def)
qed

lemma persist_inv:
  assumes "run_inv env s" and "persist_checkpoint env rd st final' s = (r, s')"
  shows "run_inv env s'"
proof -
  have q: "quiet s s'" using quiet_persist assms(2) unfolding framed_def by (metis snd_conv)
  then have e: "same_entries j s s'" for j by (rule quiet_entries)
  have f: "rs_pcs s' = rs_pcs s" "rs_global s' = rs_global s" "sem s' k = sem s k" for k
    using q by (auto simp: quiet_def same_schedule_def sem_def)
  show ?thesis using assms(1) pc_ok_transfer [OF e] e unfolding run_inv_def by (simp add: f same_entries_def)
qed

lemma starts_init:
  assumes "starts env s0"
  obtains rd sm minted now status decisions where
    "persist_checkpoint env rd ''active'' None (init_state env sm minted now status decisions) = (Inr (), s0)"
    "distinct (dict_keys status)" "limits_valid (xe_limits env)"
proof -
  obtain env0 rd limits actor resume sm minted now where
    b: "begin_run env0 rd limits actor resume sm minted now = Inr (env, s0)"
    and cks: "\<forall>c\<in>set (sm_checkpoints sm). distinct (dict_keys (ck_steps (snd c)))"
    and l: "limits_valid (xe_limits env)"
    using assms unfolding starts_def by blast
  show thesis
  proof (cases resume)
    case False
    then show ?thesis using b l that [of rd sm minted now "[]" "[]"]
      by (auto simp: begin_run_def Let_def split: prod.splits sum.splits)
  next
    case True
    then obtain c where c: "get_run_checkpoint sm (xe_run_id env0) = Inr c"
      using b by (auto simp: begin_run_def Let_def split: sum.splits)
    then have "distinct (dict_keys (ck_steps c))"
      using cks by (auto simp: get_run_checkpoint_def with_connection_def dest!: map_of_SomeD split: if_splits option.splits)
    then show ?thesis using b l True c that [of rd sm minted now "ck_steps c" "ck_decisions c"]
      by (auto simp: begin_run_def Let_def split: prod.splits sum.splits if_splits)
  qed
qed

lemma starts_inv:
  assumes "starts env s0"
  shows "run_inv env s0"
proof -
  obtain rd sm minted now status decisions where
    p: "persist_checkpoint env rd ''active'' None (init_state env sm minted now status decisions) = (Inr (), s0)"
    and d: "distinct (dict_keys status)" and l: "limits_valid (xe_limits env)"
    using starts_init [OF assms] by metis
  show ?thesis by (rule persist_inv [OF init_state_inv [OF l d] p])
qed

theorem reachable_inv:
  assumes "(macro_step env)\<^sup>*\<^sup>* s0 s" and "run_inv env s0" and "distinct (step_ids (xe_macro env))"
  shows "run_inv env s"
  using assms by (induction rule: rtranclp_induct) (auto intro: run_inv_step)

end
