(* ===== verification/EAP_Executor_Runs.thy ===== *)
theory EAP_Executor_Runs
  imports EAP_Executor_Safety
begin

text \<open>
  What the invariant of the executor gives for the runs of \<open>execute_macro\<close>: why a tool call is
  justified, how many calls are in flight, and what a resumed run does with recorded steps.
\<close>

section \<open>A concrete run\<close>

text \<open>Two steps, the second of which takes the result of the first; schedules of it are evaluated.\<close>

definition sample_py :: py_env where
  "sample_py = \<lparr>pe_float = (\<lambda>_. ''0.5''), pe_sizeof = (\<lambda>_. 64), pe_iso = (\<lambda>_. ''2026'')\<rparr>"

definition tool_schema :: pyval where
  "tool_schema = PDict [(''name'', PStr ''t''), (''parameters'', PDict [(''type'', PStr ''object''),
     (''properties'', PDict [(''x'', PDict [(''type'', PStr ''string'')])])])]"

definition tool_registry :: "unit registry" where
  "tool_registry = (case register sample_lib empty_registry ''t'' (Some ()) tool_schema of Inr r \<Rightarrow> r | Inl _ \<Rightarrow> empty_registry)"

definition sample_macro :: macro_request where
  "sample_macro = \<lparr>mr_steps = [sample_step ''a'' [], sample_step ''b'' [(''x'', PStr ''$a'')]], mr_final_only = True,
     mr_retry = default_retry_policy, mr_limits = None, mr_approvals = []\<rparr>"

definition sample_env :: exec_env where
  "sample_env = \<lparr>xe_py = sample_py, xe_lib = sample_lib, xe_registry = tool_registry, xe_parse = (\<lambda>_. None),
     xe_ident = (\<lambda>_ _. False), xe_mint = (\<lambda>n. ''ptr_'' @ digits n), xe_run_id = ''r'', xe_started = 0,
     xe_macro = sample_macro, xe_limits = default_exec_limits, xe_actor = []\<rparr>"

definition sample_reading :: reading where
  "sample_reading = \<lparr>rd_now = 0, rd_elapsed = 0, rd_outcome = Returned (PStr ''v'')\<rparr>"

definition sample_begin :: "begin_error + exec_env \<times> run_state" where
  "sample_begin = begin_run sample_env sample_reading default_exec_limits None False init_state_manager 0 0"

definition run_env :: exec_env where
  "run_env = (case sample_begin of Inr (e, s) \<Rightarrow> e | Inl _ \<Rightarrow> sample_env)"

definition run_start :: run_state where
  "run_start = (case sample_begin of Inr (e, s) \<Rightarrow> s | Inl _ \<Rightarrow> init_state sample_env init_state_manager 0 0 [] [])"

definition run_after :: "nat list \<Rightarrow> run_state" where
  "run_after is = (case run_schedule run_env run_start (map (\<lambda>i. (i, sample_reading)) is) of Some s \<Rightarrow> s | None \<Rightarrow> run_start)"

lemma sample_begins: "sample_begin = Inr (run_env, run_start)"
proof -
  have "\<not> isl sample_begin" by code_simp
  then obtain e s where b: "sample_begin = Inr (e, s)" by (metis sum.collapse(2) prod.exhaust)
  show ?thesis unfolding run_env_def run_start_def b by simp
qed

lemma run_starts: "starts run_env run_start"
proof -
  have "limits_valid (xe_limits run_env)"
  proof -
    have "check_exec_limits_fields (xe_limits run_env) = Inr (xe_limits run_env)" "el_per_tool (xe_limits run_env) = []"
      by code_simp+
    then show ?thesis by (simp add: limits_valid_def)
  qed
  moreover have "validate_branch_targets (xe_macro run_env) = Inr (xe_macro run_env)"
    "check_retry_policy (mr_retry (xe_macro run_env)) = Inr (mr_retry (xe_macro run_env))" by code_simp+
  moreover have "\<forall>c\<in>set (sm_checkpoints init_state_manager). distinct (dict_keys (ck_steps (snd c)))"
    by (simp add: init_state_manager_def)
  ultimately show ?thesis unfolding starts_def using sample_begins unfolding sample_begin_def by blast
qed

lemma run_schedule_steps: "run_schedule env s xs = Some s' \<Longrightarrow> (macro_step env)\<^sup>*\<^sup>* s s'"
proof (induction env s xs rule: run_schedule.induct)
  case (2 env s i rd xs)
  then obtain s1 where "macro_step env s s1" "(macro_step env)\<^sup>*\<^sup>* s1 s'"
    by (auto intro: macro_step.intros split: if_splits option.splits)
  then show ?case by (rule converse_rtranclp_into_rtranclp)
qed simp

lemma run_after_steps: "(macro_step run_env)\<^sup>*\<^sup>* run_start (run_after is)"
  using run_schedule_steps by (auto simp: run_after_def split: option.splits)

section \<open>Every reachable state\<close>

lemma reached_inv: "starts env s0 \<Longrightarrow> (macro_step env)\<^sup>*\<^sup>* s0 s \<Longrightarrow> run_inv env s"
  by (blast intro: reachable_inv starts_inv starts_distinct)

lemma settled_entries_run:
  assumes "(macro_step env)\<^sup>*\<^sup>* s s'" and "run_inv env s" and "distinct (step_ids (xe_macro env))"
    and "map_of (rs_futures s) k \<noteq> None"
  shows "same_entries k s s'"
  using assms
proof (induction rule: rtranclp_induct)
  case (step y z)
  have inv: "run_inv env y" using reachable_inv step by blast
  obtain i rd where i: "i < tasks env" "task_step env rd i y = Some z"
    using step(2) run_invD(1) [OF inv] by (auto elim: macro_step.cases)
  have ky: "same_entries k s y" using step by blast
  then have "map_of (rs_futures y) k \<noteq> None" using step.prems by (simp add: same_entries_def)
  from settled_entries(1) [OF inv i this] ky show ?case by (rule same_entries_trans [rotated])
qed (simp add: same_entries_def)

lemma inflight_bound:
  assumes "run_inv env s"
  shows "int (card {i. i < tasks env \<and> holds_global (rs_pcs s ! i)}) \<le> el_max_global (xe_limits env)"
    and "int (card {i. i < tasks env \<and> holds_tool (rs_pcs s ! i) \<and> tool_slot_key env (step_at env i) = Some k}) \<le> tool_cap env k"
proof -
  have card: "int (card {i. i < n \<and> P i}) = (\<Sum>i<n. if P i then 1 else 0)" for n :: nat and P
    using sum.inter_filter [of "{..<n}" "\<lambda>_. 1::int" P] by simp
  have "int (card {i. i < tasks env \<and> holds_global (rs_pcs s ! i)}) = (\<Sum>i<tasks env. hg (rs_pcs s ! i))"
    unfolding card by (simp add: hg_def)
  then show "int (card {i. i < tasks env \<and> holds_global (rs_pcs s ! i)}) \<le> el_max_global (xe_limits env)"
    using run_invD(4,6) [OF assms] by simp
  have "int (card {i. i < tasks env \<and> holds_tool (rs_pcs s ! i) \<and> tool_slot_key env (step_at env i) = Some k})
      = (\<Sum>i<tasks env. ht env i k (rs_pcs s ! i))"
    unfolding card by (simp add: ht_def)
  then show "int (card {i. i < tasks env \<and> holds_tool (rs_pcs s ! i) \<and> tool_slot_key env (step_at env i) = Some k}) \<le> tool_cap env k"
    using run_invD(5,7) [OF assms, of k] by simp
qed

lemma card_running: "finite A \<Longrightarrow> (\<And>i. i \<in> B \<Longrightarrow> i \<in> A) \<Longrightarrow> int (card A) \<le> n \<Longrightarrow> int (card B) \<le> n"
  using card_mono [of A B] by force

section \<open>Properties\<close>

text \<open>C1: In every state a run can reach, under every interleaving, a step whose tool is running was approved
  (where it requires approval) by a recorded approval decision; one of its branch controllers, if it has any,
  selected it after all of them had finished; every step its arguments refer to, at any nesting, has
  finished with status ok; and the attempt number is within the retry policy of the macro.\<close>

theorem tool_start_justified:
  assumes "starts env s0" and "(macro_step env)\<^sup>*\<^sup>* s0 s" and "i < length (mr_steps (xe_macro env))"
    and "rs_pcs s ! i = Running c"
  shows "(requires_approval (step_at env i) \<longrightarrow>
       (\<exists>d. map_of (mr_approvals (xe_macro env)) (sid env i) = Some d \<and> ad_decision d = APPROVE))
    \<and> (branch_controllers (xe_macro env) (sid env i) = [] \<or>
        (\<forall>k\<in>set (branch_controllers (xe_macro env) (sid env i)). map_of (rs_futures s) k \<noteq> None)
        \<and> is_activated env s (sid env i))
    \<and> (\<forall>r. step_refers (step_at env i) r \<longrightarrow> r \<in> set (step_ids (xe_macro env))
        \<and> map_of (rs_futures s) r \<noteq> None \<and> map_option ss_status (map_of (rs_status s) r) = Some OK)
    \<and> 1 \<le> cl_attempt c \<and> cl_attempt c \<le> rp_max_attempts (mr_retry (xe_macro env))"
proof -
  have "pc_ok env s i (Running c)" using run_invD(2) [OF reached_inv [OF assms(1,2)] assms(3)] assms(4) by simp
  then show ?thesis using starts_attempts [OF assms(1)]
    by (simp add: pc_ok_def approved_def activated_def deps_ok_def dep_ok_def) linarith
qed

theorem tool_start_justified_witness:
  "\<exists>c. rs_pcs (run_after [0, 0, 0, 1, 1]) ! 1 = Running c \<and> starts run_env run_start
     \<and> (macro_step run_env)\<^sup>*\<^sup>* run_start (run_after [0, 0, 0, 1, 1])
     \<and> step_refers (step_at run_env 1) ''a''
     \<and> map_option ss_status (map_of (rs_status (run_after [0, 0, 0, 1, 1])) ''a'') = Some OK"
proof -
  have "case rs_pcs (run_after [0, 0, 0, 1, 1]) ! 1 of Running c \<Rightarrow> True | _ \<Rightarrow> False" by code_simp
  then obtain c where c: "rs_pcs (run_after [0, 0, 0, 1, 1]) ! 1 = Running c"
    by (auto split: pc.splits)
  have len: "1 < length (mr_steps (xe_macro run_env))" by code_simp
  have "tc_arguments (step_at run_env 1) = [(''x'', PStr ''$a'')]" "reference_target ''$a'' = ''a''" by code_simp+
  then have r: "step_refers (step_at run_env 1) ''a''" by (simp add: step_refers_def startswith_def)
  show ?thesis using tool_start_justified [OF run_starts run_after_steps len c] c run_starts run_after_steps r by blast
qed

text \<open>C28: In every reachable state the number of tools running at the same time is at most the global
  concurrency limit, and the number of running tools that share a per-tool limit with a concurrency bound
  is at most that bound.\<close>

theorem concurrency_bounded:
  assumes "starts env s0" and "(macro_step env)\<^sup>*\<^sup>* s0 s"
  shows "int (card {i. i < length (mr_steps (xe_macro env)) \<and> (\<exists>c. rs_pcs s ! i = Running c)}) \<le> el_max_global (xe_limits env)
    \<and> (\<forall>k l n. map_of (el_per_tool (xe_limits env)) k = Some l \<and> tl_max_concurrency l = Some n \<longrightarrow>
        int (card {i. i < length (mr_steps (xe_macro env)) \<and> tool_slot_key env (step_at env i) = Some k
          \<and> (\<exists>c. rs_pcs s ! i = Running c)}) \<le> n)"
proof -
  note inv = reached_inv [OF assms]
  have "int (card {i. i < tasks env \<and> (\<exists>c. rs_pcs s ! i = Running c)}) \<le> el_max_global (xe_limits env)"
    by (rule card_running [OF _ _ inflight_bound(1) [OF inv]]) auto
  moreover have "int (card {i. i < tasks env \<and> tool_slot_key env (step_at env i) = Some k \<and> (\<exists>c. rs_pcs s ! i = Running c)}) \<le> n"
    if "map_of (el_per_tool (xe_limits env)) k = Some l \<and> tl_max_concurrency l = Some n" for k l n
  proof -
    have "tool_cap env k = n" using that by (simp add: tool_cap_def)
    then show ?thesis by (intro card_running [OF _ _ inflight_bound(2) [OF inv, of k, unfolded \<open>tool_cap env k = n\<close>]]) auto
  qed
  ultimately show ?thesis by blast
qed

theorem concurrency_bounded_witness:
  "starts run_env run_start \<and> (macro_step run_env)\<^sup>*\<^sup>* run_start (run_after [0, 0])
   \<and> int (card {i. i < length (mr_steps (xe_macro run_env)) \<and> (\<exists>c. rs_pcs (run_after [0, 0]) ! i = Running c)}) \<le> 8"
proof -
  have "el_max_global (xe_limits run_env) = 8" by code_simp
  then show ?thesis using concurrency_bounded [OF run_starts run_after_steps] run_starts run_after_steps by simp
qed

text \<open>C29: When the result of a step is known, at the start of a resumed run or later, it is final: no
  later state of the run changes its pointer, its recorded status or its branch decision, and the task of
  that step never waits for a slot or runs its tool again.\<close>

theorem known_result_final:
  assumes "starts env s0" and "(macro_step env)\<^sup>*\<^sup>* s0 s" and "(macro_step env)\<^sup>*\<^sup>* s s'"
    and "i < length (mr_steps (xe_macro env))" and "map_of (rs_futures s) (sid env i) = Some p"
  shows "map_of (rs_futures s') (sid env i) = Some p
    \<and> map_of (rs_status s') (sid env i) = map_of (rs_status s) (sid env i)
    \<and> map_of (rs_decisions s') (sid env i) = map_of (rs_decisions s) (sid env i)
    \<and> (rs_pcs s' ! i = Fresh \<or> (\<exists>r. rs_pcs s' ! i = Finished r) \<or> (\<exists>e. rs_pcs s' ! i = Crashed e))"
proof -
  have e: "same_entries (sid env i) s s'"
    using settled_entries_run [OF assms(3) reached_inv [OF assms(1,2)] starts_distinct [OF assms(1)]] assms(5) by simp
  have "(macro_step env)\<^sup>*\<^sup>* s0 s'" using assms(2,3) by simp
  note inv = reached_inv [OF assms(1) this]
  have "final (rs_pcs s' ! i) \<or> rs_pcs s' ! i = Fresh"
    using run_invD(3) [OF inv assms(4)] e assms(5) by (auto simp: same_entries_def)
  then show ?thesis using e assms(5) by (cases "rs_pcs s' ! i") (auto simp: same_entries_def)
qed

theorem known_result_final_witness:
  "\<exists>s'. run_schedule run_env (run_after [0, 0, 0]) (map (\<lambda>i. (i, sample_reading)) [1, 1]) = Some s'
     \<and> map_of (rs_futures (run_after [0, 0, 0])) ''a'' = Some ''ptr_0'' \<and> map_of (rs_futures s') ''a'' = Some ''ptr_0''"
proof -
  have "run_schedule run_env (run_after [0, 0, 0]) (map (\<lambda>i. (i, sample_reading)) [1, 1]) \<noteq> None" by code_simp
  then obtain s' where s': "run_schedule run_env (run_after [0, 0, 0]) (map (\<lambda>i. (i, sample_reading)) [1, 1]) = Some s'"
    by blast
  have len: "0 < length (mr_steps (xe_macro run_env))" by code_simp
  have sid: "sid run_env 0 = ''a''" by code_simp
  have f: "map_of (rs_futures (run_after [0, 0, 0])) (sid run_env 0) = Some ''ptr_0''" by code_simp
  from known_result_final [OF run_starts run_after_steps run_schedule_steps [OF s'] len f] s' f
  show ?thesis by (simp add: sid)
qed

end
