(* ===== verification/EAP_Executor_Liveness.thy ===== *)
theory EAP_Executor_Liveness
  imports EAP_Executor_Runs
begin

text \<open>
  The runs of the executor end. A task that is not over can move unless it waits for another
  one, the waiting is along the acyclic dependencies of a validated macro or for a slot that is
  held by a task that can move, so some task can move until all are over. Every step lowers a
  measure made of the place of each task in \<open>run_step\<close>, the references that have become known
  and the rate-limit waits that can still fail, so a run cannot go on for ever.
\<close>

section \<open>Where a piece of a task ends\<close>

definition same_rate :: "run_state \<Rightarrow> run_state \<Rightarrow> bool" where
  "same_rate s s' \<longleftrightarrow> rs_pcs s' = rs_pcs s \<and> rs_bucket s' = rs_bucket s \<and> rs_tool_buckets s' = rs_tool_buckets s
     \<and> rs_clock s' = rs_clock s"

definition lands :: "nat \<Rightarrow> (pc \<Rightarrow> bool) \<Rightarrow> run_state \<Rightarrow> run_state \<Rightarrow> bool" where
  "lands i P s s' \<longleftrightarrow> (\<exists>p s2. s' = set_pc i p s2 \<and> same_rate s s2 \<and> P p)"

lemma same_rate_trans: "same_rate a b \<Longrightarrow> same_rate b c \<Longrightarrow> same_rate a c"
  by (simp add: same_rate_def)

lemma same_rate_refl [simp]: "same_rate s s"
  by (simp add: same_rate_def)

lemma touches_rate: "framed (touches k) m \<Longrightarrow> same_rate s (snd (m s))"
  unfolding framed_def touches_def same_schedule_def same_rate_def by blast

lemma same_rate_bookkeeping [simp]:
  "same_rate s (record_wait get upd w s)" "same_rate s (on_slot_acquired key s)"
  "same_rate s (on_slot_released key s)" "same_rate s (sem_add slot n s)"
  by (auto simp: record_wait_def on_slot_acquired_def on_slot_released_def sem_add_def same_rate_def Let_def
      split: option.splits)

lemma same_rate_release [simp]: "same_rate s (release_slots env step s)"
proof -
  let ?s = "sem_add (tool_slot_key env step) 1 (on_slot_released (tool_limit_key env step) s)"
  have "same_rate s ?s" by (rule same_rate_trans [OF same_rate_bookkeeping(3,4)])
  then show ?thesis by (simp add: release_slots_def Let_def same_rate_def)
qed

lemma lands_mono: "lands i P s s' \<Longrightarrow> (\<And>p. P p \<Longrightarrow> Q p) \<Longrightarrow> lands i Q s s'"
  unfolding lands_def by blast

lemma lands_prefix: "same_rate s s1 \<Longrightarrow> lands i P s1 s' \<Longrightarrow> lands i P s s'"
  unfolding lands_def using same_rate_trans by blast

lemma lands_here: "same_rate s s1 \<Longrightarrow> P p \<Longrightarrow> lands i P s (set_pc i p s1)"
  unfolding lands_def by blast

lemma lands_settle:
  assumes "framed (touches k) m" and "\<And>p. fst (m s) = Inr p \<Longrightarrow> P p" and "\<And>e. P (Crashed e)"
  shows "lands i P s (settle i m s)"
proof -
  obtain r s2 where m: "m s = (r, s2)" by (cases "m s")
  then have "same_rate s s2" using touches_rate [OF assms(1), of s] by simp
  then show ?thesis using assms(2,3) m unfolding lands_def settle_def by (cases r) auto
qed

lemma lands_ends:
  assumes "framed (touches k) m" and "ends k m"
  shows "lands i final s (settle i m s)"
  using assms by (intro lands_settle [OF assms(1)]) (auto simp: ends_def ended_def)

lemma lands_fail: "lands i final s (settle i (fail_step env rd step t n e) (release_slots env step s))"
  by (rule lands_prefix [OF same_rate_release]) (rule lands_ends [OF touches_fail ends_parts(4)])

lemma on_attempt_error_lands:
  "lands i (\<lambda>p. final p \<or> (\<exists>w. p = Backoff c w)) s (on_attempt_error env rd i c e s)"
proof (cases "ex_name e \<notin> set (rp_retryable (mr_retry (xe_macro env))) \<or> rp_max_attempts (mr_retry (xe_macro env)) \<le> cl_attempt c")
  case True
  then show ?thesis using lands_mono [OF lands_fail] by (simp add: on_attempt_error_def Let_def)
next
  case False
  define ev where "ev = (base_event env rd (step_at env i) RETRIED)\<lparr>ev_attempt := cl_attempt c, ev_retry_delay := Some (cl_delay c),
      ev_error := Some (error_payload ''tool_execution_error'' (ex_message e) (step_at env i) [(''attempts'', PInt (cl_attempt c))]),
      ev_arguments := Some (cl_args c), ev_inputs := (if cl_inputs c = [] then None else Some (cl_inputs c))\<rparr>"
  obtain r s1 where em: "emit ev s = (r, s1)" by (cases "emit ev s")
  have s1: "same_rate s s1" using touches_rate [OF framed_quiet_touches [OF quiet_emit], of s ev] em by simp
  have "on_attempt_error env rd i c e s = (case r of
      Inl e' \<Rightarrow> settle i (fail_step env rd (step_at env i) (cl_started c) (cl_attempt c) e') (release_slots env (step_at env i) s1)
    | Inr _ \<Rightarrow> set_pc i (Backoff c (rs_clock s1 + cl_delay c)) s1)"
    using False em by (simp add: on_attempt_error_def Let_def ev_def)
  then show ?thesis
    using lands_mono [OF lands_prefix [OF s1 lands_fail]] lands_here [OF s1] by (auto split: sum.splits)
qed

lemma start_tool_lands:
  "lands i (\<lambda>p. final p \<or> (\<exists>w. p = Backoff c w) \<or> p = Running c) s (start_tool env rd i c s)"
proof -
  define s1 where "s1 = (if cl_limited c then s\<lparr>rs_metrics := (rs_metrics s)\<lparr>sa_rate_limited := sa_rate_limited (rs_metrics s) + 1\<rparr>\<rparr> else s)"
  define ev where "ev = (base_event env rd (step_at env i) STARTED)\<lparr>ev_attempt := cl_attempt c, ev_arguments := Some (cl_args c),
     ev_inputs := (if cl_inputs c = [] then None else Some (cl_inputs c))\<rparr>"
  obtain r s2 where em: "emit ev s1 = (r, s2)" by (cases "emit ev s1")
  have "same_rate s1 s2" using touches_rate [OF framed_quiet_touches [OF quiet_emit], of s1 ev] em by simp
  then have s2: "same_rate s s2" by (simp add: same_rate_def s1_def split: if_splits)
  have "start_tool env rd i c s = (case r of Inl e \<Rightarrow> on_attempt_error env rd i c e s2 | Inr _ \<Rightarrow> set_pc i (Running c) s2)"
    using em by (simp add: start_tool_def Let_def s1_def ev_def)
  moreover have "lands i (\<lambda>p. final p \<or> (\<exists>w. p = Backoff c w) \<or> p = Running c) s (on_attempt_error env rd i c e s2)" for e
    by (rule lands_mono [OF lands_prefix [OF s2 on_attempt_error_lands]]) blast
  ultimately show ?thesis using lands_here [OF s2] by (auto split: sum.splits)
qed

definition in_call :: "exec_env \<Rightarrow> nat \<Rightarrow> call \<Rightarrow> run_state \<Rightarrow> pc \<Rightarrow> bool" where
  "in_call env i c s p \<longleftrightarrow> final p \<or> (\<exists>w. p = Backoff c w) \<or> p = Running c
     \<or> p = WantToolRate c 0 (rs_clock s) \<and> tool_bucket env i s \<noteq> None"

lemma after_global_rate_lands: "lands i (in_call env i c s) s (after_global_rate env rd i c s)"
proof (cases "tool_bucket env i s")
  case None
  have "lands i (in_call env i c s) s (start_tool env rd i c s)"
    by (rule lands_mono [OF start_tool_lands]) (auto simp: in_call_def)
  then show ?thesis using None by (simp add: after_global_rate_def)
next
  case (Some x)
  then show ?thesis using lands_here [OF same_rate_refl, of "in_call env i c s" "WantToolRate c 0 (rs_clock s)" i s]
    by (simp add: after_global_rate_def in_call_def)
qed

lemma tool_bucket_rate: "same_rate s s' \<Longrightarrow> tool_bucket env i s' = tool_bucket env i s"
  by (simp add: tool_bucket_def same_rate_def split: option.splits)

lemma after_slots_lands:
  "lands i (\<lambda>p. in_call env i c s p \<or> p = WantGlobalRate c 0 (rs_clock s) \<and> rs_bucket s \<noteq> None) s (after_slots env rd i c s)"
proof -
  let ?s = "on_slot_acquired (tool_limit_key env (step_at env i)) s"
  have s: "same_rate s ?s" by simp
  then have eq: "rs_clock ?s = rs_clock s" "rs_bucket ?s = rs_bucket s" "tool_bucket env i ?s = tool_bucket env i s"
    using tool_bucket_rate [OF s] by (simp_all add: same_rate_def)
  show ?thesis
  proof (cases "rs_bucket s")
    case None
    have "lands i (in_call env i c ?s) s (after_global_rate env rd i c ?s)"
      by (rule lands_prefix [OF s after_global_rate_lands])
    then have "lands i (\<lambda>p. in_call env i c s p \<or> p = WantGlobalRate c 0 (rs_clock s) \<and> rs_bucket s \<noteq> None) s
        (after_global_rate env rd i c ?s)"
      by (rule lands_mono) (simp add: in_call_def eq)
    then show ?thesis using None eq by (simp add: after_slots_def Let_def)
  next
    case (Some b)
    then show ?thesis using eq lands_here [OF s] by (simp add: after_slots_def Let_def)
  qed
qed

section \<open>The place of a task\<close>

abbreviation max_tries :: "exec_env \<Rightarrow> nat" where
  "max_tries env \<equiv> nat (rp_max_attempts (mr_retry (xe_macro env)))"

definition left :: "nat \<Rightarrow> call \<Rightarrow> nat" where
  "left n c = n - nat (cl_attempt c)"

fun rank :: "nat \<Rightarrow> pc \<Rightarrow> nat" where
  "rank n Fresh = 6 * n + 3"
| "rank n (AwaitControllers t) = 6 * n + 2"
| "rank n (Resolving t r) = 6 * n + 1"
| "rank n (WantGlobal c) = 6 * left n c + 6"
| "rank n (WantTool c) = 6 * left n c + 5"
| "rank n (WantGlobalRate c w t) = 6 * left n c + 4"
| "rank n (WantToolRate c w t) = 6 * left n c + 3"
| "rank n (Running c) = 6 * left n c + 2"
| "rank n (Backoff c w) = 6 * left n c + 1"
| "rank n (Finished r) = 0"
| "rank n (Crashed e) = 0"

lemma rank_final: "final p \<Longrightarrow> rank n p = 0"
  by (cases p) simp_all

definition rate_known :: "exec_env \<Rightarrow> nat \<Rightarrow> run_state \<Rightarrow> pc \<Rightarrow> bool" where
  \<comment> \<open>a task that waits for a bucket has one\<close>
  "rate_known env i s p \<longleftrightarrow> (\<forall>c w t. p = WantGlobalRate c w t \<longrightarrow> rs_bucket s \<noteq> None)
     \<and> (\<forall>c w t. p = WantToolRate c w t \<longrightarrow> tool_bucket env i s \<noteq> None)"

lemma in_call_rank: "in_call env i c s p \<Longrightarrow> rank n p \<le> 6 * left n c + 3"
  by (auto simp: in_call_def rank_final)

lemma in_call_known: "in_call env i c s p \<Longrightarrow> rate_known env i s p"
  by (auto simp: in_call_def rate_known_def)

definition body_pc :: "exec_env \<Rightarrow> nat \<Rightarrow> run_state \<Rightarrow> pc \<Rightarrow> bool" where
  \<comment> \<open>where the body of \<open>run_step\<close> stops: over, waiting for an unresolved reference, or ready to call\<close>
  "body_pc env i s p \<longleftrightarrow> final p \<or> (\<exists>t r. p = Resolving t r \<and> map_of (rs_futures s) r = None)
     \<or> (\<exists>c. p = WantGlobal c \<and> cl_attempt c = 1)"

lemma prepared_body: "prepared env step t s p \<Longrightarrow> body_pc env i s p"
  by (auto simp: prepared_def body_pc_def waits_for_def)

lemma ended_final: "ended k s p \<Longrightarrow> body_pc env i s' p"
  by (simp add: ended_def body_pc_def)

lemma body_rank: "body_pc env i s p \<Longrightarrow> 1 \<le> n \<Longrightarrow> rank n p \<le> 6 * n + 1"
  by (auto simp: body_pc_def rank_final left_def)

lemma body_result:
  assumes m: "m = gate env rd (step_at env i) t \<or> m = prepare_call env (step_at env i) t
      \<or> m = after_controllers env rd (step_at env i) t"
    and p: "fst (tryT m (fail_step env rd (step_at env i) t n) s) = Inr p"
  shows "body_pc env i (snd (tryT m (fail_step env rd (step_at env i) t n) s)) p"
proof -
  have gate: "body_pc env i (snd (gate env rd (step_at env i) t s)) p" if "fst (gate env rd (step_at env i) t s) = Inr p"
    using gate_result [OF that] prepared_body [of env "step_at env i" t "snd (gate env rd (step_at env i) t s)" p i]
    by (auto simp: ended_final)
  have ctl: "body_pc env i (snd (after_controllers env rd (step_at env i) t s)) p"
    if "fst (after_controllers env rd (step_at env i) t s) = Inr p"
  proof (cases "is_activated env s (sid env i)")
    case True
    then have "after_controllers env rd (step_at env i) t s = gate env rd (step_at env i) t s"
      by (simp add: after_controllers_def task_defs)
    then show ?thesis using that gate by simp
  next
    case False
    then show ?thesis using that ends_parts(1) [of "step_at env i"]
      by (auto simp: after_controllers_def bindT_def readT_def ends_def ended_def body_pc_def)
  qed
  have prep: "body_pc env i (snd (prepare_call env (step_at env i) t s)) p"
    if "fst (prepare_call env (step_at env i) t s) = Inr p"
    using prepare_result [OF that] prepared_body by (simp add: prepare_state)
  show ?thesis using try_fail_result [OF p] m gate ctl prep by (auto simp: ended_final)
qed

lemma start_result:
  assumes p: "fst (start_step env rd (step_at env i) s) = Inr p"
  shows "(\<exists>t. p = AwaitControllers t) \<or> body_pc env i (snd (start_step env rd (step_at env i) s)) p"
proof (cases "replayable (map_of (rs_status s) (sid env i))")
  case True
  then show ?thesis using p ends_parts(6) [of "step_at env i"]
    by (auto simp: start_step_def bindT_def readT_def ends_def ended_def body_pc_def)
next
  case False
  let ?step = "step_at env i"
  define m where "m = (\<lambda>_::unit. bindT (readT rs_clock) (\<lambda>started.
       if branch_controllers (xe_macro env) (sid env i) \<noteq> [] then retT (AwaitControllers started)
       else tryT (gate env rd ?step started) (fail_step env rd ?step started 0)))"
  have st: "start_step env rd ?step s = bindT (emit (base_event env rd ?step QUEUED)) m s"
    using False by (simp add: start_step_def m_def bindT_def [of "readT (\<lambda>s. map_of (rs_status s) (sid env i))"] readT_def)
  obtain u s1 where s1: "fst (m u s1) = Inr p" "snd (start_step env rd ?step s) = snd (m u s1)"
    using p unfolding st by (rule bindT_result)
  show ?thesis
  proof (cases "branch_controllers (xe_macro env) (sid env i) = []")
    case True
    then have m: "m u s1 = tryT (gate env rd ?step (rs_clock s1)) (fail_step env rd ?step (rs_clock s1) 0) s1"
      by (simp add: m_def bindT_def readT_def)
    show ?thesis using body_result [of "gate env rd ?step (rs_clock s1)" env rd i "rs_clock s1" 0 s1 p] s1 unfolding m by simp
  next
    case False
    then show ?thesis using s1(1) by (auto simp: m_def bindT_def readT_def retT_def)
  qed
qed

text \<open>One step of task \<open>i\<close>: forward in \<open>run_step\<close>, from a known reference to the next unknown one, or a
  rate-limit attempt that fails.\<close>

definition bucket_moves :: "rat \<Rightarrow> bucket option \<Rightarrow> bucket option \<Rightarrow> bool" where
  "bucket_moves now x y \<longleftrightarrow> y = x \<or> (\<exists>b. x = Some b \<and> y = Some (fst (bucket_try b now)))"

definition forward :: "exec_env \<Rightarrow> nat \<Rightarrow> run_state \<Rightarrow> run_state \<Rightarrow> pc \<Rightarrow> pc \<Rightarrow> bool" where
  "forward env i s s' q p \<longleftrightarrow> rank (max_tries env) p < rank (max_tries env) q \<and> rate_known env i s' p"

definition next_reference :: "run_state \<Rightarrow> pc \<Rightarrow> pc \<Rightarrow> bool" where
  "next_reference s q p \<longleftrightarrow> (\<exists>t r r'. q = Resolving t r \<and> p = Resolving t r' \<and> map_of (rs_futures s) r \<noteq> None
     \<and> map_of (rs_futures s) r' = None)"

definition global_retry :: "run_state \<Rightarrow> run_state \<Rightarrow> pc \<Rightarrow> pc \<Rightarrow> bool" where
  "global_retry s s' q p \<longleftrightarrow> (\<exists>c w t b b' d. q = WantGlobalRate c w t \<and> t \<le> rs_clock s' \<and> rs_bucket s = Some b
     \<and> bucket_try b (rs_clock s') = (b', Some d) \<and> rs_bucket s' = Some b' \<and> p = WantGlobalRate c (w + d) (rs_clock s' + d)
     \<and> rs_tool_buckets s' = rs_tool_buckets s)"

definition tool_retry :: "exec_env \<Rightarrow> nat \<Rightarrow> run_state \<Rightarrow> run_state \<Rightarrow> pc \<Rightarrow> pc \<Rightarrow> bool" where
  "tool_retry env i s s' q p \<longleftrightarrow> (\<exists>c w t k b b' d. q = WantToolRate c w t \<and> t \<le> rs_clock s' \<and> tool_bucket env i s = Some (k, b)
     \<and> bucket_try b (rs_clock s') = (b', Some d) \<and> rs_tool_buckets s' = AList.update k b' (rs_tool_buckets s)
     \<and> p = WantToolRate c (w + d) (rs_clock s' + d) \<and> rs_bucket s' = rs_bucket s)"

definition moves :: "exec_env \<Rightarrow> nat \<Rightarrow> run_state \<Rightarrow> run_state \<Rightarrow> pc \<Rightarrow> pc \<Rightarrow> bool" where
  "moves env i s s' q p \<longleftrightarrow> rs_pcs s' = (rs_pcs s)[i := p]
     \<and> (forward env i s s' q p \<and> bucket_moves (rs_clock s') (rs_bucket s) (rs_bucket s')
          \<and> (\<forall>k. bucket_moves (rs_clock s') (map_of (rs_tool_buckets s) k) (map_of (rs_tool_buckets s') k))
        \<or> next_reference s q p \<and> rs_bucket s' = rs_bucket s \<and> rs_tool_buckets s' = rs_tool_buckets s
        \<or> global_retry s s' q p \<or> tool_retry env i s s' q p)"

lemma moves_lands:
  assumes "lands i P s s'" and "\<And>p. P p \<Longrightarrow> forward env i s s q p \<or> next_reference s q p"
    and "q = rs_pcs s ! i"
  shows "\<exists>p. moves env i s s' q p"
proof -
  obtain p s2 where p: "s' = set_pc i p s2" "same_rate s s2" "P p" using assms(1) unfolding lands_def by blast
  then have eq: "rs_bucket s' = rs_bucket s" "rs_tool_buckets s' = rs_tool_buckets s" "rs_pcs s' = (rs_pcs s)[i := p]"
    by (simp_all add: same_rate_def set_pc_def)
  have "tool_bucket env i s' = tool_bucket env i s" unfolding tool_bucket_def eq(2) ..
  then have "rate_known env i s' p = rate_known env i s p" by (simp add: rate_known_def eq(1))
  then show ?thesis using assms(2) [OF p(3)] eq unfolding moves_def forward_def bucket_moves_def by auto
qed

lemma resume_body:
  assumes "fst (tryT (prepare_call env (step_at env i) t) (fail_step env rd (step_at env i) t n) s) = Inr p"
  shows "body_pc env i s p \<and> (\<forall>t' r. p = Resolving t' r \<longrightarrow> t' = t)"
  using try_fail_result [OF assms] prepare_result [of env "step_at env i" t s p] prepared_body [of env "step_at env i" t s p i]
  by (auto simp: prepare_state ended_def body_pc_def prepared_def)

lemma forward_body: "body_pc env i s p \<Longrightarrow> 1 \<le> max_tries env \<Longrightarrow> rank (max_tries env) q > 6 * max_tries env + 1
    \<Longrightarrow> forward env i s' s'' q p"
  using body_rank [of env i s p "max_tries env"]
  by (auto simp: forward_def rate_known_def body_pc_def)

lemma forward_in_call:
  "in_call env i c s p \<Longrightarrow> 6 * left (max_tries env) c + 3 < rank (max_tries env) q \<Longrightarrow> forward env i s s q p"
  using in_call_rank [of env i c s p "max_tries env"] in_call_known [of env i c s p] by (simp add: forward_def)

lemma left_simps [simp]:
  "left n (c\<lparr>cl_wait_from := t\<rparr>) = left n c" "left n (c\<lparr>cl_limited := b\<rparr>) = left n c"
  by (simp_all add: left_def)

lemma settled_moves:
  assumes step: "task_step env rd i s0 = Some s'" and n: "1 \<le> max_tries env"
    and q: "rs_pcs s0 ! i = Fresh \<or> rs_pcs s0 ! i = AwaitControllers t \<or> rs_pcs s0 ! i = Resolving t r"
  shows "\<exists>p. moves env i (tick rd s0) s' (rs_pcs s0 ! i) p"
proof -
  let ?s = "tick rd s0" and ?step = "step_at env i"
  note T = step [unfolded task_step_def Let_def, simplified]
  have bodies: "framed (touches (sid env i)) (tryT (gate env rd ?step t) (fail_step env rd ?step t n'))"
    "framed (touches (sid env i)) (tryT (after_controllers env rd ?step t) (fail_step env rd ?step t n'))"
    "framed (touches (sid env i)) (tryT (prepare_call env ?step t) (fail_step env rd ?step t n'))" for t n'
    by (intro tch.frame_rules touches_gate touches_parts touches_after_controllers)+
  consider "rs_pcs s0 ! i = Fresh" | "rs_pcs s0 ! i = AwaitControllers t" | "rs_pcs s0 ! i = Resolving t r" using q by blast
  then show ?thesis
  proof cases
    case 1
    have "lands i (forward env i ?s ?s Fresh) ?s (settle i (start_step env rd ?step) ?s)"
    proof (rule lands_settle [OF touches_start])
      fix p assume "fst (start_step env rd ?step ?s) = Inr p"
      from start_result [OF this] show "forward env i ?s ?s Fresh p"
        using n forward_body [of env i _ p Fresh ?s ?s] by (auto simp: forward_def rate_known_def)
    qed (simp add: forward_def rate_known_def)
    from moves_lands [OF this] 1 T show ?thesis by auto
  next
    case 2
    have "lands i (forward env i ?s ?s (AwaitControllers t)) ?s
       (settle i (tryT (after_controllers env rd ?step t) (fail_step env rd ?step t 0)) ?s)"
    proof (rule lands_settle [OF bodies(2)])
      fix p assume "fst (tryT (after_controllers env rd ?step t) (fail_step env rd ?step t 0) ?s) = Inr p"
      from body_result [OF _ this] show "forward env i ?s ?s (AwaitControllers t) p"
        using n forward_body [of env i _ p "AwaitControllers t" ?s ?s] by auto
    qed (simp add: forward_def rate_known_def)
    from moves_lands [OF this] 2 T show ?thesis by (auto split: if_splits)
  next
    case 3
    have r: "map_of (rs_futures s0) r \<noteq> None" using 3 T by (auto split: if_splits)
    have "lands i (\<lambda>p. forward env i ?s ?s (Resolving t r) p \<or> next_reference ?s (Resolving t r) p) ?s
       (settle i (tryT (prepare_call env ?step t) (fail_step env rd ?step t 0)) ?s)"
    proof (rule lands_settle [OF bodies(3)])
      fix p assume "fst (tryT (prepare_call env ?step t) (fail_step env rd ?step t 0) ?s) = Inr p"
      from resume_body [OF this] show "forward env i ?s ?s (Resolving t r) p \<or> next_reference ?s (Resolving t r) p"
        using n r by (auto simp: body_pc_def forward_def rate_known_def rank_final left_def next_reference_def)
    qed (simp add: forward_def rate_known_def)
    from moves_lands [OF this] 3 T show ?thesis by (auto split: if_splits)
  qed
qed

lemma want_moves:
  assumes step: "task_step env rd i s0 = Some s'" and q: "rs_pcs s0 ! i = WantGlobal c \<or> rs_pcs s0 ! i = WantTool c"
  shows "\<exists>p. moves env i (tick rd s0) s' (rs_pcs s0 ! i) p"
proof -
  let ?s = "tick rd s0" and ?q = "rs_pcs s0 ! i"
  note T = step [unfolded task_step_def Let_def, simplified]
  have slots: "lands i (\<lambda>p. forward env i ?s ?s ?q p \<or> next_reference ?s ?q p) ?s (after_slots env rd i c s1)" if s1: "same_rate ?s s1" for s1
  proof -
    have eq: "rs_clock s1 = rs_clock ?s" "rs_bucket s1 = rs_bucket ?s" "tool_bucket env i s1 = tool_bucket env i ?s"
      using s1 tool_bucket_rate [OF s1] by (simp_all add: same_rate_def)
    show ?thesis
    proof (rule lands_mono [OF lands_prefix [OF s1 after_slots_lands]])
      fix p assume p: "in_call env i c s1 p \<or> p = WantGlobalRate c 0 (rs_clock s1) \<and> rs_bucket s1 \<noteq> None"
      have "in_call env i c s1 p = in_call env i c ?s p" using eq by (simp add: in_call_def)
      with p show "forward env i ?s ?s ?q p \<or> next_reference ?s ?q p"
        using q forward_in_call [of env i c ?s p ?q] eq by (auto simp: forward_def rate_known_def)
    qed
  qed
  have here: "lands i (\<lambda>p. forward env i ?s ?s ?q p \<or> next_reference ?s ?q p) ?s (set_pc i p s1)"
    if "same_rate ?s s1" "rank (max_tries env) p < rank (max_tries env) ?q" "rate_known env i ?s p" for s1 p
    using that by (intro lands_here) (simp_all add: forward_def)
  have minus: "same_rate ?s (record_wait g u w (?s\<lparr>rs_global := n\<rparr>))" for g u w n
    using same_rate_bookkeeping(1) [of "?s\<lparr>rs_global := n\<rparr>" g u w] by (simp add: same_rate_def)
  have minus': "same_rate ?s (record_wait g u w (sem_add k n ?s))" for g u w k n
    by (rule same_rate_trans [OF same_rate_bookkeeping(4,1)])
  have "lands i (\<lambda>p. forward env i ?s ?s ?q p \<or> next_reference ?s ?q p) ?s s'"
    using T q slots [OF minus] slots [OF minus'] here [OF minus]
    by (auto simp: rate_known_def split: if_splits option.splits)
  from moves_lands [OF this] show ?thesis by simp
qed

lemma moves_after:
  \<comment> \<open>a call goes on in \<open>s1\<close>, in which a bucket may have given a token\<close>
  assumes l: "lands i P s1 s'" and P: "\<And>p. P p \<Longrightarrow> in_call env i c s1 p"
    and r: "6 * left (max_tries env) c + 3 < rank (max_tries env) q \<or>
       (\<forall>p. P p \<longrightarrow> rank (max_tries env) p < rank (max_tries env) q)"
    and s1: "rs_pcs s1 = rs_pcs s" "rs_clock s1 = rs_clock s"
    and b: "bucket_moves (rs_clock s) (rs_bucket s) (rs_bucket s1)"
      "\<And>k. bucket_moves (rs_clock s) (map_of (rs_tool_buckets s) k) (map_of (rs_tool_buckets s1) k)"
  shows "\<exists>p. moves env i s s' q p"
proof -
  obtain p s2 where p: "s' = set_pc i p s2" "same_rate s1 s2" "P p" using l unfolding lands_def by blast
  then have eq: "rs_bucket s' = rs_bucket s1" "rs_tool_buckets s' = rs_tool_buckets s1" "rs_pcs s' = (rs_pcs s)[i := p]"
    "rs_clock s' = rs_clock s" using s1 by (simp_all add: same_rate_def set_pc_def)
  have "tool_bucket env i s' = tool_bucket env i s1" unfolding tool_bucket_def eq(2) ..
  moreover have "rate_known env i s1 p" by (rule in_call_known [OF P [OF p(3)]])
  ultimately have "rate_known env i s' p" by (simp add: rate_known_def eq(1))
  moreover have "rank (max_tries env) p < rank (max_tries env) q"
    using r in_call_rank [OF P [OF p(3)], of "max_tries env"] p(3) by auto
  ultimately show ?thesis unfolding moves_def forward_def using b eq by auto
qed

lemma bucket_moves_refl [simp]: "bucket_moves t x x"
  by (simp add: bucket_moves_def)

lemma call_pcs_in_call: "final p \<or> (\<exists>w. p = Backoff c w) \<or> p = Running c \<Longrightarrow> in_call env i c s p"
  by (auto simp: in_call_def)

lemma rate_moves:
  assumes step: "task_step env rd i s0 = Some s'"
    and q: "rs_pcs s0 ! i = WantGlobalRate c w t \<or> rs_pcs s0 ! i = WantToolRate c w t"
  shows "\<exists>p. moves env i (tick rd s0) s' (rs_pcs s0 ! i) p"
proof -
  let ?s = "tick rd s0" and ?c = "c\<lparr>cl_limited := cl_limited c \<or> 0 < w\<rparr>"
  note T = step [unfolded task_step_def Let_def, simplified]
  consider (global) "rs_pcs s0 ! i = WantGlobalRate c w t" | (tool) "rs_pcs s0 ! i = WantToolRate c w t" using q by blast
  then show ?thesis
  proof cases
    case global
    have tb: "tool_bucket env i (?s\<lparr>rs_bucket := x\<rparr>) = tool_bucket env i ?s" for x by (simp add: tool_bucket_def split: option.splits)
    obtain b where b: "t \<le> rs_clock ?s" "rs_bucket s0 = Some b" using T global by (auto split: if_splits option.splits)
    obtain b' r where tr: "bucket_try b (rs_clock ?s) = (b', r)" by (cases "bucket_try b (rs_clock ?s)")
    show ?thesis
    proof (cases r)
      case (Some d)
      have "s' = set_pc i (WantGlobalRate c (w + d) (rs_clock ?s + d)) (?s\<lparr>rs_bucket := Some b'\<rparr>)"
        using T global b tr Some by simp
      then have "moves env i ?s s' (WantGlobalRate c w t) (WantGlobalRate c (w + d) (rs_clock ?s + d))"
        using b tr Some unfolding moves_def global_retry_def by (simp add: set_pc_def)
      then show ?thesis using global by auto
    next
      case None
      let ?s1 = "record_wait sa_global_rate sa_global_rate_update w (?s\<lparr>rs_bucket := Some b'\<rparr>)"
      have eq: "rs_pcs ?s1 = rs_pcs ?s" "rs_clock ?s1 = rs_clock ?s" "rs_bucket ?s1 = Some b'" "rs_tool_buckets ?s1 = rs_tool_buckets ?s"
        using same_rate_bookkeeping(1) [of "?s\<lparr>rs_bucket := Some b'\<rparr>" sa_global_rate sa_global_rate_update w] by (simp_all add: same_rate_def)
      have "s' = after_global_rate env rd i ?c ?s1" using T global b tr None by simp
      moreover have "bucket_moves (rs_clock ?s) (rs_bucket ?s) (rs_bucket ?s1)"
        unfolding eq using b tr by (simp add: bucket_moves_def)
      ultimately show ?thesis
        using moves_after [OF after_global_rate_lands, of env i ?c ?s1 env ?c "rs_pcs s0 ! i" ?s rd] global by (simp add: eq)
    qed
  next
    case tool
    obtain k b where b: "t \<le> rs_clock ?s" "tool_bucket env i ?s = Some (k, b)"
      using T tool by (auto split: if_splits option.splits)
    have kb: "map_of (rs_tool_buckets s0) k = Some b" using b(2) by (auto simp: tool_bucket_def split: option.splits)
    obtain b' r where tr: "bucket_try b (rs_clock ?s) = (b', r)" by (cases "bucket_try b (rs_clock ?s)")
    let ?s1 = "?s\<lparr>rs_tool_buckets := AList.update k b' (rs_tool_buckets ?s)\<rparr>"
    show ?thesis
    proof (cases r)
      case (Some d)
      have "s' = set_pc i (WantToolRate c (w + d) (rs_clock ?s + d)) ?s1"
        using T tool b tr Some by simp
      then have "moves env i ?s s' (WantToolRate c w t) (WantToolRate c (w + d) (rs_clock ?s + d))"
        using b tr Some unfolding moves_def tool_retry_def by (simp add: set_pc_def)
      then show ?thesis using tool by auto
    next
      case None
      let ?s2 = "record_wait sa_tool_rate sa_tool_rate_update w ?s1"
      have eq: "rs_pcs ?s2 = rs_pcs ?s" "rs_clock ?s2 = rs_clock ?s" "rs_bucket ?s2 = rs_bucket ?s"
          "rs_tool_buckets ?s2 = AList.update k b' (rs_tool_buckets ?s)"
        using same_rate_bookkeeping(1) [of ?s1 sa_tool_rate sa_tool_rate_update w] by (simp_all add: same_rate_def)
      have "s' = start_tool env rd i ?c ?s2" using T tool b tr None by simp
      moreover have "\<exists>p. moves env i ?s (start_tool env rd i ?c ?s2) (rs_pcs s0 ! i) p"
      proof (rule moves_after [OF start_tool_lands call_pcs_in_call])
        show "bucket_moves (rs_clock ?s) (map_of (rs_tool_buckets ?s) j) (map_of (rs_tool_buckets ?s2) j)" for j
          unfolding eq using kb tr by (simp add: bucket_moves_def update_conv')
        show "6 * left (max_tries env) ?c + 3 < rank (max_tries env) (rs_pcs s0 ! i) \<or>
          (\<forall>p. final p \<or> (\<exists>w. p = Backoff ?c w) \<or> p = Running ?c \<longrightarrow> rank (max_tries env) p < rank (max_tries env) (rs_pcs s0 ! i))"
          using tool by (auto simp: rank_final)
      qed (use eq in simp_all)
      ultimately show ?thesis by simp
    qed
  qed
qed

lemma call_moves:
  assumes step: "task_step env rd i s0 = Some s'" and ok: "pc_ok env s0 i (rs_pcs s0 ! i)"
    and q: "rs_pcs s0 ! i = Running c \<or> rs_pcs s0 ! i = Backoff c w"
  shows "\<exists>p. moves env i (tick rd s0) s' (rs_pcs s0 ! i) p"
proof -
  let ?s = "tick rd s0" and ?q = "rs_pcs s0 ! i"
  note T = step [unfolded task_step_def Let_def, simplified]
  have "lands i (\<lambda>p. forward env i ?s ?s ?q p \<or> next_reference ?s ?q p) ?s s'"
    using q
  proof
    assume r: "?q = Running c"
    have "lands i (\<lambda>p. forward env i ?s ?s ?q p \<or> next_reference ?s ?q p) ?s (on_attempt_error env rd i c e ?s)" for e
      by (rule lands_mono [OF on_attempt_error_lands]) (auto simp: r forward_def rate_known_def rank_final)
    moreover have "lands i (\<lambda>p. forward env i ?s ?s ?q p \<or> next_reference ?s ?q p) ?s
        (settle i (tryT (complete_step env rd (step_at env i) c v) (fail_step env rd (step_at env i) (cl_started c) (cl_attempt c)))
          (release_slots env (step_at env i) ?s))" for v
    proof (rule lands_mono [OF lands_prefix [OF same_rate_release lands_ends]])
      show "framed (touches (sid env i)) (tryT (complete_step env rd (step_at env i) c v)
          (fail_step env rd (step_at env i) (cl_started c) (cl_attempt c)))"
        "ends (sid env i) (tryT (complete_step env rd (step_at env i) c v)
          (fail_step env rd (step_at env i) (cl_started c) (cl_attempt c)))"
        by (intro tch.frame_rules touches_parts ends_try ends_parts)+
    qed (auto simp: r forward_def rate_known_def rank_final)
    ultimately show ?thesis using T r by (auto split: tool_outcome.splits)
  next
    assume r: "?q = Backoff c w"
    let ?c = "c\<lparr>cl_attempt := cl_attempt c + 1, cl_delay := cl_delay c * rp_backoff (mr_retry (xe_macro env)),
                 cl_wait_from := rs_clock ?s, cl_limited := False\<rparr>"
    have "1 \<le> cl_attempt c" "cl_attempt c < rp_max_attempts (mr_retry (xe_macro env))"
      using ok r by (auto simp: pc_ok_def)
    then have "left (max_tries env) c = Suc (left (max_tries env) ?c)" by (auto simp: left_def nat_add_distrib)
    then have "rank (max_tries env) (WantGlobal ?c) < rank (max_tries env) ?q" using r by simp
    then show ?thesis using T r lands_here [OF same_rate_release, of _ "WantGlobal ?c" i ?s env "step_at env i"]
      by (auto simp: forward_def rate_known_def split: if_splits)
  qed
  from moves_lands [OF this] show ?thesis by simp
qed

lemma task_step_moves:
  assumes step: "task_step env rd i s0 = Some s'" and ok: "pc_ok env s0 i (rs_pcs s0 ! i)" and n: "1 \<le> max_tries env"
  obtains p where "moves env i (tick rd s0) s' (rs_pcs s0 ! i) p"
proof -
  have "\<exists>p. moves env i (tick rd s0) s' (rs_pcs s0 ! i) p"
  proof (cases "rs_pcs s0 ! i")
    case (Finished r) then show ?thesis using step by (simp add: task_step_def)
  next
    case (Crashed e) then show ?thesis using step by (simp add: task_step_def)
  qed (use settled_moves [OF step n] want_moves [OF step] rate_moves [OF step] call_moves [OF step ok] in auto)
  then show thesis using that by blast
qed

section \<open>Buckets\<close>

definition buckets_ok :: "run_state \<Rightarrow> bool" where
  "buckets_ok s \<longleftrightarrow> (\<forall>b. rs_bucket s = Some b \<longrightarrow> bucket_ok b \<and> bk_last b \<le> rs_clock s)
     \<and> (\<forall>k b. map_of (rs_tool_buckets s) k = Some b \<longrightarrow> bucket_ok b \<and> bk_last b \<le> rs_clock s)"

definition live_inv :: "exec_env \<Rightarrow> run_state \<Rightarrow> bool" where
  "live_inv env s \<longleftrightarrow> run_inv env s \<and> buckets_ok s \<and> (\<forall>i<tasks env. rate_known env i s (rs_pcs s ! i))"

lemma bucket_try_last: "bk_last b \<le> now \<Longrightarrow> bk_last (fst (bucket_try b now)) = now"
  by (auto simp: bucket_try_def bucket_refill_def Let_def)

lemma bucket_moves_ok:
  assumes "bucket_moves now x y" and "\<And>b. x = Some b \<Longrightarrow> bucket_ok b \<and> bk_last b \<le> now" and "y = Some b'"
  shows "bucket_ok b' \<and> bk_last b' \<le> now"
  using assms bucket_try_ok bucket_try_last unfolding bucket_moves_def by fastforce

lemma bucket_moves_None: "bucket_moves now x y \<Longrightarrow> (y = None) = (x = None)"
  by (auto simp: bucket_moves_def)

lemma moves_buckets:
  assumes "moves env i s s' q p"
  shows "bucket_moves (rs_clock s') (rs_bucket s) (rs_bucket s')"
    and "bucket_moves (rs_clock s') (map_of (rs_tool_buckets s) k) (map_of (rs_tool_buckets s') k)"
proof -
  have "bucket_moves (rs_clock s') (rs_bucket s) (rs_bucket s')
     \<and> bucket_moves (rs_clock s') (map_of (rs_tool_buckets s) k) (map_of (rs_tool_buckets s') k)"
    using assms unfolding moves_def
  proof (elim conjE disjE)
    assume "global_retry s s' q p"
    then show ?thesis unfolding global_retry_def bucket_moves_def by fastforce
  next
    assume "tool_retry env i s s' q p"
    then obtain l b b' d where t: "tool_bucket env i s = Some (l, b)" "bucket_try b (rs_clock s') = (b', Some d)"
      "rs_tool_buckets s' = AList.update l b' (rs_tool_buckets s)" "rs_bucket s' = rs_bucket s"
      unfolding tool_retry_def by blast
    from t(1) have "map_of (rs_tool_buckets s) l = Some b" by (auto simp: tool_bucket_def split: option.splits)
    with t(2-) show ?thesis by (auto simp: bucket_moves_def update_conv')
  qed simp_all
  then show "bucket_moves (rs_clock s') (rs_bucket s) (rs_bucket s')"
    "bucket_moves (rs_clock s') (map_of (rs_tool_buckets s) k) (map_of (rs_tool_buckets s') k)" by auto
qed

lemma moves_known:
  assumes "moves env i s s' q p" and "rate_known env i s q"
  shows "rate_known env i s' p"
  using assms(1) unfolding moves_def
proof (elim conjE disjE)
  assume "tool_retry env i s s' q p"
  then obtain c w t l b b' where t: "tool_bucket env i s = Some (l, b)" "p = WantToolRate c w t"
      "rs_tool_buckets s' = AList.update l b' (rs_tool_buckets s)" unfolding tool_retry_def by blast
  then have "tool_bucket env i s' \<noteq> None"
    by (auto simp: tool_bucket_def update_conv' split: option.splits)
  with t(2) show ?thesis by (auto simp: rate_known_def)
qed (auto simp: forward_def next_reference_def global_retry_def rate_known_def)

lemma rate_known_stable:
  assumes "moves env i s s' q p" and "rate_known env j s r"
  shows "rate_known env j s' r"
proof -
  note B = bucket_moves_None [OF moves_buckets(1) [OF assms(1)]] bucket_moves_None [OF moves_buckets(2) [OF assms(1)]]
  have "tool_bucket env j s' = None \<longleftrightarrow> tool_bucket env j s = None"
    using B(2) by (auto simp: tool_bucket_def split: option.splits)
  with assms(2) B(1) show ?thesis unfolding rate_known_def by blast
qed

lemma rate_known_tick [simp]: "rate_known env i (s\<lparr>rs_clock := t\<rparr>) p = rate_known env i s p"
  by (simp add: rate_known_def tool_bucket_def split: option.splits)

lemma step_clock:
  assumes "task_step env rd i s = Some s'" and "pc_ok env s i (rs_pcs s ! i)"
  shows "rs_clock s' = rs_clock s + rd_elapsed rd"
  using task_step_arrives [OF assms] unfolding arrives_def touch0_def by auto

lemma macro_stepE:
  assumes "macro_step env s s'" and "live_inv env s" and "1 \<le> max_tries env"
  obtains i rd p where "i < tasks env" "0 \<le> rd_elapsed rd" "task_step env rd i s = Some s'"
    "rs_clock s' = rs_clock s + rd_elapsed rd" "moves env i (tick rd s) s' (rs_pcs s ! i) p"
proof -
  have inv: "run_inv env s" using assms(2) by (simp add: live_inv_def)
  obtain i rd where i: "i < tasks env" "0 \<le> rd_elapsed rd" "task_step env rd i s = Some s'"
    using assms(1) run_invD(1) [OF inv] by (auto elim: macro_step.cases)
  note ok = run_invD(2) [OF inv i(1)]
  obtain p where "moves env i (tick rd s) s' (rs_pcs s ! i) p" by (rule task_step_moves [OF i(3) ok assms(3)])
  with i step_clock [OF i(3) ok] show thesis by (rule that)
qed

lemma live_inv_step:
  assumes inv: "live_inv env s" and st: "macro_step env s s'" and d: "distinct (step_ids (xe_macro env))" and n: "1 \<le> max_tries env"
  shows "live_inv env s'"
proof -
  obtain i rd p where i: "i < tasks env" "0 \<le> rd_elapsed rd"
    and clock: "rs_clock s' = rs_clock s + rd_elapsed rd" and m: "moves env i (tick rd s) s' (rs_pcs s ! i) p"
    using macro_stepE [OF st inv n] by metis
  have R: "run_inv env s" "buckets_ok s" "\<forall>j<tasks env. rate_known env j s (rs_pcs s ! j)" using inv by (auto simp: live_inv_def)
  have pcs: "rs_pcs s' = (rs_pcs s)[i := p]" using m by (simp add: moves_def)
  have old: "bucket_ok b \<and> bk_last b \<le> rs_clock s'" if "rs_bucket s = Some b \<or> map_of (rs_tool_buckets s) k = Some b" for k b
    using R(2) that i(2) clock unfolding buckets_ok_def by force
  have "bucket_ok b \<and> bk_last b \<le> rs_clock s'" if "rs_bucket s' = Some b" for b
    by (rule bucket_moves_ok [OF moves_buckets(1) [OF m] _ that]) (use old in simp)
  moreover have "bucket_ok b \<and> bk_last b \<le> rs_clock s'" if "map_of (rs_tool_buckets s') k = Some b" for k b
    by (rule bucket_moves_ok [OF moves_buckets(2) [OF m] _ that]) (use old in fastforce)
  ultimately have "buckets_ok s'" unfolding buckets_ok_def by blast
  moreover have "rate_known env j s' (rs_pcs s' ! j)" if "j < tasks env" for j
    using moves_known [OF m] rate_known_stable [OF m] R(1,3) that i(1) pcs run_invD(1) [OF R(1)]
    by (cases "j = i") auto
  ultimately show ?thesis using run_inv_step [OF R(1) d st] by (simp add: live_inv_def)
qed

lemma start_bucket_ok:
  assumes "start_bucket rps burst now = Some b" and "\<not> opt_holds (\<lambda>r. r \<le> 0) rps" and "\<not> opt_holds (\<lambda>n. n < 1) burst"
  shows "bucket_ok b \<and> bk_last b = now"
  using assms by (auto simp: start_bucket_def bucket_ok_def new_bucket_def split: option.splits if_splits)

lemma starts_live:
  assumes "starts env s0"
  shows "live_inv env s0"
proof -
  obtain rd sm minted now status decisions where
    p: "persist_checkpoint env rd ''active'' None (init_state env sm minted now status decisions) = (Inr (), s0)"
    and l: "limits_valid (xe_limits env)"
    using starts_init [OF assms] by metis
  let ?i = "init_state env sm minted now status decisions"
  have r: "same_rate ?i s0" using touches_rate [OF framed_quiet_touches [OF quiet_persist], of ?i env rd "''active''" None] p by simp
  have "bucket_ok b \<and> bk_last b \<le> rs_clock ?i" if "rs_bucket ?i = Some b" for b
  proof -
    have "start_bucket (el_global_rps (xe_limits env)) (el_global_burst (xe_limits env)) now = Some b" "rs_clock ?i = now"
      using that by (simp_all add: init_state_def Let_def)
    then show ?thesis using l start_bucket_ok by (force simp: limits_valid_def check_exec_limits_fields_def split: if_splits)
  qed
  moreover have "bucket_ok b \<and> bk_last b \<le> rs_clock ?i" if "map_of (rs_tool_buckets ?i) k = Some b" for k b
  proof -
    have "(k, b) \<in> set (List.map_filter (\<lambda>p. map_option (\<lambda>b. (fst p, b))
          (start_bucket (tl_rps (snd p)) (tl_burst (snd p)) now)) (el_per_tool (xe_limits env)))" "rs_clock ?i = now"
      using that by (auto simp: init_state_def Let_def dest: map_of_SomeD)
    then obtain tl where tl: "(k, tl) \<in> set (el_per_tool (xe_limits env))" "start_bucket (tl_rps tl) (tl_burst tl) now = Some b"
      by (auto simp: map_filter_def)
    from tl(1) l have "validate_bucket_contract tl = Inr tl" by (auto simp: limits_valid_def)
    then show ?thesis using tl(2) start_bucket_ok \<open>rs_clock ?i = now\<close>
      by (force simp: validate_bucket_contract_def split: if_splits)
  qed
  ultimately have "buckets_ok s0" using r by (simp add: buckets_ok_def same_rate_def)
  moreover have "rs_pcs s0 ! i = Fresh" if "i < tasks env" for i using r that by (simp add: same_rate_def init_state_def Let_def)
  ultimately show ?thesis using starts_inv [OF assms] by (simp add: live_inv_def rate_known_def)
qed

lemma starts_tries: "starts env s0 \<Longrightarrow> 1 \<le> max_tries env"
  using starts_attempts [of env s0] by simp

lemma reached_live:
  assumes "starts env s0" and "(macro_step env)\<^sup>*\<^sup>* s0 s"
  shows "live_inv env s"
  using assms(2) by (induction rule: rtranclp_induct)
    (auto intro: live_inv_step starts_live [OF assms(1)] starts_distinct [OF assms(1)] starts_tries [OF assms(1)])

section \<open>Some task can move\<close>

fun movable :: "pc \<Rightarrow> bool" where
  "movable Fresh = True"
| "movable (WantGlobalRate c w t) = True"
| "movable (WantToolRate c w t) = True"
| "movable (Running c) = True"
| "movable (Backoff c t) = True"
| "movable _ = False"

lemma holds_tool_movable: "holds_tool p \<Longrightarrow> movable p"
  by (cases p) simp_all

definition enabled :: "exec_env \<Rightarrow> run_state \<Rightarrow> nat \<Rightarrow> bool" where
  "enabled env s i \<longleftrightarrow> (\<exists>rd s'. 0 \<le> rd_elapsed rd \<and> task_step env rd i s = Some s')"

definition pause :: "rat \<Rightarrow> reading" where
  "pause d = \<lparr>rd_now = 0, rd_elapsed = d, rd_outcome = Returned PNone\<rparr>"

lemma enabledI: "task_step env (pause d) i s = Some s' \<Longrightarrow> 0 \<le> d \<Longrightarrow> enabled env s i"
  unfolding enabled_def by (rule exI [of _ "pause d"]) (simp add: pause_def)

lemma movable_enabled:
  assumes "movable (rs_pcs s ! i)" and "rate_known env i s (rs_pcs s ! i)"
  shows "enabled env s i"
proof -
  define d where "d = (case rs_pcs s ! i of WantGlobalRate c w t \<Rightarrow> max 0 (t - rs_clock s)
     | WantToolRate c w t \<Rightarrow> max 0 (t - rs_clock s) | Backoff c t \<Rightarrow> max 0 (t - rs_clock s) | _ \<Rightarrow> 0)"
  have d: "0 \<le> d" unfolding d_def by (auto split: pc.splits)
  have "task_step env (pause d) i s \<noteq> None"
    using assms unfolding task_step_def Let_def d_def
    by (cases "rs_pcs s ! i")
       (auto simp: pause_def rate_known_def tool_bucket_def max_def split: option.splits prod.splits)
  then show ?thesis using d enabledI by blast
qed

lemma sum_positive:
  fixes f :: "nat \<Rightarrow> int"
  assumes "0 < (\<Sum>i<n. f i)"
  obtains i where "i < n" "0 < f i"
  using assms by (metis lessThan_iff not_less sum_nonpos)

lemma slot_enabled:
  assumes inv: "live_inv env s" and l: "limits_valid (xe_limits env)" and i: "i < tasks env"
    and q: "rs_pcs s ! i = WantTool c \<or> rs_pcs s ! i = WantGlobal c"
  shows "\<exists>j<tasks env. enabled env s j"
proof -
  have R: "run_inv env s" and K: "\<forall>j<tasks env. rate_known env j s (rs_pcs s ! j)" using inv by (auto simp: live_inv_def)
  have tool: "\<exists>j<tasks env. enabled env s j" if w: "i < tasks env" "rs_pcs s ! i = WantTool c" for i c
  proof -
    obtain k where k: "tool_slot_key env (step_at env i) = Some k" using run_invD(2) [OF R w(1)] w(2) by (auto simp: pc_ok_def)
    show ?thesis
    proof (cases "0 < sem s k")
      case True
      then have "task_step env (pause 0) i s \<noteq> None" using w k by (simp add: task_step_def Let_def sem_def pause_def)
      then show ?thesis using enabledI w(1) by force
    next
      case False
      obtain tl n where tl: "map_of (el_per_tool (xe_limits env)) k = Some tl" "tl_max_concurrency tl = Some n"
        using k by (auto simp: tool_slot_key_def split: option.splits if_splits)
      then have "validate_bucket_contract tl = Inr tl" using l by (auto simp: limits_valid_def dest!: map_of_SomeD)
      then have "1 \<le> tool_cap env k" using tl by (auto simp: tool_cap_def validate_bucket_contract_def split: if_splits)
      then have "0 < (\<Sum>j<tasks env. ht env j k (rs_pcs s ! j))" using run_invD(5) [OF R, of k] False by simp
      then obtain j where "j < tasks env" "0 < ht env j k (rs_pcs s ! j)" by (rule sum_positive)
      then show ?thesis using K movable_enabled holds_tool_movable by (auto simp: ht_def split: if_splits)
    qed
  qed
  show ?thesis
  proof (cases "rs_pcs s ! i = WantTool c \<or> rs_global s \<le> 0")
    case False
    then have "task_step env (pause 0) i s \<noteq> None" using q by (simp add: task_step_def Let_def pause_def)
    then show ?thesis using enabledI i by force
  next
    case True
    show ?thesis
    proof (cases "rs_pcs s ! i = WantTool c")
      case True
      then show ?thesis using tool [OF i] by simp
    next
      case False
      have "1 \<le> el_max_global (xe_limits env)" using l by (auto simp: limits_valid_def check_exec_limits_fields_def split: if_splits)
      then have "0 < (\<Sum>j<tasks env. hg (rs_pcs s ! j))" using run_invD(4) [OF R] True False by simp
      then obtain j where j: "j < tasks env" "holds_global (rs_pcs s ! j)" by (rule sum_positive) (auto simp: hg_def split: if_splits)
      then have "(\<exists>c. rs_pcs s ! j = WantTool c) \<or> holds_tool (rs_pcs s ! j)" by (cases "rs_pcs s ! j") auto
      then show ?thesis using tool [OF j(1)] j(1) K movable_enabled holds_tool_movable by blast
    qed
  qed
qed

lemma refers_mentions: "refers v r \<Longrightarrow> r \<noteq> [] \<Longrightarrow> mentions v r"
proof (induction rule: refers.induct)
  case (refers_str t)
  then show ?case
    by (cases t) (auto simp: reference_target_def reference_payload_def string_reference_def Let_def startswith_def
        before_char_def split: if_splits)
qed (auto intro: mentions.intros)

lemma controllers_deps: "c \<in> set (branch_controllers m k) \<Longrightarrow> (c, k) \<in> macro_deps m"
  by (auto simp: branch_controllers_def macro_deps_def split: option.splits if_splits)

lemma macro_deps_wf:
  assumes "validate_branch_targets m = Inr m"
  shows "wf (macro_deps m)"
proof (rule finite_acyclic_wf)
  have "macro_deps m \<subseteq> set (step_ids m) \<times> set (step_ids m)"
    using assms by (auto simp: macro_deps_def validate_macro_iff targets_ok_def)
  then show "finite (macro_deps m)" by (rule finite_subset) simp
qed (use assms in \<open>simp add: validate_macro_iff\<close>)

lemma waiting_enabled:
  assumes inv: "live_inv env s" and v: "validate_branch_targets (xe_macro env) = Inr (xe_macro env)"
    and ids: "[] \<notin> set (step_ids (xe_macro env))"
    and wait: "\<And>j. j < tasks env \<Longrightarrow> (\<exists>r. rs_pcs s ! j = Finished r) \<or> (\<exists>t. rs_pcs s ! j = AwaitControllers t) \<or> (\<exists>t r. rs_pcs s ! j = Resolving t r)"
    and i: "i < tasks env" "\<not> final (rs_pcs s ! i)"
  shows "\<exists>j<tasks env. enabled env s j"
proof -
  have R: "run_inv env s" using inv by (simp add: live_inv_def)
  let ?U = "{k. \<exists>j<tasks env. k = sid env j \<and> \<not> final (rs_pcs s ! j)}"
  obtain k where "k \<in> ?U" and min: "\<And>u. (u, k) \<in> macro_deps (xe_macro env) \<Longrightarrow> u \<notin> ?U"
    using wfE_min [OF macro_deps_wf [OF v], of "sid env i" ?U] i by blast
  then obtain j where j: "j < tasks env" "k = sid env j" "\<not> final (rs_pcs s ! j)" by blast
  have known: "map_of (rs_futures s) u \<noteq> None" if u: "(u, k) \<in> macro_deps (xe_macro env)" "u \<in> set (step_ids (xe_macro env))" for u
  proof -
    obtain l where l: "l < tasks env" "sid env l = u" using step_id_index [OF u(2)] by blast
    then have "final (rs_pcs s ! l)" using min [OF u(1)] by blast
    then obtain r where "rs_pcs s ! l = Finished r" using wait [OF l(1)] by auto
    then show ?thesis using run_invD(2) [OF R l(1)] l(2) by (auto simp: pc_ok_def)
  qed
  have "task_step env (pause 0) j s \<noteq> None"
  proof (cases "rs_pcs s ! j")
    case (AwaitControllers t)
    have "map_of (rs_futures s) c \<noteq> None" if "c \<in> set (branch_controllers (xe_macro env) k)" for c
      using known [OF controllers_deps [OF that]] that controllers_in by blast
    then show ?thesis using AwaitControllers j(2) by (simp add: task_step_def Let_def)
  next
    case (Resolving t r)
    then have r: "step_refers (step_at env j) r" "r \<in> set (step_ids (xe_macro env))"
      using run_invD(2) [OF R j(1)] by (auto simp: pc_ok_def)
    then have "r \<noteq> []" using ids by metis
    then have "(r, k) \<in> macro_deps (xe_macro env)"
      using r j(1,2) refers_mentions unfolding macro_deps_def step_refers_def step_at_def by (auto simp: set_conv_nth) (metis nth_mem)
    then show ?thesis using known r(2) Resolving by (simp add: task_step_def Let_def)
  qed (use wait [OF j(1)] j(3) in auto)
  then show ?thesis using enabledI j(1) by force
qed

lemma run_progress:
  assumes "live_inv env s" and "limits_valid (xe_limits env)" and "validate_branch_targets (xe_macro env) = Inr (xe_macro env)"
    and "[] \<notin> set (step_ids (xe_macro env))"
    and no_crash: "\<And>j e. j < tasks env \<Longrightarrow> rs_pcs s ! j \<noteq> Crashed e" and i: "i < tasks env" "\<not> final (rs_pcs s ! i)"
  shows "\<exists>s'. macro_step env s s'"
proof -
  have "\<exists>j<tasks env. enabled env s j"
  proof (cases "\<exists>j<tasks env. movable (rs_pcs s ! j) \<or> (\<exists>c. rs_pcs s ! j = WantTool c \<or> rs_pcs s ! j = WantGlobal c)")
    case True
    then show ?thesis using assms(1,2) slot_enabled movable_enabled unfolding live_inv_def by metis
  next
    case False
    then have "(\<exists>r. rs_pcs s ! j = Finished r) \<or> (\<exists>t. rs_pcs s ! j = AwaitControllers t) \<or> (\<exists>t r. rs_pcs s ! j = Resolving t r)"
      if "j < tasks env" for j using that no_crash by (cases "rs_pcs s ! j") auto
    then show ?thesis using waiting_enabled [OF assms(1,3,4) _ i] by blast
  qed
  moreover have "length (rs_pcs s) = tasks env" using assms(1) run_invD(1) unfolding live_inv_def by blast
  ultimately show ?thesis unfolding enabled_def by (metis macro_step.intros)
qed

end
