(* ===== verification/EAP_Executor_Termination.thy ===== *)
theory EAP_Executor_Termination
  imports EAP_Executor_Liveness
begin

text \<open>
  Every run of the executor is finite. The measure is lexicographic: the places of the tasks in
  \<open>run_step\<close>; the tasks whose awaited reference has become known; the tasks whose next
  rate-limit attempt may fail. The last needs that a task that slept as long as its bucket said
  finds a token unless somebody took one meanwhile, and taking a token moves a task forward.
\<close>

section \<open>Waiting long enough\<close>

definition enough :: "bucket \<Rightarrow> rat \<Rightarrow> bool" where
  \<comment> \<open>the bucket has a token at time \<open>t\<close> if nobody takes one before\<close>
  "enough b t \<longleftrightarrow> 1 \<le> bk_tokens b + max 0 (t - bk_last b) * bk_rate b"

lemma enough_succeeds:
  assumes "bucket_ok b" and "bk_last b \<le> now" and "enough b t" and "t \<le> now"
  shows "snd (bucket_try b now) = None"
proof -
  have "max 0 (t - bk_last b) * bk_rate b \<le> (now - bk_last b) * bk_rate b"
    using assms by (intro mult_right_mono) (auto simp: bucket_ok_def)
  then have "1 \<le> bk_tokens b + (now - bk_last b) * bk_rate b" using assms(3) by (simp add: enough_def)
  then show ?thesis using assms(1,2) by (auto simp: bucket_try_def bucket_refill_def Let_def bucket_ok_def)
qed

lemma failed_try:
  assumes ok: "bucket_ok b" "bk_last b \<le> now" and tr: "bucket_try b now = (b', Some d)"
  shows "enough b' (now + d)" and "enough b t \<Longrightarrow> enough b' t"
proof -
  have b': "bk_tokens b' = bk_tokens b + (now - bk_last b) * bk_rate b" "bk_rate b' = bk_rate b" "bk_last b' = now"
    and few: "bk_tokens b' < 1" and d: "d = (1 - bk_tokens b') / bk_rate b"
    using tr ok by (auto simp: bucket_try_def bucket_refill_def Let_def bucket_ok_def min_def split: if_splits)
  have rate: "0 < bk_rate b" using ok by (simp add: bucket_ok_def)
  have "0 \<le> d" "d * bk_rate b = 1 - bk_tokens b'" using d few rate by (simp_all add: divide_nonneg_pos)
  then show "enough b' (now + d)" using b' by (simp add: enough_def)
  assume e: "enough b t"
  show "enough b' t"
  proof (cases "now \<le> t")
    case True
    then show ?thesis using e b' ok(2) by (simp add: enough_def max_def algebra_simps split: if_splits)
  next
    case False
    then have "snd (bucket_try b now) = None" using enough_succeeds [OF ok e] by simp
    then show ?thesis using tr by simp
  qed
qed

section \<open>The measure\<close>

definition rank_sum :: "exec_env \<Rightarrow> run_state \<Rightarrow> nat" where
  "rank_sum env s = (\<Sum>i<tasks env. rank (max_tries env) (rs_pcs s ! i))"

definition known_refs :: "exec_env \<Rightarrow> run_state \<Rightarrow> nat set" where
  "known_refs env s = {i. i < tasks env \<and> (\<exists>t r. rs_pcs s ! i = Resolving t r \<and> map_of (rs_futures s) r \<noteq> None)}"

definition may_fail :: "exec_env \<Rightarrow> run_state \<Rightarrow> nat \<Rightarrow> bool" where
  "may_fail env s i \<longleftrightarrow> (\<exists>c w t b. rs_pcs s ! i = WantGlobalRate c w t \<and> rs_bucket s = Some b \<and> \<not> enough b t)
     \<or> (\<exists>c w t k b. rs_pcs s ! i = WantToolRate c w t \<and> tool_bucket env i s = Some (k, b) \<and> \<not> enough b t)"

definition failing :: "exec_env \<Rightarrow> run_state \<Rightarrow> nat set" where
  "failing env s = {i. i < tasks env \<and> may_fail env s i}"

definition run_measure :: "exec_env \<Rightarrow> (run_state \<times> run_state) set" where
  "run_measure env = measures [rank_sum env, \<lambda>s. card (known_refs env s), \<lambda>s. card (failing env s)]"

lemma rank_sum_update:
  assumes "i < tasks env" and "length (rs_pcs s) = tasks env" and "rs_pcs s' = (rs_pcs s)[i := p]"
  shows "rank_sum env s' + rank (max_tries env) (rs_pcs s ! i) = rank_sum env s + rank (max_tries env) p"
proof -
  have "int (rank_sum env s') = (\<Sum>j<tasks env. int (rank (max_tries env) ((rs_pcs s)[i := p] ! j)))"
    "int (rank_sum env s) = (\<Sum>j<tasks env. int (rank (max_tries env) (rs_pcs s ! j)))"
    using assms(3) by (simp_all add: rank_sum_def)
  then show ?thesis using sum_update [OF assms(1,2), of "\<lambda>_ p. int (rank (max_tries env) p)" p] by simp
qed

lemma fewer: "finite A \<Longrightarrow> B \<subseteq> A \<Longrightarrow> i \<in> A \<Longrightarrow> i \<notin> B \<Longrightarrow> card B < card A"
  using psubset_card_mono [of A B] by blast

lemma finite_sets [simp]: "finite (known_refs env s)" "finite (failing env s)"
  by (simp_all add: known_refs_def failing_def)

lemma tool_bucket_tick [simp]: "tool_bucket env i (s\<lparr>rs_clock := t\<rparr>) = tool_bucket env i s"
  by (simp add: tool_bucket_def split: option.splits)

lemma unfinished_entries:
  assumes step: "task_step env rd i s = Some s'" and ok: "pc_ok env s i (rs_pcs s ! i)" and len: "i < length (rs_pcs s)"
    and nf: "\<not> final (rs_pcs s' ! i)"
  shows "same_entries k s s'"
proof -
  obtain p s2 where p: "s' = set_pc i p s2" "touch0 (sid env i) (tick rd s) s2" "final p \<or> same_entries (sid env i) (tick rd s) s2"
    using task_step_arrives [OF step ok] unfolding arrives_def by blast
  have "rs_pcs s' ! i = p" using p(1,2) len by (simp add: touch0_def)
  then have "same_entries k (tick rd s) s2" using p(2,3) nf touch0_all by blast
  then show ?thesis using p(1) by (simp add: same_entries_def)
qed

lemma known_refs_step:
  assumes e: "\<And>k. same_entries k s s'" and pcs: "rs_pcs s' = (rs_pcs s)[i := p]"
    and i: "i < tasks env" "length (rs_pcs s) = tasks env"
  shows "known_refs env s' - {i} = known_refs env s - {i}"
    and "i \<in> known_refs env s' \<longleftrightarrow> (\<exists>t r. p = Resolving t r \<and> map_of (rs_futures s) r \<noteq> None)"
proof -
  have f: "map_of (rs_futures s') k = map_of (rs_futures s) k" for k using e [of k] by (simp add: same_entries_def)
  show "known_refs env s' - {i} = known_refs env s - {i}" using f by (auto simp: known_refs_def pcs)
  show "i \<in> known_refs env s' \<longleftrightarrow> (\<exists>t r. p = Resolving t r \<and> map_of (rs_futures s) r \<noteq> None)"
    using f i by (simp add: known_refs_def pcs)
qed

lemma global_retry_failing:
  assumes g: "global_retry s s' q p" and q: "q = rs_pcs s ! i" and pcs: "rs_pcs s' = (rs_pcs s)[i := p]"
    and i: "i < tasks env" "length (rs_pcs s) = tasks env" and ok: "buckets_ok s" "rs_clock s' = rs_clock s"
  shows "card (failing env s') < card (failing env s)"
proof -
  obtain c w t b b' d where G: "q = WantGlobalRate c w t" "t \<le> rs_clock s'" "rs_bucket s = Some b"
     "bucket_try b (rs_clock s') = (b', Some d)" "rs_bucket s' = Some b'" "p = WantGlobalRate c (w + d) (rs_clock s' + d)"
     "rs_tool_buckets s' = rs_tool_buckets s" using g unfolding global_retry_def by blast
  have B: "bucket_ok b" "bk_last b \<le> rs_clock s'" using ok G(3) by (auto simp: buckets_ok_def)
  have tb: "tool_bucket env j s' = tool_bucket env j s" for j unfolding tool_bucket_def G(7) ..
  have "\<not> enough b t" using enough_succeeds [OF B _ G(2)] G(4) by auto
  then have "i \<in> failing env s" using G i q by (auto simp: failing_def may_fail_def)
  moreover have "i \<notin> failing env s'"
    using failed_try(1) [OF B G(4)] G(5,6) i by (auto simp: failing_def may_fail_def pcs)
  moreover have "may_fail env s j" if "may_fail env s' j" "j \<noteq> i" for j
    using that failed_try(2) [OF B G(4)] G(3,5) tb by (auto simp: may_fail_def pcs)
  then have "failing env s' \<subseteq> failing env s" using \<open>i \<in> failing env s\<close> \<open>i \<notin> failing env s'\<close> unfolding failing_def by blast
  ultimately show ?thesis by (intro fewer) auto
qed

lemma tool_retry_failing:
  assumes g: "tool_retry env i s s' q p" and q: "q = rs_pcs s ! i" and pcs: "rs_pcs s' = (rs_pcs s)[i := p]"
    and i: "i < tasks env" "length (rs_pcs s) = tasks env" and ok: "buckets_ok s" "rs_clock s' = rs_clock s"
  shows "card (failing env s') < card (failing env s)"
proof -
  obtain c w t k b b' d where G: "q = WantToolRate c w t" "t \<le> rs_clock s'" "tool_bucket env i s = Some (k, b)"
     "bucket_try b (rs_clock s') = (b', Some d)" "rs_tool_buckets s' = AList.update k b' (rs_tool_buckets s)"
     "p = WantToolRate c (w + d) (rs_clock s' + d)" "rs_bucket s' = rs_bucket s" using g unfolding tool_retry_def by blast
  have kb: "map_of (rs_tool_buckets s) k = Some b" using G(3) by (auto simp: tool_bucket_def split: option.splits)
  have B: "bucket_ok b" "bk_last b \<le> rs_clock s'" using ok kb by (auto simp: buckets_ok_def)
  have tb: "tool_bucket env j s' = (if \<exists>b. tool_bucket env j s = Some (k, b) then Some (k, b') else tool_bucket env j s)" for j
    using kb by (auto simp: tool_bucket_def G(5) update_conv' split: option.splits)
  have same: "tool_bucket env j s = Some (k, b2) \<Longrightarrow> b2 = b" for j b2
    using kb by (auto simp: tool_bucket_def split: option.splits)
  have "\<not> enough b t" using enough_succeeds [OF B _ G(2)] G(4) by auto
  then have "i \<in> failing env s" using G i q by (auto simp: failing_def may_fail_def)
  moreover have "i \<notin> failing env s'"
    using failed_try(1) [OF B G(4)] G(3,6) tb [of i] i by (auto simp: failing_def may_fail_def pcs)
  moreover have "may_fail env s j" if "may_fail env s' j" "j \<noteq> i" for j
  proof (cases "\<exists>b. tool_bucket env j s = Some (k, b)")
    case True
    then have "tool_bucket env j s' = Some (k, b')" "tool_bucket env j s = Some (k, b)" using tb [of j] same by auto
    then show ?thesis using that failed_try(2) [OF B G(4)] G(7) by (auto simp: may_fail_def pcs)
  next
    case False
    then have "tool_bucket env j s' = tool_bucket env j s" using tb [of j] by simp
    then show ?thesis using that G(7) by (auto simp: may_fail_def pcs)
  qed
  then have "failing env s' \<subseteq> failing env s" using \<open>i \<in> failing env s\<close> \<open>i \<notin> failing env s'\<close> unfolding failing_def by blast
  ultimately show ?thesis by (intro fewer) auto
qed

lemma macro_step_decreases:
  assumes inv: "live_inv env s" and st: "macro_step env s s'" and n: "1 \<le> max_tries env"
  shows "(s', s) \<in> run_measure env"
proof -
  obtain i rd p where i: "i < tasks env" "0 \<le> rd_elapsed rd" and step: "task_step env rd i s = Some s'"
    and clock: "rs_clock s' = rs_clock s + rd_elapsed rd" and m: "moves env i (tick rd s) s' (rs_pcs s ! i) p"
    using macro_stepE [OF st inv n] by metis
  have R: "run_inv env s" and B: "buckets_ok (tick rd s)" using inv i(2) by (force simp: live_inv_def buckets_ok_def)+
  note len = run_invD(1) [OF R]
  have pcs: "rs_pcs s' = (rs_pcs s)[i := p]" using m by (simp add: moves_def)
  then have pi: "rs_pcs s' ! i = p" using i len by simp
  note sum = rank_sum_update [OF i(1) len pcs]
  have fail_tick: "failing env (tick rd s) = failing env s"
    by (simp add: failing_def may_fail_def)
  have entries: "same_entries k s s'" if "\<not> final p" for k
    using unfinished_entries [OF step run_invD(2) [OF R i(1)]] i(1) len that pi by simp
  have retry: ?thesis if "card (failing env s') < card (failing env s)" "rank (max_tries env) p = rank (max_tries env) (rs_pcs s ! i)"
    "\<not> final p" "\<And>t r. p \<noteq> Resolving t r" "\<And>t r. rs_pcs s ! i \<noteq> Resolving t r"
  proof -
    have "i \<notin> known_refs env s'" "i \<notin> known_refs env s" using that(4,5) pi by (auto simp: known_refs_def)
    then have "known_refs env s' = known_refs env s" using known_refs_step(1) [OF entries [OF that(3)] pcs i(1) len] by auto
    then show ?thesis using that(1,2) sum by (simp add: run_measure_def)
  qed
  show ?thesis using m [unfolded moves_def]
  proof (elim conjE disjE)
    assume "forward env i (tick rd s) s' (rs_pcs s ! i) p"
    then show ?thesis using sum by (simp add: forward_def run_measure_def)
  next
    assume "next_reference (tick rd s) (rs_pcs s ! i) p"
    then obtain t r r' where N: "rs_pcs s ! i = Resolving t r" "p = Resolving t r'" "map_of (rs_futures s) r \<noteq> None"
      "map_of (rs_futures s) r' = None" by (auto simp: next_reference_def)
    have e: "\<And>k. same_entries k s s'" using entries N(2) by simp
    have "i \<in> known_refs env s" "i \<notin> known_refs env s'"
      using N i(1) known_refs_step(2) [OF e pcs i(1) len] by (auto simp: known_refs_def)
    moreover have "known_refs env s' - {i} = known_refs env s - {i}" by (rule known_refs_step(1) [OF e pcs i(1) len])
    ultimately have "card (known_refs env s') < card (known_refs env s)" by (intro fewer) auto
    then show ?thesis using sum N by (simp add: run_measure_def)
  next
    assume g: "global_retry (tick rd s) s' (rs_pcs s ! i) p"
    then have "card (failing env s') < card (failing env s)"
      using global_retry_failing [OF g _ _ i(1) _ B] pcs len clock by (simp add: fail_tick)
    then show ?thesis using g by (intro retry) (auto simp: global_retry_def)
  next
    assume g: "tool_retry env i (tick rd s) s' (rs_pcs s ! i) p"
    then have "card (failing env s') < card (failing env s)"
      using tool_retry_failing [OF g _ _ i(1) _ B] pcs len clock by (simp add: fail_tick)
    then show ?thesis using g by (intro retry) (auto simp: tool_retry_def)
  qed
qed

lemma task_results_finished:
  "\<forall>p\<in>set ps. \<exists>r. p = Finished r \<Longrightarrow> \<exists>rs. task_results ps = Inr (Some rs) \<and> length rs = length ps"
  by (induction ps) (auto simp: bindR_def)

lemma stuck_finished:
  assumes s0: "starts env s0" and s: "(macro_step env)\<^sup>*\<^sup>* s0 s" and ids: "[] \<notin> set (step_ids (xe_macro env))"
    and stuck: "\<And>s'. \<not> macro_step env s s'" and nc: "\<And>j e. j < tasks env \<Longrightarrow> rs_pcs s ! j \<noteq> Crashed e"
  shows "\<exists>rs. task_results (rs_pcs s) = Inr (Some rs) \<and> length rs = tasks env
     \<and> (\<forall>j<tasks env. map_of (rs_futures s) (sid env j) \<noteq> None)"
proof -
  note live = reached_live [OF s0 s]
  have R: "run_inv env s" using live by (simp add: live_inv_def)
  have "limits_valid (xe_limits env)" "validate_branch_targets (xe_macro env) = Inr (xe_macro env)"
    using s0 by (auto simp: starts_def)
  note P = run_progress [OF live this ids nc]
  have fin: "\<exists>r. rs_pcs s ! j = Finished r" if "j < tasks env" for j
    using P [OF _ that] stuck nc [OF that] by (cases "rs_pcs s ! j") auto
  then have "map_of (rs_futures s) (sid env j) \<noteq> None" if "j < tasks env" for j
    using run_invD(2) [OF R that] that by (auto simp: pc_ok_def)
  moreover have "\<forall>p\<in>set (rs_pcs s). \<exists>r. p = Finished r"
    using fin run_invD(1) [OF R] by (auto simp: in_set_conv_nth)
  ultimately show ?thesis using task_results_finished run_invD(1) [OF R] by metis
qed

fun is_finished :: "pc \<Rightarrow> bool" where
  "is_finished (Finished r) = True"
| "is_finished _ = False"

section \<open>Properties\<close>

text \<open>C2: Every execution of a macro ends: from the state in which the tasks are created there is no infinite
  sequence of steps, whatever the order of the tasks, the outcomes of the tools, retries, concurrency
  limits and rate limits.\<close>

theorem run_terminates:
  assumes "starts env s0"
  shows "\<nexists>f. f 0 = s0 \<and> (\<forall>n. macro_step env (f n) (f (Suc n)))"
proof
  assume "\<exists>f. f 0 = s0 \<and> (\<forall>n. macro_step env (f n) (f (Suc n)))"
  then obtain f where f: "f 0 = s0" "\<And>n. macro_step env (f n) (f (Suc n))" by blast
  have "(macro_step env)\<^sup>*\<^sup>* s0 (f n)" for n
    by (induction n) (auto simp: f(1) intro: rtranclp.rtrancl_into_rtrancl f(2))
  then have "(f (Suc n), f n) \<in> run_measure env" for n
    using macro_step_decreases [OF reached_live [OF assms] f(2) starts_tries [OF assms]] by blast
  moreover have "wf (run_measure env)" by (simp add: run_measure_def)
  ultimately show False by (metis wf_no_infinite_down_chainE)
qed

theorem run_terminates_witness:
  "starts run_env run_start \<and> (\<nexists>f. f 0 = run_start \<and> (\<forall>n. macro_step run_env (f n) (f (Suc n))))"
  using run_terminates [OF run_starts] run_starts by blast



section \<open>An empty step id\<close>

text \<open>Validation ignores the reference \<open>$\<close>, since its text is empty, but the executor reads it as a reference
  to the step with the empty id.\<close>

definition empty_id_env :: exec_env where
  "empty_id_env = sample_env\<lparr>xe_macro := sample_macro\<lparr>mr_steps := [sample_step [] [(''x'', PStr ''$'')]]\<rparr>\<rparr>"

definition empty_id_begin :: "begin_error + exec_env \<times> run_state" where
  "empty_id_begin = begin_run empty_id_env sample_reading default_exec_limits None False init_state_manager 0 0"

definition empty_id_start :: "exec_env \<times> run_state" where
  "empty_id_start = (case empty_id_begin of Inr p \<Rightarrow> p | Inl _ \<Rightarrow> (empty_id_env, run_start))"

definition empty_id_next :: run_state where
  "empty_id_next = (case run_schedule (fst empty_id_start) (snd empty_id_start) [(0, sample_reading)] of Some s \<Rightarrow> s | None \<Rightarrow> run_start)"

text \<open>The condition on step ids of the previous property is needed: a macro whose only step has the empty id
  and the argument \<open>$\<close> passes validation and starts, and after one step its task waits for its own
  result: no task can move, and the run never ends by itself.\<close>

theorem empty_step_id_deadlock:
  "validate_branch_targets (xe_macro (fst empty_id_start)) = Inr (xe_macro (fst empty_id_start))
   \<and> empty_id_begin = Inr empty_id_start
   \<and> (macro_step (fst empty_id_start))\<^sup>*\<^sup>* (snd empty_id_start) empty_id_next
   \<and> rs_pcs empty_id_next = [Resolving 0 []] \<and> (\<nexists>s'. macro_step (fst empty_id_start) empty_id_next s')"
proof -
  have v: "validate_branch_targets (xe_macro (fst empty_id_start)) = Inr (xe_macro (fst empty_id_start))" by code_simp
  have "\<not> isl empty_id_begin" by code_simp
  then obtain q where q: "empty_id_begin = Inr q" by (metis sum.collapse(2))
  have b: "empty_id_begin = Inr empty_id_start" unfolding empty_id_start_def q by simp
  have "run_schedule (fst empty_id_start) (snd empty_id_start) [(0, sample_reading)] \<noteq> None" by code_simp
  then obtain s where s: "run_schedule (fst empty_id_start) (snd empty_id_start) [(0, sample_reading)] = Some s" by blast
  have r: "(macro_step (fst empty_id_start))\<^sup>*\<^sup>* (snd empty_id_start) empty_id_next"
    using run_schedule_steps [OF s] unfolding empty_id_next_def s option.case .
  have pcs: "rs_pcs empty_id_next = [Resolving 0 []]" and f: "map_of (rs_futures empty_id_next) [] = None" by code_simp+
  have "\<not> macro_step (fst empty_id_start) empty_id_next s'" for s'
    using pcs f by (auto simp: task_step_def Let_def elim!: macro_step.cases)
  with v b r pcs show ?thesis by blast
qed

end
