(* ===== verification/EAP_Policy.thy ===== *)
theory EAP_Policy
  imports EAP_Prelude
begin

text \<open>
  Scopes and policy profiles of the runtime service, \<^verbatim>\<open>src/eap/runtime/auth_scopes.py\<close> and
  \<^verbatim>\<open>src/eap/runtime/policy_profiles.py\<close>: the tables of scopes that a profile allows and of the
  templates it offers, and the translation of a scoped-auth configuration into token policies. A token
  policy stays a dictionary, as the server takes it from any source and normalises it again. A
  \<open>set\<close> of scopes is a list; where the source iterates over one, the order decides only which of
  several bad scopes an error names. \<open>fr\<close> is the text of a float.
\<close>

section \<open>Scopes\<close>

definition SCOPE_RUNS_EXECUTE :: string where "SCOPE_RUNS_EXECUTE = ''runs:execute''"
definition SCOPE_RUNS_RESUME :: string where "SCOPE_RUNS_RESUME = ''runs:resume''"
definition SCOPE_RUNS_READ :: string where "SCOPE_RUNS_READ = ''runs:read''"
definition SCOPE_POINTERS_READ :: string where "SCOPE_POINTERS_READ = ''pointers:read''"
definition SCOPE_RUNS_RESUME_ANY :: string where "SCOPE_RUNS_RESUME_ANY = ''runs:resume:any''"
definition SCOPE_RUNS_READ_ANY :: string where "SCOPE_RUNS_READ_ANY = ''runs:read:any''"
definition SCOPE_POINTERS_READ_ANY :: string where "SCOPE_POINTERS_READ_ANY = ''pointers:read:any''"

lemmas scope_defs = SCOPE_RUNS_EXECUTE_def SCOPE_RUNS_RESUME_def SCOPE_RUNS_READ_def SCOPE_POINTERS_READ_def
  SCOPE_RUNS_RESUME_ANY_def SCOPE_RUNS_READ_ANY_def SCOPE_POINTERS_READ_ANY_def

definition FULL_RUNTIME_SCOPES :: "string list" where
  "FULL_RUNTIME_SCOPES = [SCOPE_RUNS_EXECUTE, SCOPE_RUNS_RESUME, SCOPE_RUNS_READ, SCOPE_POINTERS_READ,
     SCOPE_RUNS_RESUME_ANY, SCOPE_RUNS_READ_ANY, SCOPE_POINTERS_READ_ANY]"

section \<open>Profiles\<close>

definition DEFAULT_POLICY_PROFILE :: string where "DEFAULT_POLICY_PROFILE = ''strict''"

definition SUPPORTED_POLICY_PROFILES :: "string list" where
  "SUPPORTED_POLICY_PROFILES = [''strict'', ''balanced'', ''trusted'', ''multi_tenant'', ''sandboxed'']"

definition PROFILE_ALLOWED_SCOPES :: "(string, string list) dict" where
  "PROFILE_ALLOWED_SCOPES =
     [(''strict'', [SCOPE_RUNS_EXECUTE, SCOPE_RUNS_RESUME, SCOPE_RUNS_READ, SCOPE_POINTERS_READ, SCOPE_RUNS_READ_ANY,
         SCOPE_POINTERS_READ_ANY]),
      (''balanced'', FULL_RUNTIME_SCOPES),
      (''trusted'', FULL_RUNTIME_SCOPES @ [''*'']),
      (''multi_tenant'', [SCOPE_RUNS_EXECUTE, SCOPE_RUNS_RESUME, SCOPE_RUNS_READ, SCOPE_POINTERS_READ]),
      (''sandboxed'', [SCOPE_RUNS_EXECUTE, SCOPE_RUNS_READ, SCOPE_POINTERS_READ])]"

definition PROFILE_TEMPLATES :: "(string, (string, string list) dict) dict" where
  "PROFILE_TEMPLATES =
     [(''strict'',
        [(''viewer'', [SCOPE_RUNS_READ, SCOPE_POINTERS_READ]),
         (''operator'', [SCOPE_RUNS_EXECUTE, SCOPE_RUNS_RESUME, SCOPE_RUNS_READ, SCOPE_POINTERS_READ]),
         (''auditor'', [SCOPE_RUNS_READ, SCOPE_POINTERS_READ, SCOPE_RUNS_READ_ANY, SCOPE_POINTERS_READ_ANY]),
         (''admin'', [SCOPE_RUNS_READ, SCOPE_POINTERS_READ, SCOPE_RUNS_READ_ANY, SCOPE_POINTERS_READ_ANY])]),
      (''balanced'',
        [(''viewer'', [SCOPE_RUNS_READ, SCOPE_POINTERS_READ]),
         (''operator'', [SCOPE_RUNS_EXECUTE, SCOPE_RUNS_RESUME, SCOPE_RUNS_READ, SCOPE_POINTERS_READ]),
         (''auditor'', [SCOPE_RUNS_READ, SCOPE_POINTERS_READ, SCOPE_RUNS_READ_ANY, SCOPE_POINTERS_READ_ANY]),
         (''admin'', FULL_RUNTIME_SCOPES)]),
      (''trusted'',
        [(''viewer'', [SCOPE_RUNS_READ, SCOPE_POINTERS_READ]),
         (''operator'', [SCOPE_RUNS_EXECUTE, SCOPE_RUNS_RESUME, SCOPE_RUNS_READ, SCOPE_POINTERS_READ]),
         (''auditor'', [SCOPE_RUNS_READ, SCOPE_POINTERS_READ, SCOPE_RUNS_READ_ANY, SCOPE_POINTERS_READ_ANY]),
         (''admin'', [''*''])]),
      (''multi_tenant'',
        [(''viewer'', [SCOPE_RUNS_READ, SCOPE_POINTERS_READ]),
         (''operator'', [SCOPE_RUNS_EXECUTE, SCOPE_RUNS_RESUME, SCOPE_RUNS_READ, SCOPE_POINTERS_READ]),
         (''auditor'', [SCOPE_RUNS_READ, SCOPE_POINTERS_READ]),
         (''admin'', [SCOPE_RUNS_EXECUTE, SCOPE_RUNS_RESUME, SCOPE_RUNS_READ, SCOPE_POINTERS_READ])]),
      (''sandboxed'',
        [(''viewer'', [SCOPE_RUNS_READ, SCOPE_POINTERS_READ]),
         (''operator'', [SCOPE_RUNS_EXECUTE, SCOPE_RUNS_READ, SCOPE_POINTERS_READ]),
         (''auditor'', [SCOPE_RUNS_READ, SCOPE_POINTERS_READ]),
         (''admin'', [SCOPE_RUNS_EXECUTE, SCOPE_RUNS_READ, SCOPE_POINTERS_READ])])]"

definition describe_policy_profile_matrix :: "(string, (string, string list) dict) dict" where
  "describe_policy_profile_matrix = map (\<lambda>(profile, templates). (profile, map (\<lambda>(t, scopes). (t, py_sorted_set scopes))
     (sort_key fst templates))) (sort_key fst PROFILE_TEMPLATES)"

datatype policy_error = NoTokensArray | UnsupportedProfile string | ProfileNotText | EntryNotObject nat
  | MissingToken nat | MissingActor string | UnknownTemplate string string string
  | UnknownScope string string | DisallowedScope string string string | ZeroScopes string

definition resolve_policy_profile_name :: "pyval \<Rightarrow> policy_error + string" where
  \<comment> \<open>a value that is neither a string nor false has no method \<open>strip\<close>\<close>
  "resolve_policy_profile_name v = (case (if py_truthy v then v else PStr DEFAULT_POLICY_PROFILE) of
     PStr s \<Rightarrow> (let profile = py_lower (py_strip s) in
        if profile \<notin> set SUPPORTED_POLICY_PROFILES then Inl (UnsupportedProfile s) else Inr profile)
   | _ \<Rightarrow> Inl ProfileNotText)"

definition parse_scopes :: "(pyfloat \<Rightarrow> string) \<Rightarrow> pyval \<Rightarrow> string list" where
  "parse_scopes fr v = (case v of
     PStr s \<Rightarrow> filter (\<lambda>x. x \<noteq> []) (map py_strip (py_split (CHR '','') s))
   | PList vs \<Rightarrow> filter (\<lambda>x. x \<noteq> []) (map (\<lambda>p. py_strip (py_str fr p)) vs)
   | _ \<Rightarrow> [])"

definition validate_scopes_for_profile :: "string list \<Rightarrow> string \<Rightarrow> string \<Rightarrow> policy_error + string list" where
  "validate_scopes_for_profile scopes profile token_label =
     (let allowed_scopes = dict_get_or PROFILE_ALLOWED_SCOPES profile [] in
      foldR (\<lambda>normalized scope.
        if scope \<notin> set FULL_RUNTIME_SCOPES \<and> scope \<noteq> ''*'' then Inl (UnknownScope token_label scope)
        else if scope \<notin> set allowed_scopes then Inl (DisallowedScope token_label scope profile)
        else Inr (List.insert scope normalized)) [] scopes)"

definition text_field :: "(pyfloat \<Rightarrow> string) \<Rightarrow> (string, pyval) dict \<Rightarrow> string \<Rightarrow> string" where
  \<comment> \<open>\<open>str(item.get(key, "")).strip()\<close>\<close>
  "text_field fr item k = py_strip (py_str fr (dict_get_or item k (PStr [])))"

definition or_text :: "string \<Rightarrow> string \<Rightarrow> string" where
  "or_text s t = (if s = [] then t else s)"

type_synonym token_policy = "(string, pyval) dict"

definition token_entry :: "(pyfloat \<Rightarrow> string) \<Rightarrow> string \<Rightarrow> nat \<Rightarrow> (string, pyval) dict \<Rightarrow> policy_error + string \<times> token_policy" where
  \<comment> \<open>the body of the loop over the entries\<close>
  "token_entry fr base_profile index item =
     (let token = text_field fr item ''token''; actor_id = text_field fr item ''actor_id'';
          token_label = or_text token (''entry#'' @ digits index) in
      if token = [] then Inl (MissingToken index)
      else if actor_id = [] then Inl (MissingActor token_label)
      else bindR (resolve_policy_profile_name (let v = dict_get_or item ''policy_profile'' PNone
               in if py_truthy v then v else PStr base_profile)) (\<lambda>profile.
        let template = py_lower (text_field fr item ''template'');
            explicit_scopes = parse_scopes fr (dict_get_or item ''scopes'' PNone) in
        bindR (if template = [] then Inr []
               else case map_of (dict_get_or PROFILE_TEMPLATES profile []) template of
                 None \<Rightarrow> Inl (UnknownTemplate token_label template profile) | Some scopes \<Rightarrow> Inr scopes) (\<lambda>template_scopes.
        bindR (validate_scopes_for_profile (remdups (template_scopes @ explicit_scopes)) profile token_label) (\<lambda>effective.
        if effective = [] then Inl (ZeroScopes token_label)
        else Inr (token,
          [(''actor_id'', PStr actor_id),
           (''auth_subject'', PStr (or_text (text_field fr item ''auth_subject'') (''scoped_token:'' @ profile @ '':'' @ actor_id))),
           (''scopes'', PList (map PStr (py_sorted_set effective))), (''policy_profile'', PStr profile)]
          @ (if template = [] then [] else [(''template'', PStr template)]))))))"

definition add_entry :: "(pyfloat \<Rightarrow> string) \<Rightarrow> string \<Rightarrow> (string, token_policy) dict \<Rightarrow> nat \<times> pyval
    \<Rightarrow> policy_error + (string, token_policy) dict" where
  "add_entry fr base_profile normalized p = (case p of (index, PDict item) \<Rightarrow>
       bindR (token_entry fr base_profile index item) (\<lambda>(token, policy). Inr (AList.update token policy normalized))
     | (index, _) \<Rightarrow> Inl (EntryNotObject index))"

definition build_scoped_token_policies :: "(pyfloat \<Rightarrow> string) \<Rightarrow> (string, pyval) dict \<Rightarrow> string
    \<Rightarrow> policy_error + (string, token_policy) dict \<times> string" where
  "build_scoped_token_policies fr payload default_policy_profile = (case dict_get_or payload ''tokens'' PNone of
     PList entries \<Rightarrow>
       bindR (resolve_policy_profile_name (let v = dict_get_or payload ''policy_profile'' PNone
            in if py_truthy v then v else PStr default_policy_profile)) (\<lambda>base_profile.
       bindR (foldR (add_entry fr base_profile) [] (enumerate 0 entries)) (\<lambda>normalized. Inr (normalized, base_profile)))
   | _ \<Rightarrow> Inl NoTokensArray)"


section \<open>The tables\<close>

lemma templates_within_profile:
  "map_of (dict_get_or PROFILE_TEMPLATES profile []) template = Some scopes
    \<Longrightarrow> scopes \<noteq> [] \<and> set scopes \<subseteq> set (dict_get_or PROFILE_ALLOWED_SCOPES profile [])"
  by (auto simp: PROFILE_TEMPLATES_def PROFILE_ALLOWED_SCOPES_def FULL_RUNTIME_SCOPES_def dict_get_or_def split: if_splits)

lemma allowed_known: "set (dict_get_or PROFILE_ALLOWED_SCOPES profile []) \<subseteq> insert ''*'' (set FULL_RUNTIME_SCOPES)"
  by (auto simp: PROFILE_ALLOWED_SCOPES_def FULL_RUNTIME_SCOPES_def dict_get_or_def split: if_splits)

lemma star_only_trusted: "''*'' \<in> set (dict_get_or PROFILE_ALLOWED_SCOPES profile []) \<longleftrightarrow> profile = ''trusted''"
  by (auto simp: PROFILE_ALLOWED_SCOPES_def FULL_RUNTIME_SCOPES_def dict_get_or_def scope_defs)

lemma isolating_profiles:
  "profile \<in> {''multi_tenant'', ''sandboxed''} \<Longrightarrow> scope \<in> set (dict_get_or PROFILE_ALLOWED_SCOPES profile [])
    \<Longrightarrow> scope \<notin> {''*'', SCOPE_RUNS_RESUME_ANY, SCOPE_RUNS_READ_ANY, SCOPE_POINTERS_READ_ANY}"
  by (auto simp: PROFILE_ALLOWED_SCOPES_def dict_get_or_def scope_defs)

section \<open>What a configuration can grant\<close>

lemma resolve_supported: "resolve_policy_profile_name v = Inr profile \<Longrightarrow> profile \<in> set SUPPORTED_POLICY_PROFILES"
  by (auto simp: resolve_policy_profile_name_def Let_def split: pyval.splits if_splits)

lemma validate_scopes_exact:
  assumes "validate_scopes_for_profile scopes profile label = Inr out"
  shows "set out = set scopes \<and> set scopes \<subseteq> set (dict_get_or PROFILE_ALLOWED_SCOPES profile [])"
proof -
  let ?step = "\<lambda>normalized scope.
        if scope \<notin> set FULL_RUNTIME_SCOPES \<and> scope \<noteq> ''*'' then Inl (UnknownScope label scope)
        else if scope \<notin> set (dict_get_or PROFILE_ALLOWED_SCOPES profile []) then Inl (DisallowedScope label scope profile)
        else Inr (List.insert scope normalized)"
  have "foldR ?step acc scopes = Inr out \<Longrightarrow>
    set out = set acc \<union> set scopes \<and> set scopes \<subseteq> set (dict_get_or PROFILE_ALLOWED_SCOPES profile [])" for acc
    by (induction scopes arbitrary: acc) (auto split: if_splits)
  from this [of "[]"] show ?thesis using assms by (simp add: validate_scopes_for_profile_def Let_def)
qed

definition policy_grants :: "token_policy \<Rightarrow> string \<Rightarrow> string list \<Rightarrow> bool" where
  \<comment> \<open>the policy belongs to the profile and grants the scopes\<close>
  "policy_grants policy profile scopes \<longleftrightarrow> map_of policy ''policy_profile'' = Some (PStr profile)
     \<and> map_of policy ''scopes'' = Some (PList (map PStr scopes))"

definition within_profile :: "string \<Rightarrow> string list \<Rightarrow> bool" where
  "within_profile profile scopes \<longleftrightarrow> profile \<in> set SUPPORTED_POLICY_PROFILES \<and> scopes \<noteq> [] \<and> sorted scopes \<and> distinct scopes
     \<and> set scopes \<subseteq> set (dict_get_or PROFILE_ALLOWED_SCOPES profile [])"

lemma token_entry_cases:
  assumes "token_entry fr base index item = Inr (token, policy)"
  obtains profile template scopes where "token = text_field fr item ''token''" and "token \<noteq> []"
    and "text_field fr item ''actor_id'' \<noteq> []" and "within_profile profile scopes"
    and "template = [] \<or> template \<in> set (dict_keys (dict_get_or PROFILE_TEMPLATES profile []))"
    and "policy = [(''actor_id'', PStr (text_field fr item ''actor_id'')),
      (''auth_subject'', PStr (or_text (text_field fr item ''auth_subject'')
         (''scoped_token:'' @ profile @ '':'' @ text_field fr item ''actor_id''))),
      (''scopes'', PList (map PStr scopes)), (''policy_profile'', PStr profile)]
      @ (if template = [] then [] else [(''template'', PStr template)])"
proof -
  let ?template = "py_lower (text_field fr item ''template'')"
  obtain profile tscopes effective where
    profile: "profile \<in> set SUPPORTED_POLICY_PROFILES"
    and template: "(if ?template = [] then Inr []
               else case map_of (dict_get_or PROFILE_TEMPLATES profile []) ?template of
                 None \<Rightarrow> Inl (UnknownTemplate token ?template profile) | Some scopes \<Rightarrow> Inr scopes) = Inr tscopes"
    and effective: "validate_scopes_for_profile (remdups (tscopes @ parse_scopes fr (dict_get_or item ''scopes'' PNone))) profile token
       = Inr effective" "effective \<noteq> []"
    and token: "token = text_field fr item ''token''" "token \<noteq> []" "text_field fr item ''actor_id'' \<noteq> []"
    and policy: "policy = [(''actor_id'', PStr (text_field fr item ''actor_id'')),
      (''auth_subject'', PStr (or_text (text_field fr item ''auth_subject'')
         (''scoped_token:'' @ profile @ '':'' @ text_field fr item ''actor_id''))),
      (''scopes'', PList (map PStr (py_sorted_set effective))), (''policy_profile'', PStr profile)]
      @ (if ?template = [] then [] else [(''template'', PStr ?template)])"
    using assms unfolding token_entry_def Let_def or_text_def [of _ "''entry#'' @ _"]
    by (auto simp: bindR_Inr_iff split: if_split_asm dest!: resolve_supported)
  have "within_profile profile (py_sorted_set effective)"
    using validate_scopes_exact [OF effective(1)] effective(2) profile by (auto simp: within_profile_def)
  moreover have "?template = [] \<or> ?template \<in> set (dict_keys (dict_get_or PROFILE_TEMPLATES profile []))"
    using template by (auto split: if_splits option.splits dest!: map_of_SomeD intro: rev_image_eqI)
  ultimately show ?thesis using that token policy by blast
qed

lemma token_entry_grants:
  assumes "token_entry fr base index item = Inr (token, policy)"
  shows "\<exists>profile scopes. policy_grants policy profile scopes \<and> within_profile profile scopes"
  by (rule token_entry_cases [OF assms]) (force simp: policy_grants_def)

lemma add_entry_cases:
  assumes "add_entry fr base normalized p = Inr normalized'"
  obtains item token policy where "p = (fst p, PDict item)" and "token_entry fr base (fst p) item = Inr (token, policy)"
    and "normalized' = AList.update token policy normalized"
  using assms by (cases p; cases "snd p") (auto simp: add_entry_def bindR_Inr_iff)

lemma update_ball: "\<forall>q\<in>set d. P q \<Longrightarrow> P (k, v) \<Longrightarrow> \<forall>q\<in>set (AList.update k v d). P q"
  by (induction d) auto

lemma build_policies_all:
  assumes "build_scoped_token_policies fr payload dflt = Inr (policies, base)"
    and "\<And>i item token policy. token_entry fr base i item = Inr (token, policy) \<Longrightarrow> P (token, policy)"
  shows "\<forall>q\<in>set policies. P q"
proof -
  from assms(1) obtain entries where "foldR (add_entry fr base) [] (enumerate 0 entries) = Inr policies"
    by (auto simp: build_scoped_token_policies_def bindR_Inr_iff split: pyval.splits)
  then show ?thesis
  proof (rule foldR_invariant)
    fix normalized p normalized'
    assume all: "\<forall>q\<in>set normalized. P q" and "add_entry fr base normalized p = Inr normalized'"
    then obtain item token policy where e: "token_entry fr base (fst p) item = Inr (token, policy)"
      and n: "normalized' = AList.update token policy normalized" by (elim add_entry_cases)
    show "\<forall>q\<in>set normalized'. P q" unfolding n using all assms(2) [OF e] by (rule update_ball)
  qed simp
qed

lemma build_policies_distinct:
  assumes "build_scoped_token_policies fr payload dflt = Inr (policies, base)"
  shows "distinct (dict_keys policies)"
proof -
  from assms(1) obtain entries where "foldR (add_entry fr base) [] (enumerate 0 entries) = Inr policies"
    by (auto simp: build_scoped_token_policies_def bindR_Inr_iff split: pyval.splits)
  then show ?thesis
    by (rule foldR_invariant) (auto elim!: add_entry_cases intro!: distinct_update)
qed

text \<open>Every token policy built from a configuration belongs to a supported profile and grants at least one scope,
  each one allowed by that profile: the wildcard is granted under the profile \<^verbatim>\<open>trusted\<close> only, and a token of the
  profiles \<^verbatim>\<open>multi_tenant\<close> and \<^verbatim>\<open>sandboxed\<close> never has a scope that reaches the runs or pointers of other
  actors.\<close>

theorem policies_within_profile:
  assumes "build_scoped_token_policies fr payload dflt = Inr (policies, base)"
    and "(token, policy) \<in> set policies"
  shows "\<exists>profile scopes. policy_grants policy profile scopes \<and> within_profile profile scopes
    \<and> (''*'' \<in> set scopes \<longrightarrow> profile = ''trusted'')
    \<and> (profile \<in> {''multi_tenant'', ''sandboxed''} \<longrightarrow>
         set scopes \<inter> {''*'', SCOPE_RUNS_RESUME_ANY, SCOPE_RUNS_READ_ANY, SCOPE_POINTERS_READ_ANY} = {})"
proof -
  have "\<forall>q\<in>set policies. \<exists>profile scopes. policy_grants (snd q) profile scopes \<and> within_profile profile scopes"
    using assms(1) by (rule build_policies_all) (auto dest: token_entry_grants)
  with assms(2) obtain profile scopes where g: "policy_grants policy profile scopes" and w: "within_profile profile scopes" by force
  have "scope \<in> set (dict_get_or PROFILE_ALLOWED_SCOPES profile [])" if "scope \<in> set scopes" for scope
    using w that by (auto simp: within_profile_def)
  with g w show ?thesis using star_only_trusted isolating_profiles by blast
qed

definition sample_config :: "(string, pyval) dict" where
  "sample_config = [(''policy_profile'', PStr '' Multi_Tenant ''), (''tokens'', PList [
     PDict [(''token'', PStr ''t-ann''), (''actor_id'', PStr ''ann''), (''template'', PStr ''Operator'')],
     PDict [(''token'', PStr ''t-bob''), (''actor_id'', PStr ''bob''), (''policy_profile'', PStr ''trusted''), (''scopes'', PStr ''*, runs:read'')]])]"

definition sample_policies :: "(string, token_policy) dict" where
  "sample_policies =
     [(''t-ann'', [(''actor_id'', PStr ''ann''), (''auth_subject'', PStr ''scoped_token:multi_tenant:ann''),
         (''scopes'', PList [PStr ''pointers:read'', PStr ''runs:execute'', PStr ''runs:read'', PStr ''runs:resume'']),
         (''policy_profile'', PStr ''multi_tenant''), (''template'', PStr ''operator'')]),
      (''t-bob'', [(''actor_id'', PStr ''bob''), (''auth_subject'', PStr ''scoped_token:trusted:bob''),
         (''scopes'', PList [PStr ''*'', PStr ''runs:read'']), (''policy_profile'', PStr ''trusted'')])]"

lemma sample_config_builds: "build_scoped_token_policies (\<lambda>_. []) sample_config DEFAULT_POLICY_PROFILE = Inr (sample_policies, ''multi_tenant'')"
  by code_simp

theorem policies_within_profile_witness:
  "\<exists>profile scopes. policy_grants (snd (hd sample_policies)) profile scopes \<and> within_profile profile scopes \<and> ''*'' \<notin> set scopes"
proof -
  have "(''t-ann'', snd (hd sample_policies)) \<in> set sample_policies" by (simp add: sample_policies_def)
  from policies_within_profile [OF sample_config_builds this]
  obtain profile scopes where g: "policy_grants (snd (hd sample_policies)) profile scopes" and w: "within_profile profile scopes"
    and "''*'' \<in> set scopes \<longrightarrow> profile = ''trusted''" by blast
  moreover have "profile \<noteq> ''trusted''" using g by (auto simp: policy_grants_def sample_policies_def)
  ultimately show ?thesis by blast
qed

end
