(* ===== verification/EAP_Numbers.thy ===== *)
theory EAP_Numbers
  imports EAP_Prelude
begin

text \<open>
  How Python reads numbers from text, \<open>int(s)\<close> and \<open>float(s)\<close>, on the code points below 256.
  A float is the rational it denotes, without rounding to 53 bits; texts beyond the range of
  floats give an infinity. The limit of 4300 digits of \<open>int\<close> is not modelled.
\<close>

definition is_digit :: "char \<Rightarrow> bool" where
  "is_digit c = (let n = (of_char c :: nat) in 48 \<le> n \<and> n \<le> 57)"

definition digit_value :: "char \<Rightarrow> int" where
  "digit_value c = int (of_char c) - 48"

fun single_underscores :: "string \<Rightarrow> bool" where
  "single_underscores (c # d # cs) = (\<not> (c = CHR ''_'' \<and> d = CHR ''_'') \<and> single_underscores (d # cs))"
| "single_underscores _ = True"

definition digit_run :: "string \<Rightarrow> bool" where
  \<comment> \<open>digits, with single underscores between them\<close>
  "digit_run s = (s \<noteq> [] \<and> list_all (\<lambda>c. is_digit c \<or> c = CHR ''_'') s \<and> is_digit (hd s) \<and> is_digit (last s)
     \<and> single_underscores s)"

definition digits_value :: "string \<Rightarrow> int" where
  "digits_value s = foldl (\<lambda>a c. 10 * a + digit_value c) 0 (filter is_digit s)"

definition split_sign :: "string \<Rightarrow> int \<times> string" where
  "split_sign s = (if startswith s ''-'' then (- 1, drop 1 s) else if startswith s ''+'' then (1, drop 1 s) else (1, s))"

definition py_int :: "string \<Rightarrow> int option" where
  "py_int s = (case split_sign (py_strip s) of (sign, t) \<Rightarrow> if digit_run t then Some (sign * digits_value t) else None)"

definition scale10 :: "int \<Rightarrow> rat \<Rightarrow> rat" where
  "scale10 e x = (if 0 \<le> e then x * 10 ^ nat e else x / 10 ^ nat (- e))"

definition float_digits :: "string \<Rightarrow> (int \<times> nat) option" where
  \<comment> \<open>the digits of a mantissa and how many of them are behind the point\<close>
  "float_digits s = (case py_split (CHR ''.'') s of
     [a] \<Rightarrow> if digit_run a then Some (digits_value a, 0) else None
   | [a, b] \<Rightarrow> if (a = [] \<or> digit_run a) \<and> (b = [] \<or> digit_run b) \<and> \<not> (a = [] \<and> b = [])
       then Some (digits_value (a @ b), length (filter is_digit b)) else None
   | _ \<Rightarrow> None)"

definition float_exponent :: "string \<Rightarrow> int option" where
  "float_exponent s = (if s = [] then Some 0
     else (case split_sign (drop 1 s) of (sign, t) \<Rightarrow> if digit_run t then Some (sign * digits_value t) else None))"

definition float_round :: "rat \<Rightarrow> pyfloat" where
  "float_round x = (let m = 2 ^ 1024 - 2 ^ 970 in if m \<le> x then PPosInf else if x \<le> - m then PNegInf else PFin x)"

definition py_float :: "string \<Rightarrow> pyfloat option" where
  "py_float s = (case split_sign (py_lower (py_strip s)) of (sign, t) \<Rightarrow>
     if t = ''nan'' then Some PNaN
     else if t = ''inf'' \<or> t = ''infinity'' then Some (if sign = 1 then PPosInf else PNegInf)
     else (case (float_digits (takeWhile (\<lambda>c. c \<noteq> CHR ''e'') t), float_exponent (dropWhile (\<lambda>c. c \<noteq> CHR ''e'') t)) of
         (Some (n, k), Some e) \<Rightarrow> Some (float_round (of_int (sign * n) * scale10 (e - int k) 1))
       | _ \<Rightarrow> None))"

lemma float_round_code [code]:
  "float_round x = (if - 1000000 \<le> x \<and> x \<le> 1000000 then PFin x
     else let m = 2 ^ 1024 - 2 ^ 970 in if m \<le> x then PPosInf else if x \<le> - m then PNegInf else PFin x)"
  by (simp add: float_round_def)

section \<open>Reading back\<close>

lemma digit_char: "d < 10 \<Longrightarrow> is_digit (char_of (48 + d :: nat)) \<and> digit_value (char_of (48 + d :: nat)) = int d"
  by (simp add: is_digit_def digit_value_def)

lemma digits_not_Nil [simp]: "digits n \<noteq> []"
  by (subst digits.simps) simp

lemma digits_all: "list_all is_digit (digits n)"
proof (induction n rule: digits.induct)
  case (1 n)
  then show ?case by (subst digits.simps) (use digit_char [of n] digit_char [of "n mod 10"] in auto)
qed

lemma digits_value_snoc: "is_digit c \<Longrightarrow> digits_value (s @ [c]) = 10 * digits_value s + digit_value c"
  by (simp add: digits_value_def)

lemma digits_value_digits: "digits_value (digits n) = int n"
proof (induction n rule: digits.induct)
  case (1 n)
  show ?case
  proof (cases "n < 10")
    case True
    then show ?thesis using digit_char [of n] by (subst digits.simps) (simp add: digits_value_def)
  next
    case False
    then show ?thesis using 1 digit_char [of "n mod 10"]
      by (subst digits.simps) (simp add: digits_value_snoc zdiv_int zmod_int)
  qed
qed

lemma not_underscore: "is_digit c \<Longrightarrow> c \<noteq> CHR ''_''"
  by (auto simp: is_digit_def)

lemma single_underscores_digits: "list_all is_digit s \<Longrightarrow> single_underscores s"
  by (induction s rule: single_underscores.induct) (auto dest: not_underscore)

lemma digit_run_digits: "digit_run (digits n)"
  using digits_all [of n] single_underscores_digits [OF digits_all]
  by (auto simp: digit_run_def list_all_iff)

lemma strip_digits:
  assumes "\<And>c. c \<in> set s \<Longrightarrow> \<not> py_is_space c"
  shows "py_strip s = s"
proof -
  have "dropWhile py_is_space s = s" using assms by (cases s) auto
  moreover have "dropWhile py_is_space (rev s) = rev s"
    using assms by (cases "rev s") (auto simp: rev_eq_Cons_iff)
  ultimately show ?thesis by (simp add: py_strip_def)
qed

lemma digit_not_space: "is_digit c \<Longrightarrow> \<not> py_is_space c"
  by (auto simp: is_digit_def py_is_space_def Let_def)

lemma minus_not_space: "\<not> py_is_space (CHR ''-'')"
  by (simp add: py_is_space_def)

lemma digit_not_sign: "is_digit c \<Longrightarrow> c \<noteq> CHR ''-'' \<and> c \<noteq> CHR ''+''"
  by (auto simp: is_digit_def)

lemma py_int_repr: "py_int (int_repr n) = Some n"
proof (cases "n < 0")
  case True
  let ?d = "digits (nat (- n))"
  have "py_strip (CHR ''-'' # ?d) = CHR ''-'' # ?d"
    using digits_all [of "nat (- n)"] minus_not_space
    by (intro strip_digits) (auto simp: list_all_iff dest: digit_not_space)
  then show ?thesis using True
    by (simp add: py_int_def int_repr_def split_sign_def startswith_def digit_run_digits digits_value_digits)
next
  case False
  let ?d = "digits (nat n)"
  obtain c cs where c: "?d = c # cs" using digits_not_Nil [of "nat n"] by (meson neq_Nil_conv)
  then have "c \<noteq> CHR ''-'' \<and> c \<noteq> CHR ''+''" using digits_all [of "nat n"] digit_not_sign by simp
  then have "split_sign ?d = (1, ?d)" using c by (simp add: split_sign_def startswith_def)
  moreover have "py_strip ?d = ?d"
    using digits_all [of "nat n"] by (intro strip_digits) (auto simp: list_all_iff dest: digit_not_space)
  ultimately show ?thesis using False by (simp add: py_int_def int_repr_def digit_run_digits digits_value_digits)
qed

end
