(* ===== verification/EAP_Guardrails.thy ===== *)
theory EAP_Guardrails
  imports EAP_Numbers "HOL-Library.Multiset"
begin

text \<open>
  Rate and concurrency limits of the runtime service, \<^verbatim>\<open>src/eap/runtime/guardrails.py\<close>. The
  methods of \<open>RuntimeGuardrails\<close> hold a lock, so each is one step on the record
  \<open>guardrails\<close>. The clock is read before the lock is taken, so the times of successive steps
  are arguments; what is proved of the sliding window assumes that they do not decrease.
\<close>

section \<open>Configuration\<close>

definition runtime_operations :: "string list" where
  "runtime_operations = [''macro_execute'', ''run_resume'', ''run_read'', ''pointer_summary'']"

record rate_rule =
  rr_max_requests :: int
  rr_window :: pyfloat

record concurrency_limits =
  cl_global :: int
  cl_execute :: int
  cl_resume :: int
  cl_per_run :: int

datatype guard_error = BadMaxRequests string | BadWindow string | BadInflight string
  | BadInteger string string | BadFloat string string | UnknownOperation string | RuleNotObject string
  | NoRule string | HeaderOverflow | HeaderNaN

definition validate_rule :: "string \<Rightarrow> rate_rule \<Rightarrow> guard_error + unit" where
  "validate_rule operation r = (if rr_max_requests r \<le> 0 then Inl (BadMaxRequests operation)
     else if pf_le (rr_window r) (PFin 0) then Inl (BadWindow operation) else Inr ())"

definition validate_limits :: "concurrency_limits \<Rightarrow> guard_error + unit" where
  "validate_limits l = (if cl_global l \<le> 0 then Inl (BadInflight ''global_inflight'')
     else if cl_execute l \<le> 0 then Inl (BadInflight ''execute_inflight'')
     else if cl_resume l \<le> 0 then Inl (BadInflight ''resume_inflight'')
     else if cl_per_run l \<le> 0 then Inl (BadInflight ''per_run_resume_inflight'') else Inr ())"

definition default_rate_rules :: "(string, rate_rule) dict" where
  "default_rate_rules = [(''macro_execute'', \<lparr>rr_max_requests = 60, rr_window = PFin 60\<rparr>),
     (''run_resume'', \<lparr>rr_max_requests = 60, rr_window = PFin 60\<rparr>),
     (''run_read'', \<lparr>rr_max_requests = 240, rr_window = PFin 60\<rparr>),
     (''pointer_summary'', \<lparr>rr_max_requests = 240, rr_window = PFin 60\<rparr>)]"

definition default_concurrency :: concurrency_limits where
  "default_concurrency = \<lparr>cl_global = 12, cl_execute = 6, cl_resume = 6, cl_per_run = 1\<rparr>"

definition coerce_int :: "pyval \<Rightarrow> string \<Rightarrow> string \<Rightarrow> guard_error + int" where
  "coerce_int v field operation = (case v of
     PInt n \<Rightarrow> Inr n
   | PFloat (PFin r) \<Rightarrow> if r = of_int \<lfloor>r\<rfloor> then Inr \<lfloor>r\<rfloor> else Inl (BadInteger field operation)
   | PStr s \<Rightarrow> (case py_int (py_strip s) of Some n \<Rightarrow> Inr n | None \<Rightarrow> Inl (BadInteger field operation))
   | _ \<Rightarrow> Inl (BadInteger field operation))"

definition coerce_float :: "pyval \<Rightarrow> string \<Rightarrow> string \<Rightarrow> guard_error + pyfloat" where
  "coerce_float v field operation = (case v of
     PInt n \<Rightarrow> Inr (PFin (of_int n))
   | PFloat f \<Rightarrow> Inr f
   | PStr s \<Rightarrow> (case py_float (py_strip s) of Some f \<Rightarrow> Inr f | None \<Rightarrow> Inl (BadFloat field operation))
   | _ \<Rightarrow> Inl (BadFloat field operation))"

definition normalize_rule :: "(string, rate_rule) dict \<Rightarrow> string \<times> pyval \<Rightarrow> guard_error + (string, rate_rule) dict" where
  "normalize_rule rules p = (case p of (operation, raw) \<Rightarrow> let oper = py_lower (py_strip operation) in
     if oper \<notin> set runtime_operations then Inl (UnknownOperation operation)
     else case raw of
       PDict d \<Rightarrow>
         bindR (coerce_int (dict_get_or d ''max_requests'' (PInt 0)) ''max_requests'' oper) (\<lambda>n.
         bindR (coerce_float (dict_get_or d ''window_seconds'' (PInt 0)) ''window_seconds'' oper) (\<lambda>w.
         let rule = \<lparr>rr_max_requests = n, rr_window = w\<rparr> in
         bindR (validate_rule oper rule) (\<lambda>_. Inr (AList.update oper rule rules))))
     | _ \<Rightarrow> Inl (RuleNotObject operation))"

definition normalize_rate_limit_rules :: "(string, pyval) dict option \<Rightarrow> guard_error + (string, rate_rule) dict" where
  "normalize_rate_limit_rules raw = (case raw of None \<Rightarrow> Inr default_rate_rules
     | Some d \<Rightarrow> foldR normalize_rule default_rate_rules d)"

definition normalize_concurrency_limits :: "(string, pyval) dict option \<Rightarrow> guard_error + concurrency_limits" where
  "normalize_concurrency_limits raw = (case raw of None \<Rightarrow> Inr default_concurrency
     | Some d \<Rightarrow> if d = [] then Inr default_concurrency else
         (let get = (\<lambda>k n. coerce_int (dict_get_or d k (PInt n)) k ''concurrency'') in
          bindR (get ''global_inflight'' (cl_global default_concurrency)) (\<lambda>g.
          bindR (get ''execute_inflight'' (cl_execute default_concurrency)) (\<lambda>e.
          bindR (get ''resume_inflight'' (cl_resume default_concurrency)) (\<lambda>r.
          bindR (get ''per_run_resume_inflight'' (cl_per_run default_concurrency)) (\<lambda>p.
          let l = \<lparr>cl_global = g, cl_execute = e, cl_resume = r, cl_per_run = p\<rparr> in
          bindR (validate_limits l) (\<lambda>_. Inr l)))))))"

section \<open>State and operations\<close>

record guardrails =
  gr_rules :: "(string, rate_rule) dict"
  gr_limits :: concurrency_limits
  gr_requests :: "(string \<times> string, rat list) dict"
  gr_global :: int
  gr_operation :: "(string, int) dict"
  gr_run_resume :: "(string, int) dict"

definition new_guardrails :: "(string, rate_rule) dict \<Rightarrow> concurrency_limits \<Rightarrow> guardrails" where
  "new_guardrails rules limits = \<lparr>gr_rules = (if rules = [] then default_rate_rules else rules), gr_limits = limits,
     gr_requests = [], gr_global = 0, gr_operation = [], gr_run_resume = []\<rparr>"

record rate_decision =
  rd_allowed :: bool
  rd_operation :: string
  rd_actor :: string
  rd_limit :: int
  rd_window :: pyfloat
  rd_remaining :: int
  rd_retry_after :: pyfloat

fun pf_minus_from :: "rat \<Rightarrow> pyfloat \<Rightarrow> pyfloat" where
  \<comment> \<open>\<open>now - window\<close>\<close>
  "pf_minus_from t (PFin w) = PFin (t - w)"
| "pf_minus_from t PPosInf = PNegInf"
| "pf_minus_from t PNegInf = PPosInf"
| "pf_minus_from t PNaN = PNaN"

fun pf_shift :: "rat \<Rightarrow> pyfloat \<Rightarrow> pyfloat" where
  \<comment> \<open>\<open>t + window\<close>\<close>
  "pf_shift t (PFin w) = PFin (t + w)"
| "pf_shift t w = w"

definition pf_max :: "pyfloat \<Rightarrow> pyfloat \<Rightarrow> pyfloat" where
  \<comment> \<open>Python's \<open>max(a, b)\<close>: the second only if it is greater\<close>
  "pf_max a b = (if pf_less a b then b else a)"

definition check_rate_limit :: "guardrails \<Rightarrow> string \<Rightarrow> string \<Rightarrow> rat \<Rightarrow> guard_error + rate_decision \<times> guardrails" where
  "check_rate_limit g operation actor_id now = (case map_of (gr_rules g) operation of None \<Rightarrow> Inl (NoRule operation)
   | Some rule \<Rightarrow>
       let key = (operation, actor_id); window_start = pf_minus_from now (rr_window rule);
           bucket = dropWhile (\<lambda>t. pf_le (PFin t) window_start) (dict_get_or (gr_requests g) key []) in
       if rr_max_requests rule \<le> int (length bucket) then
         Inr (\<lparr>rd_allowed = False, rd_operation = operation, rd_actor = actor_id, rd_limit = rr_max_requests rule,
               rd_window = rr_window rule, rd_remaining = 0,
               rd_retry_after = pf_max (PFin (1 / 1000)) (pf_shift (- now) (pf_shift (hd bucket) (rr_window rule)))\<rparr>,
              g\<lparr>gr_requests := AList.update key bucket (gr_requests g)\<rparr>)
       else let bucket' = bucket @ [now] in
         Inr (\<lparr>rd_allowed = True, rd_operation = operation, rd_actor = actor_id, rd_limit = rr_max_requests rule,
               rd_window = rr_window rule, rd_remaining = max 0 (rr_max_requests rule - int (length bucket')),
               rd_retry_after = PFin 0\<rparr>,
              g\<lparr>gr_requests := AList.update key bucket' (gr_requests g)\<rparr>))"

record conc_decision =
  cd_allowed :: bool
  cd_operation :: string
  cd_run_id :: "string option"
  cd_limit_type :: "string option"
  cd_limit :: int
  cd_current :: int

record conc_token =
  ct_operation :: string
  ct_run :: "string option"

definition counts_run :: "string \<Rightarrow> string option \<Rightarrow> bool" where
  \<comment> \<open>\<open>operation == "run_resume" and run_id\<close>\<close>
  "counts_run operation run_id \<longleftrightarrow> operation = ''run_resume'' \<and> run_id \<noteq> None \<and> run_id \<noteq> Some []"

definition op_limit :: "concurrency_limits \<Rightarrow> string \<Rightarrow> int" where
  "op_limit l operation = (if operation = ''macro_execute'' then cl_execute l else cl_resume l)"

definition deny :: "string \<Rightarrow> string option \<Rightarrow> string \<Rightarrow> int \<Rightarrow> int \<Rightarrow> conc_decision" where
  "deny operation run_id kind limit current = \<lparr>cd_allowed = False, cd_operation = operation, cd_run_id = run_id,
     cd_limit_type = Some kind, cd_limit = limit, cd_current = current\<rparr>"

definition acquire_concurrency :: "guardrails \<Rightarrow> string \<Rightarrow> string option \<Rightarrow> (conc_decision \<times> conc_token option) \<times> guardrails" where
  "acquire_concurrency g operation run_id =
     (let l = gr_limits g; op_current = dict_get_or (gr_operation g) operation 0;
          run_current = dict_get_or (gr_run_resume g) (the run_id) 0 in
      if cl_global l \<le> gr_global g then ((deny operation run_id ''global_inflight'' (cl_global l) (gr_global g), None), g)
      else if op_limit l operation \<le> op_current then
        ((deny operation run_id (operation @ ''_inflight'') (op_limit l operation) op_current, None), g)
      else if counts_run operation run_id \<and> cl_per_run l \<le> run_current then
        ((deny operation run_id ''per_run_resume_inflight'' (cl_per_run l) run_current, None), g)
      else ((\<lparr>cd_allowed = True, cd_operation = operation, cd_run_id = run_id, cd_limit_type = None, cd_limit = 0, cd_current = 0\<rparr>,
             Some \<lparr>ct_operation = operation, ct_run = run_id\<rparr>),
            g\<lparr>gr_global := gr_global g + 1, gr_operation := AList.update operation (op_current + 1) (gr_operation g),
              gr_run_resume := (if counts_run operation run_id
                 then AList.update (the run_id) (run_current + 1) (gr_run_resume g) else gr_run_resume g)\<rparr>))"

definition release_concurrency :: "guardrails \<Rightarrow> conc_token \<Rightarrow> guardrails" where
  "release_concurrency g t = (let operation = ct_operation t; run = the (ct_run t) in
     g\<lparr>gr_global := max 0 (gr_global g - 1),
       gr_operation := AList.update operation (max 0 (dict_get_or (gr_operation g) operation 0 - 1)) (gr_operation g),
       gr_run_resume := (if counts_run operation (ct_run t)
          then AList.update run (max 0 (dict_get_or (gr_run_resume g) run 0 - 1)) (gr_run_resume g) else gr_run_resume g)\<rparr>)"

fun retry_after_header_value :: "pyfloat \<Rightarrow> guard_error + string" where
  "retry_after_header_value (PFin r) = Inr (int_repr (max 1 \<lceil>r\<rceil>))"
| "retry_after_header_value PNaN = Inl HeaderNaN"
| "retry_after_header_value _ = Inl HeaderOverflow"

section \<open>Configurations that pass\<close>

definition rules_ok :: "(string, rate_rule) dict \<Rightarrow> bool" where
  "rules_ok rules \<longleftrightarrow> (\<forall>oper\<in>set runtime_operations. \<exists>r. map_of rules oper = Some r \<and> validate_rule oper r = Inr ())"

lemma default_rules_ok: "rules_ok default_rate_rules"
  by (simp add: rules_ok_def runtime_operations_def default_rate_rules_def validate_rule_def)

lemma normalize_rule_ok: "normalize_rule rules p = Inr rules' \<Longrightarrow> rules_ok rules \<Longrightarrow> rules_ok rules'"
  by (auto simp: normalize_rule_def Let_def bindR_Inr_iff rules_ok_def split: prod.splits if_splits pyval.splits)

lemma normalize_rules_ok:
  assumes "normalize_rate_limit_rules raw = Inr rules"
  shows "rules_ok rules"
proof (cases raw)
  case None
  then show ?thesis using assms default_rules_ok by (simp add: normalize_rate_limit_rules_def)
next
  case (Some d)
  have "foldR normalize_rule rules0 d = Inr rules \<Longrightarrow> rules_ok rules0 \<Longrightarrow> rules_ok rules" for rules0
    by (induction d arbitrary: rules0) (auto simp: normalize_rule_ok split: sum.splits)
  then show ?thesis using assms Some default_rules_ok by (simp add: normalize_rate_limit_rules_def)
qed

lemma normalize_limits_ok: "normalize_concurrency_limits raw = Inr l \<Longrightarrow> validate_limits l = Inr ()"
  by (auto simp: normalize_concurrency_limits_def Let_def bindR_Inr_iff validate_limits_def default_concurrency_def
      split: option.splits if_splits)

section \<open>Admission: tokens against counters\<close>

text \<open>The contract of an admission control: its state stands for the multiset of tokens that are
  outstanding. A client that brackets its work by \<open>acquire\<close> and \<open>release\<close> leaves that multiset
  as it was.\<close>

locale admission =
  fixes stands_for :: "'g \<Rightarrow> 't multiset \<Rightarrow> bool"
    and acquire :: "'g \<Rightarrow> 'r \<Rightarrow> 't option \<times> 'g"
    and release :: "'g \<Rightarrow> 't \<Rightarrow> 'g"
    and admits :: "'t multiset \<Rightarrow> 'g \<Rightarrow> 'r \<Rightarrow> bool"
  assumes granted: "stands_for g M \<Longrightarrow> acquire g r = (Some t, g') \<Longrightarrow> stands_for g' (add_mset t M)"
    and denied: "acquire g r = (None, g') \<Longrightarrow> g' = g"
    and exact: "stands_for g M \<Longrightarrow> fst (acquire g r) \<noteq> None \<longleftrightarrow> admits M g r"
    and released: "stands_for g M \<Longrightarrow> t \<in># M \<Longrightarrow> stands_for (release g t) (M - {#t#})"
begin

lemma bracket:
  assumes "stands_for g M" and "acquire g r = (Some t, g1)"
    and work: "\<And>N. stands_for g1 N \<Longrightarrow> stands_for g2 N"
  shows "stands_for (release g2 t) M"
proof -
  have "stands_for g2 (add_mset t M)" by (rule work) (rule granted [OF assms(1,2)])
  then have "stands_for (release g2 t) (add_mset t M - {#t#})" by (rule released) simp
  then show ?thesis by simp
qed

end

definition op_count :: "conc_token multiset \<Rightarrow> string \<Rightarrow> int" where
  "op_count M k = int (size {#t \<in># M. ct_operation t = k#})"

definition run_count :: "conc_token multiset \<Rightarrow> string \<Rightarrow> int" where
  "run_count M k = int (size {#t \<in># M. counts_run (ct_operation t) (ct_run t) \<and> the (ct_run t) = k#})"

definition stands_for :: "guardrails \<Rightarrow> conc_token multiset \<Rightarrow> bool" where
  "stands_for g M \<longleftrightarrow> gr_global g = int (size M) \<and> (\<forall>k. dict_get_or (gr_operation g) k 0 = op_count M k)
     \<and> (\<forall>k. dict_get_or (gr_run_resume g) k 0 = run_count M k)"

definition admits :: "conc_token multiset \<Rightarrow> guardrails \<Rightarrow> string \<times> string option \<Rightarrow> bool" where
  \<comment> \<open>the limits leave room for one more request\<close>
  "admits M g r \<longleftrightarrow> int (size M) < cl_global (gr_limits g) \<and> op_count M (fst r) < op_limit (gr_limits g) (fst r)
     \<and> (counts_run (fst r) (snd r) \<longrightarrow> run_count M (the (snd r)) < cl_per_run (gr_limits g))"

definition try_acquire :: "guardrails \<Rightarrow> string \<times> string option \<Rightarrow> conc_token option \<times> guardrails" where
  "try_acquire g r = (case acquire_concurrency g (fst r) (snd r) of ((d, t), g') \<Rightarrow> (t, g'))"

lemma count_add:
  "op_count (add_mset t M) k = op_count M k + (if ct_operation t = k then 1 else 0)"
  "run_count (add_mset t M) k = run_count M k + (if counts_run (ct_operation t) (ct_run t) \<and> the (ct_run t) = k then 1 else 0)"
  by (simp_all add: op_count_def run_count_def)

lemma count_nonneg: "0 \<le> op_count M k" "0 \<le> run_count M k"
  by (simp_all add: op_count_def run_count_def)

interpretation adm: admission stands_for try_acquire release_concurrency admits
proof
  fix g g' :: guardrails and M r t
  assume s: "stands_for g M"
  show "fst (try_acquire g r) \<noteq> None \<longleftrightarrow> admits M g r"
    using s by (auto simp: try_acquire_def acquire_concurrency_def Let_def stands_for_def admits_def)
  show "stands_for g' (add_mset t M)" if "try_acquire g r = (Some t, g')"
    using s that by (auto simp: try_acquire_def acquire_concurrency_def Let_def stands_for_def count_add split: if_splits)
next
  fix g g' :: guardrails and r
  show "try_acquire g r = (None, g') \<Longrightarrow> g' = g"
    by (auto simp: try_acquire_def acquire_concurrency_def Let_def split: if_splits)
next
  fix g :: guardrails and M t
  assume s: "stands_for g M" and t: "t \<in># M"
  then obtain N where N: "M = add_mset t N" by (metis insert_DiffM)
  show "stands_for (release_concurrency g t) (M - {#t#})"
    using s count_nonneg [of N] unfolding N
    by (auto simp: release_concurrency_def Let_def stands_for_def count_add max_def)
qed

text \<open>The steps of the guardrails between requests, with the tokens that are outstanding.\<close>

inductive guard_step :: "guardrails \<times> conc_token multiset \<Rightarrow> guardrails \<times> conc_token multiset \<Rightarrow> bool" where
  step_acquire: "acquire_concurrency g operation run_id = ((d, Some t), g') \<Longrightarrow> guard_step (g, M) (g', add_mset t M)"
| step_deny: "acquire_concurrency g operation run_id = ((d, None), g') \<Longrightarrow> guard_step (g, M) (g', M)"
| step_release: "t \<in># M \<Longrightarrow> guard_step (g, M) (release_concurrency g t, M - {#t#})"
| step_rate: "check_rate_limit g operation actor_id now = Inr (d, g') \<Longrightarrow> guard_step (g, M) (g', M)"

definition within_limits :: "concurrency_limits \<Rightarrow> conc_token multiset \<Rightarrow> bool" where
  "within_limits l M \<longleftrightarrow> int (size M) \<le> cl_global l \<and> (\<forall>k. op_count M k \<le> op_limit l k) \<and> (\<forall>k. run_count M k \<le> cl_per_run l)"

definition guard_inv :: "concurrency_limits \<Rightarrow> guardrails \<times> conc_token multiset \<Rightarrow> bool" where
  "guard_inv l x \<longleftrightarrow> gr_limits (fst x) = l \<and> stands_for (fst x) (snd x) \<and> within_limits l (snd x)"

lemma try_acquire_eq: "acquire_concurrency g operation run_id = ((d, t), g') \<Longrightarrow> try_acquire g (operation, run_id) = (t, g')"
  by (simp add: try_acquire_def)

lemma acquire_token: "acquire_concurrency g operation run_id = ((d, Some t), g') \<Longrightarrow>
    t = \<lparr>ct_operation = operation, ct_run = run_id\<rparr> \<and> gr_limits g' = gr_limits g"
  by (auto simp: acquire_concurrency_def Let_def split: if_splits)

lemma rate_keeps: "check_rate_limit g operation actor_id now = Inr (d, g') \<Longrightarrow>
    gr_limits g' = gr_limits g \<and> gr_rules g' = gr_rules g \<and> (stands_for g' M = stands_for g M)"
  by (auto simp: check_rate_limit_def Let_def stands_for_def split: option.splits if_splits)

lemma within_limits_less: "within_limits l M \<Longrightarrow> within_limits l (M - {#t#})"
proof -
  assume w: "within_limits l M"
  have "size {#x \<in># M - {#t#}. P x#} \<le> size {#x \<in># M. P x#}" for P
    by (intro size_mset_mono multiset_filter_mono) simp
  then have "op_count (M - {#t#}) k \<le> op_count M k" "run_count (M - {#t#}) k \<le> run_count M k"
      "int (size (M - {#t#})) \<le> int (size M)" for k
    by (simp_all add: op_count_def run_count_def size_mset_mono)
  with w show ?thesis unfolding within_limits_def by (blast intro: order_trans)
qed

lemma guard_inv_step:
  assumes "guard_step x y" and "guard_inv l x"
  shows "guard_inv l y"
  using assms
proof (cases rule: guard_step.cases)
  case (step_acquire g operation run_id d t g' M)
  then have inv: "stands_for g M" "within_limits l M" "gr_limits g = l" using assms(2) by (auto simp: guard_inv_def)
  note acq = try_acquire_eq [OF step_acquire(3)] and tok = acquire_token [OF step_acquire(3)]
  have "admits M g (operation, run_id)" using adm.exact [OF inv(1), of "(operation, run_id)"] acq by simp
  then have "within_limits l (add_mset t M)"
    using inv(2,3) tok by (auto simp: within_limits_def admits_def count_add)
  then show ?thesis using adm.granted [OF inv(1) acq] tok inv(3) step_acquire by (simp add: guard_inv_def)
next
  case (step_deny g operation run_id d g' M)
  then show ?thesis using adm.denied [OF try_acquire_eq [OF step_deny(3)]] assms(2) by simp
next
  case (step_release t M g)
  then show ?thesis using assms(2) adm.released [of g M t] within_limits_less
    by (simp add: guard_inv_def) (simp add: release_concurrency_def Let_def)
next
  case (step_rate g operation actor_id now d g' M)
  then show ?thesis using assms(2) rate_keeps [OF step_rate(3)] by (simp add: guard_inv_def)
qed

lemma guard_reachable_inv:
  assumes "guard_step\<^sup>*\<^sup>* (new_guardrails rules l, {#}) x" and "validate_limits l = Inr ()"
  shows "guard_inv l x"
  using assms(1)
proof (induction rule: rtranclp_induct)
  case base
  have "0 < cl_global l" "0 < cl_execute l" "0 < cl_resume l" "0 < cl_per_run l"
    using assms(2) by (auto simp: validate_limits_def split: if_splits)
  then show ?case
    by (simp add: guard_inv_def new_guardrails_def stands_for_def within_limits_def op_count_def run_count_def
        dict_get_or_def op_limit_def)
qed (rule guard_inv_step)

section \<open>The sliding window\<close>

text \<open>The reference is a log of every request that was granted: a request is granted when fewer than the
  limit were granted to the same operation and actor within the last window.\<close>

type_synonym request = "(string \<times> string) \<times> rat"

definition granted_at :: "request list \<Rightarrow> string \<times> string \<Rightarrow> rat list" where
  "granted_at rlog key = map snd (filter (\<lambda>r. fst r = key) rlog)"

definition in_window :: "request list \<Rightarrow> string \<times> string \<Rightarrow> rat \<Rightarrow> rat \<Rightarrow> nat" where
  \<comment> \<open>how many were granted in \<open>(a, b]\<close>\<close>
  "in_window rlog key a b = length (filter (\<lambda>t. a < t \<and> t \<le> b) (granted_at rlog key))"

definition log_request :: "guardrails \<times> request list \<Rightarrow> request \<Rightarrow> guardrails \<times> request list" where
  "log_request x r = (case check_rate_limit (fst x) (fst (fst r)) (snd (fst r)) (snd r) of
     Inl e \<Rightarrow> x | Inr (d, g') \<Rightarrow> (g', if rd_allowed d then snd x @ [r] else snd x))"

definition window_inv :: "guardrails \<Rightarrow> request list \<Rightarrow> rat \<Rightarrow> bool" where
  \<comment> \<open>until time \<open>now\<close>: the deque of a key is the end of its log, and each window has at most the limit\<close>
  "window_inv g rlog now \<longleftrightarrow> (\<forall>r\<in>set rlog. snd r \<le> now) \<and> sorted (map snd rlog) \<and>
     (\<forall>operation actor n w. map_of (gr_rules g) operation = Some \<lparr>rr_max_requests = n, rr_window = PFin w\<rparr> \<and> 0 < n \<and> 0 < w \<longrightarrow>
       (\<exists>c. c \<le> now - w \<and> dict_get_or (gr_requests g) (operation, actor) [] = filter (\<lambda>t. c < t) (granted_at rlog (operation, actor)))
       \<and> (\<forall>a. int (in_window rlog (operation, actor) a (a + w)) \<le> n))"

lemma dropWhile_filter_sorted: "sorted xs \<Longrightarrow> dropWhile (\<lambda>t. t \<le> (a :: rat)) xs = filter (\<lambda>t. a < t) xs"
  by (induction xs) (auto simp: not_le intro!: filter_True [symmetric])

lemma sorted_granted: "sorted (map snd rlog) \<Longrightarrow> sorted (granted_at rlog key)"
  by (induction rlog) (auto simp: granted_at_def)

lemma evict:
  assumes "sorted (map snd rlog)" and "c \<le> now - w"
  shows "dropWhile (\<lambda>t. pf_le (PFin t) (pf_minus_from now (PFin w))) (filter (\<lambda>t. c < t) (granted_at rlog key))
     = filter (\<lambda>t. now - w < t) (granted_at rlog key)"
proof -
  have "dropWhile (\<lambda>t. t \<le> now - w) (filter (\<lambda>t. c < t) (granted_at rlog key))
      = filter (\<lambda>t. now - w < t) (filter (\<lambda>t. c < t) (granted_at rlog key))"
    by (rule dropWhile_filter_sorted) (simp add: sorted_granted [OF assms(1)] sorted_wrt_filter)
  also have "\<dots> = filter (\<lambda>t. now - w < t) (granted_at rlog key)"
    unfolding filter_filter by (rule filter_cong) (use assms(2) in auto)
  finally show ?thesis by simp
qed

lemma window_check:
  fixes actor :: string
  assumes inv: "window_inv g rlog last_now" and now: "last_now \<le> now"
    and rule: "map_of (gr_rules g) operation = Some \<lparr>rr_max_requests = n, rr_window = PFin w\<rparr>" "0 < n" "0 < w"
  defines "b \<equiv> filter (\<lambda>t. now - w < t) (granted_at rlog (operation, actor))"
  shows "check_rate_limit g operation actor now = Inr
     (\<lparr>rd_allowed = (int (length b) < n), rd_operation = operation, rd_actor = actor, rd_limit = n, rd_window = PFin w,
       rd_remaining = (if int (length b) < n then max 0 (n - int (length b) - 1) else 0),
       rd_retry_after = (if int (length b) < n then PFin 0 else pf_max (PFin (1 / 1000)) (PFin (hd b + w - now)))\<rparr>,
      g\<lparr>gr_requests := AList.update (operation, actor) (if int (length b) < n then b @ [now] else b) (gr_requests g)\<rparr>)"
proof -
  obtain c where c: "c \<le> last_now - w" "dict_get_or (gr_requests g) (operation, actor) [] = filter (\<lambda>t. c < t) (granted_at rlog (operation, actor))"
    using inv rule unfolding window_inv_def by blast
  have s: "sorted (map snd rlog)" using inv by (simp add: window_inv_def)
  have "dropWhile (\<lambda>t. pf_le (PFin t) (pf_minus_from now (PFin w))) (dict_get_or (gr_requests g) (operation, actor) []) = b"
    unfolding c(2) b_def by (rule evict [OF s]) (use c(1) now in simp)
  then show ?thesis using rule by (simp add: check_rate_limit_def Let_def algebra_simps)
qed

lemma granted_at_snoc: "granted_at (rlog @ [r]) key = granted_at rlog key @ (if fst r = key then [snd r] else [])"
  by (simp add: granted_at_def)

lemma granted_le: "window_inv g rlog last_now \<Longrightarrow> t \<in> set (granted_at rlog key) \<Longrightarrow> t \<le> last_now"
  by (auto simp: window_inv_def granted_at_def)

lemma window_inv_other:
  \<comment> \<open>what a check of one key does to the deque and the windows of any key\<close>
  assumes inv: "window_inv g rlog last_now" and now: "last_now \<le> now"
    and rule: "map_of (gr_rules g) operation = Some \<lparr>rr_max_requests = n, rr_window = PFin w\<rparr>" "0 < n" "0 < w"
    and chk: "check_rate_limit g operation' actor' now = Inr (d, g')"
    and rlog': "rlog' = (if rd_allowed d then rlog @ [((operation', actor'), now)] else rlog)"
  shows "(\<exists>c. c \<le> now - w \<and> dict_get_or (gr_requests g') (operation, actor) [] = filter (\<lambda>t. c < t) (granted_at rlog' (operation, actor)))
    \<and> (\<forall>a. int (in_window rlog' (operation, actor) a (a + w)) \<le> n)"
proof -
  let ?key = "(operation, actor)" and ?b = "filter (\<lambda>t. now - w < t) (granted_at rlog (operation, actor))"
  obtain c where c: "c \<le> last_now - w" "dict_get_or (gr_requests g) ?key [] = filter (\<lambda>t. c < t) (granted_at rlog ?key)"
    using inv rule unfolding window_inv_def by blast
  have old: "int (in_window rlog ?key a (a + w)) \<le> n" for a
    using inv rule unfolding window_inv_def by blast
  show ?thesis
  proof (cases "(operation', actor') = ?key")
    case False
    then have "granted_at rlog' ?key = granted_at rlog ?key" by (auto simp: rlog' granted_at_snoc)
    moreover have "dict_get_or (gr_requests g') ?key [] = dict_get_or (gr_requests g) ?key []"
      using chk False by (auto simp: check_rate_limit_def Let_def split: option.splits if_splits)
    ultimately show ?thesis using c now old by (auto simp: in_window_def intro!: exI [of _ c])
  next
    case True
    note W = window_check [OF inv now rule, of actor]
    have d: "rd_allowed d = (int (length ?b) < n)"
      and g': "dict_get_or (gr_requests g') ?key [] = (if int (length ?b) < n then ?b @ [now] else ?b)"
      using chk W True by auto
    have "dict_get_or (gr_requests g') ?key [] = filter (\<lambda>t. now - w < t) (granted_at rlog' ?key)"
      using True rule by (auto simp: g' d rlog' granted_at_snoc)
    moreover have "int (in_window rlog' ?key a (a + w)) \<le> n" for a
    proof (cases "int (length ?b) < n \<and> a < now \<and> now \<le> a + w")
      case False
      then have "in_window rlog' ?key a (a + w) = in_window rlog ?key a (a + w)"
        using True by (auto simp: in_window_def rlog' granted_at_snoc d)
      then show ?thesis using old by simp
    next
      case ok: True
      have "length (filter (\<lambda>t. a < t \<and> t \<le> a + w) (granted_at rlog ?key)) \<le> length ?b"
        unfolding length_filter_conv_card by (rule card_mono) (use ok in auto)
      then show ?thesis using ok True by (simp add: in_window_def rlog' granted_at_snoc d)
    qed
    ultimately show ?thesis by auto
  qed
qed

lemma window_inv_later:
  assumes inv: "window_inv g rlog t" and "t \<le> t'"
  shows "window_inv g rlog t'"
  unfolding window_inv_def
proof (intro conjI allI impI)
  show "\<forall>r\<in>set rlog. snd r \<le> t'" using inv assms(2) by (auto simp: window_inv_def)
  show "sorted (map snd rlog)" using inv by (simp add: window_inv_def)
  fix operation actor n w a
  assume "map_of (gr_rules g) operation = Some \<lparr>rr_max_requests = n, rr_window = PFin w\<rparr> \<and> 0 < n \<and> 0 < w"
  then have "(\<exists>c. c \<le> t - w \<and> dict_get_or (gr_requests g) (operation, actor) [] = filter (\<lambda>t. c < t) (granted_at rlog (operation, actor)))
       \<and> (\<forall>a. int (in_window rlog (operation, actor) a (a + w)) \<le> n)" using inv unfolding window_inv_def by blast
  moreover have "c \<le> t - w \<Longrightarrow> c \<le> t' - w" for c using assms(2) by simp
  ultimately show "\<exists>c. c \<le> t' - w \<and> dict_get_or (gr_requests g) (operation, actor) [] = filter (\<lambda>t. c < t) (granted_at rlog (operation, actor))"
    "int (in_window rlog (operation, actor) a (a + w)) \<le> n" by blast+
qed

lemma window_inv_step:
  assumes inv: "window_inv g rlog last_now" and now: "last_now \<le> snd r"
  shows "window_inv (fst (log_request (g, rlog) r)) (snd (log_request (g, rlog) r)) (snd r)"
proof (cases "check_rate_limit g (fst (fst r)) (snd (fst r)) (snd r)")
  case (Inl e)
  then show ?thesis using window_inv_later [OF inv now] by (simp add: log_request_def)
next
  case (Inr x)
  obtain d g' where x: "x = (d, g')" by (cases x)
  obtain oper' actor' t where r: "r = ((oper', actor'), t)" by (metis prod.exhaust)
  let ?rlog = "if rd_allowed d then rlog @ [r] else rlog"
  have l: "log_request (g, rlog) r = (g', ?rlog)" using Inr x by (simp add: log_request_def)
  have rules: "gr_rules g' = gr_rules g" using rate_keeps Inr x by blast
  have S: "\<forall>r\<in>set rlog. snd r \<le> last_now" "sorted (map snd rlog)" using inv by (auto simp: window_inv_def)
  then have before: "\<forall>q\<in>set rlog. snd q \<le> snd r" using now by (meson order_trans)
  then have "\<forall>q\<in>set ?rlog. snd q \<le> snd r" by auto
  moreover have "sorted (map snd ?rlog)" using S(2) before by (auto simp: sorted_append)
  moreover have "(\<exists>c. c \<le> snd r - w \<and> dict_get_or (gr_requests g') (operation, actor) [] = filter (\<lambda>t. c < t) (granted_at ?rlog (operation, actor)))
      \<and> (\<forall>a. int (in_window ?rlog (operation, actor) a (a + w)) \<le> n)"
    if "map_of (gr_rules g') operation = Some \<lparr>rr_max_requests = n, rr_window = PFin w\<rparr> \<and> 0 < n \<and> 0 < w" for operation actor n w
    using window_inv_other [OF inv now, of operation n w oper' actor' d g' ?rlog actor] that Inr x rules r by auto
  ultimately show ?thesis unfolding l window_inv_def by auto
qed

lemma window_inv_run:
  assumes "sorted (t0 # map snd rs)" and "window_inv g rlog t0"
  shows "\<exists>now\<ge>t0. window_inv (fst (foldl log_request (g, rlog) rs)) (snd (foldl log_request (g, rlog) rs)) now
     \<and> (\<forall>r\<in>set rs. snd r \<le> now) \<and> (now = t0 \<or> (\<exists>r\<in>set rs. now = snd r))"
  using assms
proof (induction rs arbitrary: g rlog t0)
  case (Cons r rs)
  obtain g' rlog' where l: "log_request (g, rlog) r = (g', rlog')" by (cases "log_request (g, rlog) r")
  have "window_inv g' rlog' (snd r)" using window_inv_step [OF Cons.prems(2), of r] Cons.prems(1) l by simp
  then obtain now where "now \<ge> snd r" "window_inv (fst (foldl log_request (g', rlog') rs)) (snd (foldl log_request (g', rlog') rs)) now"
     "\<forall>r\<in>set rs. snd r \<le> now" "now = snd r \<or> (\<exists>r\<in>set rs. now = snd r)"
    using Cons.IH [of "snd r" g' rlog'] Cons.prems(1) by auto
  then show ?case using Cons.prems(1) l by (intro exI [of _ now]) auto
qed auto

lemma window_inv_new: "window_inv (new_guardrails rules l) [] t"
proof -
  have "\<exists>c. c \<le> t - w" for w by (rule exI [of _ "t - w"]) simp
  then show ?thesis by (auto simp: window_inv_def new_guardrails_def granted_at_def in_window_def dict_get_or_def)
qed

lemma log_request_rules: "gr_rules (fst (log_request x r)) = gr_rules (fst x)"
  by (auto simp: log_request_def dest: rate_keeps split: sum.splits)

lemma run_rules: "gr_rules (fst (foldl log_request x rs)) = gr_rules (fst x)"
  by (induction rs arbitrary: x) (simp_all add: log_request_rules)

text \<open>The guardrails and the log after the requests \<open>rs\<close>, beginning with no request.\<close>

definition served :: "(string, rate_rule) dict \<Rightarrow> concurrency_limits \<Rightarrow> request list \<Rightarrow> guardrails \<times> request list" where
  "served rules l rs = foldl log_request (new_guardrails rules l, []) rs"

lemma served_inv:
  assumes "sorted (map snd rs)" and "\<forall>r\<in>set rs. snd r \<le> now"
  shows "window_inv (fst (served rules l rs)) (snd (served rules l rs)) now"
proof -
  define t0 where "t0 = (case rs of [] \<Rightarrow> now | r # _ \<Rightarrow> snd r)"
  have "sorted (t0 # map snd rs)" using assms(1) by (cases rs) (auto simp: t0_def)
  then obtain t where t: "window_inv (fst (served rules l rs)) (snd (served rules l rs)) t" "t = t0 \<or> (\<exists>r\<in>set rs. t = snd r)"
    using window_inv_run [OF _ window_inv_new] unfolding served_def by blast
  then have "t \<le> now" using assms(2) by (auto simp: t0_def split: list.splits)
  then show ?thesis by (rule window_inv_later [OF t(1)])
qed

lemma in_window_now: "window_inv g rlog now \<Longrightarrow> in_window rlog key a now = length (filter (\<lambda>t. a < t) (granted_at rlog key))"
  using granted_le [of g rlog now] unfolding in_window_def by (metis (mono_tags, lifting) filter_cong)

lemma served_rule: "map_of rules operation = Some r \<Longrightarrow> map_of (gr_rules (fst (served rules l rs))) operation = Some r"
  by (auto simp: served_def run_rules new_guardrails_def)

lemma retry_after_ok:
  assumes inv: "window_inv g rlog now"
    and rule: "map_of (gr_rules g) operation = Some \<lparr>rr_max_requests = n, rr_window = PFin w\<rparr>" "0 < n" "0 < w"
    and chk: "check_rate_limit g operation actor now = Inr (d, g')" and den: "\<not> rd_allowed d"
  shows "\<exists>k\<ge>1. retry_after_header_value (rd_retry_after d) = Inr (int_repr k)
     \<and> (\<forall>now'\<ge>now + of_int k. \<exists>d' g''. check_rate_limit g' operation actor now' = Inr (d', g'') \<and> rd_allowed d')"
proof -
  let ?G = "granted_at rlog (operation, actor)"
  let ?b = "filter (\<lambda>t. now - w < t) ?G"
  note W = window_check [OF inv order_refl rule, of actor]
  have nb: "n \<le> int (length ?b)" and ret: "rd_retry_after d = pf_max (PFin (1 / 1000)) (PFin (hd ?b + w - now))"
    using chk W den by auto
  have "int (in_window rlog (operation, actor) (now - w) (now - w + w)) \<le> n" using inv rule unfolding window_inv_def by blast
  then have bn: "int (length ?b) \<le> n" using in_window_now [OF inv] by simp
  define r where "r = max (1 / 1000) (hd ?b + w - now)"
  have r: "rd_retry_after d = PFin r" by (auto simp: ret r_def pf_max_def max_def)
  define k where "k = max 1 \<lceil>r\<rceil>"
  have "?b \<noteq> []" using nb rule(2) by auto
  then have h: "hd ?b \<in> set ?b" by (rule hd_in_set)
  have inv': "window_inv g' rlog now" and rules': "gr_rules g' = gr_rules g"
    using window_inv_step [OF inv, of "((operation, actor), now)"] chk den rate_keeps [OF chk] by (simp_all add: log_request_def)
  have "\<exists>d' g''. check_rate_limit g' operation actor now' = Inr (d', g'') \<and> rd_allowed d'" if now': "now + of_int k \<le> now'" for now'
  proof -
    have "r \<le> of_int \<lceil>r\<rceil>" "(of_int \<lceil>r\<rceil> :: rat) \<le> of_int k" by (simp_all add: k_def)
    then have "r \<le> of_int k" by (rule order_trans)
    then have far: "hd ?b + w \<le> now'" using now' by (simp add: r_def)
    have "1 \<le> k" by (simp add: k_def)
    then have "(1::rat) \<le> of_int k" by simp
    then have le: "now \<le> now'" using now' by linarith
    have "filter (\<lambda>t. now' - w < t) ?G = filter (\<lambda>t. now' - w < t) ?b"
      unfolding filter_filter by (rule filter_cong) (use le in auto)
    moreover have "length (filter (\<lambda>t. now' - w < t) ?b) < length ?b" by (rule length_filter_less [OF h]) (use far in simp)
    ultimately have "int (length (filter (\<lambda>t. now' - w < t) ?G)) < n" using bn by simp
    then show ?thesis using window_check [OF inv' le _ rule(2,3), of operation actor] rule(1) rules' by simp
  qed
  moreover have "retry_after_header_value (rd_retry_after d) = Inr (int_repr k)" by (simp add: r k_def)
  ultimately show ?thesis by (intro exI [of _ k]) (simp add: k_def)
qed

section \<open>Properties\<close>

text \<open>C38: Over any sequence of requests at non-decreasing times, of any operations and actors, an operation with
  a valid finite rule grants each actor at most \<open>max_requests\<close> requests in every interval of the length of
  the window, and the next request is granted exactly when fewer than that many were granted within the
  last window: dropping old entries from the deque loses nothing.\<close>

theorem rate_limit_exact:
  assumes "sorted (map snd rs)" and "\<forall>r\<in>set rs. snd r \<le> now" and "served rules l rs = (g, granted)"
    and "map_of rules operation = Some \<lparr>rr_max_requests = n, rr_window = PFin w\<rparr>" and "0 < n" and "0 < w"
  shows "int (in_window granted (operation, actor) a (a + w)) \<le> n
    \<and> (\<exists>d g'. check_rate_limit g operation actor now = Inr (d, g')
        \<and> (rd_allowed d \<longleftrightarrow> int (in_window granted (operation, actor) (now - w) now) < n))"
proof -
  have inv: "window_inv g granted now" using served_inv [OF assms(1,2), of rules l] assms(3) by simp
  have rule: "map_of (gr_rules g) operation = Some \<lparr>rr_max_requests = n, rr_window = PFin w\<rparr>"
    using served_rule [OF assms(4), of l rs] assms(3) by simp
  have "int (in_window granted (operation, actor) a (a + w)) \<le> n" using inv rule assms(5,6) unfolding window_inv_def by blast
  moreover note window_check [OF inv order_refl rule assms(5,6), of actor]
  ultimately show ?thesis by (simp add: in_window_now [OF inv])
qed

text \<open>The \<open>Retry-After\<close> header is enough: when a request is denied by a valid finite rule, the header is
  a positive number of seconds, and a request of the same operation and actor that comes that many seconds
  later or more is granted, if no other was granted meanwhile.\<close>

theorem retry_after_sufficient:
  assumes "sorted (map snd rs)" and "\<forall>r\<in>set rs. snd r \<le> now" and "served rules l rs = (g, granted)"
    and "map_of rules operation = Some \<lparr>rr_max_requests = n, rr_window = PFin w\<rparr>" and "0 < n" and "0 < w"
    and "check_rate_limit g operation actor now = Inr (d, g')" and "\<not> rd_allowed d"
  shows "\<exists>k\<ge>1. retry_after_header_value (rd_retry_after d) = Inr (int_repr k)
     \<and> (\<forall>now'\<ge>now + of_int k. \<exists>d' g''. check_rate_limit g' operation actor now' = Inr (d', g'') \<and> rd_allowed d')"
proof -
  have inv: "window_inv g granted now" using served_inv [OF assms(1,2), of rules l] assms(3) by simp
  have "map_of (gr_rules g) operation = Some \<lparr>rr_max_requests = n, rr_window = PFin w\<rparr>"
    using served_rule [OF assms(4), of l rs] assms(3) by simp
  then show ?thesis by (rule retry_after_ok [OF inv _ assms(5-8)])
qed

text \<open>In every state the service can reach, the counters of in-flight requests are exactly the numbers of
  outstanding tokens, overall, per operation and per resumed run, and never exceed the configured limits; a
  request is admitted exactly when all limits that concern it leave room, and it is denied otherwise
  without changing anything.\<close>

theorem concurrency_exact:
  assumes "guard_step\<^sup>*\<^sup>* (new_guardrails rules l, {#}) (g, M)" and "validate_limits l = Inr ()"
  shows "gr_global g = int (size M) \<and> (\<forall>k. dict_get_or (gr_operation g) k 0 = op_count M k)
    \<and> (\<forall>k. dict_get_or (gr_run_resume g) k 0 = run_count M k) \<and> within_limits l M
    \<and> (\<forall>operation run_id. case acquire_concurrency g operation run_id of
        ((d, None), g') \<Rightarrow> \<not> cd_allowed d \<and> \<not> admits M g (operation, run_id) \<and> g' = g
      | ((d, Some t), g') \<Rightarrow> cd_allowed d \<and> admits M g (operation, run_id) \<and> stands_for g' (add_mset t M))"
proof -
  have inv: "stands_for g M" "within_limits l M" using guard_reachable_inv [OF assms] by (auto simp: guard_inv_def)
  have "case acquire_concurrency g operation run_id of
        ((d, None), g') \<Rightarrow> \<not> cd_allowed d \<and> \<not> admits M g (operation, run_id) \<and> g' = g
      | ((d, Some t), g') \<Rightarrow> cd_allowed d \<and> admits M g (operation, run_id) \<and> stands_for g' (add_mset t M)" for operation run_id
  proof -
    obtain d t g' where a: "acquire_concurrency g operation run_id = ((d, t), g')" by (metis prod.exhaust)
    have "cd_allowed d \<longleftrightarrow> t \<noteq> None" using a by (auto simp: acquire_concurrency_def Let_def deny_def split: if_splits)
    then show ?thesis using a adm.exact [OF inv(1), of "(operation, run_id)"] adm.denied [of g "(operation, run_id)" g']
        adm.granted [OF inv(1), of "(operation, run_id)"] by (cases t) (simp_all add: try_acquire_def)
  qed
  with inv show ?thesis by (simp add: stands_for_def)
qed

text \<open>A configuration with one request per ten seconds, one of which was served at time 0.\<close>

definition sample_rules :: "(string, rate_rule) dict" where
  "sample_rules = [(''run_read'', \<lparr>rr_max_requests = 1, rr_window = PFin 10\<rparr>)]"

definition sample_requests :: "request list" where
  "sample_requests = [((''run_read'', ''a''), 0), ((''run_read'', ''a''), 2)]"

lemma sample_served: "served sample_rules default_concurrency sample_requests =
    (fst (served sample_rules default_concurrency sample_requests), [((''run_read'', ''a''), 0)])"
proof -
  have "snd (served sample_rules default_concurrency sample_requests) = [((''run_read'', ''a''), 0)]" by code_simp
  then show ?thesis by (metis prod.collapse)
qed

theorem rate_limit_exact_witness:
  "\<exists>d g'. check_rate_limit (fst (served sample_rules default_concurrency sample_requests)) ''run_read'' ''a'' 3 = Inr (d, g')
     \<and> \<not> rd_allowed d \<and> in_window [((''run_read'', ''a''), 0)] (''run_read'', ''a'') (3 - 10) 3 = 1"
proof -
  have "map_of sample_rules ''run_read'' = Some \<lparr>rr_max_requests = 1, rr_window = PFin 10\<rparr>" by (simp add: sample_rules_def)
  moreover have "in_window [((''run_read'', ''a''), 0)] (''run_read'', ''a'') (3 - 10) 3 = 1" by code_simp
  ultimately show ?thesis
    using rate_limit_exact [OF _ _ sample_served, of 3 "''run_read''" 1 10 "''a''" 0] by (simp add: sample_requests_def)
qed

theorem retry_after_sufficient_witness:
  "\<exists>d g' k. check_rate_limit (fst (served sample_rules default_concurrency sample_requests)) ''run_read'' ''a'' 3 = Inr (d, g')
     \<and> \<not> rd_allowed d \<and> retry_after_header_value (rd_retry_after d) = Inr (int_repr k) \<and> 1 \<le> k"
proof -
  let ?c = "check_rate_limit (fst (served sample_rules default_concurrency sample_requests)) ''run_read'' ''a'' 3"
  have "(case ?c of Inr (d, g') \<Rightarrow> \<not> rd_allowed d | Inl _ \<Rightarrow> False)" by code_simp
  then obtain d g' where d: "?c = Inr (d, g')" "\<not> rd_allowed d" by (auto split: sum.splits)
  have "map_of sample_rules ''run_read'' = Some \<lparr>rr_max_requests = 1, rr_window = PFin 10\<rparr>" by (simp add: sample_rules_def)
  with retry_after_sufficient [OF _ _ sample_served _ _ _ d, of 1 10] d show ?thesis
    by (fastforce simp: sample_requests_def)
qed

theorem concurrency_exact_witness:
  "\<exists>g M. guard_step\<^sup>*\<^sup>* (new_guardrails sample_rules default_concurrency, {#}) (g, M)
     \<and> size M = 1 \<and> gr_global g = 1 \<and> within_limits default_concurrency M"
proof -
  let ?g = "new_guardrails sample_rules default_concurrency"
  let ?t = "\<lparr>ct_operation = ''run_resume'', ct_run = Some ''r''\<rparr>"
  obtain d g' where a: "acquire_concurrency ?g ''run_resume'' (Some ''r'') = ((d, Some ?t), g')"
    by (auto simp: acquire_concurrency_def Let_def new_guardrails_def default_concurrency_def op_limit_def dict_get_or_def)
  have "validate_limits default_concurrency = Inr ()" by (simp add: validate_limits_def default_concurrency_def)
  moreover have "guard_step\<^sup>*\<^sup>* (?g, {#}) (g', add_mset ?t {#})" using step_acquire [OF a, of "{#}"] by (rule r_into_rtranclp)
  ultimately show ?thesis using concurrency_exact [of sample_rules default_concurrency g' "add_mset ?t {#}"]
    by (intro exI [of _ g'] exI [of _ "add_mset ?t {#}"]) simp
qed


text \<open>A window given as the text \<^verbatim>\<open>nan\<close> is accepted by the validation, and with such a rule nothing ever leaves
  the deque: once \<open>max_requests\<close> requests of an actor are recorded, every later request of that actor is denied,
  at whatever time it comes, and so on for ever.\<close>

theorem nan_window_never_reopens:
  assumes "map_of (gr_rules g) operation = Some \<lparr>rr_max_requests = n, rr_window = PNaN\<rparr>"
    and "n \<le> int (length (dict_get_or (gr_requests g) (operation, actor) []))"
  shows "normalize_rate_limit_rules (Some [(''run_read'', PDict [(''max_requests'', PInt 1), (''window_seconds'', PStr ''nan'')])])
       = Inr (AList.update ''run_read'' \<lparr>rr_max_requests = 1, rr_window = PNaN\<rparr> default_rate_rules)
    \<and> (\<exists>d g'. check_rate_limit g operation actor now = Inr (d, g') \<and> \<not> rd_allowed d \<and> gr_rules g' = gr_rules g
         \<and> dict_get_or (gr_requests g') (operation, actor) [] = dict_get_or (gr_requests g) (operation, actor) [])"
proof -
  have keep: "dropWhile (\<lambda>t. pf_le (PFin t) PNaN) xs = xs" for xs by (cases xs) auto
  have "normalize_rate_limit_rules (Some [(''run_read'', PDict [(''max_requests'', PInt 1), (''window_seconds'', PStr ''nan'')])])
       = Inr (AList.update ''run_read'' \<lparr>rr_max_requests = 1, rr_window = PNaN\<rparr> default_rate_rules)"
    by code_simp
  moreover have "\<exists>d g'. check_rate_limit g operation actor now = Inr (d, g') \<and> \<not> rd_allowed d \<and> gr_rules g' = gr_rules g
         \<and> dict_get_or (gr_requests g') (operation, actor) [] = dict_get_or (gr_requests g) (operation, actor) []"
    using assms by (auto simp: check_rate_limit_def Let_def keep dict_get_or_def)
  ultimately show ?thesis by blast
qed

theorem nan_window_never_reopens_witness:
  "\<exists>d g'. check_rate_limit (new_guardrails [(''run_read'', \<lparr>rr_max_requests = 1, rr_window = PNaN\<rparr>)] default_concurrency
      \<lparr>gr_requests := [((''run_read'', ''ann''), [0])]\<rparr>) ''run_read'' ''ann'' 1000000 = Inr (d, g') \<and> \<not> rd_allowed d"
  using nan_window_never_reopens [of "new_guardrails [(''run_read'', \<lparr>rr_max_requests = 1, rr_window = PNaN\<rparr>)] default_concurrency
      \<lparr>gr_requests := [((''run_read'', ''ann''), [0])]\<rparr>" "''run_read''" 1 "''ann''" 1000000]
  by (auto simp: new_guardrails_def dict_get_or_def)

end
