(* ===== verification/EAP_Http.thy ===== *)
theory EAP_Http
  imports EAP_Policy EAP_Guardrails EAP_State_Manager
begin

text \<open>
  The runtime service, \<^verbatim>\<open>src/eap/runtime/http_api.py\<close>: authentication, scopes, rate and concurrency
  limits, request bodies, the four routes and the construction of the server. A request is a coroutine; it
  is cut at its suspension points (waiting for a piece of the body, waiting for the executor), and
  \<open>service_step\<close> lets any number of requests interleave with each other and with whatever the executor
  does to the state manager meanwhile. A request handler that raises leaves a value of \<open>http_exn\<close>, with the
  state it had changed.

  Arguments of the model, in \<open>http_env\<close>: decoding of a URL and of a JSON text, the pydantic
  construction of a macro from JSON, the text of an internal exception. Clock, ids and time stamps of a
  step are in \<open>http_reading\<close>. The byte encoding of the response and the thread that runs the server are
  not modelled.
\<close>

section \<open>State\<close>

record auth_context =
  ac_actor :: pyval
  ac_scopes :: "string list"
  ac_subject :: pyval
  ac_profile :: pyval
  ac_template :: pyval
  ac_local_dev :: bool

record runtime_state =
  rt_sm :: state_manager
  rt_required :: "string option"
  rt_tokens :: "(string, token_policy) dict"
  rt_guard :: guardrails
  rt_local_dev :: bool
  rt_counters :: "(string, int) dict"

datatype http_payload =
    ErrorPayload string string "(string, pyval) dict option"
  | PointerPayload "string \<times> string" "string option" pyval pyval pyval
  | RunPayload "string \<times> string" string string run_summary "(string, pyval) dict" "trace_event list"
  | SummaryPayload "string \<times> string" pointer_info

record http_response =
  hr_status :: int
  hr_payload :: http_payload
  hr_headers :: "(string \<times> string) list"

datatype internal_error = GuardExn guard_error | StateExn sm_error

datatype http_exn = HTTPResponse http_response | OtherException string

record http_env =
  he_py :: py_env
  he_max_body :: int
  he_unquote :: "string \<Rightarrow> string"
  he_loads :: "string \<Rightarrow> pyval option"
  he_validate :: "pyval \<Rightarrow> pyval + macro_request"
  he_text :: "internal_error \<Rightarrow> string"

record http_reading =
  hd_clock :: rat
  hd_now :: int
  hd_stamp :: "string \<times> string"

definition quoted :: "string \<Rightarrow> string" where "quoted s = [char_of (39 :: nat)] @ s @ [char_of (39 :: nat)]"

definition http_error_with :: "int \<Rightarrow> string \<Rightarrow> string \<Rightarrow> (string, pyval) dict option \<Rightarrow> (string \<times> string) list \<Rightarrow> http_exn" where
  "http_error_with status error_type message details headers = HTTPResponse
     \<lparr>hr_status = status, hr_payload = ErrorPayload error_type message details, hr_headers = headers\<rparr>"

definition http_error :: "int \<Rightarrow> string \<Rightarrow> string \<Rightarrow> http_exn" where
  "http_error status error_type message = http_error_with status error_type message None []"

definition record_guardrail_event :: "string \<Rightarrow> runtime_state \<Rightarrow> runtime_state" where
  "record_guardrail_event event_type st =
     st\<lparr>rt_counters := AList.update event_type (dict_get_or (rt_counters st) event_type 0 + 1) (rt_counters st)\<rparr>"

text \<open>Code that may raise after having changed the state.\<close>

type_synonym 'a handler = "runtime_state \<Rightarrow> (http_exn + 'a) \<times> runtime_state"

definition retH :: "'a \<Rightarrow> 'a handler" where "retH x st = (Inr x, st)"

definition failH :: "http_exn \<Rightarrow> 'a handler" where "failH e st = (Inl e, st)"

definition bindH :: "'a handler \<Rightarrow> ('a \<Rightarrow> 'b handler) \<Rightarrow> 'b handler" where
  "bindH m f st = (case m st of (Inl e, st') \<Rightarrow> (Inl e, st') | (Inr x, st') \<Rightarrow> f x st')"

definition liftH :: "http_exn + 'a \<Rightarrow> 'a handler" where "liftH r st = (r, st)"

definition of_sm :: "http_env \<Rightarrow> (state_manager \<Rightarrow> sm_error + 'a) \<Rightarrow> (sm_error \<Rightarrow> http_exn option) \<Rightarrow> 'a handler" where
  \<comment> \<open>a call of the state manager, with the exceptions the caller turns into a response\<close>
  "of_sm env f handle st = (case f (rt_sm st) of
     Inl e \<Rightarrow> (Inl (case handle e of Some x \<Rightarrow> x | None \<Rightarrow> OtherException (he_text env (StateExn e))), st)
   | Inr x \<Rightarrow> (Inr x, st))"

section \<open>Headers and authentication\<close>

datatype asgi_header = Header string string | BadHeader

definition headers_from_scope :: "asgi_header list option \<Rightarrow> (string, string) dict" where
  "headers_from_scope raw = (case raw of None \<Rightarrow> []
     | Some items \<Rightarrow> foldl (\<lambda>d h. case h of Header n v \<Rightarrow> AList.update (py_lower n) v d | BadHeader \<Rightarrow> d) [] items)"

definition parse_bearer_token :: "(string, string) dict \<Rightarrow> string option" where
  "parse_bearer_token headers = (let auth_header = py_strip (dict_get_or headers ''authorization'' []) in
     if \<not> startswith auth_header ''Bearer '' then None
     else let token = py_strip (drop 7 auth_header) in if token = [] then None else Some token)"

definition policy_scopes :: "http_env \<Rightarrow> token_policy \<Rightarrow> string list" where
  "policy_scopes env policy = (case dict_get_or policy ''scopes'' PNone of
     PList vs \<Rightarrow> map (py_str (pe_float (he_py env))) vs | _ \<Rightarrow> [])"

definition is_set :: "string option \<Rightarrow> bool" where
  \<comment> \<open>the truth value of an optional string\<close>
  "is_set s \<longleftrightarrow> s \<noteq> None \<and> s \<noteq> Some []"

definition resolve_auth_context :: "http_env \<Rightarrow> runtime_state \<Rightarrow> (string, string) dict \<Rightarrow> auth_context option" where
  "resolve_auth_context env st headers =
     (if rt_local_dev st \<and> \<not> is_set (rt_required st) \<and> rt_tokens st = [] then
        Some \<lparr>ac_actor = PStr ''local-dev-anonymous'', ac_scopes = FULL_RUNTIME_SCOPES,
              ac_subject = PStr ''unauthenticated_local_dev'', ac_profile = PStr ''local_dev'', ac_template = PNone,
              ac_local_dev = True\<rparr>
      else case parse_bearer_token headers of None \<Rightarrow> None
        | Some token \<Rightarrow> (case map_of (rt_tokens st) token of
            Some policy \<Rightarrow> Some \<lparr>ac_actor = dict_get_or policy ''actor_id'' PNone, ac_scopes = policy_scopes env policy,
               ac_subject = dict_get_or policy ''auth_subject'' PNone, ac_profile = dict_get_or policy ''policy_profile'' PNone,
               ac_template = dict_get_or policy ''template'' PNone, ac_local_dev = False\<rparr>
          | None \<Rightarrow> if is_set (rt_required st) \<and> rt_required st = Some token then
               Some \<lparr>ac_actor = PStr ''runtime-admin'', ac_scopes = FULL_RUNTIME_SCOPES,
                  ac_subject = PStr ''required_bearer_token'', ac_profile = PStr ''trusted'', ac_template = PNone,
                  ac_local_dev = False\<rparr>
             else None))"

definition has_scope :: "auth_context \<Rightarrow> string \<Rightarrow> bool" where
  "has_scope auth scope \<longleftrightarrow> scope \<in> set (ac_scopes auth) \<or> ''*'' \<in> set (ac_scopes auth)"

definition require_auth :: "http_env \<Rightarrow> (string, string) dict \<Rightarrow> string \<Rightarrow> auth_context handler" where
  "require_auth env headers required_scope st = (case resolve_auth_context env st headers of
     None \<Rightarrow> (Inl (http_error 401 ''unauthorized'' ''Missing or invalid bearer token.''), st)
   | Some auth \<Rightarrow> if \<not> has_scope auth required_scope
       then (Inl (http_error 403 ''forbidden'' (''Missing required scope '' @ quoted required_scope @ ''.'')), st)
       else (Inr auth, st))"

section \<open>Limits\<close>

definition str_field :: "http_env \<Rightarrow> pyval \<Rightarrow> string" where
  "str_field env v = (case v of PNone \<Rightarrow> [] | _ \<Rightarrow> py_str (pe_float (he_py env)) v)"

definition limit_actor :: "http_env \<Rightarrow> auth_context \<Rightarrow> string" where
  "limit_actor env auth = or_text (py_strip (or_text (or_text (str_field env (ac_actor auth)) (str_field env (ac_subject auth)))
     ''anonymous'')) ''anonymous''"

fun pf_round :: "nat \<Rightarrow> pyfloat \<Rightarrow> pyfloat" where
  "pf_round n (PFin r) = PFin (py_round n r)"
| "pf_round n f = f"

definition enforce_rate_limit :: "http_env \<Rightarrow> http_reading \<Rightarrow> string \<Rightarrow> auth_context \<Rightarrow> unit handler" where
  "enforce_rate_limit env rd operation auth st =
     (let actor_id = limit_actor env auth in
      case check_rate_limit (rt_guard st) operation actor_id (hd_clock rd) of
        Inl e \<Rightarrow> (Inl (OtherException (he_text env (GuardExn e))), st)
      | Inr (decision, g) \<Rightarrow>
          if rd_allowed decision then (Inr (), st\<lparr>rt_guard := g\<rparr>)
          else let st' = record_guardrail_event ''rate_limited'' (st\<lparr>rt_guard := g\<rparr>);
                   details = [(''operation'', PStr operation), (''actor_id'', PStr actor_id), (''limit'', PInt (rd_limit decision)),
                     (''window_seconds'', PFloat (rd_window decision)),
                     (''retry_after_seconds'', PFloat (pf_round 3 (rd_retry_after decision)))] in
               (case retry_after_header_value (rd_retry_after decision) of
                  Inl e \<Rightarrow> (Inl (OtherException (he_text env (GuardExn e))), st')
                | Inr value \<Rightarrow> (Inl (http_error_with 429 ''rate_limited'' (''Rate limit exceeded for '' @ quoted operation @ ''.'')
                    (Some details) [(''Retry-After'', value)]), st')))"

definition acquire_slot :: "string \<Rightarrow> string option \<Rightarrow> conc_token handler" where
  \<comment> \<open>\<open>_acquire_concurrency\<close>\<close>
  "acquire_slot operation run_id st = (case acquire_concurrency (rt_guard st) operation run_id of
     ((decision, token), g) \<Rightarrow>
       if cd_allowed decision \<and> token \<noteq> None then (Inr (the token), st\<lparr>rt_guard := g\<rparr>)
       else (Inl (http_error_with 429 ''throttled'' (''Concurrency limit exceeded for '' @ quoted operation @ ''.'')
             (Some ([(''operation'', PStr operation),
                (''limit_type'', case cd_limit_type decision of None \<Rightarrow> PNone | Some k \<Rightarrow> PStr k),
                (''limit'', PInt (cd_limit decision)), (''current_inflight'', PInt (cd_current decision))]
               @ (if is_set run_id then [(''run_id'', PStr (the run_id))] else []))) []),
           record_guardrail_event ''throttled'' (st\<lparr>rt_guard := g\<rparr>)))"

section \<open>Ownership of runs\<close>

definition to_actor_metadata :: "auth_context \<Rightarrow> string \<Rightarrow> (string, pyval) dict" where
  "to_actor_metadata auth operation =
     [(''actor_id'', ac_actor auth), (''owner_actor_id'', ac_actor auth),
      (''actor_scopes'', PList (map PStr (py_sorted_set (ac_scopes auth)))), (''operation'', PStr operation),
      (''auth_subject'', ac_subject auth)]
     @ (if py_truthy (ac_profile auth) then [(''policy_profile'', ac_profile auth)] else [])
     @ (if py_truthy (ac_template auth) then [(''policy_template'', ac_template auth)] else [])
     @ (if ac_local_dev auth then [(''local_dev_auth'', PBool True)] else [])"

definition may_access :: "auth_context \<Rightarrow> string \<Rightarrow> (string, pyval) dict \<Rightarrow> bool" where
  "may_access auth allow_any_scope actor_metadata \<longleftrightarrow>
     (let owner_actor_id = get_or_get actor_metadata ''owner_actor_id'' ''actor_id'' in
      \<not> py_truthy owner_actor_id \<or> py_eq (ac_actor auth) owner_actor_id \<or> has_scope auth allow_any_scope)"

definition check_run_access :: "http_env \<Rightarrow> string \<Rightarrow> auth_context \<Rightarrow> string \<Rightarrow> unit handler" where
  "check_run_access env run_id auth allow_any_scope =
     bindH (of_sm env (\<lambda>sm. get_run_actor_metadata sm run_id) (\<lambda>_. None)) (\<lambda>actor_metadata.
       if may_access auth allow_any_scope actor_metadata then retH ()
       else failH (http_error 403 ''forbidden'' (''Actor '' @ quoted (py_str (pe_float (he_py env)) (ac_actor auth))
              @ '' is not allowed to access run '' @ quoted run_id @ ''.'')))"

section \<open>Request bodies\<close>

datatype asgi_chunk = Bytes string | NotBytes

datatype asgi_message = Message asgi_chunk bool | NotMessage

record body_buffer =
  bb_chunks :: "string list"
  bb_total :: int

definition empty_buffer :: body_buffer where "empty_buffer = \<lparr>bb_chunks = [], bb_total = 0\<rparr>"

definition receive_chunk :: "http_env \<Rightarrow> body_buffer \<Rightarrow> asgi_message \<Rightarrow> http_exn + body_buffer \<times> bool" where
  \<comment> \<open>one round of the loop of \<open>_read_json_body\<close>, and whether there is another\<close>
  "receive_chunk env buf msg = (case msg of
     NotMessage \<Rightarrow> Inl (http_error 400 ''validation_error'' ''Invalid ASGI request body message.'')
   | Message NotBytes _ \<Rightarrow> Inl (http_error 400 ''validation_error'' ''Invalid request body chunk.'')
   | Message (Bytes body) more_body \<Rightarrow> (let total = bb_total buf + int (length body) in
       if he_max_body env < total
       then Inl (http_error_with 413 ''request_body_too_large'' (''Request body exceeds '' @ int_repr (he_max_body env) @ '' bytes.'')
              (Some [(''max_request_body_bytes'', PInt (he_max_body env))]) [])
       else Inr (\<lparr>bb_chunks = (if body = [] then bb_chunks buf else bb_chunks buf @ [body]), bb_total = total\<rparr>, more_body)))"

definition parse_body :: "http_env \<Rightarrow> bool \<Rightarrow> body_buffer \<Rightarrow> http_exn + (string, pyval) dict" where
  "parse_body env required buf = (let raw_body = concat (bb_chunks buf) in
     if raw_body = [] then
       (if required then Inl (http_error 400 ''validation_error'' ''Request body is required.'') else Inr [])
     else case he_loads env raw_body of
       None \<Rightarrow> Inl (http_error 400 ''validation_error'' ''Request body must be valid JSON.'')
     | Some (PDict payload) \<Rightarrow> Inr payload
     | Some _ \<Rightarrow> Inl (http_error 400 ''validation_error'' ''Request body must be a JSON object.''))"

section \<open>Handlers\<close>

datatype work = ExecuteMacro | ResumeRun string

datatype exec_call = CallExecute macro_request "(string, pyval) dict"
  | CallResume string "(string, pyval) dict option" "(string, pyval) dict"

text \<open>What the executor's coroutine ends with. \<open>ValidationErr\<close> is pydantic's exception, a subclass of
  \<open>ValueError\<close>; \<open>Cancelled\<close> is an exception outside \<open>Exception\<close>.\<close>

datatype exec_outcome = ExecReturned "(string, pyval) dict" | KeyErr string | ValueErr string | ValidationErr string
  | OtherErr string | Cancelled

definition begin_execute :: "http_env \<Rightarrow> http_reading \<Rightarrow> (string, string) dict \<Rightarrow> auth_context handler" where
  \<comment> \<open>\<open>_handle_execute_macro\<close> before the body is read\<close>
  "begin_execute env rd headers =
     bindH (require_auth env headers SCOPE_RUNS_EXECUTE) (\<lambda>auth.
     bindH (enforce_rate_limit env rd ''macro_execute'' auth) (\<lambda>_. retH auth))"

definition begin_resume :: "http_env \<Rightarrow> http_reading \<Rightarrow> string \<Rightarrow> (string, string) dict \<Rightarrow> auth_context handler" where
  \<comment> \<open>\<open>_handle_resume_run\<close> before the body is read\<close>
  "begin_resume env rd run_id headers =
     bindH (require_auth env headers SCOPE_RUNS_RESUME) (\<lambda>auth.
     bindH (enforce_rate_limit env rd ''run_resume'' auth) (\<lambda>_.
     if run_id = [] then failH (http_error 400 ''validation_error'' ''run_id is required.'')
     else bindH (check_run_access env run_id auth SCOPE_RUNS_RESUME_ANY) (\<lambda>_. retH auth)))"

definition submit_execute :: "http_env \<Rightarrow> auth_context \<Rightarrow> body_buffer \<Rightarrow> (conc_token \<times> exec_call) handler" where
  \<comment> \<open>from the complete body to the call of the executor\<close>
  "submit_execute env auth buf =
     bindH (liftH (parse_body env True buf)) (\<lambda>payload.
     case dict_get_or payload ''macro'' PNone of
       PNone \<Rightarrow> failH (http_error 400 ''validation_error'' (''Field '' @ quoted ''macro'' @ '' is required.''))
     | macro_payload \<Rightarrow> (case he_validate env macro_payload of
         Inl errors \<Rightarrow> failH (http_error_with 400 ''validation_error'' ''Invalid macro payload.'' (Some [(''errors'', errors)]) [])
       | Inr macro \<Rightarrow> bindH (acquire_slot ''macro_execute'' None) (\<lambda>token.
           retH (token, CallExecute macro (to_actor_metadata auth ''execute'')))))"

definition submit_resume :: "http_env \<Rightarrow> string \<Rightarrow> auth_context \<Rightarrow> body_buffer \<Rightarrow> (conc_token \<times> exec_call) handler" where
  "submit_resume env run_id auth buf =
     bindH (liftH (parse_body env False buf)) (\<lambda>payload.
     bindH (case dict_get_or payload ''approvals'' PNone of PNone \<Rightarrow> retH None | PDict approvals \<Rightarrow> retH (Some approvals)
        | _ \<Rightarrow> failH (http_error 400 ''validation_error'' (''Field '' @ quoted ''approvals'' @ '' must be a JSON object.''))) (\<lambda>approvals.
     bindH (acquire_slot ''run_resume'' (Some run_id)) (\<lambda>token.
       retH (token, CallResume run_id approvals (to_actor_metadata auth ''resume'')))))"

definition release_slot :: "conc_token \<Rightarrow> runtime_state \<Rightarrow> runtime_state" where
  "release_slot token st = st\<lparr>rt_guard := release_concurrency (rt_guard st) token\<rparr>"

definition execute_result :: "http_reading \<Rightarrow> exec_outcome \<Rightarrow> (http_exn + http_payload) option" where
  \<comment> \<open>\<open>None\<close> when the coroutine itself is cancelled\<close>
  "execute_result rd outcome = (let failed = (\<lambda>t. Some (Inl (http_error 500 ''execution_error'' (''Macro execution failed: '' @ t)))) in
     case outcome of
       Cancelled \<Rightarrow> None
     | KeyErr t \<Rightarrow> failed t | ValueErr t \<Rightarrow> failed t | ValidationErr t \<Rightarrow> failed t | OtherErr t \<Rightarrow> failed t
     | ExecReturned result \<Rightarrow> (case map_of result ''pointer_id'' of
          None \<Rightarrow> Some (Inl (http_error 500 ''execution_error'' ''Macro execution did not return a pointer response.''))
        | Some pointer \<Rightarrow> Some (Inr (PointerPayload (hd_stamp rd) None pointer (dict_get_or result ''summary'' (PStr []))
             (dict_get_or result ''metadata'' PNone)))))"

definition resume_result :: "http_reading \<Rightarrow> string \<Rightarrow> exec_outcome \<Rightarrow> (http_exn + http_payload) option" where
  \<comment> \<open>the clause for \<open>ValidationError\<close> comes after the one for \<open>ValueError\<close> and is never reached\<close>
  "resume_result rd run_id outcome = (case outcome of
       Cancelled \<Rightarrow> None
     | KeyErr _ \<Rightarrow> Some (Inl (http_error 404 ''not_found'' (''Execution checkpoint for run '' @ quoted run_id @ '' not found.'')))
     | ValueErr t \<Rightarrow> Some (Inl (http_error 400 ''validation_error'' t))
     | ValidationErr t \<Rightarrow> Some (Inl (http_error 400 ''validation_error'' t))
     | OtherErr t \<Rightarrow> Some (Inl (http_error 500 ''execution_error'' (''Run resume failed: '' @ t)))
     | ExecReturned result \<Rightarrow> (case map_of result ''pointer_id'' of
          None \<Rightarrow> Some (Inl (http_error 500 ''execution_error'' ''Run resume did not return a pointer response.''))
        | Some pointer \<Rightarrow> Some (Inr (PointerPayload (hd_stamp rd) (Some run_id) pointer (dict_get_or result ''summary'' (PStr []))
             (dict_get_or result ''metadata'' PNone)))))"

definition handle_get_run :: "http_env \<Rightarrow> http_reading \<Rightarrow> string \<Rightarrow> (string, string) dict \<Rightarrow> http_payload handler" where
  "handle_get_run env rd run_id headers =
     bindH (require_auth env headers SCOPE_RUNS_READ) (\<lambda>auth.
     bindH (enforce_rate_limit env rd ''run_read'' auth) (\<lambda>_.
     if run_id = [] then failH (http_error 400 ''validation_error'' ''run_id is required.'')
     else bindH (check_run_access env run_id auth SCOPE_RUNS_READ_ANY) (\<lambda>_.
     bindH (of_sm env (\<lambda>sm. get_execution_summary sm run_id) (\<lambda>e. case e of
         NoSummary _ \<Rightarrow> Some (http_error 404 ''not_found'' (''Execution summary for run '' @ quoted run_id @ '' not found.''))
       | _ \<Rightarrow> None)) (\<lambda>summary.
     bindH (of_sm env (\<lambda>sm. list_trace_events sm run_id) (\<lambda>_. None)) (\<lambda>trace_events.
     bindH (of_sm env (\<lambda>sm. get_run_actor_metadata sm run_id) (\<lambda>_. None)) (\<lambda>actor_metadata.
       retH (RunPayload (hd_stamp rd) run_id (if 0 < su_failed summary then ''failed'' else ''succeeded'') summary
         actor_metadata trace_events)))))))"

definition pointer_run :: "pointer_info \<Rightarrow> string option" where
  \<comment> \<open>the run that a pointer's metadata names\<close>
  "pointer_run pointer = (case map_of (pi_meta pointer) ''execution_run_id'' of
     Some (PStr run_id) \<Rightarrow> if run_id = [] then None else Some run_id | _ \<Rightarrow> None)"

definition handle_get_pointer_summary :: "http_env \<Rightarrow> http_reading \<Rightarrow> string \<Rightarrow> (string, string) dict \<Rightarrow> http_payload handler" where
  "handle_get_pointer_summary env rd pointer_id headers =
     bindH (require_auth env headers SCOPE_POINTERS_READ) (\<lambda>auth.
     bindH (enforce_rate_limit env rd ''pointer_summary'' auth) (\<lambda>_.
     if pointer_id = [] then failH (http_error 400 ''validation_error'' ''pointer_id is required.'')
     else bindH (of_sm env (\<lambda>sm. sm_list_pointers sm True (hd_now rd) None) (\<lambda>_. None)) (\<lambda>pointers.
     case find (\<lambda>item. pi_id item = pointer_id) pointers of
       None \<Rightarrow> failH (http_error 404 ''not_found'' (''Pointer '' @ quoted pointer_id @ '' not found.''))
     | Some pointer \<Rightarrow>
         bindH (case pointer_run pointer of None \<Rightarrow> retH ()
            | Some run_id \<Rightarrow> if has_scope auth SCOPE_POINTERS_READ_ANY then retH ()
                else check_run_access env run_id auth SCOPE_RUNS_READ_ANY) (\<lambda>_.
         retH (SummaryPayload (hd_stamp rd) pointer)))))"

section \<open>Routes\<close>

datatype route = RouteExecute | RouteResume string | RouteRun string | RoutePointer string | NoRoute

definition between :: "string \<Rightarrow> string \<Rightarrow> string \<Rightarrow> string" where
  \<comment> \<open>\<open>path[len(prefix):-len(suffix)]\<close>\<close>
  "between prefix suffix path = drop (length prefix) (take (length path - length suffix) path)"

definition route_of :: "string \<Rightarrow> string \<Rightarrow> route" where
  "route_of method path =
     (if method = ''POST'' \<and> path = ''/v1/eap/macro/execute'' then RouteExecute
      else if method = ''POST'' \<and> startswith path ''/v1/eap/runs/'' \<and> endswith path ''/resume''
        then RouteResume (py_strip (between ''/v1/eap/runs/'' ''/resume'' path))
      else if method = ''GET'' \<and> startswith path ''/v1/eap/runs/'' then RouteRun (py_strip (drop 13 path))
      else if method = ''GET'' \<and> startswith path ''/v1/eap/pointers/'' \<and> endswith path ''/summary''
        then RoutePointer (py_strip (between ''/v1/eap/pointers/'' ''/summary'' path))
      else NoRoute)"

definition upper_char :: "char \<Rightarrow> char" where
  \<comment> \<open>letters outside ASCII do not become letters of a method name\<close>
  "upper_char c = (let n = (of_char c :: nat) in if 97 \<le> n \<and> n \<le> 122 then char_of (n - 32) else c)"

record asgi_scope =
  as_type :: string
  as_method :: string
  as_path :: string
  as_headers :: "asgi_header list option"

datatype request_pc = Arrived asgi_scope
  | Reading "(string, string) dict" auth_context work body_buffer
  | Executing "(string, string) dict" auth_context work conc_token exec_call
  | Answered http_response
  | Aborted

definition answer :: "http_exn + http_payload \<Rightarrow> http_response" where
  \<comment> \<open>the \<open>try\<close> of \<open>__call__\<close>\<close>
  "answer r = (case r of
     Inr payload \<Rightarrow> \<lparr>hr_status = 200, hr_payload = payload, hr_headers = []\<rparr>
   | Inl (HTTPResponse response) \<Rightarrow> response
   | Inl (OtherException t) \<Rightarrow> \<lparr>hr_status = 500, hr_payload = ErrorPayload ''server_error'' (''Runtime request failed: '' @ t) None,
       hr_headers = []\<rparr>)"

definition continue_with :: "('a \<Rightarrow> request_pc) \<Rightarrow> (http_exn + 'a) \<times> runtime_state \<Rightarrow> request_pc \<times> runtime_state" where
  "continue_with f r = (case r of (Inl e, st) \<Rightarrow> (Answered (answer (Inl e)), st) | (Inr x, st) \<Rightarrow> (f x, st))"

definition dispatch :: "http_env \<Rightarrow> http_reading \<Rightarrow> route \<Rightarrow> string \<Rightarrow> (string, string) dict \<Rightarrow> runtime_state \<Rightarrow> request_pc \<times> runtime_state" where
  "dispatch env rd r path headers st = (case r of
     RouteExecute \<Rightarrow> continue_with (\<lambda>auth. Reading headers auth ExecuteMacro empty_buffer) (begin_execute env rd headers st)
   | RouteResume run_id \<Rightarrow> continue_with (\<lambda>auth. Reading headers auth (ResumeRun run_id) empty_buffer) (begin_resume env rd run_id headers st)
   | RouteRun run_id \<Rightarrow> continue_with (\<lambda>payload. Answered (answer (Inr payload))) (handle_get_run env rd run_id headers st)
   | RoutePointer pointer_id \<Rightarrow> continue_with (\<lambda>payload. Answered (answer (Inr payload))) (handle_get_pointer_summary env rd pointer_id headers st)
   | NoRoute \<Rightarrow> (Answered (answer (Inl (http_error 404 ''not_found'' (''Path '' @ quoted path @ '' is not registered.'')))), st))"

definition begin_request :: "http_env \<Rightarrow> http_reading \<Rightarrow> asgi_scope \<Rightarrow> runtime_state \<Rightarrow> request_pc \<times> runtime_state" where
  "begin_request env rd sc st =
     (if as_type sc \<noteq> ''http'' then
        (Answered \<lparr>hr_status = 500, hr_payload = ErrorPayload ''server_error'' ''Unsupported ASGI scope type.'' None, hr_headers = []\<rparr>, st)
      else let path = before_char (CHR ''?'') (he_unquote env (as_path sc)) in
        dispatch env rd (route_of (map upper_char (as_method sc)) path) path (headers_from_scope (as_headers sc)) st)"

definition submit :: "http_env \<Rightarrow> work \<Rightarrow> auth_context \<Rightarrow> body_buffer \<Rightarrow> (conc_token \<times> exec_call) handler" where
  "submit env w auth buf = (case w of ExecuteMacro \<Rightarrow> submit_execute env auth buf | ResumeRun run_id \<Rightarrow> submit_resume env run_id auth buf)"

definition receive_step :: "http_env \<Rightarrow> (string, string) dict \<Rightarrow> auth_context \<Rightarrow> work \<Rightarrow> body_buffer \<Rightarrow> asgi_message
    \<Rightarrow> runtime_state \<Rightarrow> request_pc \<times> runtime_state" where
  "receive_step env headers auth w buf msg st = (case receive_chunk env buf msg of
     Inl e \<Rightarrow> (Answered (answer (Inl e)), st)
   | Inr (buf', True) \<Rightarrow> (Reading headers auth w buf', st)
   | Inr (buf', False) \<Rightarrow> continue_with (\<lambda>(token, c). Executing headers auth w token c) (submit env w auth buf' st))"

definition finish_call :: "http_reading \<Rightarrow> work \<Rightarrow> conc_token \<Rightarrow> exec_outcome \<Rightarrow> runtime_state \<Rightarrow> request_pc \<times> runtime_state" where
  \<comment> \<open>the \<open>finally\<close> releases the token on every way out\<close>
  "finish_call rd w token outcome st =
     (case (case w of ExecuteMacro \<Rightarrow> execute_result rd outcome | ResumeRun run_id \<Rightarrow> resume_result rd run_id outcome) of
        None \<Rightarrow> (Aborted, release_slot token st)
      | Some r \<Rightarrow> (Answered (answer r), release_slot token st))"

datatype http_input = Go | Receive asgi_message | Outcome exec_outcome

fun request_step :: "http_env \<Rightarrow> http_reading \<Rightarrow> http_input \<Rightarrow> request_pc \<Rightarrow> runtime_state \<Rightarrow> (request_pc \<times> runtime_state) option" where
  "request_step env rd Go (Arrived sc) st = Some (begin_request env rd sc st)"
| "request_step env rd (Receive msg) (Reading headers auth w buf) st = Some (receive_step env headers auth w buf msg st)"
| "request_step env rd (Outcome r) (Executing headers auth w token c) st = Some (finish_call rd w token r st)"
| "request_step env rd _ _ st = None"

section \<open>The server\<close>

definition LOCAL_DEV_AUTH_LOOPBACK_HOSTS :: "string list" where
  "LOCAL_DEV_AUTH_LOOPBACK_HOSTS = [''127.0.0.1'', ''localhost'', ''::1'']"

definition is_loopback_host :: "string \<Rightarrow> bool" where
  "is_loopback_host host \<longleftrightarrow> py_lower (py_strip host) \<in> set LOCAL_DEV_AUTH_LOOPBACK_HOSTS"

definition normalize_policy :: "(pyfloat \<Rightarrow> string) \<Rightarrow> (string, pyval) dict \<Rightarrow> token_policy option" where
  \<comment> \<open>\<open>None\<close> where the loop continues with the next token\<close>
  "normalize_policy fr raw_policy =
     (let actor_id = text_field fr raw_policy ''actor_id''; auth_subject = text_field fr raw_policy ''auth_subject'';
          policy_profile = text_field fr raw_policy ''policy_profile''; template = text_field fr raw_policy ''template'';
          scopes = filter (\<lambda>scope. scope \<in> set FULL_RUNTIME_SCOPES \<or> scope = ''*'')
            (parse_scopes fr (dict_get_or raw_policy ''scopes'' (PList []))) in
      if actor_id = [] \<or> scopes = [] then None
      else Some ([(''actor_id'', PStr actor_id), (''auth_subject'', PStr (or_text auth_subject (''scoped_token:'' @ actor_id))),
             (''scopes'', PList (map PStr (py_sorted_set scopes)))]
           @ (if policy_profile = [] then [] else [(''policy_profile'', PStr policy_profile)])
           @ (if template = [] then [] else [(''template'', PStr template)])))"

definition add_policy :: "(pyfloat \<Rightarrow> string) \<Rightarrow> (string, token_policy) dict \<Rightarrow> string \<times> pyval \<Rightarrow> (string, token_policy) dict" where
  "add_policy fr normalized p = (let token = py_strip (fst p) in
     if token = [] then normalized
     else case snd p of
       PDict raw_policy \<Rightarrow> (case normalize_policy fr raw_policy of None \<Rightarrow> normalized | Some entry \<Rightarrow> AList.update token entry normalized)
     | _ \<Rightarrow> normalized)"

definition normalize_scoped_bearer_tokens :: "(pyfloat \<Rightarrow> string) \<Rightarrow> (string, pyval) dict option \<Rightarrow> (string, token_policy) dict" where
  "normalize_scoped_bearer_tokens fr raw = (case raw of None \<Rightarrow> [] | Some d \<Rightarrow> foldl (add_policy fr) [] d)"

record server_config =
  sc_host :: string
  sc_port :: int
  sc_required :: "string option"
  sc_tokens :: "(string, pyval) dict option"
  sc_rate_rules :: "(string, pyval) dict option"
  sc_concurrency :: "(string, pyval) dict option"
  sc_max_body :: int
  sc_local_dev :: bool

datatype server_error = BadPort | BadBodyLimit | NotLoopback | BadLimits guard_error

definition new_server :: "(pyfloat \<Rightarrow> string) \<Rightarrow> state_manager \<Rightarrow> server_config \<Rightarrow> server_error + runtime_state" where
  \<comment> \<open>the state of the application; its body limit is \<open>sc_max_body\<close>\<close>
  "new_server fr sm cfg =
     (if sc_port cfg < 0 \<or> 65535 < sc_port cfg then Inl BadPort
      else if sc_max_body cfg \<le> 0 then Inl BadBodyLimit
      else if sc_local_dev cfg \<and> \<not> is_loopback_host (sc_host cfg) then Inl NotLoopback
      else case normalize_rate_limit_rules (sc_rate_rules cfg) of Inl e \<Rightarrow> Inl (BadLimits e)
      | Inr rules \<Rightarrow> (case normalize_concurrency_limits (sc_concurrency cfg) of Inl e \<Rightarrow> Inl (BadLimits e)
        | Inr limits \<Rightarrow> Inr \<lparr>rt_sm = sm, rt_required = sc_required cfg,
            rt_tokens = normalize_scoped_bearer_tokens fr (sc_tokens cfg), rt_guard = new_guardrails rules limits,
            rt_local_dev = sc_local_dev cfg, rt_counters = [(''rate_limited'', 0), (''throttled'', 0)]\<rparr>))"

text \<open>The service: its state and the requests it has received. The executor, which runs between the steps
  of the requests, may change the state manager in any way.\<close>

inductive service_step :: "http_env \<Rightarrow> runtime_state \<times> request_pc list \<Rightarrow> runtime_state \<times> request_pc list \<Rightarrow> bool" for env where
  arrive: "service_step env (st, rs) (st, rs @ [Arrived sc])"
| progress: "i < length rs \<Longrightarrow> request_step env rd inp (rs ! i) st = Some (pc, st') \<Longrightarrow> service_step env (st, rs) (st', rs[i := pc])"
| executor: "service_step env (st, rs) (st\<lparr>rt_sm := sm'\<rparr>, rs)"

inductive_cases service_stepE: "service_step env (st, rs) y"

end
