(* ===== verification/EAP_Http_Safety.thy ===== *)
theory EAP_Http_Safety
  imports EAP_Http
begin

text \<open>
  What the runtime service guarantees: built token policies reach the server unchanged; the counters of the
  guardrails are the requests in execution, under every interleaving; the executor is only called for
  authorised requests, and the two read routes only answer authorised ones; request bodies are bounded.
\<close>

section \<open>Normalising built policies\<close>

declare py_strip_idem [simp]

lemma known_scope_trimmed: "scope \<in> set FULL_RUNTIME_SCOPES \<or> scope = ''*'' \<Longrightarrow> py_strip scope = scope \<and> scope \<noteq> []"
  by (auto simp: FULL_RUNTIME_SCOPES_def scope_defs py_strip_def py_is_space_def)

lemma supported_profile_trimmed: "profile \<in> set SUPPORTED_POLICY_PROFILES \<Longrightarrow> py_strip profile = profile \<and> profile \<noteq> []"
  by (auto simp: SUPPORTED_POLICY_PROFILES_def py_strip_def py_is_space_def)

lemma template_trimmed: "template \<in> set (dict_keys (dict_get_or PROFILE_TEMPLATES profile [])) \<Longrightarrow> py_strip template = template"
  by (auto simp: PROFILE_TEMPLATES_def dict_get_or_def py_strip_def py_is_space_def split: if_splits)

lemma parse_known_scopes:
  assumes "set scopes \<subseteq> insert ''*'' (set FULL_RUNTIME_SCOPES)"
  shows "parse_scopes fr (PList (map PStr scopes)) = scopes"
    and "filter (\<lambda>scope. scope \<in> set FULL_RUNTIME_SCOPES \<or> scope = ''*'') scopes = scopes"
proof -
  have "py_strip scope = scope \<and> scope \<noteq> []" if "scope \<in> set scopes" for scope
    using assms that by (intro known_scope_trimmed) auto
  then show "parse_scopes fr (PList (map PStr scopes)) = scopes"
    by (simp add: parse_scopes_def o_def py_str_def map_idI filter_id_conv)
  show "filter (\<lambda>scope. scope \<in> set FULL_RUNTIME_SCOPES \<or> scope = ''*'') scopes = scopes"
    using assms by (auto simp: filter_id_conv)
qed

lemma py_sorted_set_id: "sorted xs \<Longrightarrow> distinct xs \<Longrightarrow> py_sorted_set xs = xs"
  by (simp add: py_sorted_set_def distinct_remdups_id sorted_sort_id)

lemma normalize_policy_fixed:
  assumes "py_strip a = a" "a \<noteq> []" "py_strip s = s" "s \<noteq> []" "py_strip p = p" "p \<noteq> []" "py_strip t = t"
    and "set scopes \<subseteq> insert ''*'' (set FULL_RUNTIME_SCOPES)" "scopes \<noteq> []" "py_sorted_set scopes = scopes"
    and "policy = [(''actor_id'', PStr a), (''auth_subject'', PStr s), (''scopes'', PList (map PStr scopes)), (''policy_profile'', PStr p)]
      @ (if t = [] then [] else [(''template'', PStr t)])"
  shows "normalize_policy fr policy = Some policy"
  using assms by (cases "t = []") (simp_all add: normalize_policy_def text_field_def dict_get_or_def py_str_def
      parse_known_scopes or_text_def py_strip_def)

lemma built_policy_fixed:
  assumes "token_entry fr base index item = Inr (token, policy)"
  shows "py_strip token = token \<and> token \<noteq> [] \<and> normalize_policy fr' policy = Some policy"
proof -
  from assms obtain profile template scopes where token: "token = text_field fr item ''token''" "token \<noteq> []"
    and actor: "text_field fr item ''actor_id'' \<noteq> []" and within: "within_profile profile scopes"
    and template: "template = [] \<or> template \<in> set (dict_keys (dict_get_or PROFILE_TEMPLATES profile []))"
    and policy: "policy = [(''actor_id'', PStr (text_field fr item ''actor_id'')),
      (''auth_subject'', PStr (or_text (text_field fr item ''auth_subject'')
         (''scoped_token:'' @ profile @ '':'' @ text_field fr item ''actor_id''))),
      (''scopes'', PList (map PStr scopes)), (''policy_profile'', PStr profile)]
      @ (if template = [] then [] else [(''template'', PStr template)])"
    by (rule token_entry_cases)
  let ?actor = "text_field fr item ''actor_id''" and ?subject = "text_field fr item ''auth_subject''"
  have fld: "py_strip (text_field fr item k) = text_field fr item k" for k by (simp add: text_field_def)
  have "trimmed (CHR ''s'' # (''coped_token:'' @ profile @ '':'') @ ?actor)"
    by (rule trimmed_between) (use actor in \<open>simp_all add: text_field_def trimmed_strip py_is_space_def\<close>)
  then have "py_strip (or_text ?subject (''scoped_token:'' @ profile @ '':'' @ ?actor))
      = or_text ?subject (''scoped_token:'' @ profile @ '':'' @ ?actor)"
    using strip_trimmed fld by (simp add: or_text_def)
  moreover have "or_text ?subject (''scoped_token:'' @ profile @ '':'' @ ?actor) \<noteq> []" by (simp add: or_text_def)
  moreover have "set scopes \<subseteq> insert ''*'' (set FULL_RUNTIME_SCOPES)" "scopes \<noteq> []" "py_sorted_set scopes = scopes"
    using within allowed_known [of profile] by (auto simp: within_profile_def py_sorted_set_id)
  moreover have "py_strip profile = profile" "profile \<noteq> []"
    using within by (auto simp: within_profile_def dest: supported_profile_trimmed)
  moreover have "py_strip template = template" using template template_trimmed by (auto simp: py_strip_def)
  ultimately have "normalize_policy fr' policy = Some policy"
    using actor fld policy by (intro normalize_policy_fixed)
  then show ?thesis using token fld by simp
qed

lemma update_fresh: "k \<notin> set (dict_keys d) \<Longrightarrow> AList.update k v d = d @ [(k, v)]"
  by (induction d) auto

definition as_raw :: "(string, token_policy) dict \<Rightarrow> (string, pyval) dict" where
  "as_raw = map (\<lambda>(token, policy). (token, PDict policy))"

lemma add_policies_fixed:
  assumes "\<forall>q\<in>set ps. py_strip (fst q) = fst q \<and> fst q \<noteq> [] \<and> normalize_policy fr (snd q) = Some (snd q)"
    and "distinct (dict_keys (acc @ ps))"
  shows "foldl (add_policy fr) acc (as_raw ps) = acc @ ps"
  using assms
proof (induction ps arbitrary: acc)
  case (Cons q ps)
  obtain token policy where q: "q = (token, policy)" by force
  have "add_policy fr acc (token, PDict policy) = acc @ [q]"
    using Cons.prems q by (auto simp: add_policy_def update_fresh)
  then show ?case using Cons q by (simp add: as_raw_def)
qed (simp add: as_raw_def)

lemma built_policies_kept:
  assumes "build_scoped_token_policies fr payload dflt = Inr (policies, base)"
  shows "normalize_scoped_bearer_tokens fr' (Some (as_raw policies)) = policies"
proof -
  have "\<forall>q\<in>set policies. py_strip (fst q) = fst q \<and> fst q \<noteq> [] \<and> normalize_policy fr' (snd q) = Some (snd q)"
    using assms by (rule build_policies_all) (auto dest: built_policy_fixed)
  then show ?thesis
    using add_policies_fixed [of policies fr' "[]"] build_policies_distinct [OF assms]
    by (simp add: normalize_scoped_bearer_tokens_def)
qed

section \<open>Handlers that only meet the guardrails\<close>

text \<open>Most of a handler leaves the configuration and the state manager alone and only steps the guardrails,
  without changing the tokens that are out.\<close>

definition same_config :: "runtime_state \<Rightarrow> runtime_state \<Rightarrow> bool" where
  "same_config st st' \<longleftrightarrow> rt_required st' = rt_required st \<and> rt_tokens st' = rt_tokens st \<and> rt_local_dev st' = rt_local_dev st"

definition undisturbed :: "runtime_state \<Rightarrow> runtime_state \<Rightarrow> bool" where
  "undisturbed st st' \<longleftrightarrow> same_config st st' \<and> rt_sm st' = rt_sm st \<and> (\<forall>M. guard_step\<^sup>*\<^sup>* (rt_guard st, M) (rt_guard st', M))"

definition calm :: "'a handler \<Rightarrow> bool" where "calm m \<longleftrightarrow> (\<forall>st. undisturbed st (snd (m st)))"

named_theorems calm_intros \<open>handlers that leave everything but the guardrails alone\<close>

lemma undisturbed_refl [simp]: "undisturbed st st" by (simp add: undisturbed_def same_config_def)

lemma undisturbed_trans: "undisturbed st st1 \<Longrightarrow> undisturbed st1 st2 \<Longrightarrow> undisturbed st st2"
  unfolding undisturbed_def same_config_def by (auto intro: rtranclp_trans)

lemma calm_bind [calm_intros]: "calm m \<Longrightarrow> (\<And>x. calm (f x)) \<Longrightarrow> calm (bindH m f)"
  unfolding calm_def
proof
  fix st
  assume m: "\<forall>st. undisturbed st (snd (m st))" and f: "\<And>x. \<forall>st. undisturbed st (snd (f x st))"
  obtain r st1 where "m st = (r, st1)" by force
  then show "undisturbed st (snd (bindH m f st))" using spec [OF m, of st] f undisturbed_trans
    by (cases r) (auto simp: bindH_def)
qed

lemma calm_basic [calm_intros]: "calm (retH x)" "calm (failH e)" "calm (liftH r)" "calm (of_sm env f h)" "calm (require_auth env headers scope)"
  by (auto simp: calm_def retH_def failH_def liftH_def of_sm_def require_auth_def split: sum.splits option.splits)

lemma calm_if [calm_intros]: "calm a \<Longrightarrow> calm b \<Longrightarrow> calm (if c then a else b)" by simp

lemma calm_rate [calm_intros]: "calm (enforce_rate_limit env rd operation auth)"
proof -
  have "undisturbed st (record_guardrail_event k (st\<lparr>rt_guard := g\<rparr>)) \<and> undisturbed st (st\<lparr>rt_guard := g\<rparr>)"
    if "check_rate_limit (rt_guard st) operation actor now = Inr (d, g)" for st k actor now d g
    using step_rate [OF that] by (auto simp: undisturbed_def same_config_def record_guardrail_event_def)
  then show ?thesis
    by (auto simp: calm_def enforce_rate_limit_def Let_def split: sum.splits)
qed

lemma calm_access [calm_intros]: "calm (check_run_access env run_id auth scope)"
  unfolding check_run_access_def by (intro calm_intros)

lemma calm_begin: "calm (begin_execute env rd headers)" "calm (begin_resume env rd run_id headers)"
  unfolding begin_execute_def begin_resume_def by (intro calm_intros)+

lemma calm_get_run: "calm (handle_get_run env rd run_id headers)"
  unfolding handle_get_run_def by (intro calm_intros)

lemma calm_get_pointer: "calm (handle_get_pointer_summary env rd pointer_id headers)"
  unfolding handle_get_pointer_summary_def by (auto intro!: calm_intros split: option.split)

lemma bindH_Inr_iff: "bindH m f st = (Inr y, st') \<longleftrightarrow> (\<exists>x st1. m st = (Inr x, st1) \<and> f x st1 = (Inr y, st'))"
  by (auto simp: bindH_def split: prod.splits sum.splits)

lemma handler_simps [simp]: "retH x st = (Inr y, st') \<longleftrightarrow> x = y \<and> st' = st" "failH e st \<noteq> (Inr y, st')"
  "liftH r st = (Inr y, st') \<longleftrightarrow> r = Inr y \<and> st' = st"
  "of_sm env f h st = (Inr y, st') \<longleftrightarrow> f (rt_sm st) = Inr y \<and> st' = st"
  by (auto simp: retH_def failH_def liftH_def of_sm_def split: sum.splits)

section \<open>Tokens held by the requests\<close>

definition takes :: "runtime_state \<Rightarrow> runtime_state \<Rightarrow> conc_token \<Rightarrow> bool" where
  "takes st st' t \<longleftrightarrow> same_config st st' \<and> rt_sm st' = rt_sm st \<and> (\<forall>M. guard_step\<^sup>*\<^sup>* (rt_guard st, M) (rt_guard st', add_mset t M))"

lemma acquire_slot_effect:
  assumes "acquire_slot operation run_id st = (r, st')"
  shows "case r of Inl e \<Rightarrow> undisturbed st st' | Inr t \<Rightarrow> t = \<lparr>ct_operation = operation, ct_run = run_id\<rparr> \<and> takes st st' t"
proof -
  obtain d t g where acq: "acquire_concurrency (rt_guard st) operation run_id = ((d, t), g)" by (metis surj_pair)
  have allowed: "cd_allowed d \<longleftrightarrow> t \<noteq> None"
    using acq by (auto simp: acquire_concurrency_def Let_def deny_def split: if_splits)
  show ?thesis
  proof (cases t)
    case None
    then have "\<forall>M. guard_step\<^sup>*\<^sup>* (rt_guard st, M) (g, M)" using acq by (auto intro: step_deny)
    then show ?thesis using assms acq None
      by (auto simp: acquire_slot_def undisturbed_def same_config_def record_guardrail_event_def)
  next
    case (Some tok)
    then have "\<forall>M. guard_step\<^sup>*\<^sup>* (rt_guard st, M) (g, add_mset tok M)" using acq by (auto intro: step_acquire)
    then show ?thesis using assms acq Some allowed acquire_token [of "rt_guard st" operation run_id d tok g]
      by (auto simp: acquire_slot_def takes_def same_config_def)
  qed
qed

definition work_token :: "work \<Rightarrow> conc_token" where
  "work_token w = (case w of ExecuteMacro \<Rightarrow> \<lparr>ct_operation = ''macro_execute'', ct_run = None\<rparr>
     | ResumeRun run_id \<Rightarrow> \<lparr>ct_operation = ''run_resume'', ct_run = Some run_id\<rparr>)"

definition call_matches :: "http_env \<Rightarrow> work \<Rightarrow> auth_context \<Rightarrow> exec_call \<Rightarrow> bool" where
  \<comment> \<open>the call carries the caller's identity, and a macro that passed validation or the run that was asked for\<close>
  "call_matches env w auth c \<longleftrightarrow> (case w of
     ExecuteMacro \<Rightarrow> \<exists>m v. c = CallExecute m (to_actor_metadata auth ''execute'') \<and> he_validate env v = Inr m
   | ResumeRun run_id \<Rightarrow> \<exists>approvals. c = CallResume run_id approvals (to_actor_metadata auth ''resume''))"

lemma bindH_acquire_effect:
  assumes "bindH (acquire_slot operation run_id) (\<lambda>token. retH (token, c)) st = (r, st')"
  shows "case r of Inl e \<Rightarrow> undisturbed st st' | Inr (t, c') \<Rightarrow> t = \<lparr>ct_operation = operation, ct_run = run_id\<rparr> \<and> takes st st' t \<and> c' = c"
  using assms acquire_slot_effect [of operation run_id st]
  by (cases "acquire_slot operation run_id st") (auto simp: bindH_def retH_def split: sum.splits)

lemma submit_execute_effect:
  assumes "submit_execute env auth buf st = (r, st')"
  shows "case r of Inl e \<Rightarrow> undisturbed st st' | Inr (t, c) \<Rightarrow> t = work_token ExecuteMacro \<and> takes st st' t \<and> call_matches env ExecuteMacro auth c"
proof (cases "parse_body env True buf")
  case (Inr payload)
  let ?v = "dict_get_or payload ''macro'' PNone"
  show ?thesis
  proof (cases "he_validate env ?v")
    case (Inr m)
    have "?v = PNone \<or> bindH (acquire_slot ''macro_execute'' None) (\<lambda>token. retH (token, CallExecute m (to_actor_metadata auth ''execute''))) st = (r, st')"
      using assms Inr \<open>parse_body env True buf = Inr payload\<close>
      by (cases ?v) (auto simp: submit_execute_def bindH_def [of "liftH _"] liftH_def)
    then show ?thesis
    proof
      assume "?v = PNone"
      then show ?thesis using assms \<open>parse_body env True buf = Inr payload\<close>
        by (auto simp: submit_execute_def bindH_def liftH_def failH_def)
    qed (use Inr in \<open>auto dest!: bindH_acquire_effect simp: work_token_def call_matches_def split: sum.splits prod.splits\<close>)
  qed (use assms Inr in \<open>auto simp: submit_execute_def bindH_def liftH_def failH_def split: pyval.splits\<close>)
qed (use assms in \<open>auto simp: submit_execute_def bindH_def liftH_def\<close>)

lemma submit_resume_effect:
  assumes "submit_resume env run_id auth buf st = (r, st')"
  shows "case r of Inl e \<Rightarrow> undisturbed st st' | Inr (t, c) \<Rightarrow> t = work_token (ResumeRun run_id) \<and> takes st st' t
    \<and> call_matches env (ResumeRun run_id) auth c"
proof (cases "parse_body env False buf")
  case (Inr payload)
  let ?v = "dict_get_or payload ''approvals'' PNone"
  have "(\<exists>approvals. bindH (acquire_slot ''run_resume'' (Some run_id))
      (\<lambda>token. retH (token, CallResume run_id approvals (to_actor_metadata auth ''resume''))) st = (r, st')) \<or> (\<exists>e. r = Inl e) \<and> st' = st"
    using assms Inr
    by (cases ?v) (auto simp: submit_resume_def bindH_def [of "liftH _"] liftH_def bindH_def [of "retH _"] retH_def [of "_::_ option"]
        bindH_def [of "failH _"] failH_def)
  then show ?thesis
    by (auto dest!: bindH_acquire_effect simp: work_token_def call_matches_def split: sum.splits prod.splits)
qed (use assms in \<open>auto simp: submit_resume_def bindH_def liftH_def\<close>)

lemma submit_effect:
  assumes "submit env w auth buf st = (r, st')"
  shows "case r of Inl e \<Rightarrow> undisturbed st st' | Inr (t, c) \<Rightarrow> t = work_token w \<and> takes st st' t \<and> call_matches env w auth c"
proof (cases w)
  case ExecuteMacro
  show ?thesis unfolding ExecuteMacro by (rule submit_execute_effect) (use assms ExecuteMacro in \<open>simp add: submit_def\<close>)
next
  case (ResumeRun run_id)
  show ?thesis unfolding ResumeRun by (rule submit_resume_effect) (use assms ResumeRun in \<open>simp add: submit_def\<close>)
qed

text \<open>The tokens of the requests in execution.\<close>

fun held :: "request_pc \<Rightarrow> conc_token multiset" where
  "held (Executing _ _ _ token _) = {#token#}"
| "held _ = {#}"

definition tokens :: "request_pc list \<Rightarrow> conc_token multiset" where
  "tokens rs = sum_list (map held rs)"

lemma tokens_update: "i < length rs \<Longrightarrow> tokens rs = held (rs ! i) + tokens (take i rs @ drop (Suc i) rs)
    \<and> tokens (rs[i := pc]) = held pc + tokens (take i rs @ drop (Suc i) rs)"
  by (subst (1) id_take_nth_drop, simp, subst upd_conv_take_nth_drop, simp) (simp add: tokens_def ac_simps)

lemma continue_with_cases:
  assumes "continue_with f r = (pc, st')"
  obtains e where "r = (Inl e, st')" and "pc = Answered (answer (Inl e))" | x where "r = (Inr x, st')" and "pc = f x"
  using assms by (cases r; cases "fst r") (auto simp: continue_with_def)

lemma calmD: "calm m \<Longrightarrow> m st = (r, st') \<Longrightarrow> undisturbed st st'"
  unfolding calm_def by (metis snd_conv)

lemma begin_request_effect:
  assumes "begin_request env rd sc st = (pc, st')"
  shows "undisturbed st st' \<and> held pc = {#}"
proof -
  have "dispatch env rd r path headers st = (pc, st') \<Longrightarrow> undisturbed st st' \<and> held pc = {#}" for r path headers
    by (cases r) (auto simp: dispatch_def elim!: continue_with_cases
        dest: calmD [OF calm_begin(1)] calmD [OF calm_begin(2)] calmD [OF calm_get_run] calmD [OF calm_get_pointer])
  then show ?thesis using assms by (auto simp: begin_request_def Let_def split: if_splits)
qed

lemma receive_step_effect:
  assumes "receive_step env headers auth w buf msg st = (pc, st')"
  shows "same_config st st' \<and> (\<forall>M. guard_step\<^sup>*\<^sup>* (rt_guard st, M) (rt_guard st', held pc + M))"
proof (cases "receive_chunk env buf msg")
  case (Inr x)
  obtain buf' again where x: "x = (buf', again)" by force
  show ?thesis
  proof (cases again)
    case False
    then have "continue_with (\<lambda>(token, c). Executing headers auth w token c) (submit env w auth buf' st) = (pc, st')"
      using assms Inr x by (simp add: receive_step_def)
    then show ?thesis
      by (rule continue_with_cases) (auto dest!: submit_effect simp: undisturbed_def takes_def split: prod.splits)
  qed (use assms Inr x in \<open>auto simp: receive_step_def same_config_def\<close>)
qed (use assms in \<open>auto simp: receive_step_def same_config_def\<close>)

lemma finish_call_effect:
  assumes "finish_call rd w token r st = (pc, st')"
  shows "same_config st st' \<and> held pc = {#} \<and> guard_step (rt_guard st, add_mset token M) (rt_guard st', M)"
  using assms step_release [of token "add_mset token M" "rt_guard st"]
  by (auto simp: finish_call_def release_slot_def same_config_def split: option.splits)

lemma request_step_guard:
  assumes "request_step env rd inp pc st = Some (pc', st')"
  shows "same_config st st' \<and> guard_step\<^sup>*\<^sup>* (rt_guard st, held pc + M) (rt_guard st', held pc' + M)"
  using assms
proof (cases rule: request_step.cases [of "(env, rd, inp, pc, st)"])
  case (1 env' rd' sc st1)
  then show ?thesis using assms begin_request_effect [of env rd sc st pc' st'] by (simp add: undisturbed_def)
next
  case (2 env' rd' msg headers auth w buf st1)
  then show ?thesis using assms receive_step_effect [of env headers auth w buf msg st pc' st'] by simp
next
  case (3 env' rd' r headers auth w token c st1)
  then show ?thesis using assms finish_call_effect [of rd w token r st pc' st' M] by auto
qed (use assms in auto)

text \<open>A step of the service is a sequence of steps of the guardrails, whose outstanding tokens are those that the
  requests hold.\<close>

lemma service_simulates:
  assumes "service_step env (st, rs) (st', rs')"
  shows "same_config st st' \<and> guard_step\<^sup>*\<^sup>* (rt_guard st, tokens rs) (rt_guard st', tokens rs')"
  using assms
proof (rule service_stepE)
  fix i rd inp pc st1
  assume i: "i < length rs" and step: "request_step env rd inp (rs ! i) st = Some (pc, st1)" and y: "(st', rs') = (st1, rs[i := pc])"
  show ?thesis
    using request_step_guard [OF step, of "tokens (take i rs @ drop (Suc i) rs)"] tokens_update [OF i] y by simp
qed (simp_all add: same_config_def tokens_def)

lemma service_run_simulates:
  assumes "(service_step env)\<^sup>*\<^sup>* (st0, rs0) y"
  shows "same_config st0 (fst y) \<and> guard_step\<^sup>*\<^sup>* (rt_guard st0, tokens rs0) (rt_guard (fst y), tokens (snd y))"
  using assms
proof (induction rule: rtranclp_induct)
  case (step y z)
  then show ?case using service_simulates [of env "fst y" "snd y" "fst z" "snd z"]
    by (auto simp: same_config_def)
qed (simp add: same_config_def)

lemma new_server_guard:
  assumes "new_server fr sm cfg = Inr st0"
  obtains rules where "rt_guard st0 = new_guardrails rules (gr_limits (rt_guard st0))" and "validate_limits (gr_limits (rt_guard st0)) = Inr ()"
proof -
  have limits: "gr_limits (new_guardrails r l) = l" for r l by (simp add: new_guardrails_def)
  show ?thesis using assms that by (auto simp: new_server_def limits dest: normalize_limits_ok split: if_splits sum.splits)
qed

lemma service_guard_inv:
  assumes "new_server fr sm cfg = Inr st0" and "(service_step env)\<^sup>*\<^sup>* (st0, []) (st, rs)"
  shows "guard_inv (gr_limits (rt_guard st0)) (rt_guard st, tokens rs)"
proof -
  obtain rules where g: "rt_guard st0 = new_guardrails rules (gr_limits (rt_guard st0))"
    and l: "validate_limits (gr_limits (rt_guard st0)) = Inr ()" by (rule new_server_guard [OF assms(1)])
  have "guard_step\<^sup>*\<^sup>* (rt_guard st0, {#}) (rt_guard st, tokens rs)"
    using service_run_simulates [OF assms(2)] by (simp add: tokens_def)
  with g have "guard_step\<^sup>*\<^sup>* (new_guardrails rules (gr_limits (rt_guard st0)), {#}) (rt_guard st, tokens rs)" by simp
  then show ?thesis using l by (rule guard_reachable_inv)
qed

section \<open>Error responses\<close>

definition err_ok :: "http_exn \<Rightarrow> bool" where
  "err_ok e \<longleftrightarrow> (case e of HTTPResponse r \<Rightarrow> 400 \<le> hr_status r | OtherException _ \<Rightarrow> True)"

definition proper :: "'a handler \<Rightarrow> bool" where "proper m \<longleftrightarrow> (\<forall>st e st'. m st = (Inl e, st') \<longrightarrow> err_ok e)"

named_theorems proper_intros \<open>handlers whose exceptions are error responses\<close>

lemma err_ok_error [proper_intros]: "400 \<le> status \<Longrightarrow> err_ok (http_error_with status t m d h)" "400 \<le> status \<Longrightarrow> err_ok (http_error status t m)"
  "err_ok (OtherException t')"
  by (simp_all add: err_ok_def http_error_def http_error_with_def)

lemma proper_bind [proper_intros]: "proper m \<Longrightarrow> (\<And>x. proper (f x)) \<Longrightarrow> proper (bindH m f)"
  by (auto simp: proper_def bindH_def split: prod.splits sum.splits)

lemma proper_basic [proper_intros]: "proper (retH x)" "err_ok e \<Longrightarrow> proper (failH e)"
  "(\<And>e. r = Inl e \<Longrightarrow> err_ok e) \<Longrightarrow> proper (liftH r)"
  by (auto simp: proper_def retH_def failH_def liftH_def)

lemma proper_sm [proper_intros]: "(\<And>e x. h e = Some x \<Longrightarrow> err_ok x) \<Longrightarrow> proper (of_sm env f h)"
  by (auto simp: proper_def of_sm_def err_ok_error split: sum.splits option.splits)

lemma proper_auth [proper_intros]: "proper (require_auth env headers scope)"
  by (auto simp: proper_def require_auth_def err_ok_error split: option.splits if_splits)

lemma proper_rate [proper_intros]: "proper (enforce_rate_limit env rd operation auth)"
  by (auto simp: proper_def enforce_rate_limit_def Let_def err_ok_error split: sum.splits if_splits)

lemma proper_if [proper_intros]: "proper a \<Longrightarrow> proper b \<Longrightarrow> proper (if c then a else b)" by simp

lemma proper_access [proper_intros]: "proper (check_run_access env run_id auth scope)"
  unfolding check_run_access_def by (intro proper_intros) simp_all

lemma proper_begin: "proper (begin_execute env rd headers)" "proper (begin_resume env rd run_id headers)"
  unfolding begin_execute_def begin_resume_def by (intro proper_intros; simp)+

lemma proper_get_run: "proper (handle_get_run env rd run_id headers)"
  unfolding handle_get_run_def by (intro proper_intros) (auto simp: err_ok_error split: sm_error.splits)

lemma proper_get_pointer: "proper (handle_get_pointer_summary env rd pointer_id headers)"
  unfolding handle_get_pointer_summary_def by (auto intro!: proper_intros split: option.split)

lemma properD: "proper m \<Longrightarrow> m st = (Inl e, st') \<Longrightarrow> err_ok e"
  unfolding proper_def by blast

lemma answer_error: "err_ok e \<Longrightarrow> 400 \<le> hr_status (answer (Inl e))"
  by (auto simp: answer_def err_ok_def split: http_exn.splits)

section \<open>Access control\<close>

definition authorised :: "http_env \<Rightarrow> runtime_state \<Rightarrow> (string, string) dict \<Rightarrow> auth_context \<Rightarrow> string \<Rightarrow> bool" where
  \<comment> \<open>the headers identify the caller, and the caller has the scope\<close>
  "authorised env st headers auth scope \<longleftrightarrow> resolve_auth_context env st headers = Some auth \<and> has_scope auth scope"

definition access_granted :: "state_manager \<Rightarrow> auth_context \<Rightarrow> string \<Rightarrow> string \<Rightarrow> bool" where
  \<comment> \<open>the run has no owner, or the caller owns it, or has the scope for the runs of others\<close>
  "access_granted sm auth any_scope run_id \<longleftrightarrow> (\<exists>meta. get_run_actor_metadata sm run_id = Inr meta \<and> may_access auth any_scope meta)"

lemma authorised_config: "same_config st st' \<Longrightarrow> authorised env st' headers auth scope = authorised env st headers auth scope"
  unfolding authorised_def same_config_def resolve_auth_context_def by (elim conjE) (simp only:)

lemma require_auth_Inr [simp]: "require_auth env headers scope st = (Inr auth, st') \<longleftrightarrow> authorised env st headers auth scope \<and> st' = st"
  by (auto simp: require_auth_def authorised_def split: option.splits if_splits)

lemma rate_Inr_sm: "enforce_rate_limit env rd operation auth st = (Inr u, st') \<Longrightarrow> rt_sm st' = rt_sm st"
  using calmD [OF calm_rate] by (auto simp: undisturbed_def)

lemma check_access_Inr [simp]: "check_run_access env run_id auth scope st = (Inr u, st') \<longleftrightarrow> access_granted (rt_sm st) auth scope run_id \<and> st' = st"
  by (auto simp: check_run_access_def bindH_Inr_iff access_granted_def split: if_splits)

fun work_scope :: "work \<Rightarrow> string" where
  "work_scope ExecuteMacro = SCOPE_RUNS_EXECUTE"
| "work_scope (ResumeRun _) = SCOPE_RUNS_RESUME"

fun work_access :: "state_manager \<Rightarrow> auth_context \<Rightarrow> work \<Rightarrow> bool" where
  "work_access sm auth ExecuteMacro = True"
| "work_access sm auth (ResumeRun run_id) = access_granted sm auth SCOPE_RUNS_RESUME_ANY run_id"

fun read_justified :: "http_env \<Rightarrow> runtime_state \<Rightarrow> int \<Rightarrow> (string, string) dict \<Rightarrow> http_payload \<Rightarrow> bool" where
  \<comment> \<open>the answer of a read route is what the state manager holds, and the caller may see it\<close>
  "read_justified env st now headers (RunPayload _ run_id status summary meta events) \<longleftrightarrow>
     (\<exists>auth. authorised env st headers auth SCOPE_RUNS_READ \<and> access_granted (rt_sm st) auth SCOPE_RUNS_READ_ANY run_id)
     \<and> get_execution_summary (rt_sm st) run_id = Inr summary \<and> list_trace_events (rt_sm st) run_id = Inr events
     \<and> get_run_actor_metadata (rt_sm st) run_id = Inr meta \<and> status = (if 0 < su_failed summary then ''failed'' else ''succeeded'')"
| "read_justified env st now headers (SummaryPayload _ pointer) \<longleftrightarrow>
     (\<exists>auth. authorised env st headers auth SCOPE_POINTERS_READ
        \<and> (\<forall>run_id. pointer_run pointer = Some run_id \<longrightarrow>
              has_scope auth SCOPE_POINTERS_READ_ANY \<or> access_granted (rt_sm st) auth SCOPE_RUNS_READ_ANY run_id))
     \<and> (\<exists>pointers. sm_list_pointers (rt_sm st) True now None = Inr pointers \<and> pointer \<in> set pointers)"
| "read_justified env st now headers _ \<longleftrightarrow> False"

lemma read_justified_authorised: "read_justified env st now headers payload \<Longrightarrow> \<exists>auth scope. authorised env st headers auth scope"
  by (cases payload) auto

lemma find_Some_in: "find P xs = Some x \<Longrightarrow> x \<in> set xs"
  by (metis find_Some_iff nth_mem)

lemma get_run_justified:
  "handle_get_run env rd run_id headers st = (Inr payload, st') \<Longrightarrow> read_justified env st (hd_now rd) headers payload"
  unfolding handle_get_run_def
  by (auto simp: bindH_Inr_iff dest!: rate_Inr_sm split: if_splits)

lemma get_pointer_justified:
  assumes "handle_get_pointer_summary env rd pointer_id headers st = (Inr payload, st')"
  shows "read_justified env st (hd_now rd) headers payload"
proof -
  obtain auth st1 pointers where auth: "authorised env st headers auth SCOPE_POINTERS_READ"
    and sm: "rt_sm st1 = rt_sm st" and pointers: "sm_list_pointers (rt_sm st) True (hd_now rd) None = Inr pointers"
    and rest: "(case find (\<lambda>item. pi_id item = pointer_id) pointers of
       None \<Rightarrow> failH (http_error 404 ''not_found'' (''Pointer '' @ quoted pointer_id @ '' not found.''))
     | Some pointer \<Rightarrow>
         bindH (case pointer_run pointer of None \<Rightarrow> retH ()
            | Some run_id \<Rightarrow> if has_scope auth SCOPE_POINTERS_READ_ANY then retH ()
                else check_run_access env run_id auth SCOPE_RUNS_READ_ANY) (\<lambda>_.
         retH (SummaryPayload (hd_stamp rd) pointer))) st1 = (Inr payload, st')"
    using assms unfolding handle_get_pointer_summary_def
    by (auto simp: bindH_Inr_iff dest!: rate_Inr_sm split: if_splits)
  then obtain pointer where "find (\<lambda>item. pi_id item = pointer_id) pointers = Some pointer"
    by (cases "find (\<lambda>item. pi_id item = pointer_id) pointers") auto
  then show ?thesis using auth sm pointers rest
    by (auto simp: bindH_Inr_iff dest: find_Some_in split: option.splits if_splits)
qed

lemma begin_execute_Inr: "begin_execute env rd headers st = (Inr auth, st') \<Longrightarrow> authorised env st headers auth SCOPE_RUNS_EXECUTE"
  by (auto simp: begin_execute_def bindH_Inr_iff)

lemma begin_resume_Inr: "begin_resume env rd run_id headers st = (Inr auth, st') \<Longrightarrow>
    authorised env st headers auth SCOPE_RUNS_RESUME \<and> access_granted (rt_sm st) auth SCOPE_RUNS_RESUME_ANY run_id"
  by (auto simp: begin_resume_def bindH_Inr_iff dest!: rate_Inr_sm split: if_splits)

lemma begin_request_dispatch:
  assumes "begin_request env rd sc st = (pc, st')"
  obtains response where "pc = Answered response" and "hr_status response = 500"
  | r path where "dispatch env rd r path (headers_from_scope (as_headers sc)) st = (pc, st')"
  using assms by (auto simp: begin_request_def Let_def split: if_splits)

lemma begin_request_live: "begin_request env rd sc st \<noteq> (Aborted, st')" "begin_request env rd sc st \<noteq> (Arrived sc', st')"
proof -
  have "dispatch env rd r path headers st \<noteq> (Aborted, st') \<and> dispatch env rd r path headers st \<noteq> (Arrived sc', st')" for r path headers
    by (cases r) (auto simp: dispatch_def elim!: continue_with_cases)
  then show "begin_request env rd sc st \<noteq> (Aborted, st')" "begin_request env rd sc st \<noteq> (Arrived sc', st')"
    by (auto simp: begin_request_def Let_def)
qed

lemma begin_request_reading:
  assumes "begin_request env rd sc st = (Reading headers auth w buf, st')"
  shows "authorised env st headers auth (work_scope w) \<and> work_access (rt_sm st) auth w \<and> buf = empty_buffer"
  using assms
proof (rule begin_request_dispatch)
  fix r path
  assume d: "dispatch env rd r path (headers_from_scope (as_headers sc)) st = (Reading headers auth w buf, st')"
  show ?thesis
    using d by (cases r) (auto simp: dispatch_def dest!: begin_execute_Inr begin_resume_Inr elim!: continue_with_cases)
qed simp

lemma begin_request_answered:
  assumes "begin_request env rd sc st = (Answered response, st')"
  shows "400 \<le> hr_status response
    \<or> hr_status response = 200 \<and> read_justified env st (hd_now rd) (headers_from_scope (as_headers sc)) (hr_payload response)"
  using assms
proof (rule begin_request_dispatch)
  fix r path
  assume d: "dispatch env rd r path (headers_from_scope (as_headers sc)) st = (Answered response, st')"
  have ok: "hr_payload (answer (Inr payload)) = payload" "hr_status (answer (Inr payload)) = 200" for payload
    by (simp_all add: answer_def)
  note errors = answer_error [OF properD [OF proper_begin(1)]] answer_error [OF properD [OF proper_begin(2)]]
    answer_error [OF properD [OF proper_get_run]] answer_error [OF properD [OF proper_get_pointer]]
  show ?thesis
    using d by (cases r) (auto simp: dispatch_def ok get_run_justified get_pointer_justified answer_error err_ok_error
        dest: errors elim!: continue_with_cases)
qed simp

definition buffer_ok :: "http_env \<Rightarrow> body_buffer \<Rightarrow> bool" where
  "buffer_ok env buf \<longleftrightarrow> bb_total buf = int (length (concat (bb_chunks buf))) \<and> bb_total buf \<le> max 0 (he_max_body env)"

lemma receive_chunk_ok: "receive_chunk env buf msg = Inr (buf', again) \<Longrightarrow> buffer_ok env buf \<Longrightarrow> buffer_ok env buf'"
  by (auto simp: receive_chunk_def buffer_ok_def Let_def split: asgi_message.splits asgi_chunk.splits if_splits)

text \<open>What holds of a request in progress: at some moment of the past, \<open>(st1, rs1)\<close>, the caller was allowed to do
  the work.\<close>

definition checked :: "http_env \<Rightarrow> runtime_state \<Rightarrow> runtime_state \<times> request_pc list \<Rightarrow> (string, string) dict \<Rightarrow> auth_context \<Rightarrow> work \<Rightarrow> bool" where
  "checked env st0 y headers auth w \<longleftrightarrow> authorised env st0 headers auth (work_scope w)
     \<and> (\<exists>st1 rs1. (service_step env)\<^sup>*\<^sup>* (st0, []) (st1, rs1) \<and> (service_step env)\<^sup>*\<^sup>* (st1, rs1) y \<and> work_access (rt_sm st1) auth w)"

fun request_ok :: "http_env \<Rightarrow> runtime_state \<Rightarrow> runtime_state \<times> request_pc list \<Rightarrow> request_pc \<Rightarrow> bool" where
  "request_ok env st0 y (Reading headers auth w buf) \<longleftrightarrow> checked env st0 y headers auth w \<and> buffer_ok env buf"
| "request_ok env st0 y (Executing headers auth w token c) \<longleftrightarrow> checked env st0 y headers auth w \<and> call_matches env w auth c"
| "request_ok env st0 y _ \<longleftrightarrow> True"

lemma checked_later: "checked env st0 y headers auth w \<Longrightarrow> service_step env y z \<Longrightarrow> checked env st0 z headers auth w"
  unfolding checked_def by (meson rtranclp.rtrancl_into_rtrancl)

lemma request_ok_later: "request_ok env st0 y pc \<Longrightarrow> service_step env y z \<Longrightarrow> request_ok env st0 z pc"
  by (cases pc) (auto intro: checked_later)

lemma receive_step_ok:
  assumes "receive_step env headers auth w buf msg st = (pc, st')" and "checked env st0 y headers auth w" and "buffer_ok env buf"
  shows "request_ok env st0 y pc"
proof (cases "receive_chunk env buf msg")
  case (Inr x)
  obtain buf' again where x: "x = (buf', again)" by force
  show ?thesis
  proof (cases again)
    case False
    then have "continue_with (\<lambda>(token, c). Executing headers auth w token c) (submit env w auth buf' st) = (pc, st')"
      using assms Inr x by (simp add: receive_step_def)
    then show ?thesis using assms(2)
      by (elim continue_with_cases) (auto dest!: submit_effect split: prod.splits)
  qed (use assms Inr x receive_chunk_ok in \<open>auto simp: receive_step_def\<close>)
qed (use assms in \<open>auto simp: receive_step_def\<close>)

lemma finish_call_ok: "finish_call rd w token r st = (pc, st') \<Longrightarrow> request_ok env st0 y pc"
  by (auto simp: finish_call_def split: option.splits)

lemma begin_request_ok:
  assumes "begin_request env rd sc st = (pc, st')" and "(service_step env)\<^sup>*\<^sup>* (st0, []) (st, rs)"
    and "service_step env (st, rs) z"
  shows "request_ok env st0 z pc"
proof (cases pc)
  case (Reading headers auth w buf)
  have r: "authorised env st headers auth (work_scope w) \<and> work_access (rt_sm st) auth w \<and> buf = empty_buffer"
    using begin_request_reading assms(1) Reading by blast
  moreover have "same_config st0 st" using service_run_simulates [OF assms(2)] by simp
  ultimately have "checked env st0 z headers auth w" unfolding checked_def
    using assms(2,3) authorised_config by blast
  moreover have "buffer_ok env empty_buffer" by (simp add: buffer_ok_def empty_buffer_def)
  ultimately show ?thesis using Reading r by simp
next
  case (Executing headers auth w token c)
  then show ?thesis using begin_request_effect [OF assms(1)] by simp
qed simp_all

lemma service_requests_ok:
  assumes "(service_step env)\<^sup>*\<^sup>* (st0, []) y"
  shows "\<forall>pc\<in>set (snd y). request_ok env st0 y pc"
  using assms
proof (induction rule: rtranclp_induct)
  case (step y z)
  obtain st rs where y: "y = (st, rs)" by force
  have keep: "\<forall>pc\<in>set rs. request_ok env st0 z pc" using step.IH request_ok_later [OF _ step.hyps(2)] by (auto simp: y)
  from step.hyps(2) show ?case unfolding y
  proof (rule service_stepE)
    fix i rd inp pc st'
    assume i: "i < length rs" and r: "request_step env rd inp (rs ! i) st = Some (pc, st')" and z: "z = (st', rs[i := pc])"
    have "request_ok env st0 z (rs ! i)" using keep i by simp
    then have "request_ok env st0 z pc"
      using r step.hyps y
      by (cases rule: request_step.cases [of "(env, rd, inp, rs ! i, st)"])
         (auto intro: receive_step_ok finish_call_ok begin_request_ok)
    then show ?thesis using keep z set_update_subset_insert [of rs i pc] by auto
  qed (use keep in auto)
qed simp

end
