(* ===== verification/EAP_Http_Properties.thy ===== *)
theory EAP_Http_Properties
  imports EAP_Http_Safety
begin

text \<open>
  The properties of the runtime service: what the configuration of tokens becomes, limits on requests in
  execution, authorisation of every effect and every answer, the limit on request bodies.
\<close>

section \<open>A service to run\<close>

definition small_macro :: macro_request where
  "small_macro = \<lparr>mr_steps = [], mr_final_only = True, mr_retry = default_retry_policy, mr_limits = None, mr_approvals = []\<rparr>"

definition small_env :: http_env where
  "small_env = \<lparr>he_py = \<lparr>pe_float = (\<lambda>_. ''0.5''), pe_sizeof = (\<lambda>_. 64), pe_iso = (\<lambda>_. ''2026'')\<rparr>, he_max_body = 8,
     he_unquote = (\<lambda>p. p), he_loads = (\<lambda>s. if s = ''{m}'' then Some (PDict [(''macro'', PInt 1)]) else None),
     he_validate = (\<lambda>_. Inr small_macro), he_text = (\<lambda>_. [])\<rparr>"

definition small_config :: server_config where
  "small_config = \<lparr>sc_host = ''127.0.0.1'', sc_port = 0, sc_required = None, sc_tokens = Some (as_raw sample_policies),
     sc_rate_rules = None, sc_concurrency = None, sc_max_body = 8, sc_local_dev = False\<rparr>"

definition small_state :: runtime_state where
  "small_state = (case new_server (\<lambda>_. ''0.5'') init_state_manager small_config of Inr st \<Rightarrow> st)"

definition small_reading :: http_reading where
  "small_reading = \<lparr>hd_clock = 0, hd_now = 0, hd_stamp = (''req'', ''2026'')\<rparr>"

definition small_scope :: "string \<Rightarrow> string \<Rightarrow> asgi_scope" where
  "small_scope method path = \<lparr>as_type = ''http'', as_method = method, as_path = path,
     as_headers = Some [Header ''Authorization'' ''Bearer t-ann'']\<rparr>"

fun drive :: "http_env \<Rightarrow> (nat \<times> http_input) list \<Rightarrow> runtime_state \<times> request_pc list \<Rightarrow> (runtime_state \<times> request_pc list) option" where
  "drive env [] y = Some y"
| "drive env ((i, inp) # xs) (st, rs) = (if i < length rs then (case request_step env small_reading inp (rs ! i) st of
     None \<Rightarrow> None | Some (pc, st') \<Rightarrow> drive env xs (st', rs[i := pc])) else None)"

lemma drive_runs: "drive env xs y = Some z \<Longrightarrow> (service_step env)\<^sup>*\<^sup>* y z"
proof (induction env xs y rule: drive.induct)
  case (2 env i inp xs st rs)
  then obtain pc st' where i: "i < length rs" and step: "request_step env small_reading inp (rs ! i) st = Some (pc, st')"
    and rest: "drive env xs (st', rs[i := pc]) = Some z" by (auto split: if_splits option.splits)
  have "service_step env (st, rs) (st', rs[i := pc])" using i step by (rule progress)
  with 2(1) [OF i step refl rest] show ?case by (rule converse_rtranclp_into_rtranclp [rotated])
qed simp

lemma arrived: "(service_step env)\<^sup>*\<^sup>* (st, []) (st, [Arrived sc])"
  using arrive [of env st "[]" sc] by (simp add: r_into_rtranclp)

text \<open>A request to execute a macro whose body came in two pieces.\<close>

definition executing :: "runtime_state \<times> request_pc list" where
  "executing = (case drive small_env [(0, Go), (0, Receive (Message (Bytes ''{m'') True)), (0, Receive (Message (Bytes ''}'') False))]
     (small_state, [Arrived (small_scope ''POST'' ''/v1/eap/macro/execute'')]) of Some y \<Rightarrow> y)"

lemma small_server: "new_server (\<lambda>_. ''0.5'') init_state_manager small_config = Inr small_state"
proof -
  have "\<not> isl (new_server (\<lambda>_. ''0.5'') init_state_manager small_config)" by code_simp
  then show ?thesis by (auto simp: small_state_def split: sum.splits)
qed

lemma executing_drive: "drive small_env [(0, Go), (0, Receive (Message (Bytes ''{m'') True)), (0, Receive (Message (Bytes ''}'') False))]
     (small_state, [Arrived (small_scope ''POST'' ''/v1/eap/macro/execute'')]) = Some executing"
proof -
  have "drive small_env [(0, Go), (0, Receive (Message (Bytes ''{m'') True)), (0, Receive (Message (Bytes ''}'') False))]
     (small_state, [Arrived (small_scope ''POST'' ''/v1/eap/macro/execute'')]) \<noteq> None" by code_simp
  then show ?thesis by (auto simp: executing_def split: option.splits)
qed

lemma executing_reached: "(service_step small_env)\<^sup>*\<^sup>* (small_state, []) executing"
  using arrived drive_runs [OF executing_drive] by (rule rtranclp_trans)

lemma executing_held: "tokens (snd executing) = {#work_token ExecuteMacro#}"
  by code_simp

section \<open>Policies\<close>

text \<open>The token policies built from a configuration go through the server's own normalisation unchanged, so the
  server grants a token exactly the scopes, actor and profile that the configuration gave it, and drops none.\<close>

theorem policies_reach_server:
  assumes "build_scoped_token_policies fr payload dflt = Inr (policies, base)"
    and "sc_tokens cfg = Some (as_raw policies)" and "new_server fr' sm cfg = Inr st"
  shows "rt_tokens st = policies"
  using assms(2,3) built_policies_kept [OF assms(1), of fr']
  by (auto simp: new_server_def split: if_splits sum.splits)

theorem policies_reach_server_witness: "rt_tokens small_state = sample_policies"
  using policies_reach_server [OF sample_config_builds _ small_server] by (simp add: small_config_def)

fun refused :: "request_pc \<Rightarrow> bool" where
  "refused (Arrived _) = True"
| "refused (Answered response) = (400 \<le> hr_status response)"
| "refused _ = False"

text \<open>A server with no bearer token and no scoped token, and without the local development switch, answers
  every request of every caller with an error: no request gets a success or reaches the executor.\<close>

theorem deny_by_default:
  assumes "new_server fr sm cfg = Inr st0" and "\<not> is_set (sc_required cfg)" and "sc_tokens cfg = None" and "\<not> sc_local_dev cfg"
    and "(service_step env)\<^sup>*\<^sup>* (st0, []) (st, rs)" and "pc \<in> set rs"
  shows "refused pc"
proof -
  have nobody: "resolve_auth_context env st1 headers = None" if "same_config st0 st1" for st1 headers
    using that assms(1-4) by (auto simp: new_server_def same_config_def resolve_auth_context_def normalize_scoped_bearer_tokens_def
        split: if_splits sum.splits option.splits)
  from assms(5) have "\<forall>pc\<in>set (snd (st, rs)). refused pc"
  proof (induction rule: rtranclp_induct)
    case (step y z)
    obtain st1 rs1 where y: "y = (st1, rs1)" by force
    have none: "\<not> authorised env st1 headers auth scope" for headers auth scope
      using nobody service_run_simulates [OF step.hyps(1)] by (simp add: authorised_def y)
    from step.hyps(2) show ?case unfolding y
    proof (rule service_stepE)
      fix i rd inp pc st'
      assume i: "i < length rs1" and r: "request_step env rd inp (rs1 ! i) st1 = Some (pc, st')" and z: "z = (st', rs1[i := pc])"
      have "refused (rs1 ! i)" using step.IH i y by simp
      then obtain sc where "begin_request env rd sc st1 = (pc, st')" using r by (cases "rs1 ! i"; cases inp) auto
      then have "refused pc" using none begin_request_answered [of env rd sc st1 _ st']
        by (cases pc) (auto dest!: read_justified_authorised dest: begin_request_reading begin_request_effect simp: begin_request_live)
      then show ?thesis using step.IH y z set_update_subset_insert [of rs1 i pc] by auto
    qed (use step.IH y in auto)
  qed simp
  with assms(6) show ?thesis by simp
qed

theorem deny_by_default_witness:
  "refused (fst (begin_request small_env small_reading (small_scope ''GET'' ''/v1/eap/runs/r1'') (small_state\<lparr>rt_tokens := []\<rparr>)))"
proof -
  let ?cfg = "small_config\<lparr>sc_tokens := None\<rparr>" and ?st = "small_state\<lparr>rt_tokens := []\<rparr>" and ?sc = "small_scope ''GET'' ''/v1/eap/runs/r1''"
  have server: "new_server (\<lambda>_. ''0.5'') init_state_manager ?cfg = Inr ?st"
    by code_simp
  let ?pc = "begin_request small_env small_reading ?sc ?st"
  have "service_step small_env (?st, [Arrived ?sc]) (snd ?pc, [Arrived ?sc][0 := fst ?pc])"
    by (rule progress [where rd = small_reading and inp = Go]) simp_all
  then have "(service_step small_env)\<^sup>*\<^sup>* (?st, []) (snd ?pc, [fst ?pc])"
    using arrived [of small_env ?st ?sc] by (simp add: rtranclp.rtrancl_into_rtrancl)
  from deny_by_default [OF server _ _ _ this] show ?thesis by (simp add: small_config_def is_set_def)
qed

section \<open>Requests in execution\<close>

text \<open>C9: Under every interleaving of requests, with failures, cancellations and denials, the counters of the
  guardrails are exactly the requests that wait for the executor, overall, per operation and per resumed run,
  and stay within the configured limits; so when all requests are answered, all counters are zero.\<close>

theorem requests_in_execution_counted:
  assumes "new_server fr sm cfg = Inr st0" and "(service_step env)\<^sup>*\<^sup>* (st0, []) (st, rs)"
  shows "stands_for (rt_guard st) (tokens rs) \<and> within_limits (gr_limits (rt_guard st0)) (tokens rs)
    \<and> ((\<forall>pc\<in>set rs. held pc = {#}) \<longrightarrow> gr_global (rt_guard st) = 0)"
proof -
  have "guard_inv (gr_limits (rt_guard st0)) (rt_guard st, tokens rs)" using assms by (rule service_guard_inv)
  moreover have "\<forall>pc\<in>set rs. held pc = {#} \<Longrightarrow> tokens rs = {#}"
    unfolding tokens_def by (induction rs) auto
  ultimately show ?thesis by (auto simp: guard_inv_def stands_for_def)
qed

theorem requests_in_execution_counted_witness:
  "stands_for (rt_guard (fst executing)) {#work_token ExecuteMacro#}
    \<and> within_limits (gr_limits (rt_guard small_state)) {#work_token ExecuteMacro#}"
  using requests_in_execution_counted [OF small_server, of small_env "fst executing" "snd executing"] executing_reached executing_held
  by simp

section \<open>Authorisation\<close>



text \<open>C8: A request that is answered with success as soon as it arrives is a read of a run or of a pointer; the answer
  is what the state manager holds, the headers identify a caller with the scope of the operation, and the run,
  or the run that produced the pointer, has no owner or is the caller's, unless the caller has the scope for
  those of others.\<close>

theorem reads_authorised:
  assumes "request_step env rd Go (Arrived sc) st = Some (Answered response, st')" and "hr_status response = 200"
  shows "read_justified env st (hd_now rd) (headers_from_scope (as_headers sc)) (hr_payload response)"
  using assms begin_request_answered [of env rd sc st response st'] by auto

text \<open>A run that ann may read, and the answer she gets.\<close>

definition read_state :: runtime_state where
  "read_state = small_state\<lparr>rt_sm := init_state_manager\<lparr>sm_summaries := [(''r1'',
     \<lparr>su_started = 0, su_completed = 0, su_total = 1, su_succeeded = 1, su_failed = 0, su_duration = 0, su_final = None\<rparr>)],
     sm_diagnostics := [(''r1'', 0, [(''actor_metadata'', PDict [(''owner_actor_id'', PStr ''ann'')])])]\<rparr>\<rparr>"

theorem reads_authorised_witness:
  "\<exists>response. fst (begin_request small_env small_reading (small_scope ''GET'' ''/v1/eap/runs/r1'') read_state) = Answered response
     \<and> hr_status response = 200
     \<and> read_justified small_env read_state 0 [(''authorization'', ''Bearer t-ann'')] (hr_payload response)"
proof -
  let ?b = "begin_request small_env small_reading (small_scope ''GET'' ''/v1/eap/runs/r1'') read_state"
  have "case fst ?b of Answered response \<Rightarrow> hr_status response = 200 | _ \<Rightarrow> False" by code_simp
  then obtain response where r: "fst ?b = Answered response" "hr_status response = 200" by (cases "fst ?b") auto
  then have "request_step small_env small_reading Go (Arrived (small_scope ''GET'' ''/v1/eap/runs/r1'')) read_state = Some (Answered response, snd ?b)"
    by (metis prod.collapse request_step.simps(1))
  from reads_authorised [OF this r(2)] have "read_justified small_env read_state (hd_now small_reading)
     (headers_from_scope (as_headers (small_scope ''GET'' ''/v1/eap/runs/r1''))) (hr_payload response)" .
  moreover have "headers_from_scope (as_headers (small_scope ''GET'' ''/v1/eap/runs/r1'')) = [(''authorization'', ''Bearer t-ann'')]" by code_simp
  ultimately show ?thesis using r by (simp add: small_reading_def)
qed

section \<open>Request bodies\<close>

fun read_body :: "http_env \<Rightarrow> body_buffer \<Rightarrow> asgi_message list \<Rightarrow> (http_exn + body_buffer) option" where
  \<comment> \<open>the loop of \<open>_read_json_body\<close> on the messages to come; \<open>None\<close> while it waits for more\<close>
  "read_body env buf [] = None"
| "read_body env buf (msg # msgs) = (case receive_chunk env buf msg of Inl e \<Rightarrow> Some (Inl e)
     | Inr (buf', again) \<Rightarrow> if again then read_body env buf' msgs else Some (Inr buf'))"

definition pieces :: "string list \<Rightarrow> asgi_message list" where
  \<comment> \<open>the messages that carry a body cut into pieces\<close>
  "pieces bs = map (\<lambda>b. Message (Bytes b) True) (butlast bs) @ [Message (Bytes (last bs)) False]"

lemma read_pieces:
  assumes "bs \<noteq> []" and "bb_total buf = int (length (concat (bb_chunks buf)))"
  shows "(bb_total buf + int (length (concat bs)) \<le> he_max_body env \<longrightarrow>
      (\<exists>buf'. read_body env buf (pieces bs) = Some (Inr buf') \<and> concat (bb_chunks buf') = concat (bb_chunks buf) @ concat bs))
    \<and> (he_max_body env < bb_total buf + int (length (concat bs)) \<longrightarrow>
      (\<exists>response. read_body env buf (pieces bs) = Some (Inl (HTTPResponse response)) \<and> hr_status response = 413))"
  using assms
proof (induction bs arbitrary: buf)
  case (Cons b bs)
  let ?total = "bb_total buf + int (length b)"
  show ?case
  proof (cases "he_max_body env < ?total")
    case True
    then have "receive_chunk env buf (Message (Bytes b) a) = Inl (http_error_with 413 ''request_body_too_large''
        (''Request body exceeds '' @ int_repr (he_max_body env) @ '' bytes.'') (Some [(''max_request_body_bytes'', PInt (he_max_body env))]) [])" for a
      by (simp add: receive_chunk_def)
    moreover have "\<not> bb_total buf + int (length (concat (b # bs))) \<le> he_max_body env" using True by simp
    ultimately show ?thesis by (cases "bs = []") (simp_all add: pieces_def http_error_with_def)
  next
    case False
    let ?buf = "\<lparr>bb_chunks = (if b = [] then bb_chunks buf else bb_chunks buf @ [b]), bb_total = ?total\<rparr>"
    have step: "receive_chunk env buf (Message (Bytes b) a) = Inr (?buf, a)" for a
      using False by (simp add: receive_chunk_def)
    have chunks: "concat (bb_chunks ?buf) = concat (bb_chunks buf) @ b" by simp
    show ?thesis
    proof (cases "bs = []")
      case True
      then show ?thesis using step False chunks by (simp add: pieces_def)
    next
      case bs: False
      have "read_body env buf (pieces (b # bs)) = read_body env ?buf (pieces bs)"
        using bs step by (simp add: pieces_def)
      moreover have "bb_total ?buf = int (length (concat (bb_chunks ?buf)))" using Cons.prems(2) chunks by simp
      ultimately show ?thesis using Cons.IH [OF bs, of ?buf] unfolding chunks by (simp add: add.assoc)
    qed
  qed
qed simp

text \<open>However a request body is cut into pieces, it is read back whole when it has at most the configured
  number of bytes, and answered with status 413 otherwise; and no request ever buffers more than that.\<close>

theorem body_limit_exact:
  assumes "bs \<noteq> []" and "(service_step env)\<^sup>*\<^sup>* (st0, []) (st, rs)" and "0 \<le> he_max_body env"
  shows "(int (length (concat bs)) \<le> he_max_body env \<longrightarrow>
      (\<exists>buf. read_body env empty_buffer (pieces bs) = Some (Inr buf) \<and> concat (bb_chunks buf) = concat bs))
    \<and> (he_max_body env < int (length (concat bs)) \<longrightarrow>
      (\<exists>response. read_body env empty_buffer (pieces bs) = Some (Inl (HTTPResponse response)) \<and> hr_status response = 413))
    \<and> (\<forall>headers auth w buf. Reading headers auth w buf \<in> set rs \<longrightarrow> int (length (concat (bb_chunks buf))) \<le> he_max_body env)"
proof -
  have "bb_total empty_buffer = 0" "concat (bb_chunks empty_buffer) = []" by (simp_all add: empty_buffer_def)
  then show ?thesis
    using read_pieces [OF assms(1), of empty_buffer env] service_requests_ok [OF assms(2)] assms(3)
    by (force simp: buffer_ok_def)
qed

theorem body_limit_exact_witness:
  "\<exists>buf. read_body small_env empty_buffer (pieces [''{m'', ''}'']) = Some (Inr buf) \<and> concat (bb_chunks buf) = ''{m}''"
  using body_limit_exact [of "[''{m'', ''}'']" small_env small_state "fst executing" "snd executing"] executing_reached
  by (simp add: small_env_def)

end
