(* ===== verification/EAP_Ownership.thy ===== *)
theory EAP_Ownership
  imports EAP_Executor_Runs EAP_Http_Properties
begin

text \<open>
  Who owns a run, across the service, the executor and the state manager: the caller that starts a run through
  the service becomes its owner, nothing that the run does changes that or the owner of another run, resuming
  it keeps the owner, and the read route then answers nobody else without a scope for the runs of others.
\<close>

section \<open>What a run does to the metadata of runs\<close>

definition actor_of :: "state_manager \<Rightarrow> string \<Rightarrow> (string, pyval) dict" where
  "actor_of sm run_id = (case map_of (sm_checkpoints sm) run_id of
        Some c \<Rightarrow> (case ck_actor c of Some a \<Rightarrow> a | None \<Rightarrow> diagnostics_actor sm run_id)
      | None \<Rightarrow> diagnostics_actor sm run_id)"

lemma get_run_actor_metadata_eq: "get_run_actor_metadata sm run_id = (if sm_closed sm then Inl SmClosed else Inr (actor_of sm run_id))"
  by (simp add: get_run_actor_metadata_def with_connection_def actor_of_def)

definition has_actor :: "state_manager \<Rightarrow> string \<Rightarrow> bool" where
  \<comment> \<open>the checkpoint of the run names its actor\<close>
  "has_actor sm run_id \<longleftrightarrow> (\<exists>c. map_of (sm_checkpoints sm) run_id = Some c \<and> ck_actor c \<noteq> None)"

definition keeps_owners :: "exec_env \<Rightarrow> run_state \<Rightarrow> run_state \<Rightarrow> bool" where
  "keeps_owners env s s' \<longleftrightarrow> sm_closed (rs_sm s') = sm_closed (rs_sm s)
     \<and> (\<forall>r. has_actor (rs_sm s) r \<longrightarrow> has_actor (rs_sm s') r)
     \<and> (\<forall>r. actor_of (rs_sm s') r = actor_of (rs_sm s) r \<or> r = xe_run_id env \<and> actor_of (rs_sm s') r = xe_actor env)"

interpretation own: frame "keeps_owners env" for env
proof
  show "keeps_owners env a c" if "keeps_owners env a b" "keeps_owners env b c" for a b c
    using that unfolding keeps_owners_def by metis
qed (simp add: keeps_owners_def)

lemma keeps_same_sm: "rs_sm s' = rs_sm s \<Longrightarrow> keeps_owners env s s'"
  by (simp add: keeps_owners_def)

lemma keeps_tables: "sm_closed sm = sm_closed (rs_sm s) \<Longrightarrow> sm_checkpoints sm = sm_checkpoints (rs_sm s)
    \<Longrightarrow> sm_diagnostics sm = sm_diagnostics (rs_sm s) \<Longrightarrow> keeps_owners env s (s\<lparr>rs_sm := sm\<rparr>)"
  by (simp add: keeps_owners_def actor_of_def diagnostics_actor_def has_actor_def split: option.splits)

lemma own_emit: "framed (keeps_owners env) (emit e)"
  unfolding emit_def
  by (intro own.frame_rules own.frame_on_sm)
     (auto simp: append_trace_event_def with_connection_def bindR_Inr_iff intro!: keeps_tables split: if_splits)

lemma own_persist: "framed (keeps_owners env) (persist_checkpoint env rd label fin)"
proof -
  have "keeps_owners env s (s\<lparr>rs_sm := (rs_sm s)\<lparr>sm_checkpoints := AList.update (xe_run_id env) c (sm_checkpoints (rs_sm s))\<rparr>\<rparr>)"
    if "ck_actor c = Some (xe_actor env)" for s c
    using that by (simp add: keeps_owners_def actor_of_def diagnostics_actor_def has_actor_def split: option.splits)
  then show ?thesis
    by (auto simp: framed_def persist_checkpoint_def task_defs upsert_run_checkpoint_def with_connection_def checkpoint_of_def
        split: sum.splits prod.splits if_splits)
qed

lemma own_put_pointer: "framed (keeps_owners env) (put_pointer env rd raw summary extra)"
  unfolding put_pointer_def
  by (intro own.frame_rules own.frame_on_sm own.frame_modify)
     (auto simp: store_and_point_def Let_def bindR_Inr_iff intro: keeps_tables keeps_same_sm)

lemma own_hydrate: "framed (keeps_owners env) (hydrate_pointer_response env rd p i)"
  unfolding hydrate_pointer_response_def Let_def
  by (auto intro!: own.frame_rules own.frame_on_sm simp: bindR_Inr_iff split: option.splits)

lemma own_local: "framed (keeps_owners env) (record_step k p raw st)" "framed (keeps_owners env) (clear_decision step)"
  "framed (keeps_owners env) (set_future k q)" "framed (keeps_owners env) (select_targets step b ts)"
  unfolding record_step_def clear_decision_def set_future_def select_targets_def
  by (auto intro!: own.frame_rules own.frame_modify keeps_same_sm)

lemma own_branch: "framed (keeps_owners env) (resolve_branch_targets env step ok)"
  unfolding resolve_branch_targets_def by (auto intro!: own.frame_rules own_local split: option.splits)

lemmas own_prims = own_emit own_persist own_put_pointer own_hydrate own_local own_branch

lemma own_conclude: "framed (keeps_owners env) (conclude env rd step p)"
  unfolding conclude_def by (intro own.frame_rules own_prims)

lemma own_skip: "framed (keeps_owners env) (skip_step env rd step reason extra)"
  unfolding skip_step_def Let_def by (intro own.frame_rules own_prims own_conclude)

lemma own_pause: "framed (keeps_owners env) (pause_step env rd step)"
  unfolding pause_step_def Let_def by (intro own.frame_rules own_prims own_conclude)

lemma own_reject: "framed (keeps_owners env) (reject_step env rd step d)"
  unfolding reject_step_def Let_def by (intro own.frame_rules own_prims own_conclude)

lemma own_fail: "framed (keeps_owners env) (fail_step env rd step t n e)"
  unfolding fail_step_def Let_def by (intro own.frame_rules own_prims own_conclude)

lemma own_complete: "framed (keeps_owners env) (complete_step env rd step c raw)"
  unfolding complete_step_def by (intro own.frame_rules own_prims own_conclude)

lemma own_prepare: "framed (keeps_owners env) (prepare_call env step t)"
  unfolding prepare_call_def
  by (intro own.frame_bind own.frame_read) (auto intro!: own.frame_rules split: resolution.splits)

lemmas own_parts = own_skip own_pause own_reject own_fail own_complete own_prepare

lemma own_gate: "framed (keeps_owners env) (gate env rd step t)"
  unfolding gate_def by (auto intro!: own.frame_rules own_prims own_parts split: option.splits)

lemma own_after_controllers: "framed (keeps_owners env) (after_controllers env rd step t)"
  unfolding after_controllers_def by (auto intro!: own.frame_rules own_parts own_gate)

lemma own_start: "framed (keeps_owners env) (start_step env rd step)"
  unfolding start_step_def replay_step_def
  by (auto intro!: own.frame_rules own_prims own_gate own_parts own.frame_modify keeps_same_sm)

lemma own_finish: "framed (keeps_owners env) (finish_run env rd resume results)"
proof -
  have diagnostics: "keeps_owners env s (s\<lparr>rs_sm := sm\<rparr>)"
    if "store_execution_diagnostics (rs_sm s) (xe_run_id env) d now = Inr sm" "dict_get_or d ''actor_metadata'' PNone = PDict (xe_actor env)" for s sm d now
    using that by (auto simp: store_execution_diagnostics_def with_connection_def keeps_owners_def actor_of_def diagnostics_actor_def has_actor_def
        split: option.splits if_splits)
  have summary: "keeps_owners env s (s\<lparr>rs_sm := sm\<rparr>)" if "store_execution_summary (rs_sm s) r x = Inr sm" for s sm r x
    using that by (auto simp: store_execution_summary_def with_connection_def intro!: keeps_tables split: if_splits)
  show ?thesis unfolding finish_run_def Let_def
    by (intro own.frame_rules own_prims own.frame_on_sm) (auto simp: bindR_Inr_iff dict_get_or_def intro: summary elim!: diagnostics)
qed

section \<open>Steps of a run\<close>

lemma keeps_settle: "framed (keeps_owners env) m \<Longrightarrow> keeps_owners env s0 s \<Longrightarrow> keeps_owners env s0 (settle i m s)"
proof -
  assume m: "framed (keeps_owners env) m" and s: "keeps_owners env s0 s"
  obtain r s' where r: "m s = (r, s')" by force
  have "keeps_owners env s s'" using m r unfolding framed_def by (metis snd_conv)
  with s have "keeps_owners env s0 s'" by (rule own.trans)
  then show ?thesis using r by (cases r) (auto simp: settle_def set_pc_def keeps_owners_def)
qed

lemma slots_sm [simp]: "rs_sm (on_slot_acquired k s) = rs_sm s" "rs_sm (on_slot_released k s) = rs_sm s" "rs_sm (sem_add k n s) = rs_sm s"
  "rs_sm (release_slots env step s) = rs_sm s" "rs_sm (record_wait g u w s) = rs_sm s" "rs_sm (set_pc i p s) = rs_sm s"
  by (auto simp: on_slot_acquired_def on_slot_released_def sem_add_def release_slots_def record_wait_def set_pc_def Let_def split: option.splits)

lemma keeps_sm_only:
  "keeps_owners env s0 (on_slot_acquired k s) = keeps_owners env s0 s" "keeps_owners env s0 (release_slots env' step s) = keeps_owners env s0 s"
  "keeps_owners env s0 (sem_add k n s) = keeps_owners env s0 s" "keeps_owners env s0 (record_wait g u w s) = keeps_owners env s0 s"
  "keeps_owners env s0 (set_pc i p s) = keeps_owners env s0 s" "keeps_owners env s0 (s\<lparr>rs_metrics := m\<rparr>) = keeps_owners env s0 s"
  "keeps_owners env s0 (s\<lparr>rs_clock := t\<rparr>) = keeps_owners env s0 s" "keeps_owners env s0 (s\<lparr>rs_global := x\<rparr>) = keeps_owners env s0 s"
  "keeps_owners env s0 (s\<lparr>rs_bucket := y\<rparr>) = keeps_owners env s0 s" "keeps_owners env s0 (s\<lparr>rs_tool_buckets := z\<rparr>) = keeps_owners env s0 s"
  by (simp_all add: keeps_owners_def)

lemma keeps_emit: "keeps_owners env s0 s \<Longrightarrow> emit e s = (r, s') \<Longrightarrow> keeps_owners env s0 s'"
  using own_emit [of env e] own.trans [of env s0 s s'] unfolding framed_def by (metis snd_conv)

lemma keeps_attempt_error:
  assumes "keeps_owners env s0 s"
  shows "keeps_owners env s0 (on_attempt_error env rd i c e s)"
proof -
  have fail: "keeps_owners env s0 (settle i (fail_step env rd step t n x) (release_slots env step' s1))" if "keeps_owners env s0 s1" for step step' t n x s1
    using that by (intro keeps_settle own_fail) (simp add: keeps_sm_only)
  show ?thesis unfolding on_attempt_error_def Let_def
    using assms by (auto simp: keeps_sm_only intro!: fail split: prod.split sum.split dest: keeps_emit)
qed

lemma keeps_start_tool:
  assumes "keeps_owners env s0 s"
  shows "keeps_owners env s0 (start_tool env rd i c s)"
proof -
  let ?s = "if cl_limited c then s\<lparr>rs_metrics := (rs_metrics s)\<lparr>sa_rate_limited := sa_rate_limited (rs_metrics s) + 1\<rparr>\<rparr> else s"
  have "keeps_owners env s0 ?s" using assms by (simp add: keeps_sm_only)
  then show ?thesis unfolding start_tool_def Let_def
    by (auto simp: keeps_sm_only intro!: keeps_attempt_error split: prod.split sum.split dest: keeps_emit)
qed

lemma keeps_after_global: "keeps_owners env s0 s \<Longrightarrow> keeps_owners env s0 (after_global_rate env rd i c s)"
  unfolding after_global_rate_def by (auto simp: keeps_sm_only keeps_start_tool split: option.split)

lemma keeps_after_slots: "keeps_owners env s0 s \<Longrightarrow> keeps_owners env s0 (after_slots env rd i c s)"
  unfolding after_slots_def Let_def by (auto simp: keeps_sm_only keeps_after_global split: option.split)

lemma keeps_try: "framed (keeps_owners env) m \<Longrightarrow> (\<And>e. framed (keeps_owners env) (h e)) \<Longrightarrow> framed (keeps_owners env) (tryT m h)"
  by (rule own.frame_try)

lemma task_step_keeps:
  assumes "task_step env rd i s0 = Some s'"
  shows "keeps_owners env s0 s'"
proof -
  define s where "s = s0\<lparr>rs_clock := rs_clock s0 + rd_elapsed rd\<rparr>"
  have s: "keeps_owners env s0 s" by (simp add: s_def keeps_sm_only)
  note tasks = keeps_settle [OF own_start s] keeps_settle [OF keeps_try [OF own_after_controllers own_fail] s]
    keeps_settle [OF keeps_try [OF own_prepare own_fail] s]
  have completed: "keeps_owners env s0 (settle i (tryT (complete_step env rd step c v) (fail_step env rd step' t n)) (release_slots env step'' s))" for step c v step' t n step''
    using s by (intro keeps_settle keeps_try own_complete own_fail) (simp add: keeps_sm_only)
  show ?thesis
    using assms s unfolding task_step_def Let_def s_def [symmetric]
    by (cases "rs_pcs s ! i")
       (auto simp: keeps_sm_only tasks completed keeps_after_slots keeps_after_global keeps_start_tool keeps_attempt_error
         split: if_splits option.splits prod.splits tool_outcome.splits)
qed

lemma macro_steps_keep: "(macro_step env)\<^sup>*\<^sup>* s0 s \<Longrightarrow> keeps_owners env s0 s"
proof (induction rule: rtranclp_induct)
  case (step y z)
  then obtain i rd where "task_step env rd i y = Some z" by (auto elim: macro_step.cases)
  then show ?case using step.IH task_step_keeps own.trans by blast
qed simp

section \<open>Owners\<close>

definition owned_by :: "state_manager \<Rightarrow> string \<Rightarrow> string \<Rightarrow> bool" where
  "owned_by sm run_id a \<longleftrightarrow> a \<noteq> [] \<and> map_of (actor_of sm run_id) ''owner_actor_id'' = Some (PStr a)"

lemma copy_text_other: "k \<noteq> k' \<Longrightarrow> map_of (copy_text source k d) k' = map_of d k'"
  by (auto simp: copy_text_def split: option.splits pyval.splits)

lemma copy_truthy_other: "k \<noteq> k' \<Longrightarrow> map_of (copy_truthy source d k) k' = map_of d k'"
  by (auto simp: copy_truthy_def Let_def)

lemma finish_owner:
  assumes "map_of d ''owner_actor_id'' = Some (PStr a)" and "a \<noteq> []"
  shows "map_of (finish_actor_metadata py d operation) ''owner_actor_id'' = Some (PStr a)"
  using assms by (simp add: finish_actor_metadata_def Let_def dict_get_or_def)

lemma normalized_owner:
  assumes "ac_actor auth = PStr a" and "py_strip a = a" and "a \<noteq> []"
  shows "map_of (normalize_actor_metadata py (Some (to_actor_metadata auth operation)) operation') ''owner_actor_id'' = Some (PStr a)"
  using assms
  by (simp add: normalize_actor_metadata_def Let_def copy_text_other nonempty_or_none_def to_actor_metadata_def dict_get_or_def py_str_def)

lemma merged_owner:
  assumes "map_of saved ''owner_actor_id'' = Some v"
  shows "map_of (merge_actor_metadata normalized saved operation) ''owner_actor_id'' = Some v"
  using assms by (auto simp: merge_actor_metadata_def copy_truthy_other)

lemma persist_owner:
  assumes "persist_checkpoint env rd status fin s = (Inr u, s')"
  shows "has_actor (rs_sm s') (xe_run_id env) \<and> actor_of (rs_sm s') (xe_run_id env) = xe_actor env \<and> (\<forall>r. r \<noteq> xe_run_id env \<longrightarrow> actor_of (rs_sm s') r = actor_of (rs_sm s) r)"
proof -
  let ?c = "checkpoint_of env s status fin\<lparr>ck_updated := rd_now rd\<rparr>"
  have "s' = s\<lparr>rs_sm := (rs_sm s)\<lparr>sm_checkpoints := AList.update (xe_run_id env) ?c (sm_checkpoints (rs_sm s))\<rparr>\<rparr>"
    using assms by (auto simp: persist_checkpoint_def task_defs upsert_run_checkpoint_def with_connection_def split: if_splits)
  then show ?thesis by (simp add: actor_of_def checkpoint_of_def diagnostics_actor_def has_actor_def split: option.splits)
qed

lemma begin_run_cases:
  assumes "begin_run env0 rd limits actor resume sm minted now = Inr (env, s)"
  obtains operation d s1 where "rs_sm s1 = sm" and "persist_checkpoint env rd ''active'' None s1 = (Inr (), s)"
    and "xe_run_id env = xe_run_id env0" and "xe_actor env = finish_actor_metadata (xe_py env0) d operation"
    and "\<not> resume \<longrightarrow> d = normalize_actor_metadata (xe_py env0) actor operation"
    and "resume \<longrightarrow> (\<exists>c. map_of (sm_checkpoints sm) (xe_run_id env0) = Some c
       \<and> d = merge_actor_metadata (normalize_actor_metadata (xe_py env0) actor operation) (case ck_actor c of None \<Rightarrow> [] | Some a \<Rightarrow> a) operation)"
proof -
  let ?operation = "if resume then ''resume'' else ''execute''"
  let ?normalized = "normalize_actor_metadata (xe_py env0) actor ?operation"
  let ?limits = "case mr_limits (xe_macro env0) of None \<Rightarrow> limits | Some l \<Rightarrow> l"
  define source where "source = (if resume then (case get_run_checkpoint sm (xe_run_id env0) of Inl e \<Rightarrow> Inl (BeginFailed (sm_exn e))
            | Inr c \<Rightarrow> if \<not> resumable c then Inl (NotResumable (ck_status c))
                else Inr (ck_started c, ck_steps c, ck_decisions c,
                   merge_actor_metadata ?normalized (case ck_actor c of None \<Rightarrow> [] | Some a \<Rightarrow> a) ?operation))
         else Inr (rd_now rd, [], [], ?normalized))"
  define start where "start = (\<lambda>(started, status, decisions, merged).
        let env = env0\<lparr>xe_limits := ?limits, xe_started := started, xe_actor := finish_actor_metadata (xe_py env0) merged ?operation\<rparr>;
            s = init_state env sm minted now status decisions
        in case persist_checkpoint env rd ''active'' None s of (Inl e, _) \<Rightarrow> Inl (BeginFailed e) | (Inr _, s') \<Rightarrow> Inr (env, s'))"
  have "bindR source start = Inr (env, s)" using assms unfolding begin_run_def Let_def source_def start_def .
  then obtain started status decisions d where src: "source = Inr (started, status, decisions, d)"
    and start: "start (started, status, decisions, d) = Inr (env, s)" by (auto simp: bindR_Inr_iff)
  from start have env: "env = env0\<lparr>xe_limits := ?limits, xe_started := started, xe_actor := finish_actor_metadata (xe_py env0) d ?operation\<rparr>"
    unfolding start_def Let_def by (clarsimp split: prod.split_asm sum.split_asm)
  from start have p: "persist_checkpoint env rd ''active'' None (init_state env sm minted now status decisions) = (Inr (), s)"
    unfolding start_def Let_def prod.case env [symmetric] by (simp split: prod.splits sum.splits)
  note src = src [unfolded source_def]
  have "rs_sm (init_state env sm minted now status decisions) = sm" by (simp add: init_state_def Let_def)
  moreover have "resume \<longrightarrow> (\<exists>c. map_of (sm_checkpoints sm) (xe_run_id env0) = Some c
       \<and> d = merge_actor_metadata ?normalized (case ck_actor c of None \<Rightarrow> [] | Some a \<Rightarrow> a) ?operation)"
    using src by (auto simp: get_run_checkpoint_def with_connection_def split: sum.splits if_splits option.splits)
  moreover have "\<not> resume \<longrightarrow> d = ?normalized" using src by (cases resume) auto
  moreover have "xe_run_id env = xe_run_id env0" "xe_actor env = finish_actor_metadata (xe_py env0) d ?operation" by (simp_all add: env)
  ultimately show ?thesis using that p by blast
qed

lemma begin_execute_owner:
  assumes "begin_run env0 rd limits (Some (to_actor_metadata auth operation)) False sm minted now = Inr (env, s)"
    and "ac_actor auth = PStr a" and "py_strip a = a" and "a \<noteq> []"
  shows "owned_by (rs_sm s) (xe_run_id env) a"
proof (rule begin_run_cases [OF assms(1)])
  fix operation' d s1
  assume "xe_actor env = finish_actor_metadata (xe_py env0) d operation'"
    and "\<not> False \<longrightarrow> d = normalize_actor_metadata (xe_py env0) (Some (to_actor_metadata auth operation)) operation'"
    and "persist_checkpoint env rd ''active'' None s1 = (Inr (), s)"
  then show ?thesis using persist_owner [of env rd "''active''" None s1] assms(2-4)
    by (simp add: owned_by_def finish_owner normalized_owner)
qed

lemma begin_resume_owner:
  assumes "begin_run env0 rd limits actor True sm minted now = Inr (env, s)"
    and "has_actor sm (xe_run_id env0)" and "owned_by sm (xe_run_id env0) a"
  shows "owned_by (rs_sm s) (xe_run_id env) a"
proof (rule begin_run_cases [OF assms(1)])
  fix operation d s1
  assume "xe_actor env = finish_actor_metadata (xe_py env0) d operation"
    and "True \<longrightarrow> (\<exists>c. map_of (sm_checkpoints sm) (xe_run_id env0) = Some c
       \<and> d = merge_actor_metadata (normalize_actor_metadata (xe_py env0) actor operation) (case ck_actor c of None \<Rightarrow> [] | Some a \<Rightarrow> a) operation)"
    and "persist_checkpoint env rd ''active'' None s1 = (Inr (), s)"
  then show ?thesis using persist_owner [of env rd "''active''" None s1] assms(2-3)
    by (auto simp: owned_by_def finish_owner merged_owner actor_of_def has_actor_def)
qed

lemma keeps_owned: "keeps_owners env s s' \<Longrightarrow> actor_of (rs_sm s) (xe_run_id env) = xe_actor env \<Longrightarrow>
    actor_of (rs_sm s') (xe_run_id env) = xe_actor env \<and> (\<forall>r. r \<noteq> xe_run_id env \<longrightarrow> actor_of (rs_sm s') r = actor_of (rs_sm s) r)"
  unfolding keeps_owners_def by metis

lemma begin_other_runs:
  assumes "begin_run env0 rd limits actor resume sm minted now = Inr (env, s)"
  shows "has_actor (rs_sm s) (xe_run_id env) \<and> actor_of (rs_sm s) (xe_run_id env) = xe_actor env \<and> xe_run_id env = xe_run_id env0
    \<and> (\<forall>r. r \<noteq> xe_run_id env \<longrightarrow> actor_of (rs_sm s) r = actor_of sm r)"
  by (rule begin_run_cases [OF assms]) (metis persist_owner)

lemma finish_run_keeps: "finish_run env rd resume results s = (r, s') \<Longrightarrow> keeps_owners env s s'"
  using own_finish [of env rd resume results] unfolding framed_def by (metis snd_conv)

text \<open>C7: A run that is started for a caller of the service belongs to that caller: while its tasks run, in any order,
  after it has ended, and after anyone else has resumed it from there. Meanwhile the metadata of all other runs
  stay as they were.\<close>

theorem run_owner_stable:
  assumes "begin_run env0 rd limits (Some (to_actor_metadata auth ''execute'')) False sm minted now = Inr (env, s0)"
    and "ac_actor auth = PStr a" and "py_strip a = a" and "a \<noteq> []"
    and "(macro_step env)\<^sup>*\<^sup>* s0 s" and "finish_run env rd1 False results s = (r, s1)"
  shows "owned_by (rs_sm s) (xe_run_id env) a \<and> owned_by (rs_sm s1) (xe_run_id env) a
    \<and> (\<forall>r. r \<noteq> xe_run_id env \<longrightarrow> actor_of (rs_sm s1) r = actor_of sm r)
    \<and> (\<forall>env2 rd2 limits2 actor minted2 now2 env3 s2. xe_run_id env2 = xe_run_id env \<longrightarrow>
         begin_run env2 rd2 limits2 actor True (rs_sm s1) minted2 now2 = Inr (env3, s2) \<longrightarrow>
         owned_by (rs_sm s2) (xe_run_id env) a)"
proof -
  have begun: "has_actor (rs_sm s0) (xe_run_id env)" "actor_of (rs_sm s0) (xe_run_id env) = xe_actor env"
      "\<forall>r. r \<noteq> xe_run_id env \<longrightarrow> actor_of (rs_sm s0) r = actor_of sm r"
    using begin_other_runs [OF assms(1)] by blast+
  have owned: "owned_by (rs_sm s0) (xe_run_id env) a" using assms(1-4) by (rule begin_execute_owner)
  have keep: "keeps_owners env s0 s" "keeps_owners env s0 s1"
    using macro_steps_keep [OF assms(5)] finish_run_keeps [OF assms(6)] own.trans by blast+
  have at: "actor_of (rs_sm t) (xe_run_id env) = xe_actor env \<and> (\<forall>r. r \<noteq> xe_run_id env \<longrightarrow> actor_of (rs_sm t) r = actor_of sm r)
      \<and> owned_by (rs_sm t) (xe_run_id env) a \<and> has_actor (rs_sm t) (xe_run_id env)" if "keeps_owners env s0 t" for t
    using keeps_owned [OF that begun(2)] begun owned that by (simp add: owned_by_def keeps_owners_def)
  have "owned_by (rs_sm s2) (xe_run_id env) a"
    if "xe_run_id env2 = xe_run_id env" "begin_run env2 rd2 limits2 actor True (rs_sm s1) minted2 now2 = Inr (env3, s2)"
    for env2 rd2 limits2 actor minted2 now2 env3 s2
    using begin_resume_owner [OF that(2), of a] begin_other_runs [OF that(2)] at [OF keep(2)] that(1) by simp
  then show ?thesis using at [OF keep(1)] at [OF keep(2)] by blast
qed

section \<open>Isolation of tenants\<close>

lemma py_eq_str: "py_eq v (PStr a) \<longleftrightarrow> v = PStr a"
  by (cases v) auto

lemma owned_access: "owned_by sm run_id a \<Longrightarrow> access_granted sm auth any_scope run_id \<Longrightarrow> ac_actor auth = PStr a \<or> has_scope auth any_scope"
  by (auto simp: owned_by_def access_granted_def get_run_actor_metadata_eq may_access_def get_or_get_def dict_get_or_def py_eq_str
      Let_def split: if_splits)

definition isolating :: "token_policy \<Rightarrow> bool" where
  "isolating policy \<longleftrightarrow> map_of policy ''policy_profile'' \<in> {Some (PStr ''multi_tenant''), Some (PStr ''sandboxed'')}"

lemma isolating_scopes:
  assumes "policy_grants policy profile scopes" and "within_profile profile scopes" and "isolating policy"
  shows "\<not> has_scope \<lparr>ac_actor = x, ac_scopes = policy_scopes env policy, ac_subject = y, ac_profile = z, ac_template = t, ac_local_dev = l\<rparr> SCOPE_RUNS_READ_ANY"
proof -
  have "policy_scopes env policy = scopes"
    using assms(1) by (simp add: policy_grants_def policy_scopes_def dict_get_or_def py_str_def o_def)
  moreover have "profile \<in> {''multi_tenant'', ''sandboxed''}" using assms(1,3) by (auto simp: policy_grants_def isolating_def)
  ultimately show ?thesis using assms(2) isolating_profiles [of profile] by (auto simp: has_scope_def within_profile_def)
qed

text \<open>C4: Tenants are isolated. A server whose tokens were built from a configuration in which every token has the profile
  \<^verbatim>\<open>multi_tenant\<close> or \<^verbatim>\<open>sandboxed\<close>, with no other way to authenticate, answers a request for a run that has an owner
  only if the bearer token of the request is one of that owner's tokens, whatever happened before.\<close>

theorem tenant_isolation:
  assumes "build_scoped_token_policies fr payload dflt = Inr (policies, base)" and "\<forall>q\<in>set policies. isolating (snd q)"
    and "sc_tokens cfg = Some (as_raw policies)" and "\<not> is_set (sc_required cfg)" and "\<not> sc_local_dev cfg"
    and "new_server fr' sm cfg = Inr st0" and "(service_step env)\<^sup>*\<^sup>* (st0, []) (st, rs)"
    and "request_step env rd Go (Arrived sc) st = Some (Answered response, st')" and "hr_status response = 200"
    and "hr_payload response = RunPayload stamp run_id status summary meta events" and "owned_by (rt_sm st) run_id a"
  shows "\<exists>token policy. parse_bearer_token (headers_from_scope (as_headers sc)) = Some token \<and> (token, policy) \<in> set policies
    \<and> map_of policy ''actor_id'' = Some (PStr a)"
proof -
  let ?headers = "headers_from_scope (as_headers sc)"
  have start: "rt_tokens st0 = policies \<and> rt_required st0 = sc_required cfg \<and> rt_local_dev st0 = sc_local_dev cfg"
    using assms(3,6) built_policies_kept [OF assms(1), of fr'] by (auto simp: new_server_def split: if_splits sum.splits)
  then have now: "rt_tokens st = policies" "\<not> is_set (rt_required st)" "\<not> rt_local_dev st"
    using service_run_simulates [OF assms(7)] assms(4,5) by (auto simp: same_config_def)
  obtain auth where auth: "resolve_auth_context env st ?headers = Some auth" and access: "access_granted (rt_sm st) auth SCOPE_RUNS_READ_ANY run_id"
    using begin_request_answered [of env rd sc st response st'] assms(8-10) by (auto simp: authorised_def)
  then obtain token policy where token: "parse_bearer_token ?headers = Some token" and policy: "map_of policies token = Some policy"
    and ctx: "auth = \<lparr>ac_actor = dict_get_or policy ''actor_id'' PNone, ac_scopes = policy_scopes env policy,
               ac_subject = dict_get_or policy ''auth_subject'' PNone, ac_profile = dict_get_or policy ''policy_profile'' PNone,
               ac_template = dict_get_or policy ''template'' PNone, ac_local_dev = False\<rparr>"
    using now by (auto simp: resolve_auth_context_def split: option.splits)
  have mem: "(token, policy) \<in> set policies" using policy by (rule map_of_SomeD)
  have "\<forall>q\<in>set policies. \<exists>profile scopes. policy_grants (snd q) profile scopes \<and> within_profile profile scopes"
    using assms(1) by (rule build_policies_all) (auto dest: token_entry_grants)
  with mem obtain profile scopes where "policy_grants policy profile scopes" "within_profile profile scopes" by force
  then have "\<not> has_scope auth SCOPE_RUNS_READ_ANY" unfolding ctx using assms(2) mem by (intro isolating_scopes) auto
  then have "dict_get_or policy ''actor_id'' PNone = PStr a" using owned_access [OF assms(11) access] ctx by simp
  then have "map_of policy ''actor_id'' = Some (PStr a)" by (auto simp: dict_get_or_def split: option.splits)
  with token mem show ?thesis by blast
qed

section \<open>Samples\<close>

definition ann :: auth_context where
  "ann = \<lparr>ac_actor = PStr ''ann'', ac_scopes = [SCOPE_RUNS_EXECUTE], ac_subject = PStr ''s'', ac_profile = PNone, ac_template = PNone,
     ac_local_dev = False\<rparr>"

theorem run_owner_stable_witness:
  "\<exists>env s. begin_run sample_env sample_reading default_exec_limits (Some (to_actor_metadata ann ''execute'')) False init_state_manager 0 0
       = Inr (env, s) \<and> owned_by (rs_sm s) (xe_run_id env) ''ann''"
proof -
  let ?b = "begin_run sample_env sample_reading default_exec_limits (Some (to_actor_metadata ann ''execute'')) False init_state_manager 0 0"
  have "\<not> isl ?b" by code_simp
  then obtain env s where b: "?b = Inr (env, s)" by (metis sum.collapse(2) prod.exhaust)
  obtain r s1 where "finish_run env sample_reading False [] s = (r, s1)" by force
  then have "owned_by (rs_sm s) (xe_run_id env) ''ann''"
    using run_owner_stable [OF b, of "''ann''" s] by (simp add: ann_def py_strip_def py_is_space_def)
  with b show ?thesis by blast
qed

definition tenant_config :: "(string, pyval) dict" where
  "tenant_config = [(''policy_profile'', PStr ''multi_tenant''), (''tokens'', PList [
     PDict [(''token'', PStr ''t-ann''), (''actor_id'', PStr ''ann''), (''template'', PStr ''operator'')]])]"

lemma tenant_builds: "build_scoped_token_policies (\<lambda>_. []) tenant_config ''strict'' = Inr ([hd sample_policies], ''multi_tenant'')"
  by code_simp

theorem tenant_isolation_witness:
  "\<exists>response. fst (begin_request small_env small_reading (small_scope ''GET'' ''/v1/eap/runs/r1'') read_state) = Answered response
     \<and> hr_status response = 200 \<and> map_of (snd (hd sample_policies)) ''actor_id'' = Some (PStr ''ann'')"
proof -
  let ?cfg = "small_config\<lparr>sc_tokens := Some (as_raw [hd sample_policies])\<rparr>" and ?sc = "small_scope ''GET'' ''/v1/eap/runs/r1''"
  define st0 where "st0 = small_state\<lparr>rt_tokens := [hd sample_policies]\<rparr>"
  define st where "st = st0\<lparr>rt_sm := rt_sm read_state\<rparr>"
  have server: "new_server (\<lambda>_. ''0.5'') init_state_manager ?cfg = Inr st0" unfolding st0_def by code_simp
  have run: "(service_step small_env)\<^sup>*\<^sup>* (st0, []) (st, [])" unfolding st_def by (rule r_into_rtranclp) (rule executor)
  have iso: "\<forall>q\<in>set [hd sample_policies]. isolating (snd q)" by (simp add: isolating_def sample_policies_def)
  have owner: "owned_by (rt_sm st) ''r1'' ''ann''"
    by (simp add: st_def read_state_def owned_by_def actor_of_def diagnostics_actor_def init_state_manager_def dict_get_or_def)
  let ?b = "begin_request small_env small_reading ?sc st"
  have "case fst ?b of Answered response \<Rightarrow> hr_status response = 200 \<and>
      (case hr_payload response of RunPayload stamp r status summary meta events \<Rightarrow> r = ''r1'' | _ \<Rightarrow> False) | _ \<Rightarrow> False"
    unfolding st_def st0_def by code_simp
  then obtain response stamp status summary meta events where r: "fst ?b = Answered response" "hr_status response = 200"
      "hr_payload response = RunPayload stamp ''r1'' status summary meta events"
    by (auto split: request_pc.splits http_payload.splits)
  then have step: "request_step small_env small_reading Go (Arrived ?sc) st = Some (Answered response, snd ?b)"
    by (metis prod.collapse request_step.simps(1))
  have "\<exists>token policy. parse_bearer_token (headers_from_scope (as_headers ?sc)) = Some token \<and> (token, policy) \<in> set [hd sample_policies]
    \<and> map_of policy ''actor_id'' = Some (PStr ''ann'')"
    by (rule tenant_isolation [OF tenant_builds iso _ _ _ server run step r(2,3) owner]) (simp_all add: small_config_def is_set_def)
  then have "map_of (snd (hd sample_policies)) ''actor_id'' = Some (PStr ''ann'')" by (metis empty_iff empty_set set_ConsD snd_conv)
  moreover have "case fst (begin_request small_env small_reading ?sc read_state) of Answered response \<Rightarrow> hr_status response = 200 | _ \<Rightarrow> False"
    by code_simp
  ultimately show ?thesis by (auto split: request_pc.splits)
qed

end
