(* ===== verification/EAP_Distributed.thy ===== *)
theory EAP_Distributed
  imports EAP_State_Manager EAP_Registry
begin

text \<open>
  The distributed coordinator, \<^verbatim>\<open>src/eap/environment/distributed_executor.py\<close>: a table of steps and a table
  of leases that workers claim, prolong, complete and fail. Times are microseconds; the texts that the source
  compares are ISO texts of one time zone, whose order is that of the times. A method is one step, since it
  writes in one transaction, but for \<open>claim_work\<close>, which first expires leases, then selects the queued steps,
  and opens its transaction with its first write: these parts are separate definitions, so that other workers
  can act between them. Generated ids and the clock are arguments.
\<close>

section \<open>Tables\<close>

datatype queue_status = Queued | Started | Completed | Failed

datatype lease_status = LeaseActive | LeaseExpired | LeaseCompleted | LeaseFailed

record dist_step =
  ds_run :: string
  ds_step :: string
  ds_tool :: string
  ds_arguments :: "(string, pyval) dict"
  ds_depends :: "string list"
  ds_status :: queue_status
  ds_attempt :: int
  ds_max :: int
  ds_next :: "int option"
  ds_output :: "string option"
  ds_error :: "tool_error_payload option"
  ds_updated :: int

record dist_lease =
  dl_id :: string
  dl_run :: string
  dl_step :: string
  dl_worker :: string
  dl_attempt :: int
  dl_issued :: int
  dl_heartbeat :: int
  dl_expires :: int
  dl_status :: lease_status

record coordinator =
  co_steps :: "dist_step list"
  co_leases :: "dist_lease list"
  co_ttl :: int

definition new_coordinator :: "int \<Rightarrow> coordinator" where
  "new_coordinator lease_ttl_seconds = \<lparr>co_steps = [], co_leases = [], co_ttl = lease_ttl_seconds\<rparr>"

abbreviation step_key :: "dist_step \<Rightarrow> string \<times> string" where
  "step_key s \<equiv> (ds_run s, ds_step s)"

abbreviation lease_key :: "dist_lease \<Rightarrow> string \<times> string" where
  "lease_key l \<equiv> (dl_run l, dl_step l)"

definition update_step :: "string \<times> string \<Rightarrow> (dist_step \<Rightarrow> dist_step) \<Rightarrow> coordinator \<Rightarrow> coordinator" where
  \<comment> \<open>\<open>UPDATE distributed_steps SET \<dots> WHERE run_id = ? AND step_id = ?\<close>\<close>
  "update_step k f co = co\<lparr>co_steps := map (\<lambda>s. if step_key s = k then f s else s) (co_steps co)\<rparr>"

definition update_lease :: "string \<Rightarrow> (dist_lease \<Rightarrow> dist_lease) \<Rightarrow> coordinator \<Rightarrow> coordinator" where
  \<comment> \<open>\<open>UPDATE distributed_leases SET \<dots> WHERE lease_id = ?\<close>\<close>
  "update_lease i f co = co\<lparr>co_leases := map (\<lambda>l. if dl_id l = i then f l else l) (co_leases co)\<rparr>"

definition find_lease :: "coordinator \<Rightarrow> string \<Rightarrow> dist_lease option" where
  "find_lease co i = find (\<lambda>l. dl_id l = i) (co_leases co)"

section \<open>References between steps\<close>

fun remove_all :: "nat \<Rightarrow> string \<Rightarrow> string \<Rightarrow> string" where
  \<comment> \<open>\<open>s.replace(sub, "")\<close> for a text \<open>sub\<close> that is not empty; the number bounds the length of \<open>s\<close>\<close>
  "remove_all 0 sub s = s"
| "remove_all (Suc n) sub s = (case s of [] \<Rightarrow> []
     | c # cs \<Rightarrow> if startswith s sub then remove_all n sub (drop (length sub) s) else c # remove_all n sub cs)"

definition dist_reference :: "pyval \<Rightarrow> string option" where
  \<comment> \<open>the step that an argument refers to\<close>
  "dist_reference v = (case v of
     PStr s \<Rightarrow> if startswith s ''$step:'' then Some (before_char (CHR ''.'') (remove_all (length s) ''$step:'' s)) else None
   | _ \<Rightarrow> None)"

definition extract_dependencies :: "(string, pyval) dict \<Rightarrow> string list" where
  "extract_dependencies arguments = py_sorted_set (filter (\<lambda>x. x \<noteq> []) (List.map_filter (\<lambda>p. dist_reference (snd p)) arguments))"

datatype dist_error = MissingPointer string | RetrieveFailed sm_error

definition resolve_argument :: "(string, string) dict \<Rightarrow> state_manager \<Rightarrow> string \<times> pyval \<Rightarrow> dist_error + string \<times> pyval" where
  "resolve_argument outputs sm p = (case dist_reference (snd p) of
     None \<Rightarrow> Inr p
   | Some dep \<Rightarrow> (case map_of outputs dep of
       None \<Rightarrow> Inl (MissingPointer dep)
     | Some pointer_id \<Rightarrow> if pointer_id = [] then Inl (MissingPointer dep)
         else (case sm_retrieve sm pointer_id of Inl e \<Rightarrow> Inl (RetrieveFailed e) | Inr v \<Rightarrow> Inr (fst p, v))))"

definition resolve_runtime_arguments :: "(string, pyval) dict \<Rightarrow> (string, string) dict \<Rightarrow> state_manager
    \<Rightarrow> dist_error + (string, pyval) dict" where
  "resolve_runtime_arguments arguments outputs sm = mapR (resolve_argument outputs sm) arguments"

section \<open>Operations\<close>

definition queued_step :: "string \<Rightarrow> int \<Rightarrow> int \<Rightarrow> tool_call \<Rightarrow> dist_step" where
  "queued_step run_id max_attempts now step = \<lparr>ds_run = run_id, ds_step = tc_step_id step, ds_tool = tc_tool_name step,
     ds_arguments = tc_arguments step, ds_depends = extract_dependencies (tc_arguments step), ds_status = Queued, ds_attempt = 0,
     ds_max = max_attempts, ds_next = Some now, ds_output = None, ds_error = None, ds_updated = now\<rparr>"

definition insert_or_replace :: "dist_step \<Rightarrow> coordinator \<Rightarrow> coordinator" where
  "insert_or_replace s co = co\<lparr>co_steps := filter (\<lambda>x. step_key x \<noteq> step_key s) (co_steps co) @ [s]\<rparr>"

definition enqueue_macro :: "macro_request \<Rightarrow> string \<Rightarrow> int \<Rightarrow> coordinator \<Rightarrow> coordinator" where
  \<comment> \<open>\<open>run_id\<close> is the id that is given or generated\<close>
  "enqueue_macro macro run_id now co =
     fold (\<lambda>step. insert_or_replace (queued_step run_id (rp_max_attempts (mr_retry macro)) now step)) (mr_steps macro) co"

definition expire_one :: "int \<Rightarrow> dist_lease \<Rightarrow> coordinator \<Rightarrow> coordinator" where
  "expire_one now l co = update_step (lease_key l)
     (\<lambda>s. if ds_status s = Started then s\<lparr>ds_status := Queued, ds_next := Some now, ds_updated := now\<rparr> else s)
     (update_lease (dl_id l) (\<lambda>x. x\<lparr>dl_status := LeaseExpired\<rparr>) co)"

definition stale :: "int \<Rightarrow> dist_lease \<Rightarrow> bool" where
  "stale now l \<longleftrightarrow> dl_status l = LeaseActive \<and> dl_expires l \<le> now"

definition expire_stale_leases :: "int \<Rightarrow> coordinator \<Rightarrow> coordinator" where
  "expire_stale_leases now co = fold (expire_one now) (filter (stale now) (co_leases co)) co"

definition completed_pointer_map :: "coordinator \<Rightarrow> string \<Rightarrow> (string, string) dict" where
  "completed_pointer_map co run_id = List.map_filter (\<lambda>s. if ds_run s = run_id \<and> ds_status s = Completed
     then (case ds_output s of None \<Rightarrow> None | Some p \<Rightarrow> if p = [] then None else Some (ds_step s, p)) else None) (co_steps co)"

record claim =
  cm_lease :: string
  cm_run :: string
  cm_step :: string
  cm_tool :: string
  cm_arguments :: "(string, pyval) dict"
  cm_attempt :: int
  cm_expires :: int

definition select_queued :: "coordinator \<Rightarrow> dist_step list" where
  \<comment> \<open>\<open>SELECT \<dots> WHERE status = 'queued' ORDER BY next_attempt_at_utc ASC, step_id ASC\<close>; a missing time comes first\<close>
  "select_queued co = sort_key (\<lambda>s. case ds_next s of None \<Rightarrow> [] | Some t \<Rightarrow> [t])
     (sort_key ds_step (filter (\<lambda>s. ds_status s = Queued) (co_steps co)))"

definition ready :: "coordinator \<Rightarrow> int \<Rightarrow> dist_step \<Rightarrow> bool" where
  "ready co now s \<longleftrightarrow> (case ds_next s of None \<Rightarrow> True | Some t \<Rightarrow> t \<le> now)
     \<and> (\<forall>d\<in>set (ds_depends s). dict_has (completed_pointer_map co (ds_run s)) d)"

definition claim_step :: "string \<Rightarrow> int \<Rightarrow> string \<Rightarrow> int \<Rightarrow> dist_step \<Rightarrow> coordinator \<Rightarrow> claim \<times> coordinator" where
  \<comment> \<open>the writes for one row, with a generated lease id and the clock in microseconds\<close>
  "claim_step worker_id now lease_id clock row co =
     (let next_attempt = ds_attempt row + 1; expires_at = clock + co_ttl co * 1000000 in
      (\<lparr>cm_lease = lease_id, cm_run = ds_run row, cm_step = ds_step row, cm_tool = ds_tool row, cm_arguments = ds_arguments row,
        cm_attempt = next_attempt, cm_expires = expires_at\<rparr>,
       update_step (step_key row) (\<lambda>s. s\<lparr>ds_status := Started, ds_attempt := next_attempt, ds_updated := now\<rparr>)
        (co\<lparr>co_leases := co_leases co @ [\<lparr>dl_id = lease_id, dl_run = ds_run row, dl_step = ds_step row, dl_worker = worker_id,
          dl_attempt = next_attempt, dl_issued = now, dl_heartbeat = now, dl_expires = expires_at, dl_status = LeaseActive\<rparr>]\<rparr>)))"

fun claim_rows :: "string \<Rightarrow> int \<Rightarrow> int \<Rightarrow> (nat \<Rightarrow> string \<times> int) \<Rightarrow> nat \<Rightarrow> dist_step list \<Rightarrow> coordinator \<Rightarrow> claim list \<times> coordinator" where
  \<comment> \<open>the loop over the selected rows; \<open>mint n\<close> is the \<open>n\<close>-th generated id and reading of the clock\<close>
  "claim_rows worker_id capacity now mint n [] co = ([], co)"
| "claim_rows worker_id capacity now mint n (row # rows) co =
     (if capacity \<le> int n then ([], co)
      else if \<not> ready co now row then claim_rows worker_id capacity now mint n rows co
      else case claim_step worker_id now (fst (mint n)) (snd (mint n)) row co of (c, co1) \<Rightarrow>
        (case claim_rows worker_id capacity now mint (Suc n) rows co1 of (cs, co2) \<Rightarrow> (c # cs, co2)))"

definition claim_work :: "string \<Rightarrow> int \<Rightarrow> int \<Rightarrow> (nat \<Rightarrow> string \<times> int) \<Rightarrow> coordinator \<Rightarrow> claim list \<times> coordinator" where
  "claim_work worker_id capacity now mint co = (if capacity \<le> 0 then ([], co)
     else let co1 = expire_stale_leases now co in claim_rows worker_id capacity now mint 0 (select_queued co1) co1)"

definition heartbeat :: "string \<Rightarrow> string \<Rightarrow> int \<Rightarrow> int \<Rightarrow> coordinator \<Rightarrow> bool \<times> coordinator" where
  "heartbeat lease_id worker_id now clock co = (case find_lease co lease_id of None \<Rightarrow> (False, co)
     | Some l \<Rightarrow> if dl_worker l \<noteq> worker_id \<or> dl_status l \<noteq> LeaseActive \<or> dl_expires l \<le> now then (False, co)
         else (True, update_lease lease_id (\<lambda>x. x\<lparr>dl_heartbeat := now, dl_expires := clock + co_ttl co * 1000000\<rparr>) co))"

definition complete_lease :: "string \<Rightarrow> string \<Rightarrow> string \<Rightarrow> int \<Rightarrow> coordinator \<Rightarrow> bool \<times> coordinator" where
  "complete_lease lease_id worker_id output_pointer_id now co = (case find_lease co lease_id of None \<Rightarrow> (False, co)
     | Some l \<Rightarrow> if dl_worker l \<noteq> worker_id \<or> dl_status l \<noteq> LeaseActive then (False, co)
         else (True, update_step (lease_key l) (\<lambda>s. s\<lparr>ds_status := Completed, ds_output := Some output_pointer_id, ds_updated := now\<rparr>)
               (update_lease lease_id (\<lambda>x. x\<lparr>dl_status := LeaseCompleted\<rparr>) co)))"

definition fail_lease :: "string \<Rightarrow> string \<Rightarrow> tool_error_payload \<Rightarrow> int \<Rightarrow> int \<Rightarrow> coordinator \<Rightarrow> bool \<times> coordinator" where
  \<comment> \<open>\<open>delay\<close> is the retry delay in microseconds\<close>
  "fail_lease lease_id worker_id err delay now co = (case find_lease co lease_id of None \<Rightarrow> (False, co)
     | Some l \<Rightarrow> if dl_worker l \<noteq> worker_id \<or> dl_status l \<noteq> LeaseActive then (False, co)
         else case find (\<lambda>s. step_key s = lease_key l) (co_steps co) of None \<Rightarrow> (False, co)
         | Some s0 \<Rightarrow> let can_retry = ds_attempt s0 < ds_max s0 in
             (True, update_step (lease_key l) (\<lambda>s. s\<lparr>ds_status := (if can_retry then Queued else Failed),
                 ds_next := (if can_retry then Some (now + max 0 delay) else None), ds_error := Some err, ds_updated := now\<rparr>)
               (update_lease lease_id (\<lambda>x. x\<lparr>dl_status := LeaseFailed\<rparr>) co)))"

definition list_run_steps :: "coordinator \<Rightarrow> string \<Rightarrow> dist_step list" where
  "list_run_steps co run_id = sort_key ds_step (filter (\<lambda>s. ds_run s = run_id) (co_steps co))"

section \<open>The loop of a worker\<close>

datatype tool_result = ToolReturned pyval | ToolRaised string

record worker_env =
  we_py :: py_env
  we_tool :: "string \<Rightarrow> (string, pyval) dict \<Rightarrow> tool_result"
  we_error :: "dist_error \<Rightarrow> string"
  we_missing :: "string \<Rightarrow> string"

record round_input =
  ri_now :: int
  ri_lease :: "string \<times> int"
  ri_pointer :: string

definition run_claim :: "worker_env \<Rightarrow> 'f registry \<Rightarrow> (state_manager \<Rightarrow> sm_error \<Rightarrow> string) \<Rightarrow> round_input \<Rightarrow> string \<Rightarrow> claim
    \<Rightarrow> coordinator \<Rightarrow> state_manager \<Rightarrow> string + string \<times> state_manager" where
  \<comment> \<open>the \<open>try\<close> of the loop: the text of the exception, or the id of the stored result\<close>
  "run_claim env reg sm_text inp worker_id task co sm =
     (case resolve_runtime_arguments (cm_arguments task) (completed_pointer_map co (cm_run task)) sm of
        Inl e \<Rightarrow> Inl (we_error env e)
      | Inr args \<Rightarrow> (case get_tool reg (cm_tool task) of Inl _ \<Rightarrow> Inl (we_missing env (cm_tool task))
        | Inr _ \<Rightarrow> (case we_tool env (cm_tool task) args of ToolRaised t \<Rightarrow> Inl t
          | ToolReturned v \<Rightarrow> (case store_and_point (we_py env) sm (ri_pointer inp) (ri_now inp) v
                (''Distributed step '' @ [char_of (39 :: nat)] @ cm_step task @ [char_of (39 :: nat)] @ '' completed.'')
                [(''run_id'', PStr (cm_run task)), (''step_id'', PStr (cm_step task)), (''worker_id'', PStr worker_id)] PNone of
              Inl e \<Rightarrow> Inl (sm_text sm e)
            | Inr (p, sm') \<Rightarrow> Inr (pr_pointer_id p, sm')))))"

definition worker_round :: "worker_env \<Rightarrow> 'f registry \<Rightarrow> (state_manager \<Rightarrow> sm_error \<Rightarrow> string) \<Rightarrow> string \<Rightarrow> round_input
    \<Rightarrow> coordinator \<times> state_manager \<Rightarrow> coordinator \<times> state_manager" where
  "worker_round env reg sm_text worker_id inp y = (case y of (co, sm) \<Rightarrow>
     (case claim_work worker_id 1 (ri_now inp) (\<lambda>_. ri_lease inp) co of
        ([], co1) \<Rightarrow> (co1, sm)
      | (task # _, co1) \<Rightarrow> (case run_claim env reg sm_text inp worker_id task co1 sm of
          Inr (pointer_id, sm') \<Rightarrow> (snd (complete_lease (cm_lease task) worker_id pointer_id (ri_now inp) co1), sm')
        | Inl message \<Rightarrow> (snd (fail_lease (cm_lease task) worker_id
             \<lparr>te_error_type = ''tool_execution_error'', te_message = message, te_step_id = cm_step task, te_tool_name = cm_tool task,
              te_details = Some [(''run_id'', PStr (cm_run task)), (''worker_id'', PStr worker_id)]\<rparr> 0 (ri_now inp) co1), sm))))"

definition execute_worker_loop :: "worker_env \<Rightarrow> 'f registry \<Rightarrow> (state_manager \<Rightarrow> sm_error \<Rightarrow> string) \<Rightarrow> string \<Rightarrow> round_input list
    \<Rightarrow> coordinator \<times> state_manager \<Rightarrow> coordinator \<times> state_manager" where
  \<comment> \<open>one input per iteration, \<open>max_iterations\<close> of them\<close>
  "execute_worker_loop env reg sm_text worker_id inputs y = fold (worker_round env reg sm_text worker_id) inputs y"

end
