(* ===== verification/EAP_Distributed_Safety.thy ===== *)
theory EAP_Distributed_Safety
  imports EAP_Distributed
begin

text \<open>
  What the coordinator guarantees when its methods do not overlap: one active lease per started step, attempts
  that are counted by leases, dependencies before dependents, terminal states that stay. Then what is lost
  when two workers claim at the same time.
\<close>

section \<open>Serial executions\<close>

definition fresh_ids :: "(nat \<Rightarrow> string \<times> int) \<Rightarrow> coordinator \<Rightarrow> bool" where
  "fresh_ids mint co \<longleftrightarrow> inj (\<lambda>n. fst (mint n)) \<and> (\<forall>n. fst (mint n) \<notin> dl_id ` set (co_leases co))"

inductive coord_step :: "coordinator \<Rightarrow> coordinator \<Rightarrow> bool" where
  enqueued: "run_id \<notin> ds_run ` set (co_steps co) \<Longrightarrow> distinct (step_ids macro) \<Longrightarrow> 1 \<le> rp_max_attempts (mr_retry macro)
     \<Longrightarrow> coord_step co (enqueue_macro macro run_id now co)"
| claimed: "fresh_ids mint co \<Longrightarrow> coord_step co (snd (claim_work worker capacity now mint co))"
| beaten: "coord_step co (snd (heartbeat lease worker now clock co))"
| completed: "coord_step co (snd (complete_lease lease worker pointer now co))"
| failed: "coord_step co (snd (fail_lease lease worker err delay now co))"

inductive_cases coord_stepE: "coord_step co co'"

section \<open>The invariant\<close>

definition leases_of :: "coordinator \<Rightarrow> string \<times> string \<Rightarrow> dist_lease list" where
  "leases_of co k = filter (\<lambda>l. lease_key l = k) (co_leases co)"

definition with_status :: "lease_status \<Rightarrow> dist_lease list \<Rightarrow> nat" where
  "with_status st ls = length (filter (\<lambda>l. dl_status l = st) ls)"

definition done_steps :: "coordinator \<Rightarrow> (string \<times> string) set" where
  "done_steps co = {step_key s |s p. s \<in> set (co_steps co) \<and> ds_status s = Completed \<and> ds_output s = Some p \<and> p \<noteq> []}"

definition row_ok :: "dist_lease list \<Rightarrow> dist_step \<Rightarrow> bool" where
  "row_ok ls s \<longleftrightarrow> with_status LeaseActive ls = (if ds_status s = Started then 1 else 0)
     \<and> ds_attempt s = int (length ls)
     \<and> (\<forall>l\<in>set ls. dl_status l = LeaseActive \<longrightarrow> dl_attempt l = ds_attempt s)
     \<and> ds_attempt s + (if ds_status s = Queued then 1 else 0) \<le> ds_max s + int (with_status LeaseExpired ls)"

definition coord_inv :: "coordinator \<Rightarrow> bool" where
  "coord_inv co \<longleftrightarrow> distinct (map step_key (co_steps co)) \<and> distinct (map dl_id (co_leases co))
     \<and> (\<forall>l\<in>set (co_leases co). lease_key l \<in> step_key ` set (co_steps co))
     \<and> (\<forall>s\<in>set (co_steps co). row_ok (leases_of co (step_key s)) s
          \<and> (0 < ds_attempt s \<longrightarrow> (\<forall>d\<in>set (ds_depends s). (ds_run s, d) \<in> done_steps co)))"

text \<open>Terminal rows stay.\<close>

definition keeps_terminal :: "coordinator \<Rightarrow> coordinator \<Rightarrow> bool" where
  "keeps_terminal co co' \<longleftrightarrow> (\<forall>s\<in>set (co_steps co). ds_status s \<in> {Completed, Failed} \<longrightarrow> s \<in> set (co_steps co'))"

lemma keeps_terminal_refl [simp]: "keeps_terminal co co" by (simp add: keeps_terminal_def)

lemma keeps_terminal_trans: "keeps_terminal a b \<Longrightarrow> keeps_terminal b c \<Longrightarrow> keeps_terminal a c"
  by (auto simp: keeps_terminal_def)

lemma done_mono: "keeps_terminal co co' \<Longrightarrow> done_steps co \<subseteq> done_steps co'"
  unfolding done_steps_def keeps_terminal_def by blast

lemma completed_map_iff: "dict_has (completed_pointer_map co run) d \<longleftrightarrow> (run, d) \<in> done_steps co"
proof -
  have "dict_has (List.map_filter f xs) d \<longleftrightarrow> (\<exists>x\<in>set xs. \<exists>v. f x = Some (d, v))" for f :: "dist_step \<Rightarrow> (string \<times> string) option" and xs
    by (induction xs) (auto simp: List.map_filter_def split: option.splits)
  moreover have "(\<exists>v. (if ds_run s = run \<and> ds_status s = Completed
      then (case ds_output s of None \<Rightarrow> None | Some p \<Rightarrow> if p = [] then None else Some (ds_step s, p)) else None) = Some (d, v))
    \<longleftrightarrow> step_key s = (run, d) \<and> ds_status s = Completed \<and> (\<exists>p. ds_output s = Some p \<and> p \<noteq> [])" for s
    by (auto split: option.splits)
  ultimately have "dict_has (completed_pointer_map co run) d \<longleftrightarrow>
      (\<exists>s\<in>set (co_steps co). step_key s = (run, d) \<and> ds_status s = Completed \<and> (\<exists>p. ds_output s = Some p \<and> p \<noteq> []))"
    by (simp only: completed_pointer_map_def)
  also have "\<dots> \<longleftrightarrow> (run, d) \<in> done_steps co"
    unfolding done_steps_def mem_Collect_eq by metis
  finally show ?thesis .
qed

section \<open>Changing one row and one lease\<close>

lemma filter_change:
  assumes "distinct (map g xs)" and "x \<in> set xs"
  shows "length (filter P (map (\<lambda>y. if g y = g x then f y else y) xs)) + (if P x then 1 else 0)
    = length (filter P xs) + (if P (f x) then 1 else 0)"
  using assms
proof (induction xs)
  case (Cons a xs)
  show ?case
  proof (cases "a = x")
    case True
    have "map (\<lambda>y. if g y = g x then f y else y) xs = xs"
      using Cons.prems True by (intro map_idI) (metis distinct.simps(2) image_eqI list.set_map list.simps(9))
    then show ?thesis using True by auto
  next
    case False
    then show ?thesis using Cons by auto
  qed
qed simp

text \<open>The common form of the operations that end or prolong a lease: lease \<open>l\<close> becomes \<open>f l\<close>, and its step \<open>s\<close>
  becomes \<open>h s\<close>.\<close>

definition change :: "dist_lease \<Rightarrow> (dist_lease \<Rightarrow> dist_lease) \<Rightarrow> (dist_step \<Rightarrow> dist_step) \<Rightarrow> coordinator \<Rightarrow> coordinator" where
  "change l f h co = update_step (lease_key l) h (update_lease (dl_id l) f co)"

lemma change_steps: "co_steps (change l f h co) = map (\<lambda>s. if step_key s = lease_key l then h s else s) (co_steps co)"
  by (simp add: change_def update_step_def update_lease_def)

lemma change_leases: "co_leases (change l f h co) = map (\<lambda>x. if dl_id x = dl_id l then f x else x) (co_leases co)"
  by (simp add: change_def update_step_def update_lease_def)

lemma leases_of_change:
  assumes "coord_inv co" and "l \<in> set (co_leases co)" and "lease_key (f l) = lease_key l"
  shows "leases_of (change l f h co) k = map (\<lambda>x. if dl_id x = dl_id l then f x else x) (leases_of co k)"
proof -
  have "lease_key (if dl_id x = dl_id l then f x else x) = lease_key x" if "x \<in> set (co_leases co)" for x
    using assms that by (auto simp: coord_inv_def distinct_map inj_on_def)
  then show ?thesis unfolding leases_of_def change_leases filter_map by (intro arg_cong [where f = "map _"] filter_cong) auto
qed

lemma leases_of_other:
  assumes "coord_inv co" and "l \<in> set (co_leases co)" and "lease_key (f l) = lease_key l" and "k \<noteq> lease_key l"
  shows "leases_of (change l f h co) k = leases_of co k"
proof -
  have "dl_id x \<noteq> dl_id l" if "x \<in> set (leases_of co k)" for x
    using assms that by (auto simp: leases_of_def coord_inv_def distinct_map inj_on_def)
  then show ?thesis using leases_of_change [of co l f h k] assms(1-3) by (simp add: map_idI)
qed

lemma started_row:
  assumes "coord_inv co" and "l \<in> set (co_leases co)" and "dl_status l = LeaseActive"
  obtains s where "s \<in> set (co_steps co)" and "step_key s = lease_key l" and "ds_status s = Started" and "dl_attempt l = ds_attempt s"
proof -
  obtain s where s: "s \<in> set (co_steps co)" "step_key s = lease_key l" using assms by (force simp: coord_inv_def)
  have l: "l \<in> set (leases_of co (step_key s))" using s assms(2) by (simp add: leases_of_def)
  have ok: "row_ok (leases_of co (step_key s)) s" using assms(1) s(1) by (simp add: coord_inv_def)
  have "0 < with_status LeaseActive (leases_of co (step_key s))"
    using l assms(3) by (auto simp: with_status_def filter_empty_conv)
  with ok have "ds_status s = Started" by (auto simp: row_ok_def split: if_splits)
  then show ?thesis using that s ok l assms(3) by (simp add: row_ok_def)
qed

lemma row_unique:
  assumes "coord_inv co" and "s \<in> set (co_steps co)" and "t \<in> set (co_steps co)" and "step_key s = step_key t"
  shows "s = t"
  using assms by (auto simp: coord_inv_def distinct_map inj_on_def)

lemma change_terminal:
  assumes inv: "coord_inv co" and l: "l \<in> set (co_leases co)" "dl_status l = LeaseActive"
  shows "keeps_terminal co (change l f h co)"
proof -
  obtain s where s: "s \<in> set (co_steps co)" "step_key s = lease_key l" "ds_status s = Started" by (rule started_row [OF inv l])
  show ?thesis unfolding keeps_terminal_def
  proof (intro ballI impI)
    fix t
    assume t: "t \<in> set (co_steps co)" "ds_status t \<in> {Completed, Failed}"
    then have "step_key t \<noteq> lease_key l" using row_unique [OF inv t(1) s(1)] s by auto
    then show "t \<in> set (co_steps (change l f h co))" using t by (force simp: change_steps)
  qed
qed

lemma change_inv:
  assumes inv: "coord_inv co" and l: "l \<in> set (co_leases co)" "dl_status l = LeaseActive"
    and f: "lease_key (f l) = lease_key l" "dl_id (f l) = dl_id l"
    and h: "\<And>s. step_key (h s) = step_key s \<and> ds_attempt (h s) = ds_attempt s \<and> ds_depends (h s) = ds_depends s"
    and row: "\<And>s ls. s \<in> set (co_steps co) \<Longrightarrow> step_key s = lease_key l \<Longrightarrow> ds_status s = Started \<Longrightarrow>
        ls = leases_of co (lease_key l) \<Longrightarrow> row_ok ls s \<Longrightarrow> row_ok (map (\<lambda>x. if dl_id x = dl_id l then f x else x) ls) (h s)"
  shows "coord_inv (change l f h co)"
proof -
  let ?co = "change l f h co"
  have dn: "done_steps co \<subseteq> done_steps ?co" by (intro done_mono change_terminal inv l)
  have keys: "map step_key (co_steps ?co) = map step_key (co_steps co)" using h by (auto simp: change_steps)
  have ids: "map dl_id (co_leases ?co) = map dl_id (co_leases co)"
    using inv l(1) f(2) by (auto simp: change_leases coord_inv_def distinct_map inj_on_def)
  have lkeys: "lease_key x \<in> step_key ` set (co_steps co)" if "x \<in> set (co_leases ?co)" for x
    using that inv l(1) f(1) by (auto simp: change_leases coord_inv_def distinct_map inj_on_def)
  have rows: "row_ok (leases_of ?co (step_key s)) s \<and> (0 < ds_attempt s \<longrightarrow> (\<forall>d\<in>set (ds_depends s). (ds_run s, d) \<in> done_steps ?co))"
    if mem: "s \<in> set (co_steps ?co)" for s
  proof -
    obtain t where t: "t \<in> set (co_steps co)" "s = (if step_key t = lease_key l then h t else t)"
      using mem unfolding change_steps set_map by blast
    have deps: "0 < ds_attempt s \<longrightarrow> (\<forall>d\<in>set (ds_depends s). (ds_run s, d) \<in> done_steps ?co)"
    proof -
      have "ds_attempt s = ds_attempt t \<and> ds_depends s = ds_depends t \<and> ds_run s = ds_run t" using t(2) h [of t] by simp
      moreover have "0 < ds_attempt t \<longrightarrow> (\<forall>d\<in>set (ds_depends t). (ds_run t, d) \<in> done_steps co)" using inv t(1) by (simp add: coord_inv_def)
      ultimately show ?thesis using dn by auto
    qed
    show ?thesis
    proof (cases "step_key t = lease_key l")
      case True
      obtain t' where t': "t' \<in> set (co_steps co)" "step_key t' = lease_key l" "ds_status t' = Started" by (rule started_row [OF inv l])
      then have started: "ds_status t = Started" using row_unique [OF inv t'(1) t(1)] True by auto
      have "row_ok (leases_of co (lease_key l)) t" using inv t(1) True by (metis coord_inv_def)
      from row [OF t(1) True started refl this]
      have "row_ok (leases_of ?co (step_key s)) s"
        using leases_of_change [of co l f h "lease_key l"] inv l(1) f(1) True t(2) h [of t] by simp
      then show ?thesis using deps by blast
    next
      case False
      have st: "s = t" using t(2) unfolding if_not_P [OF False] .
      then have "leases_of ?co (step_key s) = leases_of co (step_key t)"
        using leases_of_other [of co l f "step_key t" h] inv l(1) f(1) False by blast
      with st show ?thesis using inv t(1) deps by (simp add: coord_inv_def)
    qed
  qed
  show ?thesis unfolding coord_inv_def
  proof (intro conjI ballI)
    show "distinct (map step_key (co_steps ?co))" "distinct (map dl_id (co_leases ?co))"
      using inv keys ids by (simp_all only: coord_inv_def)
    show "lease_key x \<in> step_key ` set (co_steps ?co)" if "x \<in> set (co_leases ?co)" for x
      using lkeys [OF that] keys by (metis list.set_map)
  qed (use rows in blast)+
qed

section \<open>Ending and prolonging leases\<close>

lemma ended_row:
  assumes inv: "coord_inv co" and l: "l \<in> set (co_leases co)" "dl_status l = LeaseActive"
    and ls: "ls = leases_of co (lease_key l)" and ok: "row_ok ls s" and started: "ds_status s = Started"
    and f: "\<And>x. dl_status (f x) = st" "st \<noteq> LeaseActive"
    and h: "ds_attempt (h s) = ds_attempt s" "ds_max (h s) = ds_max s" "ds_status (h s) \<noteq> Started"
      "ds_status (h s) = Queued \<longrightarrow> st = LeaseExpired \<or> ds_attempt s < ds_max s"
  shows "row_ok (map (\<lambda>x. if dl_id x = dl_id l then f x else x) ls) (h s)"
proof -
  let ?ls = "map (\<lambda>x. if dl_id x = dl_id l then f x else x) ls"
  have mem: "l \<in> set ls" using l(1) ls by (simp add: leases_of_def)
  have dist: "distinct (map dl_id ls)" using inv ls by (auto simp: coord_inv_def leases_of_def distinct_map inj_on_def)
  have count: "with_status x ?ls + (if dl_status l = x then 1 else 0) = with_status x ls + (if st = x then 1 else 0)" for x
    using filter_change [OF dist mem, of "\<lambda>y. dl_status y = x" f] f(1) unfolding with_status_def by simp
  have active: "with_status LeaseActive ?ls = 0" using count [of LeaseActive] ok started l(2) f(2) by (simp add: row_ok_def)
  then have none: "dl_status x \<noteq> LeaseActive" if "x \<in> set ?ls" for x
    using that by (auto simp: with_status_def filter_empty_conv)
  have expired: "int (with_status LeaseExpired ?ls) = int (with_status LeaseExpired ls) + (if st = LeaseExpired then 1 else 0)"
    using count [of LeaseExpired] l(2) by simp
  show ?thesis unfolding row_ok_def
  proof (intro conjI ballI impI)
    show "with_status LeaseActive ?ls = (if ds_status (h s) = Started then 1 else 0)" using active h(3) by simp
    show "ds_attempt (h s) = int (length ?ls)" using ok h(1) by (simp add: row_ok_def)
    show "ds_attempt (h s) + (if ds_status (h s) = Queued then 1 else 0) \<le> ds_max (h s) + int (with_status LeaseExpired ?ls)"
      using ok started h expired by (auto simp: row_ok_def)
  qed (use none in blast)
qed

lemma find_lease_mem: "find_lease co i = Some l \<Longrightarrow> l \<in> set (co_leases co) \<and> dl_id l = i"
  by (auto simp: find_lease_def find_Some_iff)

lemma complete_ok:
  assumes inv: "coord_inv co"
  shows "coord_inv (snd (complete_lease i w p now co)) \<and> keeps_terminal co (snd (complete_lease i w p now co))"
proof (cases "find_lease co i")
  case (Some l)
  note l = find_lease_mem [OF Some]
  let ?f = "\<lambda>x. x\<lparr>dl_status := LeaseCompleted\<rparr>" and ?h = "\<lambda>s. s\<lparr>ds_status := Completed, ds_output := Some p, ds_updated := now\<rparr>"
  show ?thesis
  proof (cases "dl_worker l \<noteq> w \<or> dl_status l \<noteq> LeaseActive")
    case False
    then have eq: "snd (complete_lease i w p now co) = change l ?f ?h co"
      using Some l by (simp add: complete_lease_def change_def)
    have "coord_inv (change l ?f ?h co)"
      by (rule change_inv) (use inv l False in \<open>auto intro: ended_row [where st = LeaseCompleted]\<close>)
    then show ?thesis using change_terminal inv l False eq by metis
  qed (use inv Some in \<open>simp add: complete_lease_def\<close>)
qed (use inv in \<open>simp add: complete_lease_def\<close>)

lemma fail_ok:
  assumes inv: "coord_inv co"
  shows "coord_inv (snd (fail_lease i w err delay now co)) \<and> keeps_terminal co (snd (fail_lease i w err delay now co))"
proof (cases "find_lease co i")
  case (Some l)
  note l = find_lease_mem [OF Some]
  show ?thesis
  proof (cases "dl_worker l \<noteq> w \<or> dl_status l \<noteq> LeaseActive")
    case False
    then have active: "dl_status l = LeaseActive" by simp
    obtain s0 where s0: "s0 \<in> set (co_steps co)" "step_key s0 = lease_key l"
      by (rule started_row [OF inv conjunct1 [OF l] active])
    then obtain s1 where s1: "find (\<lambda>s. step_key s = lease_key l) (co_steps co) = Some s1"
      by (metis (mono_tags, lifting) find_None_iff not_None_eq)
    then have "s1 \<in> set (co_steps co)" "step_key s1 = lease_key l" by (auto simp: find_Some_iff)
    with s0 have s1_eq: "s1 = s0" using row_unique [OF inv] by metis
    let ?retry = "ds_attempt s0 < ds_max s0" and ?f = "\<lambda>x. x\<lparr>dl_status := LeaseFailed\<rparr>"
    let ?h = "\<lambda>s. s\<lparr>ds_status := (if ?retry then Queued else Failed), ds_next := (if ?retry then Some (now + max 0 delay) else None),
        ds_error := Some err, ds_updated := now\<rparr>"
    have eq: "snd (fail_lease i w err delay now co) = change l ?f ?h co"
      using Some l False s1 s1_eq by (simp add: fail_lease_def change_def Let_def)
    have same: "s = s0" if "s \<in> set (co_steps co)" "step_key s = lease_key l" for s
      using row_unique [OF inv that(1) s0(1)] that s0 by simp
    have "coord_inv (change l ?f ?h co)"
    proof (rule change_inv)
      show "row_ok (map (\<lambda>x. if dl_id x = dl_id l then ?f x else x) ls) (?h s)"
        if "s \<in> set (co_steps co)" "step_key s = lease_key l" "ds_status s = Started" "ls = leases_of co (lease_key l)" "row_ok ls s" for s ls
        by (rule ended_row [where st = LeaseFailed]) (use inv l active that same [OF that(1,2)] in auto)
    qed (use inv l active in auto)
    then show ?thesis using change_terminal inv l active eq by metis
  qed (use inv Some in \<open>simp add: fail_lease_def\<close>)
qed (use inv in \<open>simp add: fail_lease_def\<close>)

lemma heartbeat_ok:
  assumes inv: "coord_inv co"
  shows "coord_inv (snd (heartbeat i w now clock co)) \<and> keeps_terminal co (snd (heartbeat i w now clock co))"
proof (cases "find_lease co i")
  case (Some l)
  note l = find_lease_mem [OF Some]
  let ?f = "\<lambda>x. x\<lparr>dl_heartbeat := now, dl_expires := clock + co_ttl co * 1000000\<rparr>"
  show ?thesis
  proof (cases "dl_worker l \<noteq> w \<or> dl_status l \<noteq> LeaseActive \<or> dl_expires l \<le> now")
    case False
    have "update_step k (\<lambda>s. s) co' = co'" for k co' by (simp add: update_step_def)
    then have eq: "snd (heartbeat i w now clock co) = change l ?f (\<lambda>s. s) co"
      using Some l False by (simp add: heartbeat_def change_def)
    have same: "row_ok (map (\<lambda>x. if dl_id x = dl_id l then ?f x else x) ls) s = row_ok ls s" for ls s
    proof -
      let ?g = "\<lambda>x. if dl_id x = dl_id l then ?f x else x"
      have g: "dl_status (?g x) = dl_status x" "dl_attempt (?g x) = dl_attempt x" for x by simp_all
      have "with_status st (map ?g ls) = with_status st ls" for st
        unfolding with_status_def filter_map o_def g by simp
      then show ?thesis unfolding row_ok_def set_map ball_simps g by simp
    qed
    have "coord_inv (change l ?f (\<lambda>s. s) co)"
      by (rule change_inv) (use inv l False same in auto)
    then show ?thesis using change_terminal inv l False eq by metis
  qed (use inv Some in \<open>auto simp: heartbeat_def\<close>)
qed (use inv in \<open>simp add: heartbeat_def\<close>)

lemma expire_one_ok:
  assumes inv: "coord_inv co" and l: "l \<in> set (co_leases co)" "dl_status l = LeaseActive"
  shows "coord_inv (expire_one now l co) \<and> keeps_terminal co (expire_one now l co)"
proof -
  let ?f = "\<lambda>x. x\<lparr>dl_status := LeaseExpired\<rparr>"
  let ?h = "\<lambda>s. if ds_status s = Started then s\<lparr>ds_status := Queued, ds_next := Some now, ds_updated := now\<rparr> else s"
  have eq: "expire_one now l co = change l ?f ?h co" by (simp add: expire_one_def change_def)
  have "coord_inv (change l ?f ?h co)"
  proof (rule change_inv)
    show "row_ok (map (\<lambda>x. if dl_id x = dl_id l then ?f x else x) ls) (?h s)"
      if "s \<in> set (co_steps co)" "step_key s = lease_key l" "ds_status s = Started" "ls = leases_of co (lease_key l)" "row_ok ls s" for s ls
      by (rule ended_row [where st = LeaseExpired]) (use inv l that in auto)
  qed (use inv l in auto)
  then show ?thesis unfolding eq using change_terminal [OF inv l] by blast
qed

lemma expire_all_ok:
  assumes "coord_inv co" and "set ls \<subseteq> set (co_leases co)" and "distinct (map dl_id ls)" and "\<forall>l\<in>set ls. dl_status l = LeaseActive"
  shows "coord_inv (fold (expire_one now) ls co) \<and> keeps_terminal co (fold (expire_one now) ls co)
    \<and> map dl_id (co_leases (fold (expire_one now) ls co)) = map dl_id (co_leases co)"
  using assms
proof (induction ls arbitrary: co)
  case (Cons l ls)
  let ?co = "expire_one now l co"
  have leases: "co_leases ?co = map (\<lambda>x. if dl_id x = dl_id l then x\<lparr>dl_status := LeaseExpired\<rparr> else x) (co_leases co)"
    by (simp add: expire_one_def update_step_def update_lease_def)
  have ok: "coord_inv ?co" "keeps_terminal co ?co" using expire_one_ok [of co l now] Cons.prems by auto
  have "set ls \<subseteq> set (co_leases ?co)"
  proof
    fix x
    assume "x \<in> set ls"
    then have "x \<in> set (co_leases co)" "dl_id x \<noteq> dl_id l"
      using Cons.prems(2,3) by (auto, metis image_eqI)
    then show "x \<in> set (co_leases ?co)" unfolding leases by force
  qed
  moreover have "map dl_id (co_leases ?co) = map dl_id (co_leases co)" unfolding leases by simp
  ultimately show ?case using Cons.IH [of ?co] Cons.prems ok keeps_terminal_trans by auto
qed simp

lemma expire_stale_ok:
  assumes "coord_inv co"
  shows "coord_inv (expire_stale_leases now co) \<and> keeps_terminal co (expire_stale_leases now co)
    \<and> map dl_id (co_leases (expire_stale_leases now co)) = map dl_id (co_leases co)"
  unfolding expire_stale_leases_def
  by (rule expire_all_ok) (use assms in \<open>auto simp: stale_def coord_inv_def distinct_map inj_on_def\<close>)

section \<open>Claiming\<close>

lemma with_status_snoc: "with_status st (ls @ [l]) = with_status st ls + (if dl_status l = st then 1 else 0)"
  by (simp add: with_status_def)

lemma with_status_none: "with_status st ls = 0 \<longleftrightarrow> (\<forall>l\<in>set ls. dl_status l \<noteq> st)"
  by (auto simp: with_status_def filter_empty_conv)

lemma claim_step_ok:
  assumes inv: "coord_inv co" and row: "row \<in> set (co_steps co)" "ds_status row = Queued" "ready co now row"
    and fresh: "i \<notin> dl_id ` set (co_leases co)" and eq: "claim_step w now i clock row co = (c, co')"
  shows "coord_inv co' \<and> keeps_terminal co co'"
proof -
  let ?h = "\<lambda>s. s\<lparr>ds_status := Started, ds_attempt := ds_attempt row + 1, ds_updated := now\<rparr>"
  define l where "l = \<lparr>dl_id = i, dl_run = ds_run row, dl_step = ds_step row, dl_worker = w, dl_attempt = ds_attempt row + 1,
      dl_issued = now, dl_heartbeat = now, dl_expires = clock + co_ttl co * 1000000, dl_status = LeaseActive\<rparr>"
  have l: "dl_id l = i" "lease_key l = step_key row" "dl_attempt l = ds_attempt row + 1" "dl_status l = LeaseActive"
    by (simp_all add: l_def)
  have leases: "co_leases co' = co_leases co @ [l]"
    and steps: "co_steps co' = map (\<lambda>s. if step_key s = step_key row then ?h s else s) (co_steps co)"
    using eq by (auto simp: claim_step_def Let_def update_step_def l_def)
  have same: "s = row" if "s \<in> set (co_steps co)" "step_key s = step_key row" for s using row_unique [OF inv that(1) row(1) that(2)] .
  have kept: "keeps_terminal co co'" unfolding keeps_terminal_def steps
  proof (intro ballI impI)
    fix s
    assume s: "s \<in> set (co_steps co)" "ds_status s \<in> {Completed, Failed}"
    then have "step_key s \<noteq> step_key row" using same [OF s(1)] row(2) by auto
    then show "s \<in> set (map (\<lambda>s. if step_key s = step_key row then ?h s else s) (co_steps co))" using s by force
  qed
  have keys: "map step_key (co_steps co') = map step_key (co_steps co)" unfolding steps by auto
  have of_l: "leases_of co' k = leases_of co k @ (if k = step_key row then [l] else [])" for k
    using l(2) by (auto simp: leases_of_def leases)
  have rows: "row_ok (leases_of co' (step_key s)) s \<and> (0 < ds_attempt s \<longrightarrow> (\<forall>d\<in>set (ds_depends s). (ds_run s, d) \<in> done_steps co'))"
    if mem: "s \<in> set (co_steps co')" for s
  proof -
    obtain t where t: "t \<in> set (co_steps co)" "s = (if step_key t = step_key row then ?h t else t)"
      using mem unfolding steps set_map by blast
    have ok: "row_ok (leases_of co (step_key t)) t" using inv t(1) by (simp add: coord_inv_def)
    show ?thesis
    proof (cases "step_key t = step_key row")
      case True
      then have tr: "t = row" using same t(1) by blast
      have s: "s = ?h row" using t(2) tr by simp
      have none: "\<forall>x\<in>set (leases_of co (step_key row)). dl_status x \<noteq> LeaseActive"
        using ok tr row(2) unfolding row_ok_def with_status_none [symmetric] by simp
      have "row_ok (leases_of co' (step_key s)) s"
        using ok tr row(2) l none unfolding s of_l by (auto simp: row_ok_def with_status_snoc)
      moreover have "(ds_run s, d) \<in> done_steps co'" if "d \<in> set (ds_depends s)" for d
      proof -
        have "dict_has (completed_pointer_map co (ds_run row)) d" using row(3) that s by (simp add: ready_def)
        then show ?thesis using done_mono [OF kept] s unfolding completed_map_iff by auto
      qed
      ultimately show ?thesis by blast
    next
      case False
      then have s: "s = t" using t(2) unfolding if_not_P [OF False] by blast
      then show ?thesis using ok False inv t(1) done_mono [OF kept] unfolding s of_l by (auto simp: coord_inv_def)
    qed
  qed
  show ?thesis
  proof
    show "coord_inv co'" unfolding coord_inv_def
    proof (intro conjI ballI)
      show "distinct (map step_key (co_steps co'))" using inv keys by (simp only: coord_inv_def)
      show "distinct (map dl_id (co_leases co'))" using inv fresh l(1) by (simp add: coord_inv_def leases)
      show "lease_key x \<in> step_key ` set (co_steps co')" if "x \<in> set (co_leases co')" for x
      proof -
        have "lease_key x \<in> step_key ` set (co_steps co)" using that inv l(2) row(1) by (auto simp: coord_inv_def leases)
        then show ?thesis using keys by (metis list.set_map)
      qed
    qed (use rows in blast)+
  qed (rule kept)
qed

lemma claim_step_effect:
  assumes "claim_step w now i clock row co = (c, co')"
  shows "dl_id ` set (co_leases co') = insert i (dl_id ` set (co_leases co))"
    and "r \<in> set (co_steps co) \<Longrightarrow> step_key r \<noteq> step_key row \<Longrightarrow> r \<in> set (co_steps co')"
  using assms by (auto simp: claim_step_def Let_def update_step_def image_iff)

lemma claim_rows_ok:
  assumes "coord_inv co" and "set rows \<subseteq> set (co_steps co)" and "\<forall>r\<in>set rows. ds_status r = Queued" and "distinct (map step_key rows)"
    and "inj (\<lambda>n. fst (mint n))" and "\<forall>m\<ge>n. fst (mint m) \<notin> dl_id ` set (co_leases co)"
  shows "coord_inv (snd (claim_rows w capacity now mint n rows co)) \<and> keeps_terminal co (snd (claim_rows w capacity now mint n rows co))"
  using assms
proof (induction w capacity now mint n rows co rule: claim_rows.induct)
  case (2 w capacity now mint n row rows co)
  show ?case
  proof (cases "capacity \<le> int n \<or> \<not> ready co now row")
    case False
    obtain c co1 where c: "claim_step w now (fst (mint n)) (snd (mint n)) row co = (c, co1)" by force
    have ok: "coord_inv co1 \<and> keeps_terminal co co1"
      by (rule claim_step_ok [OF _ _ _ _ _ c]) (use 2(3-8) False in auto)
    have rows: "set rows \<subseteq> set (co_steps co1)"
      using claim_step_effect(2) [OF c] "2.prems"(2,4) by (fastforce simp: image_iff)
    have ids: "\<forall>m\<ge>Suc n. fst (mint m) \<notin> dl_id ` set (co_leases co1)"
      using claim_step_effect(1) [OF c] "2.prems"(5,6) by (auto dest: injD)
    obtain cs co2 where rest: "claim_rows w capacity now mint (Suc n) rows co1 = (cs, co2)" by force
    have "coord_inv co2 \<and> keeps_terminal co1 co2"
      using "2.IH"(2) [OF _ _ c [symmetric]] ok rows ids "2.prems" False rest by auto
    then show ?thesis using ok keeps_terminal_trans False c rest by auto
  qed (use 2 in auto)
qed simp

lemma claim_work_ok:
  assumes inv: "coord_inv co" and fresh: "fresh_ids mint co"
  shows "coord_inv (snd (claim_work w capacity now mint co)) \<and> keeps_terminal co (snd (claim_work w capacity now mint co))"
proof -
  let ?co = "expire_stale_leases now co"
  have e: "coord_inv ?co" "keeps_terminal co ?co" "map dl_id (co_leases ?co) = map dl_id (co_leases co)"
    using expire_stale_ok [OF inv] by blast+
  have ids: "dl_id ` set (co_leases ?co) = dl_id ` set (co_leases co)" using e(3) by (metis list.set_map)
  have "coord_inv (snd (claim_rows w capacity now mint 0 (select_queued ?co) ?co))
      \<and> keeps_terminal ?co (snd (claim_rows w capacity now mint 0 (select_queued ?co) ?co))"
  proof (rule claim_rows_ok)
    show "set (select_queued ?co) \<subseteq> set (co_steps ?co)" "\<forall>r\<in>set (select_queued ?co). ds_status r = Queued"
      by (auto simp: select_queued_def)
    show "distinct (map step_key (select_queued ?co))"
      using e(1) by (auto simp: select_queued_def coord_inv_def distinct_map inj_on_def)
  qed (use e fresh ids in \<open>auto simp: fresh_ids_def\<close>)
  then show ?thesis using inv e keeps_terminal_trans by (auto simp: claim_work_def Let_def)
qed

section \<open>Enqueueing\<close>

lemma enqueue_rows:
  assumes "run \<notin> ds_run ` set (co_steps co)" and "distinct (map tc_step_id steps)"
  shows "fold (\<lambda>step. insert_or_replace (queued_step run m now step)) steps co
    = co\<lparr>co_steps := co_steps co @ map (queued_step run m now) steps\<rparr>"
proof -
  have "fold (\<lambda>step. insert_or_replace (queued_step run m now step)) steps co1 = co1\<lparr>co_steps := co_steps co1 @ map (queued_step run m now) steps\<rparr>"
    if "\<forall>x\<in>set (co_steps co1). \<forall>step\<in>set steps. step_key x \<noteq> (run, tc_step_id step)" for co1
    using that assms(2)
  proof (induction steps arbitrary: co1)
    case (Cons step steps)
    let ?row = "queued_step run m now step"
    have "filter (\<lambda>x. step_key x \<noteq> step_key ?row) (co_steps co1) = co_steps co1"
      using Cons.prems(1) by (auto simp: filter_id_conv queued_step_def)
    then have ins: "insert_or_replace ?row co1 = co1\<lparr>co_steps := co_steps co1 @ [?row]\<rparr>" by (simp add: insert_or_replace_def)
    have "\<forall>x\<in>set (co_steps (insert_or_replace ?row co1)). \<forall>step'\<in>set steps. step_key x \<noteq> (run, tc_step_id step')"
      using Cons.prems unfolding ins by (auto simp: queued_step_def image_iff)
    from Cons.IH [OF this] Cons.prems(2) show ?case by (simp add: ins)
  qed simp
  then show ?thesis using assms(1) by (force simp: image_iff)
qed

lemma enqueue_ok:
  assumes inv: "coord_inv co" and fresh: "run \<notin> ds_run ` set (co_steps co)" and "distinct (step_ids macro)"
    and m: "1 \<le> rp_max_attempts (mr_retry macro)"
  shows "coord_inv (enqueue_macro macro run now co) \<and> keeps_terminal co (enqueue_macro macro run now co)"
proof -
  let ?new = "map (queued_step run (rp_max_attempts (mr_retry macro)) now) (mr_steps macro)"
  have eq: "enqueue_macro macro run now co = co\<lparr>co_steps := co_steps co @ ?new\<rparr>"
    unfolding enqueue_macro_def using fresh assms(3) by (rule enqueue_rows)
  have kept: "keeps_terminal co (enqueue_macro macro run now co)" by (auto simp: eq keeps_terminal_def)
  have none: "leases_of co (run, i) = []" for i
    using inv fresh by (fastforce simp: coord_inv_def leases_of_def filter_empty_conv image_iff)
  have of_l: "leases_of (enqueue_macro macro run now co) k = leases_of co k" for k by (simp add: eq leases_of_def)
  have keys: "distinct (map step_key (co_steps co @ ?new))"
    using inv fresh assms(3) by (auto simp: coord_inv_def queued_step_def distinct_map inj_on_def image_iff)
  have rows: "row_ok (leases_of co (step_key s)) s \<and> (0 < ds_attempt s \<longrightarrow> (\<forall>d\<in>set (ds_depends s). (ds_run s, d) \<in> done_steps (enqueue_macro macro run now co)))"
    if "s \<in> set (co_steps co @ ?new)" for s
    using that inv none m done_mono [OF kept]
    by (auto simp: coord_inv_def row_ok_def queued_step_def with_status_def)
  show ?thesis using kept keys rows inv unfolding coord_inv_def of_l by (auto simp: eq)
qed

lemma coord_step_ok: "coord_step co co' \<Longrightarrow> coord_inv co \<Longrightarrow> coord_inv co' \<and> keeps_terminal co co'"
  by (erule coord_stepE) (simp_all add: enqueue_ok claim_work_ok heartbeat_ok complete_ok fail_ok)

lemma coord_run_ok: "coord_step\<^sup>*\<^sup>* co co' \<Longrightarrow> coord_inv co \<Longrightarrow> coord_inv co' \<and> keeps_terminal co co'"
  by (induction rule: rtranclp_induct) (auto dest: coord_step_ok intro: keeps_terminal_trans)

lemma coord_inv_new: "coord_inv (new_coordinator ttl)"
  by (simp add: coord_inv_def new_coordinator_def)

end
