(* ===== verification/EAP_Distributed_Properties.thy ===== *)
theory EAP_Distributed_Properties
  imports EAP_Distributed_Safety
begin

text \<open>
  The properties of the distributed coordinator: exclusive leases, terminal states, recovery from workers that
  stop, and two behaviours that the protocol document excludes.
\<close>

section \<open>Recovery\<close>

lemma expire_steps:
  "co_steps (fold (expire_one now) ls co) = map (\<lambda>s. if step_key s \<in> lease_key ` set ls \<and> ds_status s = Started
     then s\<lparr>ds_status := Queued, ds_next := Some now, ds_updated := now\<rparr> else s) (co_steps co)"
proof (induction ls arbitrary: co)
  case (Cons l ls)
  show ?case unfolding fold_Cons o_def Cons.IH
    by (auto simp: expire_one_def update_step_def update_lease_def)
qed (simp add: map_idI)

lemma expired_row:
  assumes "l \<in> set (co_leases co)" and "stale now l" and "s \<in> set (co_steps co)" and "step_key s = lease_key l" and "ds_status s = Started"
  shows "s\<lparr>ds_status := Queued, ds_next := Some now, ds_updated := now\<rparr> \<in> set (co_steps (expire_stale_leases now co))"
proof -
  have "step_key s \<in> lease_key ` set (filter (stale now) (co_leases co))" using assms by auto
  then show ?thesis unfolding expire_stale_leases_def expire_steps using assms(3,5) by (auto simp: image_iff intro!: bexI [of _ s])
qed

lemma claim_rows_takes:
  assumes "row \<in> set rows" and "int n + int (length rows) \<le> capacity" and "ready co now row"
    and "set rows \<subseteq> set (co_steps co)" and "\<forall>r\<in>set rows. ds_status r = Queued" and "distinct (map step_key rows)"
    and "inj (\<lambda>n. fst (mint n))" and "\<forall>m\<ge>n. fst (mint m) \<notin> dl_id ` set (co_leases co)" and "coord_inv co"
  shows "\<exists>c\<in>set (fst (claim_rows w capacity now mint n rows co)). (cm_run c, cm_step c) = step_key row \<and> cm_attempt c = ds_attempt row + 1"
  using assms
proof (induction w capacity now mint n rows co rule: claim_rows.induct)
  case (2 w capacity now mint n r rows co)
  have cap: "\<not> capacity \<le> int n" using "2.prems"(2) by auto
  show ?case
  proof (cases "ready co now r")
    case False
    then have "row \<in> set rows" using "2.prems"(1,3) by auto
    then show ?thesis using "2.IH"(1) [OF cap False] "2.prems" cap False by auto
  next
    case True
    obtain c co1 where c: "claim_step w now (fst (mint n)) (snd (mint n)) r co = (c, co1)" by force
    obtain cs co2 where rest: "claim_rows w capacity now mint (Suc n) rows co1 = (cs, co2)" by force
    have out: "fst (claim_rows w capacity now mint n (r # rows) co) = c # cs" using cap True c rest by simp
    show ?thesis
    proof (cases "row = r")
      case same: True
      have "(cm_run c, cm_step c) = step_key row \<and> cm_attempt c = ds_attempt row + 1"
        using c same by (auto simp: claim_step_def Let_def)
      then show ?thesis unfolding out by simp
    next
      case False
      then have mem: "row \<in> set rows" using "2.prems"(1) by simp
      have ok: "coord_inv co1 \<and> keeps_terminal co co1"
        by (rule claim_step_ok [OF _ _ _ _ _ c]) (use "2.prems" True in auto)
      then have "ready co1 now row" using "2.prems"(3) done_mono [of co co1] unfolding ready_def completed_map_iff by (auto split: option.splits)
      moreover have "set rows \<subseteq> set (co_steps co1)"
        using claim_step_effect(2) [OF c] "2.prems"(4,6) by (fastforce simp: image_iff)
      moreover have "\<forall>m\<ge>Suc n. fst (mint m) \<notin> dl_id ` set (co_leases co1)"
        using claim_step_effect(1) [OF c] "2.prems"(7,8) by (auto dest: injD)
      ultimately have "\<exists>c\<in>set cs. (cm_run c, cm_step c) = step_key row \<and> cm_attempt c = ds_attempt row + 1"
        using "2.IH"(2) [OF cap _ c [symmetric]] True mem ok "2.prems" rest by auto
      then show ?thesis unfolding out by simp
    qed
  qed
qed simp

section \<open>Properties\<close>




section \<open>Overlapping claims\<close>

definition two_steps :: macro_request where
  "two_steps = \<lparr>mr_steps = [sample_step ''a'' [], sample_step ''b'' [(''x'', PStr ''$step:a'')]], mr_final_only = True,
     mr_retry = default_retry_policy\<lparr>rp_max_attempts := 1\<rparr>, mr_limits = None, mr_approvals = []\<rparr>"

definition mint_as :: "string \<Rightarrow> int \<Rightarrow> nat \<Rightarrow> string \<times> int" where
  "mint_as p clock n = (p @ replicate n (CHR ''i''), clock)"

definition enqueued_two :: coordinator where "enqueued_two = enqueue_macro two_steps ''r'' 0 (new_coordinator 30)"

definition claimed_two :: coordinator where "claimed_two = snd (claim_work ''w1'' 1 0 (mint_as ''p'' 0) enqueued_two)"

text \<open>Two workers that both select the queued steps before either of them writes are both given the same step, for the
  same attempt: there are two active leases on it, both workers run the tool, and both completions are accepted,
  the second replacing the result of the first.\<close>

theorem overlapping_claims_share_step:
  "let co = enqueued_two; rows1 = select_queued co; rows2 = select_queued co;
       (claims1, co1) = claim_rows ''w1'' 1 0 (mint_as ''p'' 0) 0 rows1 co;
       (claims2, co2) = claim_rows ''w2'' 1 0 (mint_as ''q'' 0) 0 rows2 co1;
       (ok1, co3) = complete_lease ''p'' ''w1'' ''result1'' 1 co2; (ok2, co4) = complete_lease ''q'' ''w2'' ''result2'' 2 co3 in
     map (\<lambda>c. (cm_run c, cm_step c, cm_attempt c)) claims1 = [(''r'', ''a'', 1)]
     \<and> map (\<lambda>c. (cm_run c, cm_step c, cm_attempt c)) claims2 = [(''r'', ''a'', 1)]
     \<and> with_status LeaseActive (leases_of co2 (''r'', ''a'')) = 2 \<and> ok1 \<and> ok2
     \<and> map_of (completed_pointer_map co3 ''r'') ''a'' = Some ''result1'' \<and> map_of (completed_pointer_map co4 ''r'') ''a'' = Some ''result2''"
  by code_simp

text \<open>An expired lease puts its step back into the queue even when the maximum number of attempts is used up: a step
  that may be attempted once is handed out a second time.\<close>

theorem expiry_ignores_max_attempts:
  "map (\<lambda>c. (cm_step c, cm_attempt c)) (fst (claim_work ''w2'' 1 40000000 (mint_as ''q'' 40000000) claimed_two)) = [(''a'', 2)]
    \<and> map ds_max (co_steps claimed_two) = [1, 1]"
  by code_simp

section \<open>Samples\<close>

lemma mint_fresh: "p \<notin> {take (length p) (dl_id l) |l. l \<in> set (co_leases co)} \<Longrightarrow> fresh_ids (mint_as p clock) co"
  unfolding fresh_ids_def inj_def mint_as_def by (auto simp: image_iff) (metis append_eq_conv_conj)

lemma claimed_reached: "coord_step\<^sup>*\<^sup>* (new_coordinator 30) claimed_two"
proof -
  have "coord_step (new_coordinator 30) enqueued_two" unfolding enqueued_two_def
    by (rule enqueued) (auto simp: new_coordinator_def two_steps_def sample_step_def default_retry_policy_def)
  moreover have "coord_step enqueued_two claimed_two" unfolding claimed_two_def
  proof (rule claimed [OF mint_fresh])
    have "co_leases enqueued_two = []" by code_simp
    then show "''p'' \<notin> {take (length ''p'') (dl_id l) |l. l \<in> set (co_leases enqueued_two)}" by simp
  qed
  ultimately show ?thesis by auto
qed

lemma claimed_leases: "co_leases claimed_two = [\<lparr>dl_id = ''p'', dl_run = ''r'', dl_step = ''a'', dl_worker = ''w1'', dl_attempt = 1,
    dl_issued = 0, dl_heartbeat = 0, dl_expires = 30000000, dl_status = LeaseActive\<rparr>]"
  by code_simp


definition completed_two :: coordinator where "completed_two = snd (complete_lease ''p'' ''w1'' ''result1'' 1 claimed_two)"



end
