(* ===== verification/EAP_Paths.thy ===== *)
theory EAP_Paths
  imports EAP_Prelude "HOL-Library.Sublist"
begin

text \<open>
  What the file tools use of the operating system and of \<open>pathlib\<close>: a file system with symbolic links, the
  kernel's lookup of a path, and \<open>Path.resolve\<close>. A path is the list of its names from the root directory. A file
  holds its text; permissions and input or output errors of the device are not modelled. A link holds whether its
  text is absolute, and the names in it, without empty ones.

  \<open>Path.resolve\<close> is the algorithm of \<open>os.path.realpath\<close> up to Python 3.12: it keeps the names it still has to
  follow, and the links it has seen, with the path they lead to once that is known. Its recursion is the stack of
  names, in which \<open>Settle\<close> marks the end of the text of a link. When it meets a link it is still resolving,
  it gives up: the rest of the names is appended as it is, and only normalised lexically.
\<close>

section \<open>File systems\<close>

type_synonym fspath = "string list"

datatype node = Dir | File string | Link bool "string list"

type_synonym fsys = "(fspath, node) dict"

definition node_at :: "fsys \<Rightarrow> fspath \<Rightarrow> node option" where
  "node_at fs p = (if p = [] then Some Dir else map_of fs p)"

fun is_link :: "node option \<Rightarrow> bool" where
  "is_link (Some (Link a t)) = True"
| "is_link _ = False"

definition skip_name :: "string \<Rightarrow> bool" where
  "skip_name c = (c = [] \<or> c = ''.'')"

definition proper_name :: "string \<Rightarrow> bool" where
  "proper_name n = (\<not> skip_name n \<and> n \<noteq> ''..'')"

definition wf_fsys :: "fsys \<Rightarrow> bool" where
  \<comment> \<open>everything is in a directory\<close>
  "wf_fsys fs = (\<forall>p\<in>set (map fst fs). p \<noteq> [] \<and> node_at fs (butlast p) = Some Dir \<and> list_all proper_name p)"

datatype file_error = ValueErr | FileNotFound | NotADirectory | IsADirectory | PermissionErr | SymlinkLoop | NoHome | FileExists

section \<open>Lookup by the kernel\<close>

datatype found = At fspath | Missing fspath | NoEntry | NotDir | TooManyLinks

definition link_base :: "bool \<Rightarrow> fspath \<Rightarrow> fspath" where
  "link_base absolute p = (if absolute then [] else p)"

function namei :: "fsys \<Rightarrow> nat \<Rightarrow> fspath \<Rightarrow> string list \<Rightarrow> found" where
  "namei fs n p [] = At p"
| "namei fs n p (c # cs) = (case node_at fs p of
     None \<Rightarrow> NoEntry
   | Some Dir \<Rightarrow>
       if skip_name c then namei fs n p cs
       else if c = ''..'' then namei fs n (butlast p) cs
       else (case node_at fs (p @ [c]) of
           None \<Rightarrow> if cs = [] then Missing (p @ [c]) else NoEntry
         | Some (Link absolute target) \<Rightarrow>
             if n = 0 then TooManyLinks else namei fs (n - 1) (link_base absolute p) (target @ cs)
         | Some _ \<Rightarrow> namei fs n (p @ [c]) cs)
   | Some _ \<Rightarrow> NotDir)"
  by pat_completeness auto
termination by (relation "measures [\<lambda>(fs, n, p, cs). n, \<lambda>(fs, n, p, cs). length cs]") auto

definition link_limit :: nat where "link_limit = 40"

definition lookup_path :: "fsys \<Rightarrow> fspath \<Rightarrow> found" where
  "lookup_path fs p = namei fs link_limit [] p"

definition path_exists :: "fsys \<Rightarrow> fspath \<Rightarrow> bool" where
  "path_exists fs p = (case lookup_path fs p of At _ \<Rightarrow> True | _ \<Rightarrow> False)"

definition path_is_dir :: "fsys \<Rightarrow> fspath \<Rightarrow> bool" where
  "path_is_dir fs p = (case lookup_path fs p of At q \<Rightarrow> node_at fs q = Some Dir | _ \<Rightarrow> False)"

section \<open>\<open>os.path.realpath\<close>\<close>

datatype pending = Name string | Settle fspath

fun normpath :: "fspath \<Rightarrow> string list \<Rightarrow> fspath" where
  "normpath p [] = p"
| "normpath p (n # ns) = (if skip_name n then normpath p ns
     else if n = ''..'' then normpath (butlast p) ns else normpath (p @ [n]) ns)"

fun names_of :: "pending list \<Rightarrow> string list" where
  "names_of [] = []"
| "names_of (Name n # st) = n # names_of st"
| "names_of (Settle _ # st) = names_of st"

definition has_nul :: "string \<Rightarrow> bool" where
  "has_nul n = (char_of (0 :: nat) \<in> set n)"

definition links :: "fsys \<Rightarrow> fspath set" where
  "links fs = {p \<in> set (map fst fs). is_link (node_at fs p)}"

lemma finite_links [simp]: "finite (links fs)" by (simp add: links_def)

lemma links_iff: "is_link (node_at fs p) \<longleftrightarrow> p \<in> links fs"
proof -
  have "p \<in> set (map fst fs)" if "is_link (node_at fs p)"
    using that dict_has_iff [of fs p] by (auto simp: node_at_def split: if_splits)
  then show ?thesis by (auto simp: links_def)
qed

lemma unseen_links_le: "card (links fs - fst ` set (dict_set l v seen)) \<le> card (links fs - fst ` set seen)"
  using dict_keys_set [of l v seen] by (auto intro!: card_mono)

lemma unseen_links_less:
  assumes "node_at fs p = Some (Link a t)" and "map_of seen p = None"
  shows "card (links fs - fst ` set (dict_set p v seen)) < card (links fs - fst ` set seen)"
proof -
  have "p \<in> links fs" using assms(1) links_iff [of fs p] by simp
  moreover have "p \<notin> fst ` set seen" using assms(2) by (simp add: map_of_eq_None_iff)
  moreover have "links fs - insert p (fst ` set seen) = (links fs - fst ` set seen) - {p}" by auto
  ultimately have "card (links fs - insert p (fst ` set seen)) < card (links fs - fst ` set seen)"
    using card_Diff1_less [of "links fs - fst ` set seen" p] by simp
  then show ?thesis using dict_keys_set [of p v seen] by simp
qed

function join_real :: "fsys \<Rightarrow> bool \<Rightarrow> fspath \<Rightarrow> pending list \<Rightarrow> (fspath, fspath option) dict
    \<Rightarrow> file_error + fspath \<times> bool" where
  "join_real fs strict p [] seen = Inr (p, True)"
| "join_real fs strict p (Settle l # st) seen = join_real fs strict p st (dict_set l (Some p) seen)"
| "join_real fs strict p (Name n # st) seen =
     (if skip_name n then join_real fs strict p st seen
      else if n = ''..'' then join_real fs strict (butlast p) st seen
      else if has_nul n then Inl ValueErr
      else let newpath = p @ [n] in (case node_at fs newpath of
          Some (Link absolute target) \<Rightarrow> (case dict_get seen newpath of
              Some (Some q) \<Rightarrow> join_real fs strict q st seen
            | Some None \<Rightarrow> if strict then Inl SymlinkLoop else Inr (normpath newpath (names_of st), False)
            | None \<Rightarrow> join_real fs strict (link_base absolute p) (map Name target @ Settle newpath # st)
                (dict_set newpath None seen))
        | None \<Rightarrow> if strict then Inl FileNotFound else join_real fs strict newpath st seen
        | Some _ \<Rightarrow> join_real fs strict newpath st seen))"
  by pat_completeness auto
termination
  by (relation "measures [\<lambda>(fs, strict, p, st, seen). card (links fs - set (map fst seen)),
        \<lambda>(fs, strict, p, st, seen). length st]")
     (auto simp: unseen_links_less intro: le_neq_implies_less unseen_links_le)

text \<open>A path as the program writes it: whether it is absolute, and its names without empty ones and single dots.\<close>

type_synonym pathval = "bool \<times> string list"

definition parse_path :: "string \<Rightarrow> pathval" where
  "parse_path s = (startswith s ''/'', filter (\<lambda>n. \<not> skip_name n) (py_split (CHR ''/'') s))"

record file_env =
  fe_cwd :: fspath
  fe_root_var :: "string option"
  fe_expanduser :: "string \<Rightarrow> string"
  fe_dumps :: "pyval \<Rightarrow> string"

definition path_expanduser :: "file_env \<Rightarrow> pathval \<Rightarrow> file_error + pathval" where
  "path_expanduser env pv = (case pv of
     (False, n # ns) \<Rightarrow> if startswith n ''~''
       then let home = fe_expanduser env n in if startswith home ''~'' then Inl NoHome
         else Inr (case parse_path home of (a, hs) \<Rightarrow> (a, hs @ ns))
       else Inr pv
   | _ \<Rightarrow> Inr pv)"

definition path_resolve :: "file_env \<Rightarrow> fsys \<Rightarrow> bool \<Rightarrow> pathval \<Rightarrow> file_error + fspath" where
  "path_resolve env fs strict pv = (case pv of (absolute, ns) \<Rightarrow>
     bindR (join_real fs strict (if absolute then [] else fe_cwd env) (map Name ns) []) (\<lambda>(p, ok).
       if list_ex has_nul p then Inl ValueErr
       else if \<not> strict \<and> lookup_path fs p = TooManyLinks then Inl SymlinkLoop
       else Inr p))"

section \<open>Changing the file system\<close>

definition os_mkdir :: "fsys \<Rightarrow> fspath \<Rightarrow> file_error + fsys" where
  "os_mkdir fs p = (if p = [] then Inl FileExists else (case lookup_path fs (butlast p) of
     At q \<Rightarrow> if node_at fs q \<noteq> Some Dir then Inl NotADirectory
       else if node_at fs (q @ [last p]) \<noteq> None then Inl FileExists
       else Inr (dict_set (q @ [last p]) Dir fs)
   | Missing _ \<Rightarrow> Inl FileNotFound | NoEntry \<Rightarrow> Inl FileNotFound
   | NotDir \<Rightarrow> Inl NotADirectory | TooManyLinks \<Rightarrow> Inl SymlinkLoop))"

text \<open>\<open>mkdir(parents=True, exist_ok=True)\<close>: the second attempt is made once the parents exist.\<close>

definition mkdir_again :: "fsys \<Rightarrow> fspath \<Rightarrow> (file_error + unit) \<times> fsys" where
  "mkdir_again fs p = (case os_mkdir fs p of
     Inr fs' \<Rightarrow> (Inr (), fs')
   | Inl e \<Rightarrow> if e \<noteq> FileNotFound \<and> path_is_dir fs p then (Inr (), fs) else (Inl e, fs))"

function mkdir_parents :: "fsys \<Rightarrow> fspath \<Rightarrow> (file_error + unit) \<times> fsys" where
  "mkdir_parents fs p = (case os_mkdir fs p of
     Inr fs' \<Rightarrow> (Inr (), fs')
   | Inl e \<Rightarrow> if e \<noteq> FileNotFound then (if path_is_dir fs p then (Inr (), fs) else (Inl e, fs))
       else if p = [] then (Inl e, fs)
       else (case mkdir_parents fs (butlast p) of
           (Inl e', fs1) \<Rightarrow> (Inl e', fs1)
         | (Inr _, fs1) \<Rightarrow> mkdir_again fs1 p))"
  by pat_completeness auto
termination by (relation "measure (length \<circ> snd)") auto

declare mkdir_parents.simps [simp del]

definition open_write :: "fsys \<Rightarrow> fspath \<Rightarrow> bool \<Rightarrow> string \<Rightarrow> file_error + fsys" where
  "open_write fs p append_mode content = (case lookup_path fs p of
     At q \<Rightarrow> (case node_at fs q of
         Some (File old) \<Rightarrow> Inr (dict_set q (File (if append_mode then old @ content else content)) fs)
       | Some Dir \<Rightarrow> Inl IsADirectory | _ \<Rightarrow> Inl FileNotFound)
   | Missing q \<Rightarrow> Inr (dict_set q (File content) fs)
   | NoEntry \<Rightarrow> Inl FileNotFound | NotDir \<Rightarrow> Inl NotADirectory | TooManyLinks \<Rightarrow> Inl SymlinkLoop)"

definition open_read :: "fsys \<Rightarrow> fspath \<Rightarrow> file_error + string" where
  "open_read fs p = (case lookup_path fs p of
     At q \<Rightarrow> (case node_at fs q of Some (File c) \<Rightarrow> Inr c | Some Dir \<Rightarrow> Inl IsADirectory | _ \<Rightarrow> Inl FileNotFound)
   | NotDir \<Rightarrow> Inl NotADirectory | TooManyLinks \<Rightarrow> Inl SymlinkLoop | _ \<Rightarrow> Inl FileNotFound)"

section \<open>Paths without links\<close>

definition settled :: "fsys \<Rightarrow> fspath \<Rightarrow> bool" where
  \<comment> \<open>no part of it is a link, and no name is a dot or two dots\<close>
  "settled fs p \<longleftrightarrow> (\<forall>q. prefix q p \<longrightarrow> \<not> is_link (node_at fs q)) \<and> list_all proper_name p"

lemma settled_Nil [simp]: "settled fs []" by (simp add: settled_def node_at_def)

lemma settled_prefix: "settled fs p \<Longrightarrow> prefix q p \<Longrightarrow> settled fs q"
  by (auto simp: settled_def list_all_iff dest: set_mono_prefix intro: prefix_order.trans)

lemma settled_butlast: "settled fs p \<Longrightarrow> settled fs (butlast p)"
  by (rule settled_prefix) (auto simp: prefixeq_butlast)

lemma settled_snoc:
  "settled fs (p @ [n]) \<longleftrightarrow> settled fs p \<and> \<not> is_link (node_at fs (p @ [n])) \<and> \<not> skip_name n \<and> n \<noteq> ''..''"
  by (auto simp: settled_def proper_name_def)

lemma settled_link_base: "settled fs p \<Longrightarrow> settled fs (link_base a p)"
  by (simp add: link_base_def)

definition seen_settled :: "fsys \<Rightarrow> (fspath, fspath option) dict \<Rightarrow> bool" where
  "seen_settled fs seen \<longleftrightarrow> (\<forall>l r. map_of seen l = Some (Some r) \<longrightarrow> settled fs r)"

lemma seen_settled_set:
  "seen_settled fs seen \<Longrightarrow> (\<And>r. v = Some r \<Longrightarrow> settled fs r) \<Longrightarrow> seen_settled fs (dict_set l v seen)"
  by (auto simp: seen_settled_def)

lemma join_real_settled:
  assumes "join_real fs strict p st seen = Inr (q, True)" and "settled fs p" and "seen_settled fs seen"
  shows "settled fs q"
  using assms
proof (induction fs strict p st seen rule: join_real.induct)
  case (3 fs strict p n st seen)
  have "settled fs r" if "map_of seen (p @ [n]) = Some (Some r)" for r
    using "3.prems"(3) that by (simp add: seen_settled_def)
  moreover have "seen_settled fs (dict_set (p @ [n]) None seen)" using "3.prems"(3) by (rule seen_settled_set) simp
  ultimately show ?case using 3
    by (auto simp: Let_def settled_snoc settled_butlast settled_link_base split: if_splits option.splits node.splits)
qed (auto intro: seen_settled_set)

lemma join_real_strict: "join_real fs strict p st seen = Inr (q, ok) \<Longrightarrow> strict \<Longrightarrow> ok"
proof (induction fs strict p st seen rule: join_real.induct)
  case (3 fs strict p n st seen)
  then show ?case by (auto simp: Let_def split: if_splits option.splits node.splits) blast+
qed auto

lemma path_resolve_strict:
  assumes "path_resolve env fs True (True, ns) = Inr p"
  shows "settled fs p"
proof -
  obtain ok where r: "join_real fs True [] (map Name ns) [] = Inr (p, ok)"
    using assms by (auto simp: path_resolve_def res_simps split: if_splits)
  with join_real_strict [OF r] have "join_real fs True [] (map Name ns) [] = Inr (p, True)" by simp
  then show ?thesis by (rule join_real_settled) (simp_all add: seen_settled_def)
qed

lemma namei_settled:
  "settled fs (p @ cs) \<Longrightarrow> namei fs n p cs \<in> {At (p @ cs), Missing (p @ cs), NoEntry, NotDir}"
proof (induction cs arbitrary: p)
  case (Cons c cs)
  have s: "settled fs (p @ [c])" using Cons.prems by (rule settled_prefix) simp
  have "\<not> skip_name c" "c \<noteq> ''..''" "\<not> is_link (node_at fs (p @ [c]))" using s by (auto simp: settled_snoc)
  then show ?case using Cons.IH [of "p @ [c]"] Cons.prems by (auto split: option.splits node.splits)
qed simp

lemma lookup_settled: "settled fs p \<Longrightarrow> lookup_path fs p \<in> {At p, Missing p, NoEntry, NotDir}"
  using namei_settled [of fs "[]" p] by (simp add: lookup_path_def)

lemma wf_parent:
  assumes "wf_fsys fs" and "node_at fs p \<noteq> None"
  shows "node_at fs (butlast p) = Some Dir"
proof (cases "p = []")
  case False
  then have "p \<in> set (map fst fs)" using assms(2) dict_has_iff [of fs p] by (simp add: node_at_def)
  then show ?thesis using assms(1) unfolding wf_fsys_def by blast
qed (simp add: node_at_def)

lemma wf_prefix: "wf_fsys fs \<Longrightarrow> node_at fs p \<noteq> None \<Longrightarrow> prefix q p \<Longrightarrow> node_at fs q \<noteq> None"
proof (induction p rule: rev_induct)
  case (snoc x p)
  then show ?case using wf_parent [of fs "p @ [x]"] by auto
qed (simp add: node_at_def)

lemma node_at_link_base: "node_at fs p \<noteq> None \<Longrightarrow> node_at fs (link_base a p) \<noteq> None"
  by (auto simp: link_base_def node_at_def)

lemma namei_At: "namei fs n p cs = At q \<Longrightarrow> wf_fsys fs \<Longrightarrow> node_at fs p \<noteq> None \<Longrightarrow> node_at fs q \<noteq> None"
proof (induction fs n p cs rule: namei.induct)
  case (2 fs n p c cs)
  have "node_at fs (butlast p) \<noteq> None" using wf_parent [OF 2(7,8)] by simp
  then show ?case using 2 node_at_link_base [OF 2(8)] by (auto split: option.splits node.splits if_splits)
qed simp

lemma namei_Missing: "namei fs n p cs = Missing q \<Longrightarrow> node_at fs q = None \<and> node_at fs (butlast q) = Some Dir \<and> q \<noteq> []"
  by (induction fs n p cs rule: namei.induct) (auto split: option.splits node.splits if_splits)

lemma lookup_At: "lookup_path fs p = At q \<Longrightarrow> wf_fsys fs \<Longrightarrow> node_at fs q \<noteq> None"
  using namei_At [of fs _ "[]"] by (simp add: lookup_path_def node_at_def [of _ "[]"])

lemma lookup_Missing: "lookup_path fs p = Missing q \<Longrightarrow> node_at fs q = None \<and> node_at fs (butlast q) = Some Dir \<and> q \<noteq> []"
  by (simp add: lookup_path_def namei_Missing)

lemma lookup_settled_At: "settled fs p \<Longrightarrow> lookup_path fs p = At q \<Longrightarrow> q = p"
  using lookup_settled [of fs p] by auto

lemma lookup_settled_Missing: "settled fs p \<Longrightarrow> lookup_path fs p = Missing q \<Longrightarrow> q = p"
  using lookup_settled [of fs p] by auto

section \<open>Updates\<close>

lemma node_at_set: "node_at (dict_set p v fs) q = (if q = p \<and> p \<noteq> [] then Some v else node_at fs q)"
  by (simp add: node_at_def)

lemma wf_set:
  assumes "wf_fsys fs" and "p \<noteq> []" and "node_at fs (butlast p) = Some Dir" and "list_all proper_name p"
    and "node_at fs p \<noteq> Some Dir"
  shows "wf_fsys (dict_set p v fs)"
proof -
  have "butlast p \<noteq> p" using assms(2) by (metis append_butlast_last_id append_self_conv not_Cons_self2)
  moreover have "butlast q \<noteq> p" if "q \<in> set (map fst fs)" for q using assms(1,5) that by (auto simp: wf_fsys_def)
  ultimately show ?thesis using assms unfolding wf_fsys_def dict_keys_set by (auto simp: node_at_set)
qed

definition grows :: "fspath \<Rightarrow> fsys \<Rightarrow> fsys \<Rightarrow> bool" where
  \<comment> \<open>the only changes are new directories above \<open>p\<close>, or at \<open>p\<close>\<close>
  "grows p fs fs' \<longleftrightarrow> (\<forall>q. node_at fs' q \<noteq> node_at fs q \<longrightarrow> prefix q p \<and> node_at fs q = None \<and> node_at fs' q = Some Dir)"

lemma grows_refl [simp]: "grows p fs fs" by (simp add: grows_def)

lemma grows_trans: "grows p fs fs1 \<Longrightarrow> grows p fs1 fs2 \<Longrightarrow> grows p fs fs2"
  unfolding grows_def by (metis option.distinct(1))

lemma grows_butlast: "grows (butlast p) fs fs' \<Longrightarrow> grows p fs fs'"
  unfolding grows_def using prefix_order.trans [OF _ prefixeq_butlast [of p]] by blast

lemma grows_settled: "grows p fs fs' \<Longrightarrow> settled fs q \<Longrightarrow> settled fs' q"
  unfolding grows_def settled_def by (metis is_link.simps(3))

lemma os_mkdir_settled:
  assumes "os_mkdir fs p = Inr fs'" and "settled fs p" and "wf_fsys fs"
  shows "wf_fsys fs' \<and> grows p fs fs'"
proof -
  have p: "p \<noteq> []" using assms(1) by (auto simp: os_mkdir_def)
  then have "lookup_path fs (butlast p) = At q \<Longrightarrow> q = butlast p" for q
    using lookup_settled_At [OF settled_butlast [OF assms(2)]] by blast
  then have fs': "node_at fs (butlast p) = Some Dir" "node_at fs p = None" "fs' = dict_set p Dir fs"
    using assms(1) p by (auto simp: os_mkdir_def split: found.splits if_splits)
  then show ?thesis using wf_set [OF assms(3) p fs'(1)] assms(2) by (auto simp: settled_def grows_def node_at_set)
qed

lemma mkdir_again_settled:
  "mkdir_again fs p = (r, fs') \<Longrightarrow> settled fs p \<Longrightarrow> wf_fsys fs \<Longrightarrow> wf_fsys fs' \<and> grows p fs fs'"
  using os_mkdir_settled [of fs p] by (auto simp: mkdir_again_def split: sum.splits if_splits)

lemma mkdir_parents_settled:
  "mkdir_parents fs p = (r, fs') \<Longrightarrow> settled fs p \<Longrightarrow> wf_fsys fs \<Longrightarrow> wf_fsys fs' \<and> grows p fs fs'"
proof (induction fs p arbitrary: r fs' rule: mkdir_parents.induct)
  case (1 fs p)
  show ?case
  proof (cases "os_mkdir fs p")
    case (Inr a)
    then show ?thesis using 1 os_mkdir_settled [of fs p a] by (subst (asm) mkdir_parents.simps) simp
  next
    case (Inl e)
    show ?thesis
    proof (cases "e \<noteq> FileNotFound \<or> p = []")
      case True
      then show ?thesis using 1(2,4) Inl by (subst (asm) mkdir_parents.simps) (auto split: if_splits)
    next
      case False
      obtain r1 fs1 where m: "mkdir_parents fs (butlast p) = (r1, fs1)" by fastforce
      then have g: "wf_fsys fs1" "grows p fs fs1"
        using "1.IH" [OF Inl _ _ m settled_butlast [OF 1(3)] 1(4)] False by (auto intro: grows_butlast)
      have "r1 = Inr () \<Longrightarrow> mkdir_again fs1 p = (r, fs')" "r1 \<noteq> Inr () \<Longrightarrow> fs' = fs1"
        using 1(2) Inl False m by (subst (asm) mkdir_parents.simps, auto split: sum.splits)+
      then show ?thesis
        using g mkdir_again_settled [of fs1 p r fs'] grows_settled [OF g(2) 1(3)] grows_trans [OF g(2)]
        by (cases "r1 = Inr ()") auto
    qed
  qed
qed

lemma open_write_settled:
  assumes "open_write fs p a c = Inr fs'" and "settled fs p" and "wf_fsys fs"
  shows "wf_fsys fs' \<and> p \<noteq> [] \<and> (node_at fs p = None \<and> fs' = dict_set p (File c) fs
     \<or> (\<exists>old. node_at fs p = Some (File old) \<and> fs' = dict_set p (File (if a then old @ c else c)) fs))"
proof -
  have names: "list_all proper_name p" using assms(2) by (simp add: settled_def)
  consider "lookup_path fs p = At p" | "lookup_path fs p = Missing p"
    using lookup_settled [OF assms(2)] assms(1) by (auto simp: open_write_def)
  then show ?thesis
  proof cases
    case 1
    then obtain old where old: "node_at fs p = Some (File old)" "fs' = dict_set p (File (if a then old @ c else c)) fs"
      using assms(1) by (auto simp: open_write_def split: option.splits node.splits)
    then have "p \<noteq> []" by (auto simp: node_at_def)
    then show ?thesis using wf_set [OF assms(3) _ wf_parent [OF assms(3)] names] old by simp
  next
    case 2
    then show ?thesis using wf_set [OF assms(3) _ _ names] lookup_Missing [OF 2] assms(1) by (auto simp: open_write_def)
  qed
qed

end
