(* ===== verification/EAP_File_Tools.thy ===== *)
theory EAP_File_Tools
  imports EAP_Paths
begin

text \<open>
  The file tools, \<^verbatim>\<open>src/eap/environment/tools/file_tools.py\<close>: reading, writing and listing below a sandbox
  root, over the file system of \<open>EAP_Paths\<close>. A tool call is one step: what other processes do to the file system
  between its system calls is not modelled. A call that writes returns the file system also when it raises.
\<close>

section \<open>The sandbox\<close>

definition validate_non_empty_path :: "string \<Rightarrow> file_error + unit" where
  "validate_non_empty_path v = raise_if (py_strip v = []) ValueErr"

fun nonempty :: "string option \<Rightarrow> string option" where
  "nonempty (Some (c # cs)) = Some (c # cs)"
| "nonempty _ = None"

definition sandbox_root :: "file_env \<Rightarrow> fsys \<Rightarrow> string option \<Rightarrow> file_error + fspath" where
  "sandbox_root env fs given =
     (let raw_root = (case nonempty given of Some s \<Rightarrow> parse_path s
        | None \<Rightarrow> (case nonempty (fe_root_var env) of Some s \<Rightarrow> parse_path s | None \<Rightarrow> (True, fe_cwd env)))
      in bindR (path_expanduser env raw_root) (\<lambda>pv.
         bindR (path_resolve env fs False pv) (\<lambda>sroot.
         bindR (raise_if (\<not> path_exists fs sroot) FileNotFound) (\<lambda>_.
         bindR (raise_if (\<not> path_is_dir fs sroot) NotADirectory) (\<lambda>_. Inr sroot)))))"

definition sandbox_candidate :: "file_env \<Rightarrow> fspath \<Rightarrow> string \<Rightarrow> file_error + pathval" where
  "sandbox_candidate env sroot path_value = bindR (path_expanduser env (parse_path path_value)) (\<lambda>requested.
     Inr (if fst requested then requested else (True, sroot @ snd requested)))"

definition outside :: "fspath \<Rightarrow> fspath \<Rightarrow> bool" where
  \<comment> \<open>\<open>p != root and root not in p.parents\<close>\<close>
  "outside sroot p = (p \<noteq> sroot \<and> \<not> strict_prefix sroot p)"

definition resolve_sandbox_path :: "file_env \<Rightarrow> fsys \<Rightarrow> string \<Rightarrow> string option \<Rightarrow> file_error + fspath \<times> fspath" where
  "resolve_sandbox_path env fs path_value given =
     bindR (validate_non_empty_path path_value) (\<lambda>_.
     bindR (sandbox_root env fs given) (\<lambda>sroot.
     bindR (sandbox_candidate env sroot path_value) (\<lambda>candidate.
     bindR (path_resolve env fs False candidate) (\<lambda>resolved.
     bindR (raise_if (outside sroot resolved) PermissionErr) (\<lambda>_. Inr (sroot, resolved))))))"

definition assert_existing_path_in_sandbox :: "file_env \<Rightarrow> fsys \<Rightarrow> string \<Rightarrow> string option \<Rightarrow> file_error + fspath \<times> fspath" where
  "assert_existing_path_in_sandbox env fs path_value given =
     bindR (resolve_sandbox_path env fs path_value given) (\<lambda>(sroot, resolved).
     bindR (raise_if (\<not> path_exists fs resolved) FileNotFound) (\<lambda>_.
     bindR (path_resolve env fs True (True, resolved)) (\<lambda>strict_resolved.
     bindR (raise_if (outside sroot strict_resolved) PermissionErr) (\<lambda>_. Inr (sroot, strict_resolved)))))"

definition resolved_inside :: "file_env \<Rightarrow> fsys \<Rightarrow> fspath \<Rightarrow> fspath \<Rightarrow> file_error + unit" where
  "resolved_inside env fs sroot p = bindR (path_resolve env fs True (True, p)) (\<lambda>q. raise_if (outside sroot q) PermissionErr)"

definition assert_write_target_in_sandbox :: "file_env \<Rightarrow> fsys \<Rightarrow> string \<Rightarrow> string option \<Rightarrow> file_error + fspath \<times> fspath" where
  "assert_write_target_in_sandbox env fs file_path given =
     bindR (resolve_sandbox_path env fs file_path given) (\<lambda>(sroot, resolved).
     bindR (if path_exists fs (butlast resolved)
        then bindR (resolved_inside env fs sroot (butlast resolved)) (\<lambda>_.
          if path_exists fs resolved then resolved_inside env fs sroot resolved else Inr ())
        else Inr ()) (\<lambda>_. Inr (sroot, resolved)))"

section \<open>Reading and writing\<close>

fun universal_newlines :: "string \<Rightarrow> string" where
  "universal_newlines (a # b # s) = (if a = CHR 0x0D then (if b = CHR 0x0A then CHR 0x0A # universal_newlines s
       else CHR 0x0A # universal_newlines (b # s)) else a # universal_newlines (b # s))"
| "universal_newlines [a] = [if a = CHR 0x0D then CHR 0x0A else a]"
| "universal_newlines [] = []"

definition read_local_file :: "file_env \<Rightarrow> fsys \<Rightarrow> string \<Rightarrow> int \<Rightarrow> string option \<Rightarrow> file_error + string" where
  "read_local_file env fs file_path max_characters given =
     bindR (raise_if (max_characters < 1) ValueErr) (\<lambda>_.
     bindR (assert_existing_path_in_sandbox env fs file_path given) (\<lambda>(sroot, resolved_path).
     bindR (raise_if (path_is_dir fs resolved_path) IsADirectory) (\<lambda>_.
     bindR (open_read fs resolved_path) (\<lambda>c.
       let content = take (nat (max_characters + 1)) (universal_newlines c) in
       if max_characters < int (length content) then Inl ValueErr else Inr content))))"

definition path_text :: "fspath \<Rightarrow> string" where
  "path_text p = ''/'' @ join ''/'' p"

definition write_message :: "bool \<Rightarrow> string \<Rightarrow> string \<Rightarrow> fspath \<Rightarrow> string" where
  "write_message append_mode content file_path sroot =
     (if append_mode then ''Appended '' else ''Wrote '') @ int_repr (int (length content)) @ '' characters to '' @ [CHR 0x27] @ file_path
     @ [CHR 0x27] @ '' inside sandbox '' @ [CHR 0x27] @ path_text sroot @ [CHR 0x27] @ ''.''"

definition write_local_file :: "file_env \<Rightarrow> fsys \<Rightarrow> string \<Rightarrow> string \<Rightarrow> string \<Rightarrow> bool \<Rightarrow> string option
    \<Rightarrow> (file_error + string) \<times> fsys" where
  "write_local_file env fs file_path content mode create_directories given =
     (if mode \<noteq> ''overwrite'' \<and> mode \<noteq> ''append'' then (Inl ValueErr, fs)
      else (case assert_write_target_in_sandbox env fs file_path given of
        Inl e \<Rightarrow> (Inl e, fs)
      | Inr (sroot, absolute_path) \<Rightarrow>
          let parent = butlast absolute_path;
            (made, fs1) = (if path_exists fs parent then (Inr (), fs)
              else if create_directories then (case mkdir_parents fs parent of
                  (Inl e, fs1) \<Rightarrow> (Inl e, fs1) | (Inr _, fs1) \<Rightarrow> (resolved_inside env fs1 sroot parent, fs1))
              else (Inl FileNotFound, fs))
          in (case made of Inl e \<Rightarrow> (Inl e, fs1)
            | Inr _ \<Rightarrow> if path_is_dir fs1 absolute_path then (Inl IsADirectory, fs1)
                else (case open_write fs1 absolute_path (mode = ''append'') content of
                    Inl e \<Rightarrow> (Inl e, fs1)
                  | Inr fs2 \<Rightarrow> (Inr (write_message (mode = ''append'') content file_path sroot), fs2)))))"

section \<open>Listing\<close>

definition children :: "fsys \<Rightarrow> fspath \<Rightarrow> string list" where
  \<comment> \<open>\<open>os.scandir\<close>: in the order of the table, which is any order\<close>
  "children fs p = map last (filter (\<lambda>q. q \<noteq> [] \<and> butlast q = p) (map fst fs))"

definition st_size :: "string \<Rightarrow> int" where
  "st_size c = sum_list (map (\<lambda>x. if (of_char x :: nat) < 128 then 1 else 2) c)"

fun drop_common :: "string list \<Rightarrow> string list \<Rightarrow> string list \<times> string list" where
  "drop_common (x # xs) (y # ys) = (if x = y then drop_common xs ys else (x # xs, y # ys))"
| "drop_common xs ys = (xs, ys)"

definition relpath :: "fspath \<Rightarrow> fspath \<Rightarrow> string" where
  "relpath p start = (case drop_common start p of (ups, downs) \<Rightarrow>
     let names = replicate (length ups) ''..'' @ downs in if names = [] then ''.'' else join ''/'' names)"

definition build_entry_record :: "file_env \<Rightarrow> fsys \<Rightarrow> fspath \<Rightarrow> fspath \<Rightarrow> fspath \<Rightarrow> bool \<Rightarrow> file_error + pyval" where
  "build_entry_record env fs sandbox base_dir full_path is_dir =
     bindR (path_resolve env fs True (True, full_path)) (\<lambda>resolved.
     bindR (raise_if (outside sandbox resolved) PermissionErr) (\<lambda>_.
       Inr (PDict [(''path'', PStr (relpath resolved base_dir)),
         (''type'', PStr (if is_dir then ''directory'' else ''file'')),
         (''size_bytes'', if is_dir then PNone
            else (case node_at fs resolved of Some (File c) \<Rightarrow> PInt (st_size c) | _ \<Rightarrow> PInt 0))])))"

definition is_visible :: "bool \<Rightarrow> string \<Rightarrow> bool" where
  "is_visible include_hidden name = (include_hidden \<or> \<not> startswith name ''.'')"

definition below :: "fsys \<Rightarrow> fspath \<Rightarrow> fspath set" where
  "below fs p = {q \<in> set (map fst fs). strict_prefix p q}"

lemma child_below:
  assumes "n \<in> set (children fs p)"
  shows "p @ [n] \<in> below fs p"
proof -
  obtain q where "q \<in> set (map fst fs)" "q \<noteq> []" "butlast q = p" "n = last q"
    using assms by (auto simp: children_def)
  then have "q = p @ [n]" by auto
  then show ?thesis using \<open>q \<in> set (map fst fs)\<close> by (simp add: below_def strict_prefix_def)
qed

lemma below_child:
  assumes "n \<in> set (children fs p)"
  shows "card (below fs (p @ [n])) < card (below fs p)"
proof (rule psubset_card_mono)
  show "finite (below fs p)" by (simp add: below_def)
  have "strict_prefix p q" if "strict_prefix (p @ [n]) q" for q
    using that prefix_order.less_le_trans [of p "p @ [n]" q] by (simp add: strict_prefix_def)
  moreover have "p @ [n] \<notin> below fs (p @ [n])" by (simp add: below_def)
  ultimately show "below fs (p @ [n]) \<subset> below fs p" using child_below [OF assms] by (auto simp: below_def)
qed

text \<open>\<open>os.walk\<close> from the top, without following links: the directories in the order in which they are visited.\<close>

function walk_dirs :: "fsys \<Rightarrow> bool \<Rightarrow> fspath \<Rightarrow> fspath list" where
  "walk_dirs fs include_hidden p = p # concat (map (walk_dirs fs include_hidden) (map (\<lambda>n. p @ [n])
     (filter (\<lambda>n. path_is_dir fs (p @ [n]) \<and> is_visible include_hidden n \<and> \<not> is_link (node_at fs (p @ [n]))) (children fs p))))"
  by pat_completeness auto
termination by (relation "measure (\<lambda>(fs, h, p). card (below fs p))") (auto simp: below_child)

declare walk_dirs.simps [simp del]

definition listed_in :: "fsys \<Rightarrow> bool \<Rightarrow> fspath \<Rightarrow> (fspath \<times> bool) list" where
  "listed_in fs include_hidden p = (let (dirnames, filenames) = partition (\<lambda>n. path_is_dir fs (p @ [n])) (children fs p) in
     map (\<lambda>n. (p @ [n], True)) (sort (filter (is_visible include_hidden) dirnames))
     @ map (\<lambda>n. (p @ [n], False)) (filter (is_visible include_hidden) (sort filenames)))"

definition add_listing_entry :: "file_env \<Rightarrow> fsys \<Rightarrow> fspath \<Rightarrow> fspath \<Rightarrow> int \<Rightarrow> pyval list \<times> bool \<Rightarrow> fspath \<times> bool
    \<Rightarrow> file_error + pyval list \<times> bool" where
  "add_listing_entry env fs sroot base_dir max_entries st item = (case (st, item) of ((entries, truncated), (full_path, is_dir)) \<Rightarrow>
     if truncated then Inr (entries, True)
     else if max_entries \<le> int (length entries) then Inr (entries, True)
     else bindR (build_entry_record env fs sroot base_dir full_path is_dir) (\<lambda>r. Inr (entries @ [r], False)))"

definition list_local_directory :: "file_env \<Rightarrow> fsys \<Rightarrow> string \<Rightarrow> bool \<Rightarrow> bool \<Rightarrow> int \<Rightarrow> string option \<Rightarrow> file_error + string" where
  "list_local_directory env fs directory_path recursive include_hidden max_entries given =
     bindR (raise_if (max_entries < 1) ValueErr) (\<lambda>_.
     bindR (assert_existing_path_in_sandbox env fs directory_path given) (\<lambda>(sroot, base_dir).
     bindR (raise_if (\<not> path_is_dir fs base_dir) NotADirectory) (\<lambda>_.
     bindR (foldR (add_listing_entry env fs sroot base_dir max_entries) ([], False)
        (if recursive then concat (map (listed_in fs include_hidden) (walk_dirs fs include_hidden base_dir))
         else map (\<lambda>n. (base_dir @ [n], path_is_dir fs (base_dir @ [n])))
           (sort (filter (is_visible include_hidden) (children fs base_dir))))) (\<lambda>(entries, truncated).
       Inr (fe_dumps env (PDict [(''directory_path'', PStr (path_text base_dir)), (''sandbox_root'', PStr (path_text sroot)),
         (''recursive'', PBool recursive), (''include_hidden'', PBool include_hidden), (''max_entries'', PInt max_entries),
         (''truncated'', PBool truncated), (''entry_count'', PInt (int (length entries))), (''entries'', PList entries)]))))))"

section \<open>Confinement\<close>

lemma outside_iff [simp]: "outside sroot p \<longleftrightarrow> \<not> prefix sroot p"
  by (auto simp: outside_def strict_prefix_def)

lemma sandbox_root_dir: "sandbox_root env fs given = Inr sroot \<Longrightarrow> path_is_dir fs sroot"
  by (auto simp: sandbox_root_def Let_def res_simps)

lemma settled_dir: "settled fs p \<Longrightarrow> path_is_dir fs p \<Longrightarrow> node_at fs p = Some Dir"
  by (auto simp: path_is_dir_def dest: lookup_settled_At split: found.splits)

lemma settled_read: "settled fs p \<Longrightarrow> open_read fs p = Inr c \<Longrightarrow> node_at fs p = Some (File c)"
  by (auto simp: open_read_def dest: lookup_settled_At split: found.splits option.splits node.splits)

text \<open>Whether the resolution of the requested path runs into a link that it is still resolving.\<close>

definition meets_link_loop :: "file_env \<Rightarrow> fsys \<Rightarrow> string \<Rightarrow> string option \<Rightarrow> bool" where
  "meets_link_loop env fs path_value given = (case sandbox_root env fs given of Inl _ \<Rightarrow> False
     | Inr sroot \<Rightarrow> (case sandbox_candidate env sroot path_value of Inl _ \<Rightarrow> False
       | Inr candidate \<Rightarrow> (case join_real fs False [] (map Name (snd candidate)) [] of Inr (_, ok) \<Rightarrow> \<not> ok | Inl _ \<Rightarrow> False)))"

lemma candidate_absolute: "sandbox_candidate env sroot path_value = Inr pv \<Longrightarrow> fst pv"
  by (auto simp: sandbox_candidate_def res_simps split: if_splits)

lemma resolve_sandbox_settled:
  assumes "resolve_sandbox_path env fs path_value given = Inr (sroot, resolved)" and "\<not> meets_link_loop env fs path_value given"
  shows "settled fs resolved \<and> prefix sroot resolved \<and> sandbox_root env fs given = Inr sroot"
proof -
  obtain pv where pv: "sandbox_root env fs given = Inr sroot" "sandbox_candidate env sroot path_value = Inr pv"
    "path_resolve env fs False pv = Inr resolved" "prefix sroot resolved"
    using assms(1) by (auto simp: resolve_sandbox_path_def res_simps)
  obtain ok where "join_real fs False [] (map Name (snd pv)) [] = Inr (resolved, ok)"
    using pv(3) candidate_absolute [OF pv(2)] by (auto simp: path_resolve_def res_simps split: prod.splits if_splits)
  moreover from this have ok using assms(2) pv(1,2) by (simp add: meets_link_loop_def)
  ultimately have "settled fs resolved" using join_real_settled [of fs False "[]"] by (simp add: seen_settled_def)
  with pv show ?thesis by simp
qed

lemma write_target:
  assumes "assert_write_target_in_sandbox env fs file_path given = Inr (sroot, p)"
  shows "resolve_sandbox_path env fs file_path given = Inr (sroot, p)"
  using assms by (auto simp: assert_write_target_in_sandbox_def res_simps)

text \<open>What a successful check of the target leaves to the rest of \<open>write_local_file\<close>.\<close>

lemma write_cases:
  assumes "write_local_file env fs file_path content mode cd given = (r, fs')"
  obtains "fs' = fs" "\<exists>e. r = Inl e"
  | sroot p fs1 made where "assert_write_target_in_sandbox env fs file_path given = Inr (sroot, p)"
      "fs1 = fs \<and> path_exists fs (butlast p) \<or> mkdir_parents fs (butlast p) = (made, fs1)"
      "fs' = fs1 \<and> (\<exists>e. r = Inl e) \<or> \<not> path_is_dir fs1 p \<and> open_write fs1 p (mode = ''append'') content = Inr fs' \<and> (\<exists>t. r = Inr t)"
  using assms unfolding write_local_file_def Let_def
  by (auto split: if_splits sum.splits prod.splits) metis+

lemma write_effect:
  assumes wf: "wf_fsys fs" and loop: "\<not> meets_link_loop env fs file_path given"
    and w: "write_local_file env fs file_path content mode cd given = (r, fs')"
  shows "wf_fsys fs' \<and> (\<forall>p. node_at fs' p \<noteq> node_at fs p \<longrightarrow> (\<exists>sroot. sandbox_root env fs given = Inr sroot
     \<and> strict_prefix sroot p \<and> node_at fs p \<noteq> Some Dir \<and> \<not> is_link (node_at fs p)))"
  using w
proof (cases rule: write_cases)
  case 1
  then show ?thesis using wf by simp
next
  case (2 sroot p fs1 made)
  have p: "settled fs p" "prefix sroot p" "sandbox_root env fs given = Inr sroot"
    using resolve_sandbox_settled [OF write_target [OF 2(1)] loop] by auto
  have rdir: "node_at fs sroot = Some Dir"
    using settled_dir [OF settled_prefix [OF p(1,2)] sandbox_root_dir [OF p(3)]] .
  have g: "wf_fsys fs1" "grows (butlast p) fs fs1"
    using 2(2) mkdir_parents_settled [OF _ settled_butlast [OF p(1)] wf] wf by auto
  have new: "strict_prefix sroot q" if "prefix q p" "node_at fs q = None" for q
    using that p(2) wf_prefix [OF wf, of sroot q] rdir prefix_same_cases [of q p sroot]
    by (auto simp: strict_prefix_def)
  have s1: "settled fs1 p" "node_at fs1 sroot = Some Dir"
    using grows_settled [OF g(2) p(1)] g(2) rdir unfolding grows_def by (simp, metis option.distinct(1))
  have fs1: "strict_prefix sroot q \<and> node_at fs q \<noteq> Some Dir \<and> \<not> is_link (node_at fs q)" if "node_at fs1 q \<noteq> node_at fs q" for q
  proof -
    have "node_at fs q = None" "prefix q p"
      using that g(2) prefix_order.trans [OF _ prefixeq_butlast [of p]] unfolding grows_def by blast+
    then show ?thesis using new by simp
  qed
  from 2(3) show ?thesis
  proof
    assume "fs' = fs1 \<and> (\<exists>e. r = Inl e)"
    then show ?thesis using g fs1 p(3) by auto
  next
    assume "\<not> path_is_dir fs1 p \<and> open_write fs1 p (mode = ''append'') content = Inr fs' \<and> (\<exists>t. r = Inr t)"
    then have o: "wf_fsys fs'" "p \<noteq> []" "node_at fs1 p = None \<or> (\<exists>old. node_at fs1 p = Some (File old))"
      "\<exists>c. fs' = dict_set p (File c) fs1"
      using open_write_settled [of fs1 p "mode = ''append''" content fs'] s1(1) g(1) by auto
    have "strict_prefix sroot p" using o(3) s1(2) p(2) by (auto simp: strict_prefix_def)
    moreover have "node_at fs p \<noteq> Some Dir \<and> \<not> is_link (node_at fs p)"
      using o(3) p(1) g(2) unfolding grows_def settled_def by (metis node.distinct(1) option.distinct(1) option.inject prefix_order.refl)
    moreover have "node_at fs' q = node_at fs1 q" if "q \<noteq> p" for q using o(4) that by (auto simp: node_at_set)
    ultimately show ?thesis using o(1) fs1 p(3) by metis
  qed
qed

definition text_at :: "fsys \<Rightarrow> fspath \<Rightarrow> string" where
  "text_at fs p = (case node_at fs p of Some (File c) \<Rightarrow> c | _ \<Rightarrow> [])"

lemma write_success:
  assumes wf: "wf_fsys fs" and loop: "\<not> meets_link_loop env fs file_path given"
    and w: "write_local_file env fs file_path content mode cd given = (Inr t, fs')"
  shows "\<exists>sroot p. resolve_sandbox_path env fs file_path given = Inr (sroot, p)
     \<and> node_at fs' p = Some (File (if mode = ''append'' then text_at fs p @ content else content))"
  using w
proof (cases rule: write_cases)
  case (2 sroot p fs1 made)
  have p: "settled fs p" using resolve_sandbox_settled [OF write_target [OF 2(1)] loop] by simp
  have g: "wf_fsys fs1" "grows (butlast p) fs fs1"
    using 2(2) mkdir_parents_settled [OF _ settled_butlast [OF p] wf] wf by auto
  have o: "p \<noteq> []" "node_at fs1 p = None \<and> fs' = dict_set p (File content) fs1 \<or> (\<exists>old. node_at fs1 p = Some (File old)
      \<and> fs' = dict_set p (File (if mode = ''append'' then old @ content else content)) fs1)"
    using open_write_settled [of fs1 p "mode = ''append''" content fs'] 2(3) grows_settled [OF g(2) p] g(1) by auto
  have "node_at fs1 p = node_at fs p" using o(2) g(2) unfolding grows_def by (metis node.distinct(1) option.distinct(1) option.inject)
  then have "node_at fs' p = Some (File (if mode = ''append'' then text_at fs p @ content else content))"
    using o by (auto simp: node_at_set text_at_def)
  with write_target [OF 2(1)] show ?thesis by blast
qed simp

section \<open>Properties of the file tools\<close>

text \<open>C11: \<open>read_local_file\<close> only returns text of files in the sandbox: the text it returns is the text of a file whose
  real path, with every symbolic link followed, lies below the sandbox root, and it has at most the allowed number
  of characters.\<close>

theorem reads_confined:
  assumes "read_local_file env fs file_path max_characters given = Inr t"
  shows "\<exists>sroot p c. sandbox_root env fs given = Inr sroot \<and> prefix sroot p \<and> settled fs p
     \<and> node_at fs p = Some (File c) \<and> t = universal_newlines c \<and> int (length t) \<le> max_characters"
proof -
  obtain sroot p c where a: "assert_existing_path_in_sandbox env fs file_path given = Inr (sroot, p)"
    "open_read fs p = Inr c" "t = take (nat (max_characters + 1)) (universal_newlines c)"
    "int (length t) \<le> max_characters" "1 \<le> max_characters"
    using assms by (auto simp: read_local_file_def res_simps Let_def split: if_splits)
  obtain q where "path_resolve env fs True (True, q) = Inr p" "prefix sroot p" "sandbox_root env fs given = Inr sroot"
    using a(1) by (auto simp: assert_existing_path_in_sandbox_def resolve_sandbox_path_def res_simps)
  moreover from this have "settled fs p" by (simp add: path_resolve_strict)
  moreover have "t = universal_newlines c" using a(3,4,5) by (cases "length (universal_newlines c) \<le> nat (max_characters + 1)") auto
  ultimately show ?thesis using settled_read [of fs p c] a(2,4) by blast
qed

text \<open>C12: \<open>write_local_file\<close> changes nothing outside the sandbox, whether it succeeds or raises: when the resolution of the
  requested path does not run into a loop of symbolic links, every path at which the file system changes lies
  strictly below the sandbox root, and held nothing or a regular file before. Directories stay, links stay, and
  the result is a file system again. When it returns, the file at the resolved path has the text that was to be
  written, after its former text when appending.\<close>

theorem writes_confined:
  assumes "wf_fsys fs" and "\<not> meets_link_loop env fs file_path given"
    and "write_local_file env fs file_path content mode create_directories given = (r, fs')"
  shows "wf_fsys fs' \<and> (\<forall>p. node_at fs' p \<noteq> node_at fs p \<longrightarrow> (\<exists>sroot. sandbox_root env fs given = Inr sroot
     \<and> strict_prefix sroot p \<and> node_at fs p \<noteq> Some Dir \<and> \<not> is_link (node_at fs p)))
     \<and> (\<forall>t. r = Inr t \<longrightarrow> (\<exists>sroot p. resolve_sandbox_path env fs file_path given = Inr (sroot, p)
       \<and> node_at fs' p = Some (File (if mode = ''append'' then text_at fs p @ content else content))))"
  using write_effect [OF assms] write_success [OF assms(1,2), of content mode create_directories] assms(3) by blast

definition sample_file_env :: file_env where
  "sample_file_env = \<lparr>fe_cwd = [''box''], fe_root_var = None, fe_expanduser = id, fe_dumps = (\<lambda>_. [])\<rparr>"

definition sample_fs :: fsys where
  "sample_fs = [([''box''], Dir), ([''box'', ''a''], File ''one''), ([''box'', ''in''], Link False [''a'']),
     ([''box'', ''out''], Link True [''etc'']), ([''etc''], Dir), ([''etc'', ''pw''], File ''secret'')]"

theorem reads_confined_witness:
  "read_local_file sample_file_env sample_fs ''./in'' 10 None = Inr ''one'' \<and>
   (\<exists>sroot p c. sandbox_root sample_file_env sample_fs None = Inr sroot \<and> prefix sroot p \<and> settled sample_fs p
     \<and> node_at sample_fs p = Some (File c) \<and> ''one'' = universal_newlines c \<and> int (length ''one'') \<le> 10)"
proof -
  have "read_local_file sample_file_env sample_fs ''./in'' 10 None = Inr ''one''" by code_simp
  with reads_confined [OF this] show ?thesis by blast
qed

theorem writes_confined_witness:
  "wf_fsys sample_fs \<and> \<not> meets_link_loop sample_file_env sample_fs ''d/e/f'' None
   \<and> (case write_local_file sample_file_env sample_fs ''d/e/f'' ''two'' ''overwrite'' True None of (r, fs') \<Rightarrow>
       wf_fsys fs' \<and> node_at fs' [''box'', ''d'', ''e'', ''f''] = Some (File ''two'')
       \<and> node_at fs' [''etc'', ''pw''] = node_at sample_fs [''etc'', ''pw''] \<and> node_at fs' [''box'', ''out''] = node_at sample_fs [''box'', ''out''])"
proof -
  obtain r fs' where w: "write_local_file sample_file_env sample_fs ''d/e/f'' ''two'' ''overwrite'' True None = (r, fs')"
    by fastforce
  have ok: "wf_fsys sample_fs" "\<not> meets_link_loop sample_file_env sample_fs ''d/e/f'' None"
    "sandbox_root sample_file_env sample_fs None = Inr [''box'']" "is_link (node_at sample_fs [''box'', ''out''])" by code_simp+
  have changed: "strict_prefix [''box''] p \<and> \<not> is_link (node_at sample_fs p)" if "node_at fs' p \<noteq> node_at sample_fs p" for p
    using writes_confined [OF ok(1,2) w] ok(3) that by auto
  have "node_at fs' [''etc'', ''pw''] = node_at sample_fs [''etc'', ''pw'']" "node_at fs' [''box'', ''out''] = node_at sample_fs [''box'', ''out'']"
    using changed [of "[''etc'', ''pw'']"] changed [of "[''box'', ''out'']"] ok(4) by (auto simp: strict_prefix_def)
  moreover have "node_at (snd (write_local_file sample_file_env sample_fs ''d/e/f'' ''two'' ''overwrite'' True None))
      [''box'', ''d'', ''e'', ''f''] = Some (File ''two'')" by code_simp
  ultimately show ?thesis using writes_confined [OF ok(1,2) w] ok(1,2) w by simp
qed

definition loop_fs :: fsys where
  "loop_fs = [([''box''], Dir), ([''box'', ''loop''], Link False [''loop'']),
     ([''box'', ''new''], Link True [''etc'', ''new'']), ([''etc''], Dir)]"

text \<open>The sandbox can be left through a loop of symbolic links: when it has a link to itself and a link to a file
  outside that does not exist yet, writing to the second one by a path that goes through the first creates
  the file outside. The resolution stops at the loop and does not follow the rest of the path; the checks on
  existing paths do not apply to a link to nothing.\<close>

theorem loop_leaves_sandbox:
  "wf_fsys loop_fs \<and> sandbox_root sample_file_env loop_fs None = Inr [''box''] \<and> node_at loop_fs [''etc'', ''new''] = None
   \<and> fst (write_local_file sample_file_env loop_fs ''new'' ''x'' ''overwrite'' False None) = Inl PermissionErr
   \<and> (case write_local_file sample_file_env loop_fs ''loop/../new'' ''x'' ''overwrite'' False None of (r, fs') \<Rightarrow>
       (\<exists>t. r = Inr t) \<and> node_at fs' [''etc'', ''new''] = Some (File ''x''))"
proof -
  have "wf_fsys loop_fs" "sandbox_root sample_file_env loop_fs None = Inr [''box'']" "node_at loop_fs [''etc'', ''new''] = None"
    "fst (write_local_file sample_file_env loop_fs ''new'' ''x'' ''overwrite'' False None) = Inl PermissionErr" by code_simp+
  moreover have "\<not> isl (fst (write_local_file sample_file_env loop_fs ''loop/../new'' ''x'' ''overwrite'' False None))" by code_simp
  moreover have "node_at (snd (write_local_file sample_file_env loop_fs ''loop/../new'' ''x'' ''overwrite'' False None))
      [''etc'', ''new''] = Some (File ''x'')" by code_simp
  ultimately show ?thesis by (auto simp: isl_def split: prod.splits) (metis sum.exhaust)
qed

end
