(* ===== verification/EAP_Ip.thy ===== *)
theory EAP_Ip
  imports EAP_Prelude "HOL-Library.Word"
begin

unbundle bit_operations_syntax

text \<open>
  Addresses and networks of the module \<open>ipaddress\<close> (as of Python 3.11.10), as far as the web tools use them: an address
  is a word, a network a prefix of one, and an address is in a network when the bits under its mask agree. The
  ranges that \<open>is_private\<close>, \<open>is_loopback\<close>, \<open>is_link_local\<close>, \<open>is_reserved\<close> and \<open>is_multicast\<close> use are those of the
  module.
\<close>

datatype ip = IPv4 "32 word" | IPv6 "128 word"

type_synonym 'a network = "'a word \<times> nat"

definition in_net :: "'a::len word \<Rightarrow> 'a network \<Rightarrow> bool" where
  "in_net a n = (a AND push_bit (LENGTH('a) - snd n) (- 1) = fst n)"

definition v4 :: "int \<Rightarrow> int \<Rightarrow> int \<Rightarrow> int \<Rightarrow> 32 word" where
  "v4 a b c d = word_of_int (((a * 256 + b) * 256 + c) * 256 + d)"

text \<open>The groups of an IPv6 address, most significant first; missing ones are zero.\<close>

definition v6 :: "int list \<Rightarrow> 128 word" where
  "v6 gs = word_of_int (foldl (\<lambda>n g. n * 65536 + g) 0 (gs @ replicate (8 - length gs) 0))"

definition v4_private :: "32 network list" where
  "v4_private = [(v4 0 0 0 0, 8), (v4 10 0 0 0, 8), (v4 127 0 0 0, 8), (v4 169 254 0 0, 16), (v4 172 16 0 0, 12),
     (v4 192 0 0 0, 24), (v4 192 0 0 170, 31), (v4 192 0 2 0, 24), (v4 192 168 0 0, 16), (v4 198 18 0 0, 15),
     (v4 198 51 100 0, 24), (v4 203 0 113 0, 24), (v4 240 0 0 0, 4), (v4 255 255 255 255, 32)]"

definition v4_private_exceptions :: "32 network list" where
  "v4_private_exceptions = [(v4 192 0 0 9, 32), (v4 192 0 0 10, 32)]"

definition v6_private :: "128 network list" where
  "v6_private = [(v6 [0, 0, 0, 0, 0, 0, 0, 1], 128), (v6 [], 128), (v6 [0, 0, 0, 0, 0, 0xffff], 96), (v6 [0x64, 0xff9b, 1], 48),
     (v6 [0x100], 64), (v6 [0x2001], 23), (v6 [0x2001, 0xdb8], 32), (v6 [0x2002], 16), (v6 [0xfc00], 7), (v6 [0xfe80], 10)]"

definition v6_private_exceptions :: "128 network list" where
  "v6_private_exceptions = [(v6 [0x2001, 1, 0, 0, 0, 0, 0, 1], 128), (v6 [0x2001, 1, 0, 0, 0, 0, 0, 2], 128),
     (v6 [0x2001, 3], 32), (v6 [0x2001, 4, 0x112], 48), (v6 [0x2001, 0x20], 28), (v6 [0x2001, 0x30], 28)]"

definition v6_reserved :: "128 network list" where
  "v6_reserved = [(v6 [], 8), (v6 [0x100], 8), (v6 [0x200], 7), (v6 [0x400], 6), (v6 [0x800], 5), (v6 [0x1000], 4),
     (v6 [0x4000], 3), (v6 [0x6000], 3), (v6 [0x8000], 3), (v6 [0xa000], 3), (v6 [0xc000], 3), (v6 [0xe000], 4),
     (v6 [0xf000], 5), (v6 [0xf800], 6), (v6 [0xfe00], 9)]"

definition in_some :: "'a::len network list \<Rightarrow> 'a word \<Rightarrow> bool" where
  "in_some ns a = list_ex (in_net a) ns"

definition v4_is_private :: "32 word \<Rightarrow> bool" where
  "v4_is_private a = (in_some v4_private a \<and> \<not> in_some v4_private_exceptions a)"

definition ipv4_mapped :: "128 word \<Rightarrow> 32 word option" where
  "ipv4_mapped a = (if drop_bit 32 a = 0xffff then Some (ucast a) else None)"

definition v6_is_private :: "128 word \<Rightarrow> bool" where
  "v6_is_private a = (case ipv4_mapped a of Some b \<Rightarrow> v4_is_private b
     | None \<Rightarrow> in_some v6_private a \<and> \<not> in_some v6_private_exceptions a)"

fun is_private :: "ip \<Rightarrow> bool" where
  "is_private (IPv4 a) = v4_is_private a"
| "is_private (IPv6 a) = v6_is_private a"

fun is_loopback :: "ip \<Rightarrow> bool" where
  "is_loopback (IPv4 a) = in_net a (v4 127 0 0 0, 8)"
| "is_loopback (IPv6 a) = (a = 1)"

fun is_link_local :: "ip \<Rightarrow> bool" where
  "is_link_local (IPv4 a) = in_net a (v4 169 254 0 0, 16)"
| "is_link_local (IPv6 a) = in_net a (v6 [0xfe80], 10)"

fun is_reserved :: "ip \<Rightarrow> bool" where
  "is_reserved (IPv4 a) = in_net a (v4 240 0 0 0, 4)"
| "is_reserved (IPv6 a) = in_some v6_reserved a"

fun is_multicast :: "ip \<Rightarrow> bool" where
  "is_multicast (IPv4 a) = in_net a (v4 224 0 0 0, 4)"
| "is_multicast (IPv6 a) = in_net a (v6 [0xff00], 8)"

fun in_cgnat :: "ip \<Rightarrow> bool" where
  \<comment> \<open>\<open>100.64.0.0/10\<close>, which no IPv6 address is in\<close>
  "in_cgnat (IPv4 a) = in_net a (v4 100 64 0 0, 10)"
| "in_cgnat (IPv6 a) = False"

section \<open>Networks as intervals\<close>

lemma and_mask_eq: "(a :: 'a::len word) AND push_bit k (- 1) = push_bit k (drop_bit k a)"
  by (rule bit_eqI) (auto simp: bit_simps)

lemma uint_and_mask: "uint ((a :: 'a::len word) AND push_bit k (- 1)) = uint a div 2 ^ k * 2 ^ k"
proof -
  have "uint (drop_bit k a) = drop_bit k (uint a)"
    by (rule bit_eqI) (simp add: bit_unsigned_iff bit_drop_bit_eq)
  then have "uint (drop_bit k a) = uint a div 2 ^ k" unfolding drop_bit_eq_div .
  moreover have "uint a div 2 ^ k * 2 ^ k \<le> uint a" 
  proof -
    have "0 \<le> uint a mod 2 ^ k" by simp
    then show ?thesis using div_mult_mod_eq [of "uint a" "2 ^ k"] by linarith
  qed
  moreover have "uint a < 2 ^ LENGTH('a)" by (rule unsigned_less)
  ultimately have "uint (drop_bit k a) = uint a div 2 ^ k" "uint a div 2 ^ k * 2 ^ k < 2 ^ LENGTH('a)"
    by (auto elim: le_less_trans)
  moreover have "0 \<le> uint a div 2 ^ k * 2 ^ k" by (simp add: pos_imp_zdiv_nonneg_iff)
  ultimately show ?thesis unfolding and_mask_eq unsigned_push_bit_eq
    by (simp add: take_bit_eq_mod push_bit_eq_mult)
qed

lemma in_net_div:
  assumes "uint b mod 2 ^ (LENGTH('a) - n) = 0"
  shows "in_net (a :: 'a::len word) (b, n) \<longleftrightarrow> uint a div 2 ^ (LENGTH('a) - n) = uint b div 2 ^ (LENGTH('a) - n)"
proof -
  let ?k = "LENGTH('a) - n"
  have "uint b = uint b div 2 ^ ?k * 2 ^ ?k" using assms by (simp add: mod_eq_0_iff_dvd)
  then show ?thesis unfolding in_net_def fst_conv snd_conv word_uint_eq_iff uint_and_mask
    by (metis mult_right_cancel power_not_zero zero_neq_numeral)
qed

definition digit :: "int \<Rightarrow> int \<Rightarrow> int" where "digit x y = x * 256 + y"

lemma v4_digit: "v4 a b c d = word_of_int (digit (digit (digit a b) c) d)"
  by (simp add: v4_def digit_def)

definition octet :: "int \<Rightarrow> bool" where "octet x \<longleftrightarrow> 0 \<le> x \<and> x < 256"

definition octets :: "int \<Rightarrow> int \<Rightarrow> int \<Rightarrow> int \<Rightarrow> bool" where
  "octets a b c d \<longleftrightarrow> octet a \<and> octet b \<and> octet c \<and> octet d"

lemma uint_v4: "octets a b c d \<Longrightarrow> uint (v4 a b c d) = digit (digit (digit a b) c) d"
proof -
  assume "octets a b c d"
  then have "0 \<le> digit (digit (digit a b) c) d" "digit (digit (digit a b) c) d < 2 ^ 32"
    by (auto simp: octets_def octet_def digit_def)
  then show ?thesis unfolding v4_digit uint_word_of_int by simp
qed

lemma v4_cases:
  obtains a b c d where "octets a b c d" "w = v4 a b c d"
proof -
  let ?m1 = "uint w div 256" let ?m2 = "?m1 div 256" let ?m3 = "?m2 div 256"
  have n: "uint w < 2 ^ LENGTH(32)" by (rule unsigned_less)
  have "((?m3 * 256 + ?m2 mod 256) * 256 + ?m1 mod 256) * 256 + uint w mod 256 = uint w"
    by (simp only: div_mult_mod_eq)
  then have "w = v4 ?m3 (?m2 mod 256) (?m1 mod 256) (uint w mod 256)"
    unfolding v4_def by (metis word_of_int_uint)
  moreover have "0 \<le> ?m3" "?m3 < 256" using n by (simp_all add: pos_imp_zdiv_nonneg_iff)
  ultimately show thesis by (intro that) (auto simp: octets_def octet_def)
qed

lemma v4_net:
  assumes "octets a b c d" and "octets a' b' c' d'" and "(((a' * 256 + b') * 256 + c') * 256 + d') mod 2 ^ (32 - n) = 0"
  shows "in_net (v4 a b c d) (v4 a' b' c' d', n) \<longleftrightarrow>
     digit (digit (digit a b) c) d div 2 ^ (32 - n) = digit (digit (digit a' b') c') d' div 2 ^ (32 - n)"
  using in_net_div [of "v4 a' b' c' d'" n "v4 a b c d"] assms by (simp add: uint_v4 digit_def)

lemma div_scaled: "octet y \<Longrightarrow> 0 < k \<Longrightarrow> digit x y div (256 * k) = x div k"
  by (simp add: octet_def digit_def zdiv_zmult2_eq)

lemma digit_div:
  assumes "octet y"
  shows "digit x y div 256 = x" "digit x y div 65536 = x div 256" "digit x y div 16777216 = x div 65536"
    "digit x y div 268435456 = x div 1048576" "digit x y div 1048576 = x div 4096" "digit x y div 4096 = x div 16"
    "digit x y div 4194304 = x div 16384" "digit x y div 16384 = x div 64" "digit x y div 131072 = x div 512"
    "digit x y div 512 = x div 2"
proof -
  have scaled: "digit x y div m = x div k" if "m = 256 * k" "0 < k" for m k using div_scaled [OF assms] that by simp
  show "digit x y div 256 = x" using scaled [of 256 1] by simp
  show "digit x y div 65536 = x div 256" by (rule scaled) simp_all
  show "digit x y div 16777216 = x div 65536" by (rule scaled) simp_all
  show "digit x y div 268435456 = x div 1048576" by (rule scaled) simp_all
  show "digit x y div 1048576 = x div 4096" by (rule scaled) simp_all
  show "digit x y div 4096 = x div 16" by (rule scaled) simp_all
  show "digit x y div 4194304 = x div 16384" by (rule scaled) simp_all
  show "digit x y div 16384 = x div 64" by (rule scaled) simp_all
  show "digit x y div 131072 = x div 512" by (rule scaled) simp_all
  show "digit x y div 512 = x div 2" by (rule scaled) simp_all
qed

lemma digit_eq: "octet y \<Longrightarrow> octet y' \<Longrightarrow> digit x y = digit x' y' \<longleftrightarrow> x = x' \<and> y = y'"
  using digit_div(1) [of y x] digit_div(1) [of y' x'] by (metis add_left_cancel digit_def)

lemma octet_numeral: "octet 0" "octet 1" "octet (numeral n) \<longleftrightarrow> (numeral n :: int) < 256"
  by (simp_all add: octet_def)

section \<open>The public IPv4 addresses\<close>

definition public_v4 :: "int \<Rightarrow> int \<Rightarrow> int \<Rightarrow> int \<Rightarrow> bool" where
  "public_v4 a b c d \<longleftrightarrow> a \<notin> {0, 10, 127} \<and> a < 224 \<and> \<not> (a = 100 \<and> 64 \<le> b \<and> b < 128) \<and> \<not> (a = 169 \<and> b = 254)
     \<and> \<not> (a = 172 \<and> 16 \<le> b \<and> b < 32) \<and> \<not> (a = 192 \<and> b = 168) \<and> \<not> (a = 192 \<and> b = 0 \<and> c = 2)
     \<and> \<not> (a = 192 \<and> b = 0 \<and> c = 0 \<and> d \<noteq> 9 \<and> d \<noteq> 10) \<and> \<not> (a = 198 \<and> (b = 18 \<or> b = 19))
     \<and> \<not> (a = 198 \<and> b = 51 \<and> c = 100) \<and> \<not> (a = 203 \<and> b = 0 \<and> c = 113)"

lemma v4_octet_nets:
  assumes "octets a b c d"
  shows "in_net (v4 a b c d) (v4 0 0 0 0, 8) \<longleftrightarrow> a = 0" "in_net (v4 a b c d) (v4 10 0 0 0, 8) \<longleftrightarrow> a = 10"
    "in_net (v4 a b c d) (v4 127 0 0 0, 8) \<longleftrightarrow> a = 127" "in_net (v4 a b c d) (v4 169 254 0 0, 16) \<longleftrightarrow> a = 169 \<and> b = 254"
    "in_net (v4 a b c d) (v4 192 0 0 0, 24) \<longleftrightarrow> a = 192 \<and> b = 0 \<and> c = 0"
    "in_net (v4 a b c d) (v4 192 0 2 0, 24) \<longleftrightarrow> a = 192 \<and> b = 0 \<and> c = 2"
    "in_net (v4 a b c d) (v4 192 168 0 0, 16) \<longleftrightarrow> a = 192 \<and> b = 168"
    "in_net (v4 a b c d) (v4 198 51 100 0, 24) \<longleftrightarrow> a = 198 \<and> b = 51 \<and> c = 100"
    "in_net (v4 a b c d) (v4 203 0 113 0, 24) \<longleftrightarrow> a = 203 \<and> b = 0 \<and> c = 113"
    "in_net (v4 a b c d) (v4 192 0 0 9, 32) \<longleftrightarrow> a = 192 \<and> b = 0 \<and> c = 0 \<and> d = 9"
    "in_net (v4 a b c d) (v4 192 0 0 10, 32) \<longleftrightarrow> a = 192 \<and> b = 0 \<and> c = 0 \<and> d = 10"
    "in_net (v4 a b c d) (v4 255 255 255 255, 32) \<longleftrightarrow> a = 255 \<and> b = 255 \<and> c = 255 \<and> d = 255"
  using assms by (simp_all add: v4_net octets_def octet_numeral digit_div digit_eq)

lemma div_interval: "0 < k \<Longrightarrow> x div k = q \<longleftrightarrow> q * k \<le> x \<and> x < q * k + (k :: int)"
  by (metis add.commute add_less_cancel_left div_pos_geq int_div_pos_eq le_add_diff_inverse2 mult.commute
      pos_mod_bound pos_mod_sign div_mult_mod_eq le_add_same_cancel1)

lemma digit_interval:
  assumes "octet b" and "0 \<le> lo" and "hi \<le> 256"
  shows "q * 256 + lo \<le> a * 256 + b \<and> a * 256 + b < q * 256 + hi \<longleftrightarrow> a = q \<and> lo \<le> b \<and> b < hi"
proof (cases "a < q \<or> q < a")
  case True
  then have "a + 1 \<le> q \<or> q + 1 \<le> a" by auto
  then show ?thesis using assms by (auto simp: octet_def)
qed (use assms in auto)

lemma v4_range_nets:
  assumes "octets a b c d"
  shows "in_net (v4 a b c d) (v4 172 16 0 0, 12) \<longleftrightarrow> a = 172 \<and> 16 \<le> b \<and> b < 32"
    "in_net (v4 a b c d) (v4 198 18 0 0, 15) \<longleftrightarrow> a = 198 \<and> (b = 18 \<or> b = 19)"
    "in_net (v4 a b c d) (v4 100 64 0 0, 10) \<longleftrightarrow> a = 100 \<and> 64 \<le> b \<and> b < 128"
    "in_net (v4 a b c d) (v4 240 0 0 0, 4) \<longleftrightarrow> 240 \<le> a"
    "in_net (v4 a b c d) (v4 224 0 0 0, 4) \<longleftrightarrow> 224 \<le> a \<and> a < 240"
proof -
  have b: "octet b" and o: "octet a" using assms by (auto simp: octets_def)
  note net = v4_net [OF assms] octets_def octet_numeral
  have cd: "octet c" "octet d" using assms by (auto simp: octets_def)
  show "in_net (v4 a b c d) (v4 172 16 0 0, 12) \<longleftrightarrow> a = 172 \<and> 16 \<le> b \<and> b < 32"
    using digit_interval [OF b, of 16 32 172 a] by (simp add: net cd digit_div) (simp add: digit_def div_interval)
  show "in_net (v4 a b c d) (v4 198 18 0 0, 15) \<longleftrightarrow> a = 198 \<and> (b = 18 \<or> b = 19)"
    using digit_interval [OF b, of 18 20 198 a] by (simp add: net cd digit_div) (auto simp: digit_def div_interval)
  show "in_net (v4 a b c d) (v4 100 64 0 0, 10) \<longleftrightarrow> a = 100 \<and> 64 \<le> b \<and> b < 128"
    using digit_interval [OF b, of 64 128 100 a] by (simp add: net cd digit_div) (simp add: digit_def div_interval)
  show "in_net (v4 a b c d) (v4 240 0 0 0, 4) \<longleftrightarrow> 240 \<le> a"
    using o by (simp add: net cd b digit_div) (auto simp: octet_def div_interval)
  show "in_net (v4 a b c d) (v4 224 0 0 0, 4) \<longleftrightarrow> 224 \<le> a \<and> a < 240"
    by (simp add: net cd b digit_div) (auto simp: div_interval)
qed

section \<open>IPv6 by its first group\<close>

definition group0 :: "128 word \<Rightarrow> int" where "group0 a = uint a div 2 ^ 112"

lemma group0_bound: "0 \<le> group0 a" "group0 a < 65536"
proof -
  have "uint a < 2 ^ LENGTH(128)" by (rule unsigned_less)
  then show "group0 a < 65536" by (simp add: group0_def)
  show "0 \<le> group0 a" by (simp add: group0_def pos_imp_zdiv_nonneg_iff)
qed

lemma v6_base:
  assumes "0 \<le> g" and "g < 65536"
  shows "uint (v6 [g]) = g * 2 ^ 112"
proof -
  have "replicate 7 (0 :: int) = [0, 0, 0, 0, 0, 0, 0]" by code_simp
  then have "v6 [g] = word_of_int (g * 2 ^ 112)" by (simp add: v6_def)
  with assms show ?thesis by (simp only: uint_word_of_int) simp
qed

lemma v6_group_net:
  assumes "0 \<le> g" and "g < 65536" and "k \<le> 16" and "g mod 2 ^ (16 - k) = 0"
  shows "in_net a (v6 [g], k) \<longleftrightarrow> g \<le> group0 a \<and> group0 a < g + 2 ^ (16 - k)"
proof -
  obtain q where q: "g = q * 2 ^ (16 - k)" using assms(4) by (auto simp: mod_eq_0_iff_dvd elim!: dvdE)
  have "112 + (16 - k) = 128 - k" using assms(3) by simp
  then have p: "(2 :: int) ^ (128 - k) = 2 ^ 112 * 2 ^ (16 - k)" by (metis power_add)
  have b: "uint (v6 [g]) = q * 2 ^ (128 - k)" using v6_base [OF assms(1,2)] q p by (simp only: mult_ac)
  then have "in_net a (v6 [g], k) \<longleftrightarrow> uint a div 2 ^ (128 - k) = q" using in_net_div [of "v6 [g]" k a] by simp
  also have "uint a div 2 ^ (128 - k) = group0 a div 2 ^ (16 - k)"
    unfolding p group0_def by (rule zdiv_zmult2_eq) simp
  also have "group0 a div 2 ^ (16 - k) = q \<longleftrightarrow> g \<le> group0 a \<and> group0 a < g + 2 ^ (16 - k)"
    using div_interval [of "2 ^ (16 - k)" "group0 a" q] q by simp
  finally show ?thesis .
qed

lemma v6_zero: "v6 [] = v6 [0]" by code_simp

lemma in_net_group0:
  assumes "in_net a (b, k)" and "16 \<le> k" and "k \<le> 128"
  shows "group0 a = group0 b"
proof -
  have "uint b = uint a div 2 ^ (128 - k) * 2 ^ (128 - k)"
    using assms(1) uint_and_mask [of a "128 - k"] by (simp add: in_net_def)
  moreover have "(128 - k) + (k - 16) = 112" using assms(2,3) by simp
  then have p: "(2 :: int) ^ 112 = 2 ^ (128 - k) * 2 ^ (k - 16)" by (metis power_add)
  ultimately show ?thesis unfolding group0_def p zdiv_zmult2_eq [OF zero_le_power [OF zero_le_numeral]] by simp
qed

section \<open>The public IPv6 addresses\<close>

definition v6_special :: "128 word \<Rightarrow> bool" where
  "v6_special w \<longleftrightarrow> in_some [(v6 [0x2001], 23), (v6 [0x2001, 0xdb8], 32), (v6 [0x2002], 16)] w \<and> \<not> in_some v6_private_exceptions w"

definition public_v6 :: "128 word \<Rightarrow> bool" where
  \<comment> \<open>global unicast without its special blocks, or the old site-local range\<close>
  "public_v6 w \<longleftrightarrow> 0x2000 \<le> group0 w \<and> group0 w < 0x4000 \<and> \<not> v6_special w \<or> 0xfec0 \<le> group0 w \<and> group0 w < 0xff00"

lemma join_intervals:
  "a \<le> b \<Longrightarrow> b \<le> c \<Longrightarrow> (a \<le> x \<and> x < b \<or> b \<le> x \<and> x < c \<or> Q) \<longleftrightarrow> (a \<le> x \<and> x < (c :: int) \<or> Q)"
  by auto

lemma v6_reserved_iff: "in_some v6_reserved w \<longleftrightarrow> group0 w < 0x2000 \<or> 0x4000 \<le> group0 w \<and> group0 w < 0xfc00
     \<or> 0xfe00 \<le> group0 w \<and> group0 w < 0xfe80"
  using group0_bound [of w] by (simp add: in_some_def v6_reserved_def v6_zero v6_group_net join_intervals) auto

lemma mapped_group0:
  assumes "ipv4_mapped w = Some b"
  shows "group0 w = 0"
proof -
  have "uint (drop_bit 32 w) = 0xffff" using assms by (simp add: ipv4_mapped_def split: if_splits)
  moreover have "uint (drop_bit 32 w) = drop_bit 32 (uint w)"
    by (rule bit_eqI) (simp add: bit_unsigned_iff bit_drop_bit_eq)
  ultimately have "uint w div 4294967296 = 65535" unfolding drop_bit_eq_div by simp
  then have "uint w div (4294967296 * 2 ^ 80) = 0" by (subst zdiv_zmult2_eq) simp_all
  then show ?thesis by (simp add: group0_def)
qed

lemma v6_group0: "group0 (v6 [0, 0, 0, 0, 0, 0, 0, 1]) = 0" "group0 (v6 []) = 0" "group0 (v6 [0, 0, 0, 0, 0, 0xffff]) = 0"
  "group0 (v6 [0x64, 0xff9b, 1]) = 0x64" "group0 (v6 [0x100]) = 0x100"
  by code_simp+

lemma v6_private_iff:
  assumes "0x2000 \<le> group0 w"
  shows "in_some v6_private w \<longleftrightarrow> in_some [(v6 [0x2001], 23), (v6 [0x2001, 0xdb8], 32), (v6 [0x2002], 16)] w
     \<or> 0xfc00 \<le> group0 w \<and> group0 w < 0xfe00 \<or> 0xfe80 \<le> group0 w \<and> group0 w < 0xfec0"
proof -
  have "\<not> in_net w (v6 [0, 0, 0, 0, 0, 0, 0, 1], 128)" "\<not> in_net w (v6 [], 128)"
    "\<not> in_net w (v6 [0, 0, 0, 0, 0, 0xffff], 96)" "\<not> in_net w (v6 [0x64, 0xff9b, 1], 48)" "\<not> in_net w (v6 [0x100], 64)"
    using assms by (auto dest!: in_net_group0 simp: v6_group0)
  then show ?thesis by (simp add: in_some_def v6_private_def v6_group_net)
qed

lemma special_group0:
  assumes "in_some [(v6 [0x2001], 23), (v6 [0x2001, 0xdb8], 32), (v6 [0x2002], 16)] w"
  shows "group0 w \<in> {0x2001, 0x2002}"
proof -
  have "group0 (v6 [0x2001]) = 0x2001" "group0 (v6 [0x2001, 0xdb8]) = 0x2001" "group0 (v6 [0x2002]) = 0x2002" by code_simp+
  then show ?thesis using assms by (auto simp: in_some_def dest!: in_net_group0)
qed

lemma exceptions_group0:
  assumes "in_some v6_private_exceptions w"
  shows "group0 w = 0x2001"
proof -
  have "group0 (v6 [0x2001, 1, 0, 0, 0, 0, 0, 1]) = 0x2001" "group0 (v6 [0x2001, 1, 0, 0, 0, 0, 0, 2]) = 0x2001"
    "group0 (v6 [0x2001, 3]) = 0x2001" "group0 (v6 [0x2001, 4, 0x112]) = 0x2001" "group0 (v6 [0x2001, 0x20]) = 0x2001"
    "group0 (v6 [0x2001, 0x30]) = 0x2001" by code_simp+
  then show ?thesis using assms by (auto simp: in_some_def v6_private_exceptions_def dest!: in_net_group0)
qed

end
