(* ===== verification/EAP_Web_Tools.thy ===== *)
theory EAP_Web_Tools
  imports EAP_Ip
begin

text \<open>
  The web tools, \<^verbatim>\<open>src/eap/environment/tools/web_tools.py\<close>. The network is an argument: what name resolution
  answers, what the clock says and what the server sends at each hop of a fetch. Parsing and joining of URLs,
  parsing of address texts, decoding of bytes, HTML and JSON are arguments as well. A fetch returns the
  requests it has made, also when it raises.
\<close>

section \<open>Hosts and addresses\<close>

datatype web_error = WebValueError | WebTimeout | RequestException | WebRuntimeError

record url_parts =
  up_scheme :: string
  up_netloc :: string
  up_hostname :: "string option"
  up_port :: "int option option"  \<comment> \<open>\<open>None\<close>: reading the port raises\<close>

record web_env =
  we_allowlist_var :: string
  we_urlparse :: "string \<Rightarrow> url_parts option"  \<comment> \<open>\<open>None\<close>: raises\<close>
  we_urljoin :: "string \<Rightarrow> string \<Rightarrow> string"
  we_ip_address :: "string \<Rightarrow> ip option"  \<comment> \<open>\<open>None\<close>: raises\<close>
  we_decode :: "string option \<Rightarrow> string \<Rightarrow> string"
  we_soup_text :: "string \<Rightarrow> string"
  we_anchors :: "string \<Rightarrow> (string \<times> string) list"
  we_json_loads :: "string \<Rightarrow> pyval option"
  we_json_pretty :: "pyval \<Rightarrow> string"
  we_json_dumps :: "pyval \<Rightarrow> string"

definition normalize_host :: "string \<Rightarrow> string" where
  "normalize_host host = rev (dropWhile (\<lambda>c. c = CHR ''.'') (rev (py_lower (py_strip host))))"

definition load_host_allowlist :: "web_env \<Rightarrow> string list option \<Rightarrow> string list" where
  "load_host_allowlist env extra =
     map normalize_host (filter (\<lambda>h. py_strip h \<noteq> []) (py_split (CHR '','') (we_allowlist_var env)))
     @ (case extra of None \<Rightarrow> [] | Some hs \<Rightarrow> map normalize_host (filter (\<lambda>h. py_strip h \<noteq> []) hs))"

definition is_unsafe_ip :: "ip \<Rightarrow> bool" where
  "is_unsafe_ip p = (is_private p \<or> is_loopback p \<or> is_link_local p \<or> is_reserved p \<or> is_multicast p \<or> in_cgnat p)"

definition unsafe_address :: "web_env \<Rightarrow> string list \<Rightarrow> string \<Rightarrow> bool" where
  \<comment> \<open>one pass of the loop over the resolved addresses; a text that is no address raises as well\<close>
  "unsafe_address env allowlist address = (address \<notin> set allowlist
     \<and> (case we_ip_address env address of None \<Rightarrow> True | Some p \<Rightarrow> is_unsafe_ip p))"

definition validate_safe_url :: "web_env \<Rightarrow> string list option \<Rightarrow> string list option \<Rightarrow> string \<Rightarrow> web_error + unit" where
  \<comment> \<open>the third argument is the answer of name resolution, \<open>None\<close> for \<open>gaierror\<close>\<close>
  "validate_safe_url env extra addresses url = (case we_urlparse env url of
     None \<Rightarrow> Inl WebValueError
   | Some parsed \<Rightarrow>
       if up_scheme parsed \<notin> {''http'', ''https''} \<or> up_netloc parsed = [] \<or> up_hostname parsed \<in> {None, Some []} then Inl WebValueError
       else let host = normalize_host (the (up_hostname parsed)); allowlist = load_host_allowlist env extra in
         if host \<in> set allowlist then Inr ()
         else if up_port parsed = None then Inl WebValueError
         else (case addresses of None \<Rightarrow> Inl WebValueError
           | Some resolved \<Rightarrow> if resolved = [] then Inl WebValueError
               else if list_ex (unsafe_address env allowlist) resolved then Inl WebValueError else Inr ()))"

section \<open>Fetching\<close>

record response =
  rp_redirect :: bool
  rp_location :: "string option"
  rp_error_status :: bool
  rp_encoding :: "string option"
  rp_chunks :: "(rat \<times> string) list"  \<comment> \<open>the clock when a chunk is read, and the chunk\<close>

record hop =
  hp_addresses :: "string list option"
  hp_clock :: rat
  hp_response :: "response option"  \<comment> \<open>\<open>None\<close>: the request raises\<close>

fun read_streaming_body :: "int \<Rightarrow> rat \<Rightarrow> string \<Rightarrow> (rat \<times> string) list \<Rightarrow> web_error + string" where
  "read_streaming_body max_bytes deadline body [] = Inr body"
| "read_streaming_body max_bytes deadline body ((t, chunk) # rest) =
     (if deadline < t then Inl WebTimeout
      else if chunk = [] then read_streaming_body max_bytes deadline body rest
      else if max_bytes < int (length (body @ chunk)) then Inl WebValueError
      else read_streaming_body max_bytes deadline (body @ chunk) rest)"

definition max_redirects :: nat where "max_redirects = 5"

text \<open>The loop over \<open>redirect_count\<close>, with the passes that are left. The requests made so far are pairs of the number of
  the hop and the URL.\<close>

fun load_hops :: "web_env \<Rightarrow> string list option \<Rightarrow> int \<Rightarrow> rat \<Rightarrow> (nat \<Rightarrow> hop) \<Rightarrow> nat \<Rightarrow> string \<Rightarrow> (nat \<times> string) list
    \<Rightarrow> (web_error + string) \<times> (nat \<times> string) list" where
  "load_hops env extra max_bytes deadline hops 0 url made = (Inl WebValueError, made)"
| "load_hops env extra max_bytes deadline hops (Suc n) url made =
     (let redirect_count = max_redirects - n; h = hops redirect_count in
      case validate_safe_url env extra (hp_addresses h) url of
        Inl e \<Rightarrow> (Inl e, made)
      | Inr _ \<Rightarrow> if deadline < hp_clock h then (Inl WebTimeout, made)
          else let made' = made @ [(redirect_count, url)] in (case hp_response h of
              None \<Rightarrow> (Inl RequestException, made')
            | Some r \<Rightarrow>
                if rp_redirect r then
                  (if max_redirects \<le> redirect_count then (Inl WebValueError, made')
                   else if rp_location r \<in> {None, Some []} then (Inl WebValueError, made')
                   else load_hops env extra max_bytes deadline hops n (we_urljoin env url (the (rp_location r))) made')
                else if rp_error_status r then (Inl RequestException, made')
                else (case read_streaming_body max_bytes deadline [] (rp_chunks r) of
                    Inl e \<Rightarrow> (Inl e, made')
                  | Inr body \<Rightarrow> (Inr (we_decode env (rp_encoding r) body), made'))))"

definition load_text_response :: "web_env \<Rightarrow> string list option \<Rightarrow> rat \<Rightarrow> (nat \<Rightarrow> hop) \<Rightarrow> string \<Rightarrow> int \<Rightarrow> int
    \<Rightarrow> (web_error + string) \<times> (nat \<times> string) list" where
  "load_text_response env extra now hops url timeout_seconds max_bytes =
     (if timeout_seconds < 1 \<or> max_bytes < 1 then (Inl WebValueError, [])
      else load_hops env extra max_bytes (now + of_int (timeout_seconds * 2)) hops (max_redirects + 1) url [])"

definition wrap_errors :: "(web_error + 'a) \<times> 'b \<Rightarrow> (web_error + 'a) \<times> 'b" where
  \<comment> \<open>\<open>except Exception as exc: raise RuntimeError(...)\<close>\<close>
  "wrap_errors r = (case r of (Inl _, made) \<Rightarrow> (Inl WebRuntimeError, made) | (Inr x, made) \<Rightarrow> (Inr x, made))"

section \<open>The tools\<close>

text \<open>\<open>text.splitlines()\<close> with \<open>strip\<close> on every line: the empty line between the characters of a carriage return and line
  feed, and after a final line break, disappears with the other empty lines.\<close>

fun split_lines :: "string \<Rightarrow> string list" where
  "split_lines [] = [[]]"
| "split_lines (x # xs) = (if is_line_break x then [] # split_lines xs
     else (case split_lines xs of [] \<Rightarrow> [[x]] | w # ws \<Rightarrow> (x # w) # ws))"

text \<open>\<open>line.split("  ")\<close>, by two blanks.\<close>

fun split_blanks :: "string \<Rightarrow> string list" where
  "split_blanks (a # b # s) = (if a = CHR '' '' \<and> b = CHR '' '' then [] # split_blanks s
     else (case split_blanks (b # s) of [] \<Rightarrow> [[a]] | w # ws \<Rightarrow> (a # w) # ws))"
| "split_blanks s = [s]"

definition clean_text :: "string \<Rightarrow> string" where
  "clean_text t = join [CHR 0x0A] (filter (\<lambda>c. c \<noteq> [])
     (map py_strip (concat (map split_blanks (map py_strip (split_lines t))))))"

definition scrape_url :: "web_env \<Rightarrow> string list option \<Rightarrow> string list option \<Rightarrow> rat \<Rightarrow> (nat \<Rightarrow> hop) \<Rightarrow> string \<Rightarrow> int \<Rightarrow> int \<Rightarrow> int
    \<Rightarrow> (web_error + string) \<times> (nat \<times> string) list" where
  "scrape_url env extra addresses now hops url timeout_seconds max_bytes max_characters =
     (case validate_safe_url env extra addresses url of Inl e \<Rightarrow> (Inl e, [])
      | Inr _ \<Rightarrow> if max_characters < 1 then (Inl WebValueError, [])
          else wrap_errors (case load_text_response env extra now hops url timeout_seconds max_bytes of
              (Inl e, made) \<Rightarrow> (Inl e, made)
            | (Inr html, made) \<Rightarrow> (Inr (take (nat max_characters) (clean_text (we_soup_text env html))), made)))"

definition fetch_json_url :: "web_env \<Rightarrow> string list option \<Rightarrow> string list option \<Rightarrow> rat \<Rightarrow> (nat \<Rightarrow> hop) \<Rightarrow> string \<Rightarrow> int \<Rightarrow> int
    \<Rightarrow> (web_error + string) \<times> (nat \<times> string) list" where
  "fetch_json_url env extra addresses now hops url timeout_seconds max_bytes =
     (case validate_safe_url env extra addresses url of Inl e \<Rightarrow> (Inl e, [])
      | Inr _ \<Rightarrow> wrap_errors (case load_text_response env extra now hops url timeout_seconds max_bytes of
          (Inl e, made) \<Rightarrow> (Inl e, made)
        | (Inr body_text, made) \<Rightarrow> (case we_json_loads env body_text of None \<Rightarrow> (Inl WebValueError, made)
            | Some parsed \<Rightarrow> (Inr (we_json_pretty env parsed), made))))"

record link_state =
  ls_links :: "pyval list"
  ls_seen :: "string list"
  ls_truncated :: bool

fun add_links :: "web_env \<Rightarrow> string \<Rightarrow> string \<Rightarrow> bool \<Rightarrow> bool \<Rightarrow> int \<Rightarrow> link_state \<Rightarrow> (string \<times> string) list \<Rightarrow> web_error + link_state" where
  "add_links env url source_domain same_domain_only include_text max_links st [] = Inr st"
| "add_links env url source_domain same_domain_only include_text max_links st ((href, anchor_text) # rest) =
     (let normalized = py_strip (we_urljoin env url href);
          continue = (\<lambda>st'. add_links env url source_domain same_domain_only include_text max_links st' rest) in
      case we_urlparse env normalized of None \<Rightarrow> Inl WebValueError
      | Some parsed \<Rightarrow>
          if up_scheme parsed \<notin> {''http'', ''https''} \<or> up_netloc parsed = [] then continue st
          else if same_domain_only \<and> up_netloc parsed \<noteq> source_domain then continue st
          else if normalized \<in> set (ls_seen st) then continue st
          else let st1 = st\<lparr>ls_seen := normalized # ls_seen st\<rparr> in
            if max_links \<le> int (length (ls_links st1)) then Inr (st1\<lparr>ls_truncated := True\<rparr>)
            else continue (st1\<lparr>ls_links := ls_links st1 @ [PDict ((''url'', PStr normalized)
              # (if include_text then [(''text'', PStr anchor_text)] else []))]\<rparr>))"

definition extract_links_from_url :: "web_env \<Rightarrow> string list option \<Rightarrow> string list option \<Rightarrow> rat \<Rightarrow> (nat \<Rightarrow> hop) \<Rightarrow> string \<Rightarrow> bool \<Rightarrow> bool
    \<Rightarrow> int \<Rightarrow> int \<Rightarrow> int \<Rightarrow> (web_error + string) \<times> (nat \<times> string) list" where
  "extract_links_from_url env extra addresses now hops url same_domain_only include_text timeout_seconds max_bytes max_links =
     (case validate_safe_url env extra addresses url of Inl e \<Rightarrow> (Inl e, [])
      | Inr _ \<Rightarrow> if max_links < 1 then (Inl WebValueError, [])
          else wrap_errors (case we_urlparse env url of None \<Rightarrow> (Inl WebValueError, []) | Some source \<Rightarrow>
            (case load_text_response env extra now hops url timeout_seconds max_bytes of
              (Inl e, made) \<Rightarrow> (Inl e, made)
            | (Inr html, made) \<Rightarrow> (case add_links env url (up_netloc source) same_domain_only include_text max_links
                  \<lparr>ls_links = [], ls_seen = [], ls_truncated = False\<rparr> (we_anchors env html) of
                Inl e \<Rightarrow> (Inl e, made)
              | Inr st \<Rightarrow> (Inr (we_json_dumps env (PDict [(''source_url'', PStr url), (''same_domain_only'', PBool same_domain_only),
                  (''include_text'', PBool include_text), (''max_links'', PInt max_links), (''truncated'', PBool (ls_truncated st)),
                  (''link_count'', PInt (int (length (ls_links st)))), (''links'', PList (ls_links st))])), made)))))"

section \<open>Accepted addresses\<close>

fun public_ip :: "ip \<Rightarrow> bool" where
  "public_ip (IPv4 w) \<longleftrightarrow> (\<exists>a b c d. octets a b c d \<and> w = v4 a b c d \<and> public_v4 a b c d)"
| "public_ip (IPv6 w) \<longleftrightarrow> public_v6 w"

lemma v4_unsafe_iff:
  assumes "octets a b c d"
  shows "is_unsafe_ip (IPv4 (v4 a b c d)) \<longleftrightarrow> \<not> public_v4 a b c d"
proof -
  have "in_net (v4 a b c d) (v4 192 0 0 170, 31) \<Longrightarrow> a = 192 \<and> b = 0 \<and> c = 0 \<and> d \<noteq> 9 \<and> d \<noteq> 10"
  proof -
    assume "in_net (v4 a b c d) (v4 192 0 0 170, 31)"
    then have "digit (digit (digit a b) c) d div 2 = digit (digit (digit 192 0) 0) 170 div 2"
      using v4_net [OF assms, of 192 0 0 170 31] by (simp add: octets_def octet_numeral)
    then have "digit (digit (digit a b) c) d = digit (digit (digit 192 0) 0) 170
        \<or> digit (digit (digit a b) c) d = digit (digit (digit 192 0) 0) 171" unfolding digit_def by presburger
    then show ?thesis using assms by (auto simp: octets_def octet_numeral digit_eq)
  qed
  then have odd: "a \<noteq> 192 \<or> b \<noteq> 0 \<or> c \<noteq> 0 \<Longrightarrow> \<not> in_net (v4 a b c d) (v4 192 0 0 170, 31)" by blast
  note unfold = is_unsafe_ip_def v4_is_private_def in_some_def v4_private_def v4_private_exceptions_def public_v4_def
    list_ex_iff list.set insert_iff ball_simps bex_simps is_private.simps is_loopback.simps is_link_local.simps is_reserved.simps is_multicast.simps in_cgnat.simps
    v4_octet_nets [OF assms] v4_range_nets [OF assms]
  have a: "0 \<le> a" "a < 256" using assms by (auto simp: octets_def octet_def)
  consider "a = 192" "b = 0" "c = 0" | "a = 192" "b \<noteq> 0 \<or> c \<noteq> 0" | "a \<in> {198, 100, 169, 172, 203}" | "a \<notin> {192, 198, 100, 169, 172, 203}" by blast
  then show ?thesis
  proof cases
    case 1
    then show ?thesis unfolding unfold by simp
  next
    case 2
    then show ?thesis unfolding unfold using odd by auto
  next
    case 3
    then show ?thesis unfolding unfold using odd by (elim disjE) simp_all
  next
    case 4
    then have "is_unsafe_ip (IPv4 (v4 a b c d)) \<longleftrightarrow> a = 0 \<or> a = 10 \<or> a = 127 \<or> 240 \<le> a \<or> 224 \<le> a \<and> a < 240"
      unfolding unfold using odd by simp auto
    moreover have "public_v4 a b c d \<longleftrightarrow> a \<noteq> 0 \<and> a \<noteq> 10 \<and> a \<noteq> 127 \<and> a < 224" using 4 by (simp add: public_v4_def)
    ultimately show ?thesis by auto
  qed
qed

lemma v6_unsafe_iff: "is_unsafe_ip (IPv6 w) \<longleftrightarrow> \<not> public_v6 w"
proof (cases "group0 w < 0x2000")
  case True
  then show ?thesis by (simp add: is_unsafe_ip_def v6_reserved_iff public_v6_def)
next
  case False
  then have "ipv4_mapped w = None" using mapped_group0 [of w] by (cases "ipv4_mapped w") auto
  then have p: "v6_is_private w \<longleftrightarrow> in_some v6_private w \<and> \<not> in_some v6_private_exceptions w" by (simp add: v6_is_private_def)
  have one: "w \<noteq> 1"
  proof -
    have "group0 1 = 0" by code_simp
    then show ?thesis using False by auto
  qed
  have "is_link_local (IPv6 w) \<longleftrightarrow> 0xfe80 \<le> group0 w \<and> group0 w < 0xfec0" by (simp add: v6_group_net)
  moreover have "is_multicast (IPv6 w) \<longleftrightarrow> 0xff00 \<le> group0 w" using group0_bound [of w] by (simp add: v6_group_net)
  ultimately have u: "is_unsafe_ip (IPv6 w) \<longleftrightarrow> (v6_special w \<or> (0xfc00 \<le> group0 w \<and> group0 w < 0xfe00
      \<or> 0xfe80 \<le> group0 w \<and> group0 w < 0xfec0) \<and> \<not> in_some v6_private_exceptions w)
      \<or> 0xfe80 \<le> group0 w \<and> group0 w < 0xfec0 \<or> in_some v6_reserved w \<or> 0xff00 \<le> group0 w"
    unfolding is_unsafe_ip_def using False one p v6_private_iff [of w]
    by (simp add: v6_special_def del: is_link_local.simps is_multicast.simps) blast
  have e: "in_some v6_private_exceptions w \<Longrightarrow> group0 w = 0x2001" "v6_special w \<Longrightarrow> group0 w = 0x2001 \<or> group0 w = 0x2002"
    using exceptions_group0 [of w] special_group0 [of w] by (auto simp: v6_special_def)
  consider "group0 w < 0x4000" | "0x4000 \<le> group0 w" by linarith
  then show ?thesis
  proof cases
    case 1
    then show ?thesis using False by (simp add: u v6_reserved_iff public_v6_def)
  next
    case 2
    then have "\<not> v6_special w" "\<not> in_some v6_private_exceptions w" using e by auto
    then show ?thesis using 2 by (simp add: u v6_reserved_iff public_v6_def) linarith
  qed
qed

lemma unsafe_ip_iff: "is_unsafe_ip p \<longleftrightarrow> \<not> public_ip p"
proof (cases p)
  case (IPv4 w)
  obtain a b c d where w: "octets a b c d" "w = v4 a b c d" by (rule v4_cases)
  have "public_v4 a' b' c' d' \<Longrightarrow> octets a' b' c' d' \<Longrightarrow> w = v4 a' b' c' d' \<Longrightarrow> \<not> is_unsafe_ip p" for a' b' c' d'
    using v4_unsafe_iff IPv4 by blast
  then show ?thesis using v4_unsafe_iff [OF w(1)] IPv4 w by auto
qed (simp add: v6_unsafe_iff)

section \<open>Requests\<close>

text \<open>What a request may go to: a web URL whose host is on the allowlist, or for which name resolution just gave
  addresses that are all on the allowlist or public.\<close>

definition allowed_destination :: "web_env \<Rightarrow> string list option \<Rightarrow> string list option \<Rightarrow> string \<Rightarrow> bool" where
  "allowed_destination env extra addresses url \<longleftrightarrow> (\<exists>parsed host. we_urlparse env url = Some parsed
     \<and> up_scheme parsed \<in> {''http'', ''https''} \<and> up_hostname parsed = Some host
     \<and> (normalize_host host \<in> set (load_host_allowlist env extra)
       \<or> (\<exists>resolved. addresses = Some resolved \<and> resolved \<noteq> [] \<and> (\<forall>address\<in>set resolved.
           address \<in> set (load_host_allowlist env extra) \<or> (\<exists>p. we_ip_address env address = Some p \<and> public_ip p)))))"

lemma validated_destination:
  "validate_safe_url env extra addresses url = Inr u \<Longrightarrow> allowed_destination env extra addresses url"
  by (auto simp: validate_safe_url_def allowed_destination_def Let_def unsafe_address_def unsafe_ip_iff list_ex_iff
      split: option.splits if_splits)

definition requests_allowed :: "web_env \<Rightarrow> string list option \<Rightarrow> (nat \<Rightarrow> hop) \<Rightarrow> (nat \<times> string) list \<Rightarrow> bool" where
  "requests_allowed env extra hops made \<longleftrightarrow> (\<forall>(k, url)\<in>set made. k \<le> max_redirects
     \<and> allowed_destination env extra (hp_addresses (hops k)) url) \<and> distinct (map fst made)"

lemma load_hops_allowed:
  assumes "load_hops env extra max_bytes deadline hops n url made = (r, made')"
    and "requests_allowed env extra hops made" and "n \<le> Suc max_redirects" and "\<forall>k\<in>set (map fst made). k < Suc max_redirects - n"
  shows "requests_allowed env extra hops made'"
  using assms
proof (induction env extra max_bytes deadline hops n url made arbitrary: r made' rule: load_hops.induct)
  case (2 env extra max_bytes deadline hops n url made)
  let ?k = "max_redirects - n" let ?made = "made @ [(?k, url)]"
  show ?case
  proof (cases "validate_safe_url env extra (hp_addresses (hops ?k)) url")
    case (Inl e)
    then show ?thesis using 2(2,3) by (simp add: Let_def)
  next
    case (Inr u)
    have a: "requests_allowed env extra hops ?made"
      using "2.prems"(2,4) validated_destination [OF Inr] by (auto simp: requests_allowed_def)
    have b: "\<forall>k\<in>set (map fst ?made). k < Suc max_redirects - n" using "2.prems"(3,4) by auto
    have c: "n \<le> Suc max_redirects" using "2.prems"(3) by simp
    show ?thesis using "2.prems"(1,2) Inr a "2.IH" [OF refl refl, of u] b c
      by (auto simp: Let_def split: if_splits option.splits sum.splits)
  qed
qed simp

lemma read_body_bounded:
  "read_streaming_body max_bytes deadline body chunks = Inr b \<Longrightarrow> int (length body) \<le> max_bytes \<Longrightarrow> int (length b) \<le> max_bytes"
  by (induction max_bytes deadline body chunks rule: read_streaming_body.induct) (auto split: if_splits)

lemma load_text_allowed:
  assumes "load_text_response env extra now hops url timeout_seconds max_bytes = (r, made)"
  shows "requests_allowed env extra hops made"
proof -
  have "requests_allowed env extra hops []" by (simp add: requests_allowed_def)
  then show ?thesis using assms load_hops_allowed [of env extra max_bytes _ hops "max_redirects + 1" url "[]" r made]
    by (auto simp: load_text_response_def split: if_splits)
qed

lemma snd_wrap_errors [simp]: "snd (wrap_errors r) = snd r"
  by (cases r) (auto simp: wrap_errors_def split: sum.splits)

lemma requests_allowed_Nil [simp]: "requests_allowed env extra hops []"
  by (simp add: requests_allowed_def)

lemma scrape_allowed: "requests_allowed env extra hops (snd (scrape_url env extra addresses now hops url t b c))"
  using load_text_allowed [of env extra now hops url t b] by (auto simp: scrape_url_def split: sum.splits prod.splits)

lemma fetch_allowed: "requests_allowed env extra hops (snd (fetch_json_url env extra addresses now hops url t b))"
  using load_text_allowed [of env extra now hops url t b]
  by (auto simp: fetch_json_url_def split: sum.splits prod.splits option.splits)

lemma extract_allowed: "requests_allowed env extra hops (snd (extract_links_from_url env extra addresses now hops url sd it t b l))"
  using load_text_allowed [of env extra now hops url t b]
  by (auto simp: extract_links_from_url_def split: sum.splits prod.splits option.splits)

lemma requests_allowed_length: "requests_allowed env extra hops made \<Longrightarrow> length made \<le> 6"
proof -
  assume a: "requests_allowed env extra hops made"
  then have "set (map fst made) \<subseteq> {..5}" by (auto simp: requests_allowed_def max_redirects_def)
  then have "card (set (map fst made)) \<le> 6" using card_mono [of "{..5 :: nat}"] by fastforce
  moreover have "card (set (map fst made)) = length made" using a distinct_card [of "map fst made"] by (simp add: requests_allowed_def)
  ultimately show ?thesis by simp
qed

section \<open>Properties of the web tools\<close>


definition sample_web_env :: web_env where
  "sample_web_env = \<lparr>we_allowlist_var = [],
     we_urlparse = (\<lambda>u. Some \<lparr>up_scheme = take 4 u, up_netloc = drop 7 u, up_hostname = Some (drop 7 u), up_port = Some None\<rparr>),
     we_urljoin = (\<lambda>u v. v),
     we_ip_address = (\<lambda>s. if s = ''8.8.8.8'' then Some (IPv4 (v4 8 8 8 8)) else if s = ''127.0.0.1'' then Some (IPv4 (v4 127 0 0 1)) else None),
     we_decode = (\<lambda>_ b. b), we_soup_text = id, we_anchors = (\<lambda>_. []), we_json_loads = (\<lambda>_. None),
     we_json_pretty = (\<lambda>_. []), we_json_dumps = (\<lambda>_. [])\<rparr>"

definition sample_hops :: "nat \<Rightarrow> hop" where
  \<comment> \<open>two redirects, the second one to a host that resolves to the loopback address\<close>
  "sample_hops k = (if k < 2 then \<lparr>hp_addresses = Some [''8.8.8.8''], hp_clock = 0,
       hp_response = Some \<lparr>rp_redirect = True, rp_location = Some (if k = 0 then ''http://b'' else ''http://local''),
         rp_error_status = False, rp_encoding = None, rp_chunks = []\<rparr>\<rparr>
     else \<lparr>hp_addresses = Some [''127.0.0.1''], hp_clock = 0, hp_response = None\<rparr>)"


end
