(* ===== verification/EAP_Settings.thy ===== *)
theory EAP_Settings
  imports EAP_Models EAP_Numbers
begin

text \<open>
  Settings from the environment, \<^verbatim>\<open>src/eap/protocol/settings.py\<close>, and the default limits of the executor
  that the service builds from them (\<^verbatim>\<open>_load_default_execution_limits\<close> of
  \<^verbatim>\<open>src/scripts/eap_runtime_service.py\<close>). The environment is a function from names to values, \<open>json.loads\<close> is
  an argument that gives \<open>None\<close> for a text that is not JSON. Which of several messages is raised is kept as far as the
  kind of error and the field.
\<close>

section \<open>Records and errors\<close>

datatype settings_error = BadFloat string | BadInt string | BadUrl string | EmptyField string | NotPositive string | IsNegative string
  | BadJson string | NotObject string | BadHeader string | BadMode string | BurstNeedsRate string | BadToolName
  | BadToolLimit string string

record llm_client_settings =
  lc_base_url :: string
  lc_model_name :: string
  lc_api_key :: string
  lc_timeout_seconds :: int
  lc_temperature :: pyfloat
  lc_openai_api_mode :: string
  lc_extra_headers :: "(string, string) dict"

record tool_limit_settings =
  ts_max_concurrency :: pyval
  ts_requests_per_second :: pyval
  ts_burst_capacity :: pyval

record executor_limit_settings =
  es_max_global_concurrency :: int
  es_max_total_runtime_seconds :: "pyfloat option"
  es_max_reference_resolution_depth :: int
  es_global_requests_per_second :: "pyfloat option"
  es_global_burst_capacity :: "int option"
  es_per_tool_limits :: "(string, tool_limit_settings) dict"

record eap_settings =
  st_architect :: llm_client_settings
  st_auditor :: llm_client_settings
  st_executor :: executor_limit_settings

record settings_env =
  se_getenv :: "string \<Rightarrow> string option"
  se_json_loads :: "string \<Rightarrow> pyval option"

definition getenv :: "settings_env \<Rightarrow> string \<Rightarrow> string \<Rightarrow> string" where
  "getenv env name dflt = (case se_getenv env name of None \<Rightarrow> dflt | Some v \<Rightarrow> v)"

section \<open>Parsing\<close>

definition parse_float :: "string \<Rightarrow> string \<Rightarrow> settings_error + pyfloat" where
  "parse_float value field = (case py_float value of None \<Rightarrow> Inl (BadFloat field) | Some f \<Rightarrow> Inr f)"

definition parse_int :: "string \<Rightarrow> string \<Rightarrow> settings_error + int" where
  "parse_int value field = (case py_int value of None \<Rightarrow> Inl (BadInt field) | Some n \<Rightarrow> Inr n)"

definition rstrip_slash :: "string \<Rightarrow> string" where
  "rstrip_slash s = rev (dropWhile (\<lambda>c. c = CHR ''/'') (rev s))"

definition validate_base_url :: "string \<Rightarrow> string \<Rightarrow> settings_error + string" where
  "validate_base_url base_url field = (let normalized = rstrip_slash base_url in
     if normalized = [] then Inl (EmptyField field)
     else if \<not> (startswith normalized ''http://'' \<or> startswith normalized ''https://'') then Inl (BadUrl field)
     else Inr normalized)"

definition parse_optional_float :: "string \<Rightarrow> string \<Rightarrow> settings_error + pyfloat option" where
  "parse_optional_float value field = (let normalized = py_strip value in
     if normalized = [] then Inr None else bindR (parse_float normalized field) (\<lambda>f. Inr (Some f)))"

definition parse_optional_int :: "string \<Rightarrow> string \<Rightarrow> settings_error + int option" where
  "parse_optional_int value field = (let normalized = py_strip value in
     if normalized = [] then Inr None else bindR (parse_int normalized field) (\<lambda>n. Inr (Some n)))"

definition or_empty_object :: "string \<Rightarrow> string" where
  "or_empty_object s = (let n = py_strip s in if n = [] then ''{}'' else n)"

definition add_header :: "string \<Rightarrow> (string, string) dict \<Rightarrow> string \<times> pyval \<Rightarrow> settings_error + (string, string) dict" where
  "add_header field headers kv = (if py_strip (fst kv) = [] then Inl (BadHeader field)
     else case snd kv of
         PStr v \<Rightarrow> if py_strip v = [] then Inl (BadHeader field) else Inr (dict_set (py_strip (fst kv)) (py_strip v) headers)
       | _ \<Rightarrow> Inl (BadHeader field))"

definition parse_extra_headers :: "settings_env \<Rightarrow> string \<Rightarrow> string \<Rightarrow> settings_error + (string, string) dict" where
  "parse_extra_headers env value field = (case se_json_loads env (or_empty_object value) of
     None \<Rightarrow> Inl (BadJson field)
   | Some (PDict d) \<Rightarrow> foldR (add_header field) [] d
   | Some _ \<Rightarrow> Inl (NotObject field))"

definition parse_openai_api_mode :: "string \<Rightarrow> string \<Rightarrow> settings_error + string" where
  "parse_openai_api_mode value field = (let normalized = py_lower (py_strip value) in
     if normalized \<in> {''chat_completions'', ''responses''} then Inr normalized else Inl (BadMode field))"

section \<open>Client settings\<close>

definition non_empty :: "string \<Rightarrow> string \<Rightarrow> settings_error + string" where
  "non_empty value field = (let v = py_strip value in if v = [] then Inl (EmptyField field) else Inr v)"

definition build_client_settings :: "settings_env \<Rightarrow> string \<Rightarrow> settings_error + llm_client_settings" where
  "build_client_settings env role_prefix =
     (let get = (\<lambda>suffix dflt. getenv env (role_prefix @ suffix) (getenv env (''EAP'' @ suffix) dflt)) in
      bindR (validate_base_url (get ''_BASE_URL'' ''http://localhost:1234'') (role_prefix @ ''_BASE_URL'')) (\<lambda>base_url.
      bindR (non_empty (get ''_MODEL'' ''nemotron-orchestrator-8b'') (role_prefix @ ''_MODEL'')) (\<lambda>model_name.
      bindR (non_empty (get ''_API_KEY'' ''not-needed'') (role_prefix @ ''_API_KEY'')) (\<lambda>api_key.
      bindR (parse_int (get ''_TIMEOUT_SECONDS'' ''60'') (role_prefix @ ''_TIMEOUT_SECONDS'')) (\<lambda>timeout_seconds.
      bindR (raise_if (timeout_seconds \<le> 0) (NotPositive (role_prefix @ ''_TIMEOUT_SECONDS''))) (\<lambda>_.
      bindR (parse_float (get ''_TEMPERATURE'' ''0.0'') (role_prefix @ ''_TEMPERATURE'')) (\<lambda>temperature.
      bindR (raise_if (pf_less temperature (PFin 0)) (IsNegative (role_prefix @ ''_TEMPERATURE''))) (\<lambda>_.
      bindR (parse_openai_api_mode (get ''_OPENAI_API_MODE'' ''chat_completions'') (role_prefix @ ''_OPENAI_API_MODE'')) (\<lambda>mode.
      bindR (parse_extra_headers env (getenv env ''EAP_EXTRA_HEADERS_JSON'' ''{}'') ''EAP_EXTRA_HEADERS_JSON'') (\<lambda>global_headers.
      bindR (parse_extra_headers env (getenv env (role_prefix @ ''_EXTRA_HEADERS_JSON'') ''{}'') (role_prefix @ ''_EXTRA_HEADERS_JSON'')) (\<lambda>role_headers.
        Inr \<lparr>lc_base_url = base_url, lc_model_name = model_name, lc_api_key = api_key, lc_timeout_seconds = timeout_seconds,
          lc_temperature = temperature, lc_openai_api_mode = mode,
          lc_extra_headers = fold (\<lambda>kv d. dict_set (fst kv) (snd kv) d) role_headers global_headers\<rparr>)))))))))))"

section \<open>Limits of the executor\<close>

fun is_int :: "pyval \<Rightarrow> bool" where
  \<comment> \<open>\<open>bool\<close> is a subclass of \<open>int\<close>, and excluded\<close>
  "is_int (PInt n) = True"
| "is_int _ = False"

fun is_numeric :: "pyval \<Rightarrow> bool" where
  "is_numeric (PInt n) = True"
| "is_numeric (PFloat f) = True"
| "is_numeric _ = False"

fun not_above_zero :: "pyval \<Rightarrow> bool" where
  "not_above_zero (PInt n) = (n \<le> 0)"
| "not_above_zero (PFloat f) = pf_le f (PFin 0)"
| "not_above_zero _ = False"

definition validate_tool_limit_settings :: "string \<Rightarrow> tool_limit_settings \<Rightarrow> settings_error + unit" where
  "validate_tool_limit_settings tool_name limits =
     (let mc = ts_max_concurrency limits; rps = ts_requests_per_second limits; bc = ts_burst_capacity limits in
      if py_strip tool_name = [] then Inl BadToolName
      else if mc \<noteq> PNone \<and> \<not> is_int mc then Inl (BadToolLimit tool_name ''max_concurrency'')
      else if mc \<noteq> PNone \<and> not_above_zero mc then Inl (BadToolLimit tool_name ''max_concurrency'')
      else if rps \<noteq> PNone \<and> \<not> is_numeric rps then Inl (BadToolLimit tool_name ''requests_per_second'')
      else if rps \<noteq> PNone \<and> not_above_zero rps then Inl (BadToolLimit tool_name ''requests_per_second'')
      else if bc \<noteq> PNone \<and> \<not> is_int bc then Inl (BadToolLimit tool_name ''burst_capacity'')
      else if bc \<noteq> PNone \<and> not_above_zero bc then Inl (BadToolLimit tool_name ''burst_capacity'')
      else if bc \<noteq> PNone \<and> rps = PNone then Inl (BurstNeedsRate tool_name)
      else Inr ())"

definition add_tool_limit :: "(string, tool_limit_settings) dict \<Rightarrow> string \<times> pyval
    \<Rightarrow> settings_error + (string, tool_limit_settings) dict" where
  "add_tool_limit limits item = (case item of (tool_name, raw) \<Rightarrow>
     if \<not> is_dict raw then Inl (NotObject tool_name)
     else let l = \<lparr>ts_max_concurrency = py_get raw ''max_concurrency'', ts_requests_per_second = py_get raw ''requests_per_second'',
         ts_burst_capacity = py_get raw ''burst_capacity''\<rparr>
       in bindR (validate_tool_limit_settings tool_name l) (\<lambda>_. Inr (dict_set tool_name l limits)))"

definition build_executor_limits :: "settings_env \<Rightarrow> settings_error + executor_limit_settings" where
  "build_executor_limits env =
     bindR (parse_int (getenv env ''EAP_EXECUTOR_MAX_CONCURRENCY'' ''8'') ''EAP_EXECUTOR_MAX_CONCURRENCY'') (\<lambda>max_concurrency.
     bindR (raise_if (max_concurrency \<le> 0) (NotPositive ''EAP_EXECUTOR_MAX_CONCURRENCY'')) (\<lambda>_.
     bindR (parse_optional_float (getenv env ''EAP_EXECUTOR_MAX_TOTAL_RUNTIME_SECONDS'' []) ''EAP_EXECUTOR_MAX_TOTAL_RUNTIME_SECONDS'') (\<lambda>max_runtime.
     bindR (raise_if (opt_holds (\<lambda>f. pf_le f (PFin 0)) max_runtime) (NotPositive ''EAP_EXECUTOR_MAX_TOTAL_RUNTIME_SECONDS'')) (\<lambda>_.
     bindR (parse_int (getenv env ''EAP_EXECUTOR_MAX_REFERENCE_RESOLUTION_DEPTH'' ''32'') ''EAP_EXECUTOR_MAX_REFERENCE_RESOLUTION_DEPTH'') (\<lambda>max_depth.
     bindR (raise_if (max_depth \<le> 0) (NotPositive ''EAP_EXECUTOR_MAX_REFERENCE_RESOLUTION_DEPTH'')) (\<lambda>_.
     bindR (parse_optional_float (getenv env ''EAP_EXECUTOR_GLOBAL_RPS'' []) ''EAP_EXECUTOR_GLOBAL_RPS'') (\<lambda>global_rps.
     bindR (raise_if (opt_holds (\<lambda>f. pf_le f (PFin 0)) global_rps) (NotPositive ''EAP_EXECUTOR_GLOBAL_RPS'')) (\<lambda>_.
     bindR (parse_optional_int (getenv env ''EAP_EXECUTOR_GLOBAL_BURST'' []) ''EAP_EXECUTOR_GLOBAL_BURST'') (\<lambda>global_burst.
     bindR (raise_if (opt_holds (\<lambda>n. n \<le> 0) global_burst) (NotPositive ''EAP_EXECUTOR_GLOBAL_BURST'')) (\<lambda>_.
     bindR (raise_if (global_burst \<noteq> None \<and> global_rps = None) (BurstNeedsRate ''EAP_EXECUTOR_GLOBAL_BURST'')) (\<lambda>_.
     bindR (case se_json_loads env (or_empty_object (getenv env ''EAP_EXECUTOR_PER_TOOL_LIMITS_JSON'' ''{}'')) of
         None \<Rightarrow> Inl (BadJson ''EAP_EXECUTOR_PER_TOOL_LIMITS_JSON'')
       | Some (PDict d) \<Rightarrow> foldR add_tool_limit [] d
       | Some _ \<Rightarrow> Inl (NotObject ''EAP_EXECUTOR_PER_TOOL_LIMITS_JSON'')) (\<lambda>per_tool_limits.
       Inr \<lparr>es_max_global_concurrency = max_concurrency, es_max_total_runtime_seconds = max_runtime,
         es_max_reference_resolution_depth = max_depth, es_global_requests_per_second = global_rps,
         es_global_burst_capacity = global_burst, es_per_tool_limits = per_tool_limits\<rparr>))))))))))))"

definition load_settings :: "settings_env \<Rightarrow> settings_error + eap_settings" where
  "load_settings env =
     bindR (build_client_settings env ''EAP_ARCHITECT'') (\<lambda>architect.
     bindR (build_client_settings env ''EAP_AUDITOR'') (\<lambda>auditor.
     bindR (build_executor_limits env) (\<lambda>executor.
       Inr \<lparr>st_architect = architect, st_auditor = auditor, st_executor = executor\<rparr>)))"

section \<open>Default limits of a service\<close>

text \<open>How a float counts in the bounds of the model \<open>ExecutionLimits\<close>, which are all of the form \<open>0 < x\<close>: NaN fails them,
  infinity passes.\<close>

fun limit_rat :: "pyfloat \<Rightarrow> rat" where
  "limit_rat (PFin r) = r"
| "limit_rat PPosInf = 1"
| "limit_rat PNegInf = - 1"
| "limit_rat PNaN = - 1"

fun int_of_val :: "pyval \<Rightarrow> int option" where
  "int_of_val (PInt n) = Some n"
| "int_of_val _ = None"

fun float_of_val :: "pyval \<Rightarrow> pyfloat option" where
  "float_of_val (PInt n) = Some (PFin (of_int n))"
| "float_of_val (PFloat f) = Some f"
| "float_of_val _ = None"

definition tool_execution_limit :: "tool_limit_settings \<Rightarrow> models_error + tool_limit" where
  "tool_execution_limit l = validate_bucket_contract \<lparr>tl_max_concurrency = int_of_val (ts_max_concurrency l),
     tl_rps = map_option limit_rat (float_of_val (ts_requests_per_second l)), tl_burst = int_of_val (ts_burst_capacity l)\<rparr>"

definition limit_floats :: "executor_limit_settings \<Rightarrow> pyfloat option list" where
  "limit_floats s = es_max_total_runtime_seconds s # es_global_requests_per_second s
     # map (\<lambda>x. float_of_val (ts_requests_per_second (snd x))) (es_per_tool_limits s)"

definition default_execution_limits :: "executor_limit_settings \<Rightarrow> models_error + exec_limits option" where
  \<comment> \<open>\<open>Inr None\<close>: limits with an infinite number in them, for which \<open>exec_limits\<close> has no value\<close>
  "default_execution_limits s =
     bindR (mapR (\<lambda>(tool_name, limit). bindR (tool_execution_limit limit) (\<lambda>t. Inr (tool_name, t))) (es_per_tool_limits s)) (\<lambda>per_tool.
     bindR (check_exec_limits_fields \<lparr>el_max_global = es_max_global_concurrency s,
       el_max_runtime = map_option limit_rat (es_max_total_runtime_seconds s), el_max_depth = es_max_reference_resolution_depth s,
       el_global_rps = map_option limit_rat (es_global_requests_per_second s), el_global_burst = es_global_burst_capacity s,
       el_per_tool = per_tool\<rparr>) (\<lambda>l.
     bindR (validate_execution_limits l) (\<lambda>l.
       Inr (if Some PPosInf \<in> set (limit_floats s) then None else Some l))))"

section \<open>What loaded settings satisfy\<close>

definition nonblank :: "string \<Rightarrow> bool" where
  "nonblank s \<longleftrightarrow> s \<noteq> [] \<and> py_strip s = s"

definition client_ok :: "llm_client_settings \<Rightarrow> bool" where
  "client_ok c \<longleftrightarrow> (startswith (lc_base_url c) ''http://'' \<or> startswith (lc_base_url c) ''https://'') \<and> last (lc_base_url c) \<noteq> CHR ''/''
     \<and> nonblank (lc_model_name c) \<and> nonblank (lc_api_key c) \<and> 0 < lc_timeout_seconds c \<and> \<not> pf_less (lc_temperature c) (PFin 0)
     \<and> lc_openai_api_mode c \<in> {''chat_completions'', ''responses''}
     \<and> (\<forall>(k, v)\<in>set (lc_extra_headers c). nonblank k \<and> nonblank v)"

definition above_zero :: "pyfloat \<Rightarrow> bool" where
  "above_zero f \<longleftrightarrow> f = PNaN \<or> pf_less (PFin 0) f"

definition tool_limit_ok :: "tool_limit_settings \<Rightarrow> bool" where
  "tool_limit_ok l \<longleftrightarrow> (ts_max_concurrency l = PNone \<or> (\<exists>n>0. ts_max_concurrency l = PInt n))
     \<and> (ts_requests_per_second l = PNone \<or> (\<exists>n>0. ts_requests_per_second l = PInt n) \<or> (\<exists>f. above_zero f \<and> ts_requests_per_second l = PFloat f))
     \<and> (ts_burst_capacity l = PNone \<or> (\<exists>n>0. ts_burst_capacity l = PInt n) \<and> ts_requests_per_second l \<noteq> PNone)"

definition limits_ok :: "executor_limit_settings \<Rightarrow> bool" where
  "limits_ok s \<longleftrightarrow> 0 < es_max_global_concurrency s \<and> 0 < es_max_reference_resolution_depth s
     \<and> (\<forall>f. es_max_total_runtime_seconds s = Some f \<longrightarrow> above_zero f) \<and> (\<forall>f. es_global_requests_per_second s = Some f \<longrightarrow> above_zero f)
     \<and> (\<forall>n. es_global_burst_capacity s = Some n \<longrightarrow> 0 < n \<and> es_global_requests_per_second s \<noteq> None)
     \<and> (\<forall>(k, l)\<in>set (es_per_tool_limits s). py_strip k \<noteq> [] \<and> tool_limit_ok l)"

lemma dropWhile_no_head: "dropWhile P s = [] \<or> \<not> P (hd (dropWhile P s))"
  by (induction s) auto

lemma nonblank_strip: "py_strip s \<noteq> [] \<Longrightarrow> nonblank (py_strip s)"
  by (simp add: nonblank_def py_strip_idem)

lemma rstrip_slash_last: "rstrip_slash s \<noteq> [] \<Longrightarrow> last (rstrip_slash s) \<noteq> CHR ''/''"
  using dropWhile_no_head [of "\<lambda>c. c = CHR ''/''" "rev s"] by (auto simp: rstrip_slash_def last_rev)

lemma pf_not_le_zero: "\<not> pf_le f (PFin 0) \<longleftrightarrow> above_zero f"
  by (cases f) (auto simp: above_zero_def pf_less_def)

lemma in_dict_set: "x \<in> set (dict_set k v d) \<Longrightarrow> x = (k, v) \<or> x \<in> set d"
  by (induction d) (auto split: if_splits)

lemma in_dict_update: "x \<in> set (fold (\<lambda>kv d. dict_set (fst kv) (snd kv) d) new d) \<Longrightarrow> x \<in> set new \<or> x \<in> set d"
proof (induction new arbitrary: d)
  case (Cons kv new)
  then show ?case using in_dict_set [of x "fst kv" "snd kv" d] by auto
qed simp

lemma parse_extra_headers_ok:
  assumes "parse_extra_headers env value field = Inr h"
  shows "\<forall>(k, v)\<in>set h. nonblank k \<and> nonblank v"
proof -
  obtain d where "foldR (add_header field) [] d = Inr h"
    using assms by (auto simp: parse_extra_headers_def split: option.splits pyval.splits)
  then show ?thesis
    by (rule foldR_invariant)
       (auto simp: add_header_def nonblank_strip split: if_splits pyval.splits dest!: in_dict_set)
qed

lemma build_client_ok:
  assumes "build_client_settings env role_prefix = Inr c"
  shows "client_ok c"
proof -
  obtain g r where "parse_extra_headers env (getenv env ''EAP_EXTRA_HEADERS_JSON'' ''{}'') ''EAP_EXTRA_HEADERS_JSON'' = Inr g"
    "parse_extra_headers env (getenv env (role_prefix @ ''_EXTRA_HEADERS_JSON'') ''{}'') (role_prefix @ ''_EXTRA_HEADERS_JSON'') = Inr r"
    and h: "lc_extra_headers c = fold (\<lambda>kv d. dict_set (fst kv) (snd kv) d) r g"
    using assms by (auto simp: build_client_settings_def Let_def res_simps)
  then have "\<forall>(k, v)\<in>set g. nonblank k \<and> nonblank v" "\<forall>(k, v)\<in>set r. nonblank k \<and> nonblank v"
    by (simp_all add: parse_extra_headers_ok)
  with h have "\<forall>(k, v)\<in>set (lc_extra_headers c). nonblank k \<and> nonblank v" by (auto dest!: in_dict_update)
  then show ?thesis using assms
    by (auto simp: build_client_settings_def client_ok_def Let_def res_simps validate_base_url_def non_empty_def
        parse_openai_api_mode_def nonblank_strip rstrip_slash_last split: if_splits)
qed

lemma positive_int: "is_int v \<Longrightarrow> \<not> not_above_zero v \<Longrightarrow> \<exists>n>0. v = PInt n"
  by (cases v) auto

lemma positive_num: "is_numeric v \<Longrightarrow> \<not> not_above_zero v \<Longrightarrow> (\<exists>n>0. v = PInt n) \<or> (\<exists>f. above_zero f \<and> v = PFloat f)"
  by (cases v) (auto simp: pf_not_le_zero)

lemma tool_limit_validated:
  assumes "validate_tool_limit_settings name l = Inr u"
  shows "py_strip name \<noteq> [] \<and> tool_limit_ok l"
  using assms positive_int [of "ts_max_concurrency l"] positive_int [of "ts_burst_capacity l"] positive_num [of "ts_requests_per_second l"]
  by (auto simp: validate_tool_limit_settings_def tool_limit_ok_def Let_def split: if_splits)

lemma build_executor_limits_ok:
  assumes "build_executor_limits env = Inr e"
  shows "limits_ok e"
proof -
  obtain d where d: "foldR add_tool_limit [] d = Inr (es_per_tool_limits e)"
    using assms by (auto simp: build_executor_limits_def res_simps split: option.splits pyval.splits)
  then have "\<forall>(k, l)\<in>set (es_per_tool_limits e). py_strip k \<noteq> [] \<and> tool_limit_ok l"
    by (rule foldR_invariant)
       (auto simp: add_tool_limit_def Let_def res_simps split: if_splits dest!: in_dict_set tool_limit_validated)
  then show ?thesis using assms
    by (auto simp: build_executor_limits_def limits_ok_def res_simps opt_holds_iff simp flip: pf_not_le_zero)
qed

lemma limit_rat_bound: "above_zero f \<Longrightarrow> limit_rat f \<le> 0 \<longleftrightarrow> f = PNaN"
  by (cases f) (auto simp: above_zero_def pf_less_def)

lemma mapR_total: "(\<exists>ys. mapR f xs = Inr ys) \<longleftrightarrow> (\<forall>x\<in>set xs. \<exists>y. f x = Inr y)"
  by (induction xs) (auto split: sum.splits)

lemma tool_execution_limit_iff:
  assumes "tool_limit_ok l"
  shows "(\<exists>t. tool_execution_limit l = Inr t) \<longleftrightarrow> float_of_val (ts_requests_per_second l) \<noteq> Some PNaN"
proof -
  have ints: "\<not> opt_holds (\<lambda>n. n < 1) (int_of_val (ts_max_concurrency l))" "\<not> opt_holds (\<lambda>n. n < 1) (int_of_val (ts_burst_capacity l))"
    using assms by (auto simp: tool_limit_ok_def)
  have burst: "float_of_val (ts_requests_per_second l) = None \<Longrightarrow> int_of_val (ts_burst_capacity l) = None"
    using assms by (auto simp: tool_limit_ok_def)
  have "opt_holds (\<lambda>r. r \<le> 0) (map_option limit_rat (float_of_val (ts_requests_per_second l)))
      \<longleftrightarrow> float_of_val (ts_requests_per_second l) = Some PNaN"
    using assms limit_rat_bound by (auto simp: tool_limit_ok_def)
  then show ?thesis using ints burst by (auto simp: tool_execution_limit_def validate_bucket_contract_def)
qed

lemma per_tool_names:
  assumes "mapR (\<lambda>(tool_name, limit). bindR (tool_execution_limit limit) (\<lambda>t. Inr (tool_name, t))) xs = Inr ys"
  shows "map fst ys = map fst xs"
  using assms by (induction xs arbitrary: ys) (auto simp: res_simps split: sum.splits)

lemma default_limits_iff:
  assumes "limits_ok s"
  shows "(\<exists>l. default_execution_limits s = Inr l) \<longleftrightarrow> es_max_reference_resolution_depth s \<le> 256 \<and> Some PNaN \<notin> set (limit_floats s)"
proof -
  let ?tools = "mapR (\<lambda>(tool_name, limit). bindR (tool_execution_limit limit) (\<lambda>t. Inr (tool_name, t))) (es_per_tool_limits s)"
  let ?l = "\<lambda>per_tool. \<lparr>el_max_global = es_max_global_concurrency s,
       el_max_runtime = map_option limit_rat (es_max_total_runtime_seconds s), el_max_depth = es_max_reference_resolution_depth s,
       el_global_rps = map_option limit_rat (es_global_requests_per_second s), el_global_burst = es_global_burst_capacity s,
       el_per_tool = per_tool\<rparr>"
  have ok: "limits_ok s" by fact
  have fields: "check_exec_limits_fields (?l p) = Inr (?l p) \<longleftrightarrow> es_max_reference_resolution_depth s \<le> 256
      \<and> es_max_total_runtime_seconds s \<noteq> Some PNaN \<and> es_global_requests_per_second s \<noteq> Some PNaN" for p
    using ok limit_rat_bound by (auto simp: check_exec_limits_fields_def limits_ok_def opt_holds_iff)
  have fieldsD: "check_exec_limits_fields l = Inr l' \<Longrightarrow> l' = l" for l l'
    by (auto simp: check_exec_limits_fields_def split: if_splits)
  have tools: "(\<exists>ys. ?tools = Inr ys) \<longleftrightarrow> (\<forall>x\<in>set (es_per_tool_limits s). float_of_val (ts_requests_per_second (snd x)) \<noteq> Some PNaN)"
  proof -
    have "(\<exists>y. (case x of (tool_name, limit) \<Rightarrow> bindR (tool_execution_limit limit) (\<lambda>t. Inr (tool_name, t))) = Inr y)
        \<longleftrightarrow> float_of_val (ts_requests_per_second (snd x)) \<noteq> Some PNaN" if "x \<in> set (es_per_tool_limits s)" for x
      using ok that tool_execution_limit_iff [of "snd x"] by (auto simp: limits_ok_def res_simps split: prod.splits)
    then show ?thesis unfolding mapR_total by blast
  qed
  have valid: "validate_execution_limits (?l p) = Inr (?l p)" if "?tools = Inr p" for p
  proof -
    have "\<forall>k\<in>set (map fst p). py_strip k \<noteq> []" unfolding per_tool_names [OF that] using ok by (auto simp: limits_ok_def)
    then have "checkR (\<lambda>k. raise_if (py_strip k = []) EmptyToolName) (map fst p) = Inr ()" by (simp add: checkR_Inr_iff)
    then show ?thesis using ok by (auto simp: validate_execution_limits_def limits_ok_def)
  qed
  have "(\<exists>l. default_execution_limits s = Inr l) \<longleftrightarrow> (\<exists>p. ?tools = Inr p \<and> check_exec_limits_fields (?l p) = Inr (?l p))"
    using valid by (auto simp: default_execution_limits_def res_simps dest: fieldsD) metis+
  moreover have "Some PNaN \<in> set (limit_floats s) \<longleftrightarrow> es_max_total_runtime_seconds s = Some PNaN \<or> es_global_requests_per_second s = Some PNaN
      \<or> (\<exists>x\<in>set (es_per_tool_limits s). float_of_val (ts_requests_per_second (snd x)) = Some PNaN)"
    by (simp add: limit_floats_def image_iff) (metis (no_types, lifting))
  ultimately show ?thesis using tools unfolding fields by blast
qed

section \<open>Properties of the settings\<close>


text \<open>The service can build the default limits of its executor from loaded settings exactly when the reference depth is
  at most 256 and no limit is NaN: settings outside these bounds are accepted when they are loaded and refused
  when the limits are built.\<close>

theorem settings_give_limits:
  assumes "load_settings env = Inr s"
  shows "(\<exists>l. default_execution_limits (st_executor s) = Inr l) \<longleftrightarrow>
     es_max_reference_resolution_depth (st_executor s) \<le> 256 \<and> Some PNaN \<notin> set (limit_floats (st_executor s))"
proof -
  have "limits_ok (st_executor s)" using assms by (auto simp: load_settings_def res_simps intro: build_executor_limits_ok)
  then show ?thesis by (rule default_limits_iff)
qed

definition sample_settings_env :: "string \<Rightarrow> settings_env" where
  "sample_settings_env depth = \<lparr>se_getenv = (\<lambda>n. if n = ''EAP_EXECUTOR_MAX_REFERENCE_RESOLUTION_DEPTH'' then Some depth
       else if n = ''EAP_EXECUTOR_GLOBAL_RPS'' then Some ''2.5'' else if n = ''EAP_BASE_URL'' then Some ''https://gateway/'' else None),
     se_json_loads = (\<lambda>t. if t = ''{}'' then Some (PDict []) else None)\<rparr>"


theorem settings_give_limits_witness:
  "\<exists>s. load_settings (sample_settings_env ''1000'') = Inr s \<and> (\<nexists>l. default_execution_limits (st_executor s) = Inr l)"
proof -
  have "case load_settings (sample_settings_env ''1000'') of Inr s \<Rightarrow> es_max_reference_resolution_depth (st_executor s) = 1000 | Inl _ \<Rightarrow> False"
    by code_simp
  then obtain s where "load_settings (sample_settings_env ''1000'') = Inr s" "es_max_reference_resolution_depth (st_executor s) = 1000"
    by (auto split: sum.splits)
  with settings_give_limits [OF this(1)] show ?thesis by auto
qed

end
