(* ===== verification/EAP_Service.thy ===== *)
theory EAP_Service
  imports EAP_Settings EAP_Http_Properties
begin

text \<open>
  Starting the runtime service, \<open>main\<close> of \<^verbatim>\<open>src/scripts/eap_runtime_service.py\<close> up to the construction of the server: the
  bearer token from a flag, a file or the environment, the scoped tokens and the guardrails from their
  configuration files, the default limits from the settings. Reading a file is an argument, \<open>None\<close> for one that cannot
  be read. Parsing of the command line, the registration of the two example tools, printing, signals and shutdown are
  not modelled.
\<close>

record service_args =
  sa_host :: string
  sa_port :: int
  sa_bearer_token :: string
  sa_bearer_token_file :: string
  sa_local_dev :: bool
  sa_scoped_auth_config :: string
  sa_policy_profile :: string
  sa_guardrails_config :: string
  sa_max_request_body_bytes :: int

record service_env =
  sv_settings :: settings_env
  sv_read_text :: "string \<Rightarrow> string option"

datatype service_error = ServicePort | ServiceBodyLimit | ServiceToken | ServiceScopedConfig | ServiceGuardrails | ServiceLocalDev
  | ServiceNoAuth | ServiceSettings | ServiceServer server_error

definition resolve_bearer_token :: "service_env \<Rightarrow> service_args \<Rightarrow> service_error + string" where
  "resolve_bearer_token env args =
     (let flag_token = py_strip (sa_bearer_token args); file_path = py_strip (sa_bearer_token_file args) in
      if flag_token \<noteq> [] \<and> file_path \<noteq> [] then Inl ServiceToken
      else if file_path \<noteq> [] then (case sv_read_text env file_path of
          None \<Rightarrow> Inl ServiceToken
        | Some raw \<Rightarrow> let token = py_strip (takeWhile (\<lambda>c. \<not> is_line_break c) raw) in
            if token = [] then Inl ServiceToken else Inr token)
      else if flag_token \<noteq> [] then Inr flag_token
      else Inr (py_strip (getenv (sv_settings env) ''EAP_RUNTIME_BEARER_TOKEN'' [])))"

definition read_json :: "service_env \<Rightarrow> string \<Rightarrow> pyval option" where
  "read_json env path = (case sv_read_text env path of None \<Rightarrow> None | Some t \<Rightarrow> se_json_loads (sv_settings env) t)"

definition load_scoped_auth_config :: "(pyfloat \<Rightarrow> string) \<Rightarrow> service_env \<Rightarrow> service_args
    \<Rightarrow> service_error + (string, token_policy) dict \<times> string" where
  "load_scoped_auth_config fr env args =
     (if py_strip (sa_scoped_auth_config args) = [] then Inr ([], sa_policy_profile args)
      else (case read_json env (sa_scoped_auth_config args) of
          Some (PDict payload) \<Rightarrow> (case build_scoped_token_policies fr payload (sa_policy_profile args) of
              Inl e \<Rightarrow> Inl ServiceScopedConfig | Inr r \<Rightarrow> Inr r)
        | _ \<Rightarrow> Inl ServiceScopedConfig))"

definition or_empty_dict :: "pyval \<Rightarrow> pyval" where
  "or_empty_dict v = (if py_truthy v then v else PDict [])"

definition load_guardrails_config :: "service_env \<Rightarrow> service_args \<Rightarrow> service_error + (string, pyval) dict \<times> (string, pyval) dict" where
  "load_guardrails_config env args =
     (if py_strip (sa_guardrails_config args) = [] then Inr ([], [])
      else (case read_json env (sa_guardrails_config args) of
          Some (PDict payload) \<Rightarrow>
            (case (or_empty_dict (dict_get_or payload ''rate_limits'' PNone), or_empty_dict (dict_get_or payload ''concurrency'' PNone)) of
                (PDict rate_limits, PDict concurrency) \<Rightarrow>
                  (case (normalize_rate_limit_rules (Some rate_limits), normalize_concurrency_limits (Some concurrency)) of
                      (Inr _, Inr _) \<Rightarrow> Inr (rate_limits, concurrency) | _ \<Rightarrow> Inl ServiceGuardrails)
              | _ \<Rightarrow> Inl ServiceGuardrails)
        | _ \<Rightarrow> Inl ServiceGuardrails))"

definition or_none :: "'a list \<Rightarrow> 'a list option" where
  "or_none xs = (if xs = [] then None else Some xs)"

definition service_config :: "service_args \<Rightarrow> string \<Rightarrow> (string, token_policy) dict \<Rightarrow> (string, pyval) dict \<Rightarrow> (string, pyval) dict \<Rightarrow> server_config" where
  "service_config args bearer_token scoped_tokens rate_limit_rules concurrency_limits =
     \<lparr>sc_host = sa_host args, sc_port = sa_port args, sc_required = or_none bearer_token,
      sc_tokens = map_option as_raw (or_none scoped_tokens), sc_rate_rules = or_none rate_limit_rules,
      sc_concurrency = or_none concurrency_limits, sc_max_body = sa_max_request_body_bytes args, sc_local_dev = sa_local_dev args\<rparr>"

definition start_service :: "(pyfloat \<Rightarrow> string) \<Rightarrow> state_manager \<Rightarrow> service_env \<Rightarrow> service_args
    \<Rightarrow> service_error + runtime_state \<times> exec_limits option" where
  "start_service fr sm env args =
     bindR (raise_if (sa_port args \<le> 0 \<or> 65535 < sa_port args) ServicePort) (\<lambda>_.
     bindR (raise_if (sa_max_request_body_bytes args \<le> 0) ServiceBodyLimit) (\<lambda>_.
     bindR (resolve_bearer_token env args) (\<lambda>bearer_token.
     bindR (load_scoped_auth_config fr env args) (\<lambda>(scoped_tokens, active_policy_profile).
     bindR (load_guardrails_config env args) (\<lambda>(rate_limit_rules, concurrency_limits).
     bindR (raise_if (sa_local_dev args \<and> py_lower (py_strip (sa_host args)) \<notin> {''127.0.0.1'', ''localhost'', ''::1''}) ServiceLocalDev) (\<lambda>_.
     bindR (raise_if (bearer_token = [] \<and> scoped_tokens = [] \<and> \<not> sa_local_dev args) ServiceNoAuth) (\<lambda>_.
     bindR (case load_settings (sv_settings env) of Inl e \<Rightarrow> Inl ServiceSettings
        | Inr s \<Rightarrow> (case default_execution_limits (st_executor s) of Inl e \<Rightarrow> Inl ServiceSettings | Inr l \<Rightarrow> Inr l)) (\<lambda>limits.
     map_sum ServiceServer (\<lambda>st. (st, limits)) (new_server fr sm
       (service_config args bearer_token scoped_tokens rate_limit_rules concurrency_limits))))))))))"

section \<open>What a started service accepts\<close>

lemma map_sum_Inr [simp]: "map_sum f g x = Inr y \<longleftrightarrow> (\<exists>z. x = Inr z \<and> y = g z)"
  by (cases x) auto

lemma started_cases:
  assumes "start_service fr sm env args = Inr (st, limits)"
  obtains bearer policies base where "resolve_bearer_token env args = Inr bearer" "load_scoped_auth_config fr env args = Inr (policies, base)"
    "rt_required st = or_none bearer" "rt_tokens st = policies" "rt_local_dev st = sa_local_dev args"
    "sa_local_dev args \<Longrightarrow> is_loopback_host (sa_host args)" "bearer \<noteq> [] \<or> policies \<noteq> [] \<or> sa_local_dev args"
proof -
  obtain bearer policies base rates conc where a: "resolve_bearer_token env args = Inr bearer"
    "load_scoped_auth_config fr env args = Inr (policies, base)" "bearer \<noteq> [] \<or> policies \<noteq> [] \<or> sa_local_dev args"
    "new_server fr sm (service_config args bearer policies rates conc) = Inr st"
    using assms by (auto simp: start_service_def res_simps split: sum.split_asm)
  have "normalize_scoped_bearer_tokens fr (map_option as_raw (or_none policies)) = policies"
  proof (cases "policies = []")
    case True
    then show ?thesis by (simp add: or_none_def normalize_scoped_bearer_tokens_def)
  next
    case False
    then obtain payload where "build_scoped_token_policies fr payload (sa_policy_profile args) = Inr (policies, base)"
      using a(2) by (auto simp: load_scoped_auth_config_def split: if_splits option.splits pyval.splits sum.splits)
    then show ?thesis using built_policies_kept False by (simp add: or_none_def)
  qed
  then have "rt_tokens st = policies" "rt_required st = or_none bearer" "rt_local_dev st = sa_local_dev args"
    "sa_local_dev args \<Longrightarrow> is_loopback_host (sa_host args)"
    using a(4) by (auto simp: new_server_def service_config_def split: if_splits sum.splits)
  then show thesis using a(1-3) that by blast
qed

lemma scoped_token_grants:
  assumes "load_scoped_auth_config fr env args = Inr (policies, base)" and "map_of policies token = Some policy"
  obtains profile scopes where "policy_grants policy profile scopes" "within_profile profile scopes"
proof -
  obtain payload where b: "build_scoped_token_policies fr payload (sa_policy_profile args) = Inr (policies, base)"
    using assms by (auto simp: load_scoped_auth_config_def split: if_splits option.splits pyval.splits sum.splits)
  have "\<forall>q\<in>set policies. \<exists>profile scopes. policy_grants (snd q) profile scopes \<and> within_profile profile scopes"
    using b by (rule build_policies_all) (auto dest: token_entry_grants)
  then show thesis using map_of_SomeD [OF assms(2)] that by force
qed

lemma granted_scopes: "policy_grants policy profile scopes \<Longrightarrow> policy_scopes henv policy = scopes"
  by (auto simp: policy_grants_def policy_scopes_def dict_get_or_def py_str_def comp_def)

section \<open>Property of a started service\<close>

text \<open>C5: A service that has started runs the executor for authenticated callers only: whenever the executor runs for a request, the
  request carries the bearer token the operator configured, or a scoped token of the configuration file whose
  profile allows its scopes and whose scopes have the one of the operation. The only exception is a service that the
  operator started for local development, on a loopback host and without any token.\<close>

theorem service_authenticates:
  assumes "start_service fr sm env args = Inr (st0, limits)"
    and "(service_step henv)\<^sup>*\<^sup>* (st0, []) (st, rs)" and "Executing headers auth w tok c \<in> set rs"
  shows "(\<exists>token. parse_bearer_token headers = Some token \<and> (resolve_bearer_token env args = Inr token \<and> token \<noteq> []
       \<or> (\<exists>policies base policy profile scopes. load_scoped_auth_config fr env args = Inr (policies, base) \<and> map_of policies token = Some policy
           \<and> policy_grants policy profile scopes \<and> within_profile profile scopes
           \<and> (work_scope w \<in> set scopes \<or> ''*'' \<in> set scopes))))
     \<or> sa_local_dev args \<and> is_loopback_host (sa_host args) \<and> rt_tokens st0 = [] \<and> resolve_bearer_token env args = Inr []"
proof -
  obtain bearer policies base where s: "resolve_bearer_token env args = Inr bearer" "load_scoped_auth_config fr env args = Inr (policies, base)"
    "rt_required st0 = or_none bearer" "rt_tokens st0 = policies" "rt_local_dev st0 = sa_local_dev args"
    "sa_local_dev args \<Longrightarrow> is_loopback_host (sa_host args)" using started_cases [OF assms(1)] by metis
  have a: "resolve_auth_context henv st0 headers = Some auth" "has_scope auth (work_scope w)"
    using service_requests_ok [OF assms(2)] assms(3) by (force simp: checked_def authorised_def)+
  show ?thesis
  proof (cases "rt_local_dev st0 \<and> \<not> is_set (rt_required st0) \<and> rt_tokens st0 = []")
    case True
    then show ?thesis using s by (auto simp: is_set_def or_none_def split: if_splits)
  next
    case False
    then obtain token where t: "parse_bearer_token headers = Some token"
      using a(1) by (auto simp: resolve_auth_context_def split: option.splits)
    show ?thesis
    proof (cases "map_of policies token")
      case None
      then have "rt_required st0 = Some token \<and> is_set (rt_required st0)"
        using a(1) False t s(4) by (auto simp: resolve_auth_context_def split: if_splits)
      then show ?thesis using s(1,3) t by (auto simp: or_none_def is_set_def split: if_splits)
    next
      case (Some policy)
      obtain profile scopes where g: "policy_grants policy profile scopes" "within_profile profile scopes"
        by (rule scoped_token_grants [OF s(2) Some])
      have "ac_scopes auth = policy_scopes henv policy"
        using a(1) False t s(4) Some by (auto simp: resolve_auth_context_def split: if_splits)
      then have "work_scope w \<in> set scopes \<or> ''*'' \<in> set scopes" using a(2) granted_scopes [OF g(1)] by (simp add: has_scope_def)
      then show ?thesis using t s(2) Some g by blast
    qed
  qed
qed

definition sample_args :: service_args where
  "sample_args = \<lparr>sa_host = ''0.0.0.0'', sa_port = 8080, sa_bearer_token = [], sa_bearer_token_file = ''token'', sa_local_dev = False,
     sa_scoped_auth_config = [], sa_policy_profile = DEFAULT_POLICY_PROFILE, sa_guardrails_config = [], sa_max_request_body_bytes = 8\<rparr>"

definition sample_service_env :: service_env where
  "sample_service_env = \<lparr>sv_settings = sample_settings_env ''40'', sv_read_text = (\<lambda>p. if p = ''token'' then Some '' t-ann '' else None)\<rparr>"

definition service_running :: "runtime_state \<times> request_pc list" where
  "service_running = (case start_service (\<lambda>_. ''0.5'') init_state_manager sample_service_env sample_args of
     Inr (st, _) \<Rightarrow> (case drive small_env [(0, Go), (0, Receive (Message (Bytes ''{m}'') False))]
       (st, [Arrived (small_scope ''POST'' ''/v1/eap/macro/execute'')]) of Some y \<Rightarrow> y))"

theorem service_authenticates_witness:
  "\<exists>headers auth tok c. Executing headers auth ExecuteMacro tok c \<in> set (snd service_running) \<and> parse_bearer_token headers = Some ''t-ann''"
proof -
  let ?start = "start_service (\<lambda>_. ''0.5'') init_state_manager sample_service_env sample_args"
  let ?xs = "[(0, Go), (0, Receive (Message (Bytes ''{m}'') False))]" and ?sc = "small_scope ''POST'' ''/v1/eap/macro/execute''"
  have c: "case ?start of Inr (st, _) \<Rightarrow> drive small_env ?xs (st, [Arrived ?sc]) \<noteq> None | Inl _ \<Rightarrow> False"
    "case snd service_running of [Executing headers auth ExecuteMacro tok c] \<Rightarrow> True | _ \<Rightarrow> False"
    "resolve_bearer_token sample_service_env sample_args = Inr ''t-ann''"
    "load_scoped_auth_config (\<lambda>_. ''0.5'') sample_service_env sample_args = Inr ([], DEFAULT_POLICY_PROFILE)"
    by code_simp+
  from c(1) obtain st limits where st: "?start = Inr (st, limits)" and d: "drive small_env ?xs (st, [Arrived ?sc]) = Some service_running"
    by (auto simp: service_running_def split: sum.splits)
  have run: "(service_step small_env)\<^sup>*\<^sup>* (st, []) (fst service_running, snd service_running)"
    using rtranclp_trans [OF arrived drive_runs [OF d]] by simp
  from c(2) obtain headers auth tok c where e: "Executing headers auth ExecuteMacro tok c \<in> set (snd service_running)"
    by (auto split: list.splits request_pc.splits work.splits)
  then show ?thesis using service_authenticates [OF st run e] c(3,4) by (auto simp: sample_args_def)
qed

end
