(* ===== verification/EAP_Redis_Store.thy ===== *)
theory EAP_Redis_Store
  imports EAP_Pointer_Store "HOL-Library.Multiset"
begin

text \<open>
  The Redis backend of the pointer vault, \<^verbatim>\<open>src/eap/protocol/storage/redis_store.py\<close>. The client is a
  third-party package: its seven commands are a record of functions on the state of the client, the argument of every
  operation, and what the documentation promises of them is the locale \<open>redis_client\<close>. The store over any such client is a
  \<open>pointer_backend\<close>; the client the repository's own contract tests use
  (\<^verbatim>\<open>FakeRedisClient\<close> of \<^verbatim>\<open>src/tests/unit/test_storage_backend.py\<close>) is one. A text that \<open>json.dumps\<close>,
  \<open>isoformat\<close> or \<open>str\<close> made of a value stands for that value.
\<close>

section \<open>Commands\<close>

datatype redis_text = Plain string | JsonText "(string, pyval) dict" | IsoText int | IntText int

record 'c redis_ops =
  rd_hset :: "string \<Rightarrow> (string, redis_text) dict \<Rightarrow> ('c, nat) command"
  rd_hget :: "string \<Rightarrow> string \<Rightarrow> ('c, redis_text option) command"
  rd_hgetall :: "string \<Rightarrow> ('c, (string, redis_text) dict) command"
  rd_sadd :: "string \<Rightarrow> string \<Rightarrow> ('c, nat) command"
  rd_smembers :: "string \<Rightarrow> ('c, string list) command"
  rd_srem :: "string \<Rightarrow> string \<Rightarrow> ('c, nat) command"
  rd_delete :: "string \<Rightarrow> ('c, nat) command"

section \<open>The store\<close>

definition pointer_ids_key :: "string \<Rightarrow> string" where
  "pointer_ids_key key_prefix = key_prefix @ '':ids''"

definition pointer_key :: "string \<Rightarrow> string \<Rightarrow> string" where
  "pointer_key key_prefix pointer_id = key_prefix @ '':'' @ pointer_id"

definition redis_record :: "pointer_row \<Rightarrow> (string, redis_text) dict" where
  "redis_record r = [(''pointer_id'', Plain (pw_id r)), (''raw_data'', Plain (pw_raw r)), (''summary'', Plain (pw_summary r)),
     (''metadata'', JsonText (pw_meta r)), (''created_at_utc'', IsoText (pw_created r)),
     (''ttl_seconds'', case pw_ttl r of None \<Rightarrow> Plain [] | Some n \<Rightarrow> IntText n),
     (''expires_at_utc'', case pw_expires r of None \<Rightarrow> Plain [] | Some t \<Rightarrow> IsoText t)]"

definition redis_store_pointer :: "'c redis_ops \<Rightarrow> string \<Rightarrow> pointer_row \<Rightarrow> ('c, unit) command" where
  "redis_store_pointer ops key_prefix r =
     bindC (rd_hset ops (pointer_key key_prefix (pw_id r)) (redis_record r)) (\<lambda>_.
     bindC (rd_sadd ops (pointer_ids_key key_prefix) (pw_id r)) (\<lambda>_. liftC (Inr ())))"

definition redis_retrieve_pointer :: "'c redis_ops \<Rightarrow> string \<Rightarrow> string \<Rightarrow> ('c, string) command" where
  "redis_retrieve_pointer ops key_prefix pointer_id =
     bindC (rd_hget ops (pointer_key key_prefix pointer_id) ''raw_data'') (\<lambda>raw_data. liftC (case raw_data of
         None \<Rightarrow> Inl (PointerMissing pointer_id)
       | Some (Plain t) \<Rightarrow> Inr t
       | Some _ \<Rightarrow> Inl BackendError))"

text \<open>The fields of a record. A text that does not stand for a value of the field is an error of the parser that reads it
  (\<open>int\<close>, \<open>json.loads\<close>, \<open>fromisoformat\<close>); no record the store writes has one.\<close>

fun plain_field :: "redis_text option \<Rightarrow> string \<Rightarrow> store_error + string" where
  "plain_field None dflt = Inr dflt"
| "plain_field (Some (Plain t)) dflt = Inr t"
| "plain_field (Some _) dflt = Inl BackendError"

fun iso_field :: "redis_text option \<Rightarrow> store_error + int option" where
  "iso_field None = Inr None"
| "iso_field (Some (Plain [])) = Inr None"
| "iso_field (Some (IsoText t)) = Inr (Some t)"
| "iso_field (Some _) = Inl BackendError"

fun int_field :: "redis_text option \<Rightarrow> store_error + int option" where
  "int_field None = Inr None"
| "int_field (Some (Plain [])) = Inr None"
| "int_field (Some (IntText n)) = Inr (Some n)"
| "int_field (Some _) = Inl BackendError"

fun json_field :: "redis_text option \<Rightarrow> store_error + (string, pyval) dict" where
  "json_field None = Inr []"
| "json_field (Some (Plain [])) = Inr []"
| "json_field (Some (JsonText m)) = Inr m"
| "json_field (Some _) = Inl BackendError"

definition redis_info :: "bool \<Rightarrow> int \<Rightarrow> string \<Rightarrow> (string, redis_text) dict \<Rightarrow> store_error + pointer_info option" where
  "redis_info include_expired now pointer_id rec =
     bindR (iso_field (map_of rec ''expires_at_utc'')) (\<lambda>expires_at_utc.
     if \<not> include_expired \<and> is_expired expires_at_utc now then Inr None
     else bindR (int_field (map_of rec ''ttl_seconds'')) (\<lambda>ttl_seconds.
       bindR (json_field (map_of rec ''metadata'')) (\<lambda>metadata.
       bindR (plain_field (map_of rec ''pointer_id'') pointer_id) (\<lambda>i.
       bindR (plain_field (map_of rec ''summary'') []) (\<lambda>summary.
       bindR (iso_field (map_of rec ''created_at_utc'')) (\<lambda>created. case created of None \<Rightarrow> Inl BackendError
         | Some created_at_utc \<Rightarrow> Inr (Some \<lparr>pi_id = i, pi_summary = summary, pi_meta = metadata, pi_created = created_at_utc,
             pi_ttl = ttl_seconds, pi_expires = expires_at_utc, pi_expired = is_expired expires_at_utc now\<rparr>)))))))"

fun redis_rows :: "'c redis_ops \<Rightarrow> string \<Rightarrow> bool \<Rightarrow> int \<Rightarrow> string list \<Rightarrow> ('c, pointer_info list) command" where
  "redis_rows ops key_prefix include_expired now [] = liftC (Inr [])"
| "redis_rows ops key_prefix include_expired now (i # is) =
     bindC (rd_hgetall ops (pointer_key key_prefix i)) (\<lambda>rec.
     bindC (liftC (if rec = [] then Inr None else redis_info include_expired now i rec)) (\<lambda>row.
     bindC (redis_rows ops key_prefix include_expired now is) (\<lambda>rows.
       liftC (Inr (case row of None \<Rightarrow> rows | Some r \<Rightarrow> r # rows)))))"

definition sort_reverse :: "('a \<Rightarrow> 'k::linorder) \<Rightarrow> 'a list \<Rightarrow> 'a list" where
  \<comment> \<open>\<open>rows.sort(key=..., reverse=True)\<close>: descending, equal keys in their old order\<close>
  "sort_reverse f xs = rev (sort_key f (rev xs))"

definition redis_list_pointers :: "'c redis_ops \<Rightarrow> string \<Rightarrow> bool \<Rightarrow> int \<Rightarrow> int option \<Rightarrow> ('c, pointer_info list) command" where
  "redis_list_pointers ops key_prefix include_expired now limit =
     (if bad_limit limit then liftC (Inl BadLimit)
      else bindC (rd_smembers ops (pointer_ids_key key_prefix)) (\<lambda>pointer_ids.
        bindC (redis_rows ops key_prefix include_expired now pointer_ids) (\<lambda>rows.
        liftC (Inr (take_limit limit (sort_reverse (\<lambda>row. (pi_created row, pi_id row)) rows))))))"

definition redis_delete_pointer :: "'c redis_ops \<Rightarrow> string \<Rightarrow> string \<Rightarrow> ('c, bool) command" where
  "redis_delete_pointer ops key_prefix pointer_id =
     bindC (rd_delete ops (pointer_key key_prefix pointer_id)) (\<lambda>removed_count.
     bindC (rd_srem ops (pointer_ids_key key_prefix) pointer_id) (\<lambda>_. liftC (Inr (removed_count \<noteq> 0))))"

section \<open>What the client promises\<close>

locale redis_client =
  fixes ops :: "'c redis_ops"
    and hash_at :: "'c \<Rightarrow> string \<Rightarrow> string \<rightharpoonup> redis_text"
    and set_at :: "'c \<Rightarrow> string \<Rightarrow> string set"
    and available :: "'c \<Rightarrow> bool"
  assumes hset: "available c \<Longrightarrow> set_at c k = {} \<Longrightarrow> m \<noteq> [] \<Longrightarrow> distinct (map fst m) \<Longrightarrow>
      \<exists>n c'. rd_hset ops k m c = (Inr n, c') \<and> available c' \<and> hash_at c' = (hash_at c)(k := hash_at c k ++ map_of m) \<and> set_at c' = set_at c"
    and hget: "available c \<Longrightarrow> set_at c k = {} \<Longrightarrow> rd_hget ops k f c = (Inr (hash_at c k f), c)"
    and hgetall: "available c \<Longrightarrow> set_at c k = {} \<Longrightarrow> \<exists>d. rd_hgetall ops k c = (Inr d, c) \<and> map_of d = hash_at c k"
    and sadd: "available c \<Longrightarrow> hash_at c k = Map.empty \<Longrightarrow>
      \<exists>n c'. rd_sadd ops k x c = (Inr n, c') \<and> available c' \<and> hash_at c' = hash_at c \<and> set_at c' = (set_at c)(k := insert x (set_at c k))"
    and smembers: "available c \<Longrightarrow> hash_at c k = Map.empty \<Longrightarrow>
      \<exists>xs. rd_smembers ops k c = (Inr xs, c) \<and> distinct xs \<and> set xs = set_at c k"
    and srem: "available c \<Longrightarrow> hash_at c k = Map.empty \<Longrightarrow>
      \<exists>n c'. rd_srem ops k x c = (Inr n, c') \<and> available c' \<and> hash_at c' = hash_at c \<and> set_at c' = (set_at c)(k := set_at c k - {x})"
    and delete_hash: "available c \<Longrightarrow> set_at c k = {} \<Longrightarrow>
      \<exists>c'. rd_delete ops k c = (Inr (if hash_at c k = Map.empty then 0 else 1), c') \<and> available c'
        \<and> hash_at c' = (hash_at c)(k := Map.empty) \<and> set_at c' = set_at c"

section \<open>The vault a client holds\<close>

definition hash_row :: "string \<Rightarrow> (string \<rightharpoonup> redis_text) \<Rightarrow> pointer_row" where
  "hash_row i h = \<lparr>pw_id = i, pw_raw = (case h ''raw_data'' of Some (Plain t) \<Rightarrow> t | _ \<Rightarrow> []),
     pw_summary = (case h ''summary'' of Some (Plain t) \<Rightarrow> t | _ \<Rightarrow> []), pw_meta = (case h ''metadata'' of Some (JsonText m) \<Rightarrow> m | _ \<Rightarrow> []),
     pw_created = (case h ''created_at_utc'' of Some (IsoText t) \<Rightarrow> t | _ \<Rightarrow> 0),
     pw_ttl = (case h ''ttl_seconds'' of Some (IntText n) \<Rightarrow> Some n | _ \<Rightarrow> None),
     pw_expires = (case h ''expires_at_utc'' of Some (IsoText t) \<Rightarrow> Some t | _ \<Rightarrow> None)\<rparr>"

definition redis_vault :: "('c \<Rightarrow> string \<Rightarrow> string \<rightharpoonup> redis_text) \<Rightarrow> string \<Rightarrow> 'c \<Rightarrow> string \<rightharpoonup> pointer_row" where
  "redis_vault hash_at key_prefix c i =
     (if i = ''ids'' \<or> hash_at c (pointer_key key_prefix i) = Map.empty then None else Some (hash_row i (hash_at c (pointer_key key_prefix i))))"

definition redis_usable :: "('c \<Rightarrow> string \<Rightarrow> string \<rightharpoonup> redis_text) \<Rightarrow> ('c \<Rightarrow> string \<Rightarrow> string set) \<Rightarrow> ('c \<Rightarrow> bool) \<Rightarrow> string \<Rightarrow> 'c \<Rightarrow> bool" where
  \<comment> \<open>the set of ids and the hashes agree, and every hash is a record that was stored\<close>
  "redis_usable hash_at set_at available key_prefix c \<longleftrightarrow> available c \<and> hash_at c (pointer_ids_key key_prefix) = Map.empty
     \<and> (\<forall>i. i \<noteq> ''ids'' \<longrightarrow> set_at c (pointer_key key_prefix i) = {})
     \<and> (\<forall>i. i \<in> set_at c (pointer_ids_key key_prefix) \<longleftrightarrow> redis_vault hash_at key_prefix c i \<noteq> None)
     \<and> (\<forall>i r. redis_vault hash_at key_prefix c i = Some r \<longrightarrow> hash_at c (pointer_key key_prefix i) = map_of (redis_record r))"

lemma pointer_key_simps [simp]:
  "pointer_key p i = pointer_key p j \<longleftrightarrow> i = j" "pointer_ids_key p = pointer_key p i \<longleftrightarrow> i = ''ids''"
  "pointer_key p i = pointer_ids_key p \<longleftrightarrow> i = ''ids''"
  by (auto simp: pointer_key_def pointer_ids_key_def)

lemma redis_record_nonempty [simp]: "redis_record r \<noteq> []" "map_of (redis_record r) \<noteq> Map.empty" "distinct (map fst (redis_record r))"
  by (auto simp: redis_record_def fun_eq_iff)

lemma overwrite_record: "map_of (redis_record r') ++ map_of (redis_record r) = map_of (redis_record r)"
  by (auto simp: redis_record_def map_add_def fun_eq_iff)

lemma hash_row_record [simp]: "hash_row (pw_id r) (map_of (redis_record r)) = r"
  by (cases r) (auto simp: hash_row_def redis_record_def split: option.splits)

lemma redis_info_record:
  assumes "map_of d = map_of (redis_record r)" and "pw_id r = i"
  shows "redis_info include_expired now i d =
    Inr (if include_expired \<or> \<not> is_expired (pw_expires r) now then Some (row_info now r) else None)"
  using assms by (auto simp: redis_info_def redis_record_def row_info_def split: option.splits)

lemma sort_reverse_filter: "sort_reverse f (filter P xs) = filter P (sort_reverse f xs)"
  by (simp add: sort_reverse_def filter_sort flip: rev_filter)

lemma sort_reverse_map: "(\<And>x. g (h x) = f x) \<Longrightarrow> sort_reverse g (map h xs) = map h (sort_reverse f xs)"
proof -
  assume e: "\<And>x. g (h x) = f x"
  have "sort_key g (map h ys) = map h (sort_key f ys)" for ys
  proof (induction ys)
    case (Cons y ys)
    have "insort_key g (h y) (map h zs) = map h (insort_key f y zs)" for zs by (induction zs) (auto simp: e)
    with Cons show ?case by simp
  qed simp
  then show ?thesis by (simp add: sort_reverse_def rev_map)
qed

lemma mset_map_sort_reverse: "mset (map g (sort_reverse f xs)) = mset (map g xs)"
  by (simp add: sort_reverse_def)

lemma listing_of_sorted:
  assumes "distinct ids" and "set ids = dom v" and "\<And>i r. v i = Some r \<Longrightarrow> pw_id r = i"
  shows "listing_of v (sort_reverse (\<lambda>r. (pw_created r, pw_id r)) (map (the \<circ> v) ids))"
proof -
  let ?rows = "map (the \<circ> v) ids"
  have id: "map pw_id ?rows = ids" using assms(2,3) by (intro nth_equalityI) (auto dest!: nth_mem)
  have "distinct (map pw_id (sort_reverse f ?rows))" for f :: "pointer_row \<Rightarrow> int \<times> string"
  proof -
    have "mset (map pw_id (sort_reverse f ?rows)) = mset (map pw_id ?rows)" by (rule mset_map_sort_reverse)
    then show ?thesis using assms(1) unfolding id by (rule mset_eq_imp_distinct_iff [THEN iffD2])
  qed
  moreover have "r \<in> set ?rows \<longleftrightarrow> v (pw_id r) = Some r" for r
  proof
    assume "r \<in> set ?rows"
    then obtain i where "i \<in> dom v" "r = the (v i)" using assms(2) by auto
    then show "v (pw_id r) = Some r" using assms(3) by auto
  next
    assume "v (pw_id r) = Some r"
    then have "pw_id r \<in> set ids" "r = (the \<circ> v) (pw_id r)" using assms(2) by auto
    then show "r \<in> set ?rows" by (metis image_eqI set_map)
  qed
  moreover have "sorted_wrt (\<lambda>a b. (pw_created b, pw_id b) \<le> (pw_created a, pw_id a)) (sort_reverse (\<lambda>r. (pw_created r, pw_id r)) ?rows)"
    using newest_first_sorted [of "\<lambda>i. i" "rev ?rows"] by (simp add: newest_first_def sort_reverse_def)
  ultimately show ?thesis by (simp add: listing_by_def sort_reverse_def)
qed

section \<open>A store over such a client is a backend\<close>

locale redis_backend = redis_client ops hash_at set_at available
  for ops :: "'c redis_ops" and hash_at and set_at and available +
  fixes key_prefix :: string
begin

abbreviation usable where "usable \<equiv> redis_usable hash_at set_at available key_prefix"
abbreviation vault where "vault \<equiv> redis_vault hash_at key_prefix"

lemma usable_facts:
  assumes "usable c"
  shows "available c" "hash_at c (pointer_ids_key key_prefix) = Map.empty" "i \<noteq> ''ids'' \<Longrightarrow> set_at c (pointer_key key_prefix i) = {}"
    "i \<in> set_at c (pointer_ids_key key_prefix) \<longleftrightarrow> vault c i \<noteq> None"
    "vault c i = Some r \<Longrightarrow> hash_at c (pointer_key key_prefix i) = map_of (redis_record r)"
  using assms by (auto simp: redis_usable_def)

lemma vault_row_id: "vault c i = Some r \<Longrightarrow> pw_id r = i \<and> i \<noteq> ''ids''"
  by (auto simp: redis_vault_def hash_row_def split: if_splits)

lemma store_spec:
  \<comment> \<open>also when the id is in use: the new record overwrites the old one\<close>
  assumes u: "usable c" and "pw_id r \<noteq> ''ids''"
  shows "\<exists>c'. redis_store_pointer ops key_prefix r c = (Inr (), c') \<and> usable c' \<and> vault c' = (vault c)(pw_id r \<mapsto> r)"
proof -
  note f = usable_facts [OF u]
  let ?k = "pointer_key key_prefix (pw_id r)" and ?ids = "pointer_ids_key key_prefix"
  have "hash_at c ?k = Map.empty \<or> (\<exists>r'. hash_at c ?k = map_of (redis_record r'))"
    using f(5) [of "pw_id r"] assms(2) by (auto simp: redis_vault_def split: if_splits)
  then have "hash_at c ?k ++ map_of (redis_record r) = map_of (redis_record r)" using overwrite_record by auto
  then obtain m c1 where c1: "rd_hset ops ?k (redis_record r) c = (Inr m, c1)" "available c1"
      "hash_at c1 = (hash_at c)(?k := map_of (redis_record r))" "set_at c1 = set_at c"
    using hset [OF f(1) f(3) [OF assms(2)] redis_record_nonempty(1,3)] by metis
  have "hash_at c1 ?ids = Map.empty" using c1(3) f(2) assms(2) by simp
  from sadd [OF c1(2) this, of "pw_id r"] obtain m2 c2 where c2: "rd_sadd ops ?ids (pw_id r) c1 = (Inr m2, c2)" "available c2"
      "hash_at c2 = hash_at c1" "set_at c2 = (set_at c1)(?ids := insert (pw_id r) (set_at c1 ?ids))" by blast
  have v: "vault c2 = (vault c)(pw_id r \<mapsto> r)"
    using c1(3) c2(3) assms(2) by (intro ext) (simp add: redis_vault_def)
  have "usable c2"
    unfolding redis_usable_def v
    using c1(3,4) c2 f assms(2) by (intro conjI allI) (auto split: if_splits)
  moreover have "redis_store_pointer ops key_prefix r c = (Inr (), c2)" using c1(1) c2(1) by (simp add: redis_store_pointer_def)
  ultimately show ?thesis using v by blast
qed

lemma retrieve_ok:
  assumes "usable c" and "i \<noteq> ''ids''"
  shows "redis_retrieve_pointer ops key_prefix i c = (case vault c i of None \<Rightarrow> Inl (PointerMissing i) | Some r \<Rightarrow> Inr (pw_raw r), c)"
proof (cases "vault c i")
  case None
  then have "hash_at c (pointer_key key_prefix i) = Map.empty" using assms(2) by (auto simp: redis_vault_def split: if_splits)
  then show ?thesis using None hget usable_facts(1,3) [OF assms(1)] assms(2) by (simp add: redis_retrieve_pointer_def)
next
  case (Some r)
  then show ?thesis using hget usable_facts(1,3) [OF assms(1)] usable_facts(5) [OF assms(1) Some] assms(2)
    by (simp add: redis_retrieve_pointer_def redis_record_def)
qed

lemma delete_ok:
  assumes u: "usable c" and "i \<noteq> ''ids''"
  shows "\<exists>c'. redis_delete_pointer ops key_prefix i c = (Inr (vault c i \<noteq> None), c') \<and> usable c' \<and> vault c' = (vault c)(i := None)"
proof -
  note f = usable_facts [OF u]
  let ?k = "pointer_key key_prefix i" and ?ids = "pointer_ids_key key_prefix"
  obtain c1 where c1: "rd_delete ops ?k c = (Inr (if hash_at c ?k = Map.empty then 0 else 1), c1)" "available c1"
      "hash_at c1 = (hash_at c)(?k := Map.empty)" "set_at c1 = set_at c"
    using delete_hash [OF f(1) f(3) [OF assms(2)]] by blast
  have "hash_at c1 ?ids = Map.empty" using c1(3) f(2) assms(2) by simp
  from srem [OF c1(2) this, of i] obtain m2 c2 where c2: "rd_srem ops ?ids i c1 = (Inr m2, c2)" "available c2"
      "hash_at c2 = hash_at c1" "set_at c2 = (set_at c1)(?ids := set_at c1 ?ids - {i})" by blast
  have v: "vault c2 = (vault c)(i := None)"
    using c1(3) c2(3) assms(2) by (intro ext) (simp add: redis_vault_def)
  have "usable c2"
    unfolding redis_usable_def v
    using c1(3,4) c2 f assms(2) by (intro conjI allI) (auto split: if_splits)
  moreover have "redis_delete_pointer ops key_prefix i c = (Inr (vault c i \<noteq> None), c2)"
    using c1(1) c2(1) assms(2) by (auto simp: redis_delete_pointer_def redis_vault_def)
  ultimately show ?thesis using v by blast
qed

lemma rows_ok:
  assumes "usable c" and "set is \<subseteq> dom (vault c)"
  shows "redis_rows ops key_prefix include_expired now is c =
    (Inr (map (row_info now) (filter (\<lambda>r. include_expired \<or> \<not> is_expired (pw_expires r) now) (map (the \<circ> vault c) is))), c)"
  using assms(2)
proof (induction "is")
  case (Cons i "is")
  then obtain r where r: "vault c i = Some r" by auto
  obtain d where d: "rd_hgetall ops (pointer_key key_prefix i) c = (Inr d, c)" "map_of d = hash_at c (pointer_key key_prefix i)"
    using hgetall usable_facts(1,3) [OF assms(1)] vault_row_id [OF r] by blast
  have m: "map_of d = map_of (redis_record r)" using d(2) usable_facts(5) [OF assms(1) r] by simp
  then have "d \<noteq> []" using redis_record_nonempty(2) by (metis map_of.simps(1))
  then show ?case using Cons d(1) r redis_info_record [OF m] vault_row_id [OF r] by simp
qed simp

lemma listing_ok:
  assumes u: "usable c" and "\<not> bad_limit limit"
  shows "\<exists>rows. listing_of (vault c) rows \<and> (\<forall>include_expired now. redis_list_pointers ops key_prefix include_expired now limit c =
    (Inr (take_limit limit (map (row_info now) (filter (\<lambda>r. include_expired \<or> \<not> is_expired (pw_expires r) now) rows))), c))"
proof -
  obtain xs where xs: "rd_smembers ops (pointer_ids_key key_prefix) c = (Inr xs, c)" "distinct xs" "set xs = set_at c (pointer_ids_key key_prefix)"
    using smembers usable_facts(1,2) [OF u] by blast
  have dom: "set xs = dom (vault c)" using xs(3) usable_facts(4) [OF u] by auto
  let ?all = "map (the \<circ> vault c) xs" and ?key = "\<lambda>r. (pw_created r, pw_id r)"
  have l: "listing_of (vault c) (sort_reverse ?key ?all)"
    using listing_of_sorted [of xs "vault c"] xs(2) dom vault_row_id by blast
  have "sort_reverse (\<lambda>row. (pi_created row, pi_id row)) (map (row_info now) (filter P ?all)) = map (row_info now) (filter P (sort_reverse ?key ?all))"
    for P now using sort_reverse_map [where h = "row_info now" and g = "\<lambda>row. (pi_created row, pi_id row)" and f = ?key] by (simp add: sort_reverse_filter)
  then show ?thesis
    using xs(1) rows_ok [OF u] dom assms(2) l by (intro exI [of _ "sort_reverse ?key ?all"]) (simp add: redis_list_pointers_def)
qed

end

sublocale redis_backend \<subseteq> pointer_backend "\<lambda>c r. end_state (redis_store_pointer ops key_prefix r c)"
  "\<lambda>c i. fst (redis_retrieve_pointer ops key_prefix i c)" "\<lambda>c include_expired now limit. fst (redis_list_pointers ops key_prefix include_expired now limit c)"
  "\<lambda>c i. outcome_bool (redis_delete_pointer ops key_prefix i c)" "redis_vault hash_at key_prefix"
  "redis_usable hash_at set_at available key_prefix" "\<lambda>r. pw_id r \<noteq> ''ids''" "\<lambda>i. i \<noteq> ''ids''" "\<lambda>i. i"
proof unfold_locales
  fix c and r :: pointer_row assume "redis_usable hash_at set_at available key_prefix c" "pw_id r \<noteq> ''ids''" "redis_vault hash_at key_prefix c (pw_id r) = None"
  from store_spec [OF this(1,2)] show "\<exists>c'. end_state (redis_store_pointer ops key_prefix r c) = Inr c' \<and> redis_usable hash_at set_at available key_prefix c'
      \<and> redis_vault hash_at key_prefix c' = (redis_vault hash_at key_prefix c)(pw_id r \<mapsto> r)" by auto
next
  fix c assume "redis_usable hash_at set_at available key_prefix c"
  from listing_ok [OF this, of None] show "\<exists>rows. listing_of (redis_vault hash_at key_prefix c) rows
      \<and> (\<forall>now. fst (redis_list_pointers ops key_prefix True now None c) = Inr (map (row_info now) rows))"
    by (auto simp: bad_limit_def take_limit_def)
next
  fix c i assume "redis_usable hash_at set_at available key_prefix c" "i \<noteq> ''ids''"
  from delete_ok [OF this] show "\<exists>c'. outcome_bool (redis_delete_pointer ops key_prefix i c) = Inr (redis_vault hash_at key_prefix c i \<noteq> None, c')
      \<and> redis_usable hash_at set_at available key_prefix c' \<and> redis_vault hash_at key_prefix c' = (redis_vault hash_at key_prefix c)(i := None)" by auto
qed (simp_all add: retrieve_ok vault_row_id)

section \<open>The client of the contract tests\<close>

record fake_redis =
  fr_hashes :: "(string, (string, redis_text) dict) dict"
  fr_sets :: "(string, string list) dict"

definition fake_init :: fake_redis where
  "fake_init = \<lparr>fr_hashes = [], fr_sets = []\<rparr>"

definition put_fields :: "(string, redis_text) dict \<Rightarrow> (string, redis_text) dict \<Rightarrow> (string, redis_text) dict" where
  "put_fields m bucket = fold (\<lambda>(k, v) d. dict_set k v d) m bucket"

definition fake_hset :: "string \<Rightarrow> (string, redis_text) dict \<Rightarrow> (fake_redis, nat) command" where
  "fake_hset key m c = (let bucket = dict_get_or (fr_hashes c) key []; bucket' = put_fields m bucket
     in (Inr (length bucket' - length bucket), c\<lparr>fr_hashes := dict_set key bucket' (fr_hashes c)\<rparr>))"

definition fake_hget :: "string \<Rightarrow> string \<Rightarrow> (fake_redis, redis_text option) command" where
  "fake_hget key field c = (Inr (map_of (dict_get_or (fr_hashes c) key []) field), c)"

definition fake_hgetall :: "string \<Rightarrow> (fake_redis, (string, redis_text) dict) command" where
  "fake_hgetall key c = (Inr (dict_get_or (fr_hashes c) key []), c)"

definition fake_sadd :: "string \<Rightarrow> string \<Rightarrow> (fake_redis, nat) command" where
  "fake_sadd key member c = (let member_set = dict_get_or (fr_sets c) key []; member_set' = List.insert member member_set
     in (Inr (length member_set' - length member_set), c\<lparr>fr_sets := dict_set key member_set' (fr_sets c)\<rparr>))"

definition fake_smembers :: "string \<Rightarrow> (fake_redis, string list) command" where
  "fake_smembers key c = (Inr (dict_get_or (fr_sets c) key []), c)"

definition fake_srem :: "string \<Rightarrow> string \<Rightarrow> (fake_redis, nat) command" where
  "fake_srem key member c = (case map_of (fr_sets c) key of
     None \<Rightarrow> (Inr 0, c)
   | Some member_set \<Rightarrow> if member \<in> set member_set then (Inr 1, c\<lparr>fr_sets := dict_set key (remove1 member member_set) (fr_sets c)\<rparr>) else (Inr 0, c))"

definition fake_delete :: "string \<Rightarrow> (fake_redis, nat) command" where
  "fake_delete key c = (if map_of (fr_hashes c) key \<noteq> None then (Inr 1, c\<lparr>fr_hashes := AList.delete key (fr_hashes c)\<rparr>) else (Inr 0, c))"

definition fake_ops :: "fake_redis redis_ops" where
  "fake_ops = \<lparr>rd_hset = fake_hset, rd_hget = fake_hget, rd_hgetall = fake_hgetall, rd_sadd = fake_sadd, rd_smembers = fake_smembers,
     rd_srem = fake_srem, rd_delete = fake_delete\<rparr>"

definition fake_hash_at :: "fake_redis \<Rightarrow> string \<Rightarrow> string \<rightharpoonup> redis_text" where
  "fake_hash_at c k = map_of (dict_get_or (fr_hashes c) k [])"

definition fake_set_at :: "fake_redis \<Rightarrow> string \<Rightarrow> string set" where
  "fake_set_at c k = set (dict_get_or (fr_sets c) k [])"

definition fake_ok :: "fake_redis \<Rightarrow> bool" where
  \<comment> \<open>no empty hash, no repetition in a set\<close>
  "fake_ok c \<longleftrightarrow> (\<forall>k b. map_of (fr_hashes c) k = Some b \<longrightarrow> b \<noteq> []) \<and> (\<forall>k. distinct (dict_get_or (fr_sets c) k []))"

lemma map_of_put_fields: "distinct (map fst m) \<Longrightarrow> map_of (put_fields m d) = map_of d ++ map_of m"
proof (induction m arbitrary: d)
  case (Cons x m)
  obtain k v where x: "x = (k, v)" by (cases x)
  then have "k \<notin> dom (map_of m)" using Cons.prems by (auto simp: dom_map_of_conv_image_fst)
  then show ?case using Cons x map_add_upd_left [of k "map_of m" "map_of d" v] map_add_upd [of "map_of d" "map_of m" k v]
    by (simp add: put_fields_def fun_upd_def)
qed (simp add: put_fields_def)

lemma put_fields_Nil: "put_fields m d = [] \<longleftrightarrow> m = [] \<and> d = []"
proof (induction m arbitrary: d)
  case (Cons x m)
  have "dict_set k v d \<noteq> []" for k v by (cases d) auto
  with Cons show ?case by (cases x) (simp add: put_fields_def)
qed (simp add: put_fields_def)

interpretation fake: redis_client fake_ops fake_hash_at fake_set_at fake_ok
proof unfold_locales
  fix c k and m :: "(string, redis_text) dict" assume ok: "fake_ok c" and m: "m \<noteq> []" "distinct (map fst m)"
  let ?c = "snd (fake_hset k m c)"
  have "fake_ok ?c" using ok m by (auto simp: fake_ok_def fake_hset_def Let_def put_fields_Nil)
  moreover have "fake_hash_at ?c = (fake_hash_at c)(k := fake_hash_at c k ++ map_of m)"
    using map_of_put_fields [OF m(2)] by (intro ext) (simp add: fake_hash_at_def fake_hset_def Let_def)
  moreover have "fake_set_at ?c = fake_set_at c" by (intro ext) (simp add: fake_set_at_def fake_hset_def Let_def)
  ultimately show "\<exists>n c'. rd_hset fake_ops k m c = (Inr n, c') \<and> fake_ok c' \<and> fake_hash_at c' = (fake_hash_at c)(k := fake_hash_at c k ++ map_of m)
      \<and> fake_set_at c' = fake_set_at c"
    by (intro exI [of _ "projr (fst (fake_hset k m c))"] exI [of _ ?c]) (simp add: fake_ops_def fake_hset_def Let_def)
next
  fix c k x assume ok: "fake_ok c"
  let ?c = "snd (fake_sadd k x c)"
  have "fake_ok ?c" using ok by (simp add: fake_ok_def fake_sadd_def Let_def)
  moreover have "fake_hash_at ?c = fake_hash_at c" by (intro ext) (simp add: fake_hash_at_def fake_sadd_def Let_def)
  moreover have "fake_set_at ?c = (fake_set_at c)(k := insert x (fake_set_at c k))"
    by (intro ext) (simp add: fake_set_at_def fake_sadd_def Let_def)
  ultimately show "\<exists>n c'. rd_sadd fake_ops k x c = (Inr n, c') \<and> fake_ok c' \<and> fake_hash_at c' = fake_hash_at c
      \<and> fake_set_at c' = (fake_set_at c)(k := insert x (fake_set_at c k))"
    by (intro exI [of _ "projr (fst (fake_sadd k x c))"] exI [of _ ?c]) (simp add: fake_ops_def fake_sadd_def Let_def)
next
  fix c k x assume ok: "fake_ok c"
  let ?c = "snd (fake_srem k x c)"
  have d: "distinct xs" if "map_of (fr_sets c) k = Some xs" for xs
  proof -
    have "distinct (dict_get_or (fr_sets c) k [])" using ok by (simp add: fake_ok_def)
    then show ?thesis by (simp add: dict_get_or_def that)
  qed
  have "fake_ok ?c"
  proof (cases "map_of (fr_sets c) k")
    case (Some xs)
    then show ?thesis using ok d [OF Some] by (simp add: fake_ok_def fake_srem_def)
  qed (simp add: fake_srem_def ok)
  moreover have "fake_hash_at ?c = fake_hash_at c" by (intro ext) (simp add: fake_hash_at_def fake_srem_def split: option.split)
  moreover have "fake_set_at ?c = (fake_set_at c)(k := fake_set_at c k - {x})"
  proof (cases "map_of (fr_sets c) k")
    case (Some xs)
    then show ?thesis using d [OF Some] by (intro ext) (auto simp: fake_set_at_def fake_srem_def dict_get_or_def)
  qed (simp add: fake_set_at_def fake_srem_def dict_get_or_def fun_eq_iff)
  ultimately show "\<exists>n c'. rd_srem fake_ops k x c = (Inr n, c') \<and> fake_ok c' \<and> fake_hash_at c' = fake_hash_at c
      \<and> fake_set_at c' = (fake_set_at c)(k := fake_set_at c k - {x})"
    by (intro exI [of _ "projr (fst (fake_srem k x c))"] exI [of _ ?c]) (simp add: fake_ops_def fake_srem_def split: option.split)
next
  fix c k assume ok: "fake_ok c"
  let ?c = "snd (fake_delete k c)"
  have "fake_ok ?c" using ok by (simp add: fake_ok_def fake_delete_def delete_conv)
  moreover have "fake_hash_at ?c = (fake_hash_at c)(k := Map.empty)"
    by (intro ext) (auto simp: fake_hash_at_def fake_delete_def delete_conv dict_get_or_def)
  moreover have "fake_set_at ?c = fake_set_at c" by (intro ext) (simp add: fake_set_at_def fake_delete_def)
  moreover have "fake_hash_at c k = Map.empty \<longleftrightarrow> map_of (fr_hashes c) k = None"
    using ok by (auto simp: fake_hash_at_def fake_ok_def dict_get_or_def map_of_eq_empty_iff split: option.splits)
  ultimately show "\<exists>c'. rd_delete fake_ops k c = (Inr (if fake_hash_at c k = Map.empty then 0 else 1), c') \<and> fake_ok c'
      \<and> fake_hash_at c' = (fake_hash_at c)(k := Map.empty) \<and> fake_set_at c' = fake_set_at c"
    by (intro exI [of _ ?c]) (simp add: fake_ops_def fake_delete_def)
next
  fix c k assume "fake_ok c"
  then show "\<exists>xs. rd_smembers fake_ops k c = (Inr xs, c) \<and> distinct xs \<and> set xs = fake_set_at c k"
    by (simp add: fake_ops_def fake_smembers_def fake_ok_def fake_set_at_def)
qed (simp_all add: fake_ops_def fake_hget_def fake_hgetall_def fake_hash_at_def)

interpretation fake_store: redis_backend fake_ops fake_hash_at fake_set_at fake_ok key_prefix for key_prefix
  by unfold_locales

section \<open>A server with one key space\<close>

text \<open>On a real server hashes and sets share one key space: a command on a key of the other type is refused, and \<open>DEL\<close> removes
  a key of any type. The test client has neither behaviour, since it keeps hashes and sets apart.\<close>

locale redis_server = redis_backend ops hash_at set_at available key_prefix
  for ops :: "'c redis_ops" and hash_at and set_at and available and key_prefix +
  assumes hset_wrong_type: "available c \<Longrightarrow> set_at c k \<noteq> {} \<Longrightarrow> rd_hset ops k m c = (Inl BackendError, c)"
    and hget_wrong_type: "available c \<Longrightarrow> set_at c k \<noteq> {} \<Longrightarrow> rd_hget ops k f c = (Inl BackendError, c)"
    and delete_set: "available c \<Longrightarrow> set_at c k \<noteq> {} \<Longrightarrow>
      \<exists>c'. rd_delete ops k c = (Inr 1, c') \<and> available c' \<and> hash_at c' = hash_at c \<and> set_at c' = (set_at c)(k := {})"
begin

lemma delete_ids_ok:
  assumes u: "usable c" and "vault c \<noteq> Map.empty"
  shows "\<exists>c'. redis_delete_pointer ops key_prefix ''ids'' c = (Inr True, c')
    \<and> (\<forall>include_expired now. redis_list_pointers ops key_prefix include_expired now None c' = (Inr [], c'))
    \<and> (\<forall>i r. vault c i = Some r \<longrightarrow> redis_retrieve_pointer ops key_prefix i c' = (Inr (pw_raw r), c'))"
proof -
  note f = usable_facts [OF u]
  let ?ids = "pointer_ids_key key_prefix"
  have k: "pointer_key key_prefix ''ids'' = ?ids" by simp
  obtain i where "vault c i \<noteq> None" using assms(2) by (meson ext)
  then have "set_at c ?ids \<noteq> {}" using f(4) by blast
  then obtain c1 where c1: "rd_delete ops ?ids c = (Inr 1, c1)" "available c1" "hash_at c1 = hash_at c" "set_at c1 = (set_at c)(?ids := {})"
    using delete_set [OF f(1)] by blast
  have "hash_at c1 ?ids = Map.empty" using c1(3) f(2) by simp
  from srem [OF c1(2) this, of "''ids''"] obtain n c2 where c2: "rd_srem ops ?ids ''ids'' c1 = (Inr n, c2)" "available c2" "hash_at c2 = hash_at c"
      "set_at c2 = (set_at c)(?ids := {})" using c1(3,4) by auto
  have "redis_delete_pointer ops key_prefix ''ids'' c = (Inr True, c2)" using c1(1) c2(1) by (simp add: redis_delete_pointer_def k)
  moreover have "redis_list_pointers ops key_prefix e now None c2 = (Inr [], c2)" for e now
  proof -
    obtain xs where "rd_smembers ops ?ids c2 = (Inr xs, c2)" "set xs = {}"
      using smembers [OF c2(2), of ?ids] c2(3,4) f(2) by auto
    then show ?thesis by (simp add: redis_list_pointers_def bad_limit_def take_limit_def sort_reverse_def)
  qed
  moreover have "redis_retrieve_pointer ops key_prefix j c2 = (Inr (pw_raw r), c2)" if "vault c j = Some r" for j r
  proof -
    have "set_at c2 (pointer_key key_prefix j) = {}" using c2(4) f(3) vault_row_id [OF that] by simp
    then show ?thesis using hget [OF c2(2)] f(5) [OF that] c2(3) by (simp add: redis_retrieve_pointer_def redis_record_def)
  qed
  ultimately show ?thesis by blast
qed

end

datatype redis_value = HashValue "(string, redis_text) dict" | SetValue "string list"

definition kv_ops :: "(string, redis_value) dict redis_ops" where
  "kv_ops = \<lparr>
     rd_hset = (\<lambda>k m c. case map_of c k of None \<Rightarrow> (Inr (length m), dict_set k (HashValue m) c)
       | Some (HashValue d) \<Rightarrow> (Inr (length (put_fields m d) - length d), dict_set k (HashValue (put_fields m d)) c)
       | Some (SetValue _) \<Rightarrow> (Inl BackendError, c)),
     rd_hget = (\<lambda>k f c. case map_of c k of None \<Rightarrow> (Inr None, c) | Some (HashValue d) \<Rightarrow> (Inr (map_of d f), c)
       | Some (SetValue _) \<Rightarrow> (Inl BackendError, c)),
     rd_hgetall = (\<lambda>k c. case map_of c k of None \<Rightarrow> (Inr [], c) | Some (HashValue d) \<Rightarrow> (Inr d, c) | Some (SetValue _) \<Rightarrow> (Inl BackendError, c)),
     rd_sadd = (\<lambda>k x c. case map_of c k of None \<Rightarrow> (Inr 1, dict_set k (SetValue [x]) c)
       | Some (SetValue xs) \<Rightarrow> (Inr (if x \<in> set xs then 0 else 1), dict_set k (SetValue (List.insert x xs)) c)
       | Some (HashValue _) \<Rightarrow> (Inl BackendError, c)),
     rd_smembers = (\<lambda>k c. case map_of c k of None \<Rightarrow> (Inr [], c) | Some (SetValue xs) \<Rightarrow> (Inr xs, c) | Some (HashValue _) \<Rightarrow> (Inl BackendError, c)),
     rd_srem = (\<lambda>k x c. case map_of c k of None \<Rightarrow> (Inr 0, c)
       | Some (SetValue xs) \<Rightarrow> (Inr (if x \<in> set xs then 1 else 0),
           if remove1 x xs = [] then AList.delete k c else dict_set k (SetValue (remove1 x xs)) c)
       | Some (HashValue _) \<Rightarrow> (Inl BackendError, c)),
     rd_delete = (\<lambda>k c. (Inr (if map_of c k = None then 0 else 1), AList.delete k c))\<rparr>"

definition kv_hash_at :: "(string, redis_value) dict \<Rightarrow> string \<Rightarrow> string \<rightharpoonup> redis_text" where
  "kv_hash_at c k = (case map_of c k of Some (HashValue d) \<Rightarrow> map_of d | _ \<Rightarrow> Map.empty)"

definition kv_set_at :: "(string, redis_value) dict \<Rightarrow> string \<Rightarrow> string set" where
  "kv_set_at c k = (case map_of c k of Some (SetValue xs) \<Rightarrow> set xs | _ \<Rightarrow> {})"

fun value_ok :: "redis_value \<Rightarrow> bool" where
  "value_ok (HashValue d) = (d \<noteq> [])"
| "value_ok (SetValue xs) = (xs \<noteq> [] \<and> distinct xs)"

definition kv_ok :: "(string, redis_value) dict \<Rightarrow> bool" where
  "kv_ok c \<longleftrightarrow> (\<forall>k v. map_of c k = Some v \<longrightarrow> value_ok v)"

lemma kv_type:
  assumes "kv_ok c"
  shows "kv_set_at c k = {} \<longleftrightarrow> map_of c k = None \<or> (\<exists>d. map_of c k = Some (HashValue d))"
    "kv_hash_at c k = Map.empty \<longleftrightarrow> map_of c k = None \<or> (\<exists>xs. map_of c k = Some (SetValue xs) \<and> xs \<noteq> [] \<and> distinct xs)"
  using assms by (fastforce simp: kv_ok_def kv_set_at_def kv_hash_at_def split: option.splits redis_value.splits)+

lemma kv_ok_set: "kv_ok c \<Longrightarrow> value_ok v \<Longrightarrow> kv_ok (dict_set k v c)"
  by (auto simp: kv_ok_def)

lemma kv_ok_delete: "kv_ok c \<Longrightarrow> kv_ok (AList.delete k c)"
  by (auto simp: kv_ok_def delete_conv)

lemma kv_upd [simp]:
  "kv_hash_at (dict_set k (HashValue d) c) = (kv_hash_at c)(k := map_of d)" "kv_hash_at (dict_set k (SetValue xs) c) = (kv_hash_at c)(k := Map.empty)"
  "kv_set_at (dict_set k (SetValue xs) c) = (kv_set_at c)(k := set xs)" "kv_set_at (dict_set k (HashValue d) c) = (kv_set_at c)(k := {})"
  "kv_hash_at (AList.delete k c) = (kv_hash_at c)(k := Map.empty)" "kv_set_at (AList.delete k c) = (kv_set_at c)(k := {})"
  by (rule ext, simp add: kv_hash_at_def kv_set_at_def delete_conv)+

interpretation kv: redis_client kv_ops kv_hash_at kv_set_at kv_ok
proof unfold_locales
  fix c k and m :: "(string, redis_text) dict" assume ok: "kv_ok c" and e: "kv_set_at c k = {}" and m: "m \<noteq> []" "distinct (map fst m)"
  show "\<exists>n c'. rd_hset kv_ops k m c = (Inr n, c') \<and> kv_ok c' \<and> kv_hash_at c' = (kv_hash_at c)(k := kv_hash_at c k ++ map_of m)
      \<and> kv_set_at c' = kv_set_at c"
  proof (cases "map_of c k")
    case None
    then have "kv_hash_at c k = Map.empty" by (simp add: kv_hash_at_def)
    then show ?thesis using None ok m e by (simp add: kv_ops_def kv_ok_set fun_upd_idem)
  next
    case (Some v)
    then obtain d where d: "map_of c k = Some (HashValue d)" using e kv_type(1) [OF ok] by auto
    then have "kv_hash_at c k = map_of d" by (simp add: kv_hash_at_def)
    then show ?thesis using d ok m e map_of_put_fields [OF m(2)] put_fields_Nil [of m d]
      by (simp add: kv_ops_def kv_ok_set fun_upd_idem)
  qed
next
  fix c k x assume ok: "kv_ok c" and e: "kv_hash_at c k = Map.empty"
  show "\<exists>n c'. rd_sadd kv_ops k x c = (Inr n, c') \<and> kv_ok c' \<and> kv_hash_at c' = kv_hash_at c
      \<and> kv_set_at c' = (kv_set_at c)(k := insert x (kv_set_at c k))"
  proof (cases "map_of c k")
    case None
    then have "kv_set_at c k = {}" by (simp add: kv_set_at_def)
    then show ?thesis using None ok e by (simp add: kv_ops_def kv_ok_set fun_upd_idem)
  next
    case (Some v)
    then obtain xs where xs: "map_of c k = Some (SetValue xs)" "distinct xs" "kv_set_at c k = set xs"
      using kv_type(2) [OF ok, of k] e by (auto simp: kv_set_at_def)
    moreover have "List.insert x xs \<noteq> []" by (auto simp: List.insert_def)
    ultimately show ?thesis using ok e by (simp add: kv_ops_def kv_ok_set fun_upd_idem)
  qed
  show "\<exists>n c'. rd_srem kv_ops k x c = (Inr n, c') \<and> kv_ok c' \<and> kv_hash_at c' = kv_hash_at c
      \<and> kv_set_at c' = (kv_set_at c)(k := kv_set_at c k - {x})"
  proof (cases "map_of c k")
    case None
    then have "kv_set_at c k = {}" by (simp add: kv_set_at_def)
    then show ?thesis using None ok by (simp add: kv_ops_def fun_upd_idem)
  next
    case (Some v)
    then obtain xs where xs: "map_of c k = Some (SetValue xs)" "distinct xs" "kv_set_at c k = set xs"
      using kv_type(2) [OF ok, of k] e by (auto simp: kv_set_at_def)
    have e2: "kv_set_at c k - {x} = set (remove1 x xs)" using xs by simp
    show ?thesis unfolding e2 using xs(1,2) ok e by (auto simp: kv_ops_def kv_ok_set kv_ok_delete fun_upd_idem simp del: set_remove1_eq)
  qed
next
  fix c k assume ok: "kv_ok c" and "kv_set_at c k = {}"
  then show "\<exists>d. rd_hgetall kv_ops k c = (Inr d, c) \<and> map_of d = kv_hash_at c k"
      "\<exists>c'. rd_delete kv_ops k c = (Inr (if kv_hash_at c k = Map.empty then 0 else 1), c') \<and> kv_ok c'
        \<and> kv_hash_at c' = (kv_hash_at c)(k := Map.empty) \<and> kv_set_at c' = kv_set_at c"
    using kv_type [OF ok, of k] by (auto simp: kv_ops_def kv_hash_at_def kv_ok_delete fun_upd_idem)
next
  fix c k f assume ok: "kv_ok c" and "kv_set_at c k = {}"
  then show "rd_hget kv_ops k f c = (Inr (kv_hash_at c k f), c)"
    using kv_type(1) [OF ok, of k] by (auto simp: kv_ops_def kv_hash_at_def)
next
  fix c k assume ok: "kv_ok c" and "kv_hash_at c k = Map.empty"
  then show "\<exists>xs. rd_smembers kv_ops k c = (Inr xs, c) \<and> distinct xs \<and> set xs = kv_set_at c k"
    using kv_type(2) [OF ok, of k] by (auto simp: kv_ops_def kv_set_at_def)
qed

interpretation kv_server: redis_server kv_ops kv_hash_at kv_set_at kv_ok key_prefix for key_prefix
proof unfold_locales
  fix c k m f assume ok: "kv_ok c" and ne: "kv_set_at c k \<noteq> {}"
  then obtain xs where xs: "map_of c k = Some (SetValue xs)" "kv_hash_at c k = Map.empty"
    by (auto simp: kv_set_at_def kv_hash_at_def split: option.splits redis_value.splits)
  show "rd_hset kv_ops k m c = (Inl BackendError, c)" "rd_hget kv_ops k f c = (Inl BackendError, c)" using xs by (simp_all add: kv_ops_def)
  show "\<exists>c'. rd_delete kv_ops k c = (Inr 1, c') \<and> kv_ok c' \<and> kv_hash_at c' = kv_hash_at c \<and> kv_set_at c' = (kv_set_at c)(k := {})"
    using xs ok by (simp add: kv_ops_def kv_ok_delete fun_upd_idem)
qed

section \<open>Properties of the Redis store\<close>


text \<open>Deleting a pointer named \<open>ids\<close> on a Redis server removes the set of all pointer ids: the call reports success, every listing is
  empty afterwards, so nothing expires or is cleaned up any more, while every pointer can still be retrieved by its id.\<close>

theorem ids_pointer_loses_index:
  assumes "redis_server ops hash_at set_at available" and "redis_usable hash_at set_at available key_prefix c"
    and "redis_vault hash_at key_prefix c \<noteq> Map.empty"
  shows "\<exists>c'. redis_delete_pointer ops key_prefix ''ids'' c = (Inr True, c')
    \<and> (\<forall>include_expired now. redis_list_pointers ops key_prefix include_expired now None c' = (Inr [], c'))
    \<and> (\<forall>i r. redis_vault hash_at key_prefix c i = Some r \<longrightarrow> redis_retrieve_pointer ops key_prefix i c' = (Inr (pw_raw r), c'))"
  using redis_server.delete_ids_ok [OF assms] .

definition sample_fake :: fake_redis where
  "sample_fake = snd (redis_store_pointer fake_ops ''eap'' (sample_row ''ptr_a'' 5) fake_init)"


definition sample_kv :: "(string, redis_value) dict" where
  "sample_kv = snd (redis_store_pointer kv_ops ''eap'' (sample_row ''ptr_a'' 5) [])"

theorem ids_pointer_loses_index_witness:
  "\<exists>c'. redis_delete_pointer kv_ops ''eap'' ''ids'' sample_kv = (Inr True, c') \<and> redis_list_pointers kv_ops ''eap'' True 9 None c' = (Inr [], c')"
proof -
  have "redis_usable kv_hash_at kv_set_at kv_ok ''eap'' []"
    by (simp add: redis_usable_def redis_vault_def kv_hash_at_def kv_set_at_def kv_ok_def)
  from kv_server.store_spec [OF this, of "sample_row ''ptr_a'' 5"]
  have "redis_usable kv_hash_at kv_set_at kv_ok ''eap'' sample_kv" "redis_vault kv_hash_at ''eap'' sample_kv \<noteq> Map.empty"
    by (auto simp: sample_row_def sample_kv_def)
  from ids_pointer_loses_index [OF kv_server.redis_server_axioms this] show ?thesis by blast
qed

end
