(* ===== verification/EAP_Postgres_Store.thy ===== *)
theory EAP_Postgres_Store
  imports EAP_Pointer_Store
begin

text \<open>
  The PostgreSQL backend of the pointer vault, \<^verbatim>\<open>src/eap/protocol/storage/postgres_store.py\<close>: the checks of the
  identifiers that are put into the SQL text, the lazily created connection pool, and the statements, as operations on the
  table they name. Whether the pool package is installed and the server answers, what a \<open>jsonb\<close> column makes of a JSON
  text and the sort keys of the database collation are arguments. A failed transaction is rolled back. Against the SQLite
  store the operations are shown to give the same answers.
\<close>

section \<open>Identifiers\<close>

definition ident_start :: "char \<Rightarrow> bool" where
  "ident_start c \<longleftrightarrow> (CHR ''A'' \<le> c \<and> c \<le> CHR ''Z'') \<or> (CHR ''a'' \<le> c \<and> c \<le> CHR ''z'') \<or> c = CHR ''_''"

definition ident_char :: "char \<Rightarrow> bool" where
  "ident_char c \<longleftrightarrow> ident_start c \<or> (CHR ''0'' \<le> c \<and> c \<le> CHR ''9'')"

definition matches_identifier :: "string \<Rightarrow> bool" where
  \<comment> \<open>\<open>^[A-Za-z_][A-Za-z0-9_]*$\<close>: the dollar also matches before a final line feed\<close>
  "matches_identifier s = (case s of [] \<Rightarrow> False
     | c # cs \<Rightarrow> ident_start c \<and> (list_all ident_char cs \<or> (cs \<noteq> [] \<and> last cs = CHR 0x0A \<and> list_all ident_char (butlast cs))))"

definition validate_identifier :: "string \<Rightarrow> string \<Rightarrow> string + string" where
  \<comment> \<open>the error carries the name of the field\<close>
  "validate_identifier value field_name = (if matches_identifier value then Inr value else Inl field_name)"

section \<open>The client\<close>

record pg_env =
  pv_pool_lib :: bool
  pv_reachable :: bool
  pv_jsonb :: "(string, pyval) dict \<Rightarrow> (string, pyval) dict option"
  pv_collate :: "string \<Rightarrow> string"

record pg_client =
  pc_schema :: string
  pc_table_name :: string
  pc_min_pool_size :: int
  pc_max_pool_size :: int
  pc_use_pool :: bool
  pc_pool :: bool
  pc_init_attempted :: bool
  pc_rows :: "pointer_row list option"

definition qualified_table :: "pg_client \<Rightarrow> string" where
  "qualified_table c = [CHR 0x22] @ pc_schema c @ [CHR 0x22, CHR ''.'', CHR 0x22] @ pc_table_name c @ [CHR 0x22]"

definition pg_new_client :: "string \<Rightarrow> string \<Rightarrow> int \<Rightarrow> int \<Rightarrow> bool \<Rightarrow> pointer_row list option \<Rightarrow> string + pg_client" where
  \<comment> \<open>the last argument is the table the database already has\<close>
  "pg_new_client schema table_name min_pool_size max_pool_size use_connection_pool rows =
     bindR (validate_identifier schema ''schema'') (\<lambda>schema.
     bindR (validate_identifier table_name ''table_name'') (\<lambda>table_name.
       let min_size = max min_pool_size 0 in
       Inr \<lparr>pc_schema = schema, pc_table_name = table_name, pc_min_pool_size = min_size,
         pc_max_pool_size = max max_pool_size (if min_size = 0 then 1 else min_size), pc_use_pool = use_connection_pool,
         pc_pool = False, pc_init_attempted = False, pc_rows = rows\<rparr>))"

definition get_or_create_pool :: "pg_env \<Rightarrow> pg_client \<Rightarrow> bool \<times> pg_client" where
  "get_or_create_pool env c =
     (if \<not> pc_use_pool c then (False, c)
      else if pc_pool c then (True, c)
      else if pc_init_attempted c then (False, c)
      else if pv_pool_lib env then (True, c\<lparr>pc_init_attempted := True, pc_pool := True\<rparr>)
      else (False, c\<lparr>pc_init_attempted := True, pc_pool := False\<rparr>))"

definition pg_close :: "pg_client \<Rightarrow> pg_client" where
  "pg_close c = c\<lparr>pc_pool := False\<rparr>"

definition pg_transaction :: "pg_env \<Rightarrow> (pointer_row list option \<Rightarrow> (store_error + 'a) \<times> pointer_row list option) \<Rightarrow> (pg_client, 'a) command" where
  \<comment> \<open>\<open>with self._connect() as conn\<close>: a connection of the pool or a new one, and a transaction on it\<close>
  "pg_transaction env body c = (let c1 = snd (get_or_create_pool env c) in
     if \<not> pv_reachable env then (Inl BackendError, c1)
     else (case body (pc_rows c1) of (Inl e, _) \<Rightarrow> (Inl e, c1) | (Inr x, rows) \<Rightarrow> (Inr x, c1\<lparr>pc_rows := rows\<rparr>)))"

section \<open>The statements\<close>

definition pg_initialize :: "pg_env \<Rightarrow> (pg_client, unit) command" where
  "pg_initialize env = pg_transaction env (\<lambda>rows. (Inr (), Some (case rows of None \<Rightarrow> [] | Some rs \<Rightarrow> rs)))"

definition int4 :: "int \<Rightarrow> bool" where
  "int4 n \<longleftrightarrow> - (2 ^ 31) \<le> n \<and> n < 2 ^ 31"

definition pg_text :: "string \<Rightarrow> bool" where
  \<comment> \<open>a text value may not contain a zero byte\<close>
  "pg_text s \<longleftrightarrow> CHR 0x00 \<notin> set s"

definition pg_accepts :: "pg_env \<Rightarrow> pointer_row \<Rightarrow> bool" where
  "pg_accepts env r \<longleftrightarrow> pg_text (pw_id r) \<and> pg_text (pw_raw r) \<and> pg_text (pw_summary r) \<and> (case pw_ttl r of None \<Rightarrow> True | Some n \<Rightarrow> int4 n)
     \<and> pv_jsonb env (pw_meta r) \<noteq> None"

definition pg_insert_pointer :: "pg_env \<Rightarrow> pointer_row \<Rightarrow> (pg_client, unit) command" where
  "pg_insert_pointer env r = pg_transaction env (\<lambda>rows. case rows of
     None \<Rightarrow> (Inl BackendError, rows)
   | Some rs \<Rightarrow> if \<not> pg_accepts env r then (Inl BackendError, rows)
       else if pw_id r \<in> set (map pw_id rs) then (Inl (DuplicatePointer (pw_id r)), rows)
       else (Inr (), Some (rs @ [r\<lparr>pw_meta := the (pv_jsonb env (pw_meta r))\<rparr>])))"

definition pg_retrieve_pointer :: "pg_env \<Rightarrow> string \<Rightarrow> (pg_client, string) command" where
  "pg_retrieve_pointer env i = pg_transaction env (\<lambda>rows. case rows of
     None \<Rightarrow> (Inl BackendError, rows)
   | Some rs \<Rightarrow> (case find (\<lambda>r. pw_id r = i) rs of None \<Rightarrow> (Inl (PointerMissing i), rows) | Some r \<Rightarrow> (Inr (pw_raw r), rows)))"

definition pg_list_pointers :: "pg_env \<Rightarrow> bool \<Rightarrow> int \<Rightarrow> int option \<Rightarrow> (pg_client, pointer_info list) command" where
  "pg_list_pointers env include_expired now limit =
     (if bad_limit limit then liftC (Inl BadLimit)
      else pg_transaction env (\<lambda>rows. case rows of
        None \<Rightarrow> (Inl BackendError, rows)
      | Some rs \<Rightarrow> (Inr (map (row_info now) (take_limit limit (newest_first (pv_collate env)
          (filter (\<lambda>r. include_expired \<or> (case pw_expires r of None \<Rightarrow> True | Some t \<Rightarrow> now < t)) rs)))), rows)))"

definition pg_delete_pointer :: "pg_env \<Rightarrow> string \<Rightarrow> (pg_client, bool) command" where
  "pg_delete_pointer env i = pg_transaction env (\<lambda>rows. case rows of
     None \<Rightarrow> (Inl BackendError, rows)
   | Some rs \<Rightarrow> let kept = filter (\<lambda>r. pw_id r \<noteq> i) rs in (Inr (length kept < length rs), Some kept))"

section \<open>Identifiers cannot leave their quotes\<close>

lemma identifier_no_quote: "matches_identifier s \<Longrightarrow> CHR 0x22 \<notin> set s"
proof -
  assume m: "matches_identifier s"
  have q: "\<not> ident_char CHR 0x22" by code_simp
  obtain c cs where s: "s = c # cs" "ident_start c"
    and cs: "list_all ident_char cs \<or> (cs \<noteq> [] \<and> last cs = CHR 0x0A \<and> list_all ident_char (butlast cs))"
    using m by (auto simp: matches_identifier_def split: list.splits)
  have "CHR 0x22 \<notin> set cs" using cs q by (cases cs rule: rev_cases) (auto simp: list_all_iff)
  moreover have "c \<noteq> CHR 0x22" using s(2) q by (auto simp: ident_char_def)
  ultimately show ?thesis using s(1) by simp
qed

lemma new_client_quoted:
  assumes "pg_new_client schema table_name mn mx use rows = Inr c"
  shows "CHR 0x22 \<notin> set (pc_schema c) \<and> CHR 0x22 \<notin> set (pc_table_name c) \<and> length (filter (\<lambda>x. x = CHR 0x22) (qualified_table c)) = 4
    \<and> 0 \<le> pc_min_pool_size c \<and> pc_min_pool_size c \<le> pc_max_pool_size c \<and> 1 \<le> pc_max_pool_size c"
proof -
  have v: "matches_identifier (pc_schema c)" "matches_identifier (pc_table_name c)" "0 \<le> pc_min_pool_size c"
    "pc_min_pool_size c \<le> pc_max_pool_size c" "1 \<le> pc_max_pool_size c"
    using assms by (auto simp: pg_new_client_def validate_identifier_def Let_def split: if_splits)
  then have q: "CHR 0x22 \<notin> set (pc_schema c)" "CHR 0x22 \<notin> set (pc_table_name c)" by (simp_all add: identifier_no_quote)
  have none: "filter (\<lambda>x. x = CHR 0x22) s = []" if "CHR 0x22 \<notin> set s" for s using that by (auto simp: filter_empty_conv)
  show ?thesis using q v(3-5) none [OF q(1)] none [OF q(2)] by (simp add: qualified_table_def)
qed

section \<open>The table as a SQLite store\<close>

definition pg_table :: "pg_client \<Rightarrow> sqlite_store" where
  "pg_table c = \<lparr>sq_rows = (case pc_rows c of None \<Rightarrow> [] | Some rs \<Rightarrow> rs), sq_closed = False\<rparr>"

definition pg_usable :: "pg_env \<Rightarrow> pg_client \<Rightarrow> bool" where
  "pg_usable env c \<longleftrightarrow> pv_reachable env \<and> pc_rows c \<noteq> None \<and> sq_usable (pg_table c)"

definition pg_storable :: "pg_env \<Rightarrow> pointer_row \<Rightarrow> bool" where
  \<comment> \<open>accepted, with metadata that a \<open>jsonb\<close> column gives back as it is\<close>
  "pg_storable env r \<longleftrightarrow> pg_accepts env r \<and> pv_jsonb env (pw_meta r) = Some (pw_meta r)"

lemma pool_keeps_rows [simp]: "pc_rows (snd (get_or_create_pool env c)) = pc_rows c"
  by (simp add: get_or_create_pool_def)

lemma connected:
  assumes "pg_usable env c" and "pc_rows c = Some rs" and "pg_transaction env body c = (res, c')"
  shows "\<exists>rows. body (Some rs) = (res, rows) \<and> pc_rows c' = (if isl res then Some rs else rows)"
  using assms by (auto simp: pg_transaction_def pg_usable_def Let_def split: prod.splits sum.splits)

lemma pg_table_rows: "pc_rows c = Some rs \<Longrightarrow> pg_table c = \<lparr>sq_rows = rs, sq_closed = False\<rparr>"
  by (simp add: pg_table_def)

lemma pg_usable_rows: "pg_usable env c \<Longrightarrow> pc_rows c' = Some rs \<Longrightarrow> sq_usable \<lparr>sq_rows = rs, sq_closed = False\<rparr> \<Longrightarrow> pg_usable env c'"
  by (simp add: pg_usable_def pg_table_rows)

lemma pg_store_simulates:
  assumes "pg_usable env c" and "pg_storable env r"
  shows "\<exists>c'. case sq_store_pointer (pg_table c) r of
      Inr t \<Rightarrow> pg_insert_pointer env r c = (Inr (), c') \<and> pg_usable env c' \<and> pg_table c' = t
    | Inl e \<Rightarrow> pg_insert_pointer env r c = (Inl e, c') \<and> pg_usable env c' \<and> pg_table c' = pg_table c"
proof -
  obtain rs where rs: "pc_rows c = Some rs" using assms(1) by (auto simp: pg_usable_def)
  obtain res c' where p: "pg_insert_pointer env r c = (res, c')" by fastforce
  note b = connected [OF assms(1) rs p [unfolded pg_insert_pointer_def]]
  note t = pg_table_rows [OF rs]
  have u: "distinct (map pw_id rs)" using assms(1) t by (simp add: pg_usable_def sq_usable_def)
  show ?thesis
  proof (cases "pw_id r \<in> set (map pw_id rs)")
    case True
    then have "res = Inl (DuplicatePointer (pw_id r))" "pc_rows c' = Some rs" using b assms(2) by (auto simp: pg_storable_def)
    then show ?thesis using True p t u assms(1) by (auto simp: sq_store_pointer_def pg_table_rows sq_usable_def intro: pg_usable_rows)
  next
    case False
    then have "res = Inr ()" "pc_rows c' = Some (rs @ [r])" using b assms(2) by (auto simp: pg_storable_def)
    then show ?thesis using False p t u assms(1) by (auto simp: sq_store_pointer_def pg_table_rows sq_usable_def intro!: pg_usable_rows [of env c])
  qed
qed

lemma pg_retrieve_simulates:
  assumes "pg_usable env c"
  shows "\<exists>c'. pg_retrieve_pointer env i c = (sq_retrieve_pointer (pg_table c) i, c') \<and> pg_usable env c' \<and> pg_table c' = pg_table c"
proof -
  obtain rs where rs: "pc_rows c = Some rs" using assms by (auto simp: pg_usable_def)
  obtain res c' where p: "pg_retrieve_pointer env i c = (res, c')" by fastforce
  have "res = sq_retrieve_pointer (pg_table c) i" "pc_rows c' = Some rs"
    using connected [OF assms rs p [unfolded pg_retrieve_pointer_def]] pg_table_rows [OF rs]
    by (auto simp: sq_retrieve_pointer_def split: option.splits if_splits)
  then show ?thesis using p rs assms by (simp add: pg_usable_def pg_table_rows)
qed

lemma pg_delete_simulates:
  assumes "pg_usable env c"
  shows "\<exists>b c'. sq_delete_pointer (pg_table c) i = Inr (b, pg_table c') \<and> pg_delete_pointer env i c = (Inr b, c') \<and> pg_usable env c'"
proof -
  obtain rs where rs: "pc_rows c = Some rs" using assms by (auto simp: pg_usable_def)
  obtain res c' where p: "pg_delete_pointer env i c = (res, c')" by fastforce
  let ?kept = "filter (\<lambda>r. pw_id r \<noteq> i) rs"
  have r: "res = Inr (length ?kept < length rs)" "pc_rows c' = Some ?kept"
    using connected [OF assms rs p [unfolded pg_delete_pointer_def]] by (auto simp: Let_def)
  have "sq_delete_pointer (pg_table c) i = Inr (length ?kept < length rs, pg_table c')"
    using pg_table_rows [OF rs] pg_table_rows [OF r(2)] by (simp add: sq_delete_pointer_def Let_def)
  moreover have "pg_usable env c'"
    using assms rs r(2) by (auto simp: pg_usable_def sq_usable_def pg_table_def distinct_map_filter)
  ultimately show ?thesis using p r(1) by blast
qed

lemma pg_list_ok:
  assumes "pg_usable env c" and "\<not> bad_limit limit"
  shows "\<exists>c'. pg_list_pointers env include_expired now limit c = (Inr (map (row_info now) (take_limit limit (newest_first (pv_collate env)
      (filter (\<lambda>r. include_expired \<or> (case pw_expires r of None \<Rightarrow> True | Some t \<Rightarrow> now < t)) (sq_rows (pg_table c)))))), c')
    \<and> pg_usable env c' \<and> pg_table c' = pg_table c"
proof -
  obtain rs where rs: "pc_rows c = Some rs" using assms(1) by (auto simp: pg_usable_def)
  obtain res c' where p: "pg_list_pointers env include_expired now limit c = (res, c')" by fastforce
  note q = p [unfolded pg_list_pointers_def if_not_P [OF assms(2)]]
  have "res = Inr (map (row_info now) (take_limit limit (newest_first (pv_collate env)
      (filter (\<lambda>r. include_expired \<or> (case pw_expires r of None \<Rightarrow> True | Some t \<Rightarrow> now < t)) rs))))" "pc_rows c' = Some rs"
    using connected [OF assms(1) rs q] by auto
  then show ?thesis using p rs assms(1) by (simp add: pg_usable_def pg_table_rows)
qed

section \<open>The store is a backend\<close>

definition pg_vault :: "pg_client \<Rightarrow> string \<rightharpoonup> pointer_row" where
  "pg_vault c = sq_vault (pg_table c)"

lemma pg_sq_usable: "pg_usable env c \<Longrightarrow> sq_usable (pg_table c)"
  by (simp add: pg_usable_def)

interpretation pg: pointer_backend "\<lambda>c r. end_state (pg_insert_pointer env r c)" "\<lambda>c i. fst (pg_retrieve_pointer env i c)"
  "\<lambda>c include_expired now limit. fst (pg_list_pointers env include_expired now limit c)" "\<lambda>c i. outcome_bool (pg_delete_pointer env i c)"
  pg_vault "pg_usable env" "pg_storable env" "\<lambda>_. True" "pv_collate env" for env
proof unfold_locales
  fix c and r :: pointer_row assume u: "pg_usable env c" and s: "pg_storable env r" and n: "pg_vault c (pw_id r) = None"
  obtain t where t: "sq_store_pointer (pg_table c) r = Inr t" "sq_vault t = (sq_vault (pg_table c))(pw_id r \<mapsto> r)"
    using sq.store_fresh [OF pg_sq_usable [OF u] TrueI] n by (auto simp: pg_vault_def)
  then show "\<exists>c'. end_state (pg_insert_pointer env r c) = Inr c' \<and> pg_usable env c' \<and> pg_vault c' = (pg_vault c)(pw_id r \<mapsto> r)"
    using pg_store_simulates [OF u s] by (auto simp: pg_vault_def)
next
  fix c i assume u: "pg_usable env c"
  show "fst (pg_retrieve_pointer env i c) = (case pg_vault c i of None \<Rightarrow> Inl (PointerMissing i) | Some r \<Rightarrow> Inr (pw_raw r))"
    using pg_retrieve_simulates [OF u, of i] sq.retrieve_spec [OF pg_sq_usable [OF u] TrueI, of i] by (auto simp: pg_vault_def)
next
  fix c assume u: "pg_usable env c"
  let ?rows = "newest_first (pv_collate env) (sq_rows (pg_table c))"
  have "listing_by (pv_collate env) (pg_vault c) ?rows"
    using pg_sq_usable [OF u] newest_first_sorted [of "pv_collate env"]
    by (simp add: listing_by_def pg_vault_def sq_vault_Some distinct_newest_first sq_usable_def)
  moreover have "fst (pg_list_pointers env True now None c) = Inr (map (row_info now) ?rows)" for now
    using pg_list_ok [OF u, of None True now] by (auto simp: bad_limit_def take_limit_def)
  ultimately show "\<exists>rows. listing_by (pv_collate env) (pg_vault c) rows \<and> (\<forall>now. fst (pg_list_pointers env True now None c) = Inr (map (row_info now) rows))"
    by blast
next
  fix c i assume u: "pg_usable env c"
  obtain b c' where d: "sq_delete_pointer (pg_table c) i = Inr (b, pg_table c')" "pg_delete_pointer env i c = (Inr b, c')" "pg_usable env c'"
    using pg_delete_simulates [OF u] by blast
  then show "\<exists>c'. outcome_bool (pg_delete_pointer env i c) = Inr (pg_vault c i \<noteq> None, c') \<and> pg_usable env c' \<and> pg_vault c' = (pg_vault c)(i := None)"
    using sq.delete_spec [OF pg_sq_usable [OF u] TrueI, of i] by (auto simp: pg_vault_def)
next
  fix c i r assume "pg_usable env c" "pg_vault c i = Some r"
  then show "pw_id r = i \<and> True" using sq.vault_id [OF pg_sq_usable] by (simp add: pg_vault_def)
qed simp

section \<open>Property of the PostgreSQL store\<close>


definition sample_pg_env :: pg_env where
  "sample_pg_env = \<lparr>pv_pool_lib = True, pv_reachable = True, pv_jsonb = (\<lambda>m. if m = [] then Some m else None), pv_collate = (\<lambda>i. i)\<rparr>"

definition sample_pg :: pg_client where
  "sample_pg = (case pg_new_client ''public'' ''eap_state_store'' 1 10 True (Some [sample_row ''ptr_a'' 5]) of Inr c \<Rightarrow> c)"


end
