(* ===== verification/EAP_Audit.thy ===== *)
theory EAP_Audit
  imports EAP_Prelude "HOL-Library.Product_Lexorder"
begin

text \<open>
  Manifests of audit bundles and backups, \<^verbatim>\<open>src/eap/runtime/audit_bundle.py\<close>. The canonical JSON text of a
  value, SHA-256 and HMAC are arguments; what is proved of them is stated without cryptographic assumptions: a bundle that
  was changed and still verifies exhibits two texts with the same hash. The files of a bundle are a function from the names a
  manifest lists to contents, \<open>None\<close> for a name that is no file.
\<close>

section \<open>Manifests\<close>

record audit_env =
  au_json :: "pyval \<Rightarrow> string"
  au_sha :: "string \<Rightarrow> string"
  au_hmac :: "string \<Rightarrow> string \<Rightarrow> string"
  au_float :: "pyfloat \<Rightarrow> string"

definition SIGNATURE_ALGORITHM :: string where
  "SIGNATURE_ALGORITHM = ''hmac-sha256''"

definition sha256_bytes :: "audit_env \<Rightarrow> string \<Rightarrow> string" where
  "sha256_bytes env payload = au_sha env payload"

fun read_chunks :: "nat \<Rightarrow> string \<Rightarrow> string list" where
  \<comment> \<open>\<open>iter(lambda: handle.read(n), b\"\")\<close>\<close>
  "read_chunks n bytes = (if n = 0 \<or> bytes = [] then [] else take n bytes # read_chunks n (drop n bytes))"

declare read_chunks.simps [simp del]

definition sha256_file :: "audit_env \<Rightarrow> string \<Rightarrow> string" where
  \<comment> \<open>updating a digest with one chunk after the other hashes their concatenation\<close>
  "sha256_file env bytes = au_sha env (concat (read_chunks (1024 * 64) bytes))"

definition compute_manifest_digest :: "audit_env \<Rightarrow> (string, pyval) dict \<Rightarrow> string" where
  "compute_manifest_digest env manifest_core = sha256_bytes env (au_json env (PDict manifest_core))"

definition sign_manifest_digest :: "audit_env \<Rightarrow> string \<Rightarrow> string \<Rightarrow> string" where
  "sign_manifest_digest env manifest_digest signing_key = au_hmac env signing_key manifest_digest"

definition hash_dict :: "(string, string) dict \<Rightarrow> pyval" where
  \<comment> \<open>\<open>dict(sorted(items))\<close>\<close>
  "hash_dict hashes = PDict (map (\<lambda>(k, v). (k, PStr v)) (sort hashes))"

definition manifest_core :: "pyval \<Rightarrow> pyval \<Rightarrow> pyval \<Rightarrow> pyval \<Rightarrow> pyval \<Rightarrow> (string, string) dict \<Rightarrow> (string, pyval) dict" where
  "manifest_core version algorithm generated_at_utc db_path run_ids file_hashes =
     [(''manifest_version'', version), (''hash_algorithm'', algorithm), (''generated_at_utc'', generated_at_utc), (''db_path'', db_path),
      (''run_ids'', run_ids), (''file_hashes'', hash_dict file_hashes)]"

definition or_default :: "string option \<Rightarrow> string" where
  "or_default key_id = (case key_id of None \<Rightarrow> ''default'' | Some k \<Rightarrow> if k = [] then ''default'' else k)"

definition given :: "string option \<Rightarrow> string option" where
  \<comment> \<open>a key or a digest counts only when it is not empty\<close>
  "given k = (case k of None \<Rightarrow> None | Some s \<Rightarrow> if s = [] then None else Some s)"

definition build_manifest :: "audit_env \<Rightarrow> string \<Rightarrow> string \<Rightarrow> string list \<Rightarrow> (string, string) dict \<Rightarrow> string option \<Rightarrow> string option
    \<Rightarrow> (string, pyval) dict" where
  "build_manifest env generated_at_utc db_path run_ids file_hashes signer_key_id signing_key =
     (let core = manifest_core (PInt 1) (PStr ''sha256'') (PStr generated_at_utc) (PStr db_path) (PList (map PStr run_ids)) file_hashes;
          digest = compute_manifest_digest env core; manifest = core @ [(''manifest_sha256'', PStr digest)]
      in case given signing_key of None \<Rightarrow> manifest
         | Some key \<Rightarrow> manifest @ [(''signature'', PDict [(''algorithm'', PStr SIGNATURE_ALGORITHM), (''key_id'', PStr (or_default signer_key_id)),
             (''value'', PStr (sign_manifest_digest env digest key))])])"

section \<open>Verification\<close>

datatype audit_error = NoFileHashes | DigestMissing | DigestMismatch | UnexpectedDigest | MissingFile string | HashMismatch string
  | SignatureRequired | SignatureNotObject | SignatureAlgorithm string | SignatureValueMissing | NoSigningKey | SignatureMismatch

datatype file_check = FileMissing | FileHash bool string string

record verification_result =
  vr_verified :: bool
  vr_digest_ok :: bool
  vr_digest_expected :: string
  vr_digest_actual :: string
  vr_files :: "(string, file_check) dict"
  vr_signature_present :: bool
  vr_signature_ok :: "bool option"
  vr_signature_required :: bool
  vr_errors :: "audit_error list"

definition check_file :: "audit_env \<Rightarrow> (string \<Rightarrow> string option) \<Rightarrow> string \<times> pyval \<Rightarrow> file_check \<times> audit_error list" where
  "check_file env files item = (case item of (filename, expected_hash) \<Rightarrow> (case files filename of
     None \<Rightarrow> (FileMissing, [MissingFile filename])
   | Some bytes \<Rightarrow> let actual_hash = sha256_file env bytes; expected = py_str (au_float env) expected_hash; ok = (actual_hash = expected)
       in (FileHash ok expected actual_hash, if ok then [] else [HashMismatch filename])))"

definition check_signature :: "audit_env \<Rightarrow> string \<Rightarrow> pyval \<Rightarrow> string option \<Rightarrow> bool \<Rightarrow> bool option \<times> audit_error list" where
  "check_signature env manifest_digest signature signing_key require_signature = (case signature of
     PNone \<Rightarrow> (None, if require_signature then [SignatureRequired] else [])
   | PDict sig \<Rightarrow>
       (let signature_algorithm = py_str (au_float env) (dict_get_or sig ''algorithm'' (PStr []));
            signature_value = py_str (au_float env) (dict_get_or sig ''value'' (PStr []))
        in if signature_algorithm \<noteq> SIGNATURE_ALGORITHM then (Some False, [SignatureAlgorithm signature_algorithm])
           else if signature_value = [] then (Some False, [SignatureValueMissing])
           else (case given signing_key of None \<Rightarrow> (Some False, [NoSigningKey])
             | Some key \<Rightarrow> let ok = (signature_value = sign_manifest_digest env manifest_digest key)
                 in (Some ok, if ok then [] else [SignatureMismatch])))
   | _ \<Rightarrow> (Some False, [SignatureNotObject]))"

definition verify_bundle_manifest :: "audit_env \<Rightarrow> (string \<Rightarrow> string option) \<Rightarrow> (string, pyval) dict \<Rightarrow> string option \<Rightarrow> bool \<Rightarrow> string option
    \<Rightarrow> verification_result" where
  "verify_bundle_manifest env files manifest signing_key require_signature expected_manifest_sha256 =
     (let field = (\<lambda>k. dict_get_or manifest k PNone);
          file_hashes = (case field ''file_hashes'' of PDict d \<Rightarrow> d | _ \<Rightarrow> []);
          core = manifest_core (field ''manifest_version'') (field ''hash_algorithm'') (field ''generated_at_utc'') (field ''db_path'')
            (field ''run_ids'') (map (\<lambda>(k, v). (k, py_str (au_float env) v)) file_hashes);
          computed = compute_manifest_digest env core;
          digest = py_str (au_float env) (dict_get_or manifest ''manifest_sha256'' (PStr []));
          digest_errors = (if digest = [] then [DigestMissing] else if digest \<noteq> computed then [DigestMismatch] else []);
          anchor_errors = (case given expected_manifest_sha256 of None \<Rightarrow> [] | Some x \<Rightarrow> if digest \<noteq> x then [UnexpectedDigest] else []);
          file_results = map (\<lambda>item. (fst item, check_file env files item)) (sort_key fst file_hashes);
          signature = field ''signature''; sig_result = check_signature env digest signature signing_key require_signature;
          errors = (if file_hashes = [] then [NoFileHashes] else []) @ digest_errors @ anchor_errors
            @ concat (map (snd \<circ> snd) file_results) @ snd sig_result
      in \<lparr>vr_verified = (errors = []), vr_digest_ok = (digest \<noteq> [] \<and> digest = computed), vr_digest_expected = digest, vr_digest_actual = computed,
          vr_files = map (\<lambda>(k, r). (k, fst r)) file_results, vr_signature_present = (signature \<noteq> PNone), vr_signature_ok = fst sig_result,
          vr_signature_required = require_signature, vr_errors = errors\<rparr>)"

section \<open>What verification accepts\<close>

lemma concat_read_chunks: "0 < n \<Longrightarrow> concat (read_chunks n bytes) = bytes"
proof (induction n bytes rule: read_chunks.induct)
  case (1 n bytes)
  then show ?case by (subst read_chunks.simps) simp
qed

lemma sha256_file_whole [simp, code]: "sha256_file env bytes = au_sha env bytes"
  by (simp add: sha256_file_def concat_read_chunks)

lemma py_str_text [simp]: "py_str fr (PStr s) = s"
  by (simp add: py_str_def)

lemma check_file_ok: "snd (check_file env files item) = [] \<longleftrightarrow>
    (\<exists>bytes. files (fst item) = Some bytes \<and> au_sha env bytes = py_str (au_float env) (snd item))"
  by (auto simp: check_file_def Let_def split: prod.splits option.splits)

definition listed :: "audit_env \<Rightarrow> (string, pyval) dict \<Rightarrow> (string, string) dict" where
  \<comment> \<open>the files and hashes a manifest lists\<close>
  "listed env manifest = map (\<lambda>(k, v). (k, py_str (au_float env) v)) (case dict_get_or manifest ''file_hashes'' PNone of PDict d \<Rightarrow> d | _ \<Rightarrow> [])"

definition manifest_field :: "audit_env \<Rightarrow> (string, pyval) dict \<Rightarrow> string \<Rightarrow> string" where
  "manifest_field env manifest k = py_str (au_float env) (dict_get_or manifest k (PStr []))"

definition core_of :: "audit_env \<Rightarrow> (string, pyval) dict \<Rightarrow> (string, pyval) dict" where
  "core_of env manifest = (let field = (\<lambda>k. dict_get_or manifest k PNone) in manifest_core (field ''manifest_version'') (field ''hash_algorithm'')
     (field ''generated_at_utc'') (field ''db_path'') (field ''run_ids'') (listed env manifest))"

lemma verified_iff:
  "vr_verified (verify_bundle_manifest env files m key req anchor) \<longleftrightarrow> listed env m \<noteq> []
     \<and> manifest_field env m ''manifest_sha256'' \<noteq> [] \<and> manifest_field env m ''manifest_sha256'' = compute_manifest_digest env (core_of env m)
     \<and> (\<forall>x. given anchor = Some x \<longrightarrow> manifest_field env m ''manifest_sha256'' = x)
     \<and> (\<forall>(k, h)\<in>set (listed env m). \<exists>bytes. files k = Some bytes \<and> au_sha env bytes = h)
     \<and> snd (check_signature env (manifest_field env m ''manifest_sha256'') (dict_get_or m ''signature'' PNone) key req) = []"
proof -
  let ?d = "case dict_get_or m ''file_hashes'' PNone of PDict d \<Rightarrow> d | _ \<Rightarrow> []"
  have "(\<forall>item\<in>set ?d. snd (check_file env files item) = []) \<longleftrightarrow> (\<forall>(k, h)\<in>set (listed env m). \<exists>bytes. files k = Some bytes \<and> au_sha env bytes = h)"
    by (auto simp: check_file_ok listed_def)
  moreover have "vr_verified (verify_bundle_manifest env files m key req anchor) \<longleftrightarrow> ?d \<noteq> []
     \<and> manifest_field env m ''manifest_sha256'' \<noteq> [] \<and> manifest_field env m ''manifest_sha256'' = compute_manifest_digest env (core_of env m)
     \<and> (\<forall>x. given anchor = Some x \<longrightarrow> manifest_field env m ''manifest_sha256'' = x) \<and> (\<forall>item\<in>set ?d. snd (check_file env files item) = [])
     \<and> snd (check_signature env (manifest_field env m ''manifest_sha256'') (dict_get_or m ''signature'' PNone) key req) = []"
    unfolding verify_bundle_manifest_def Let_def manifest_field_def core_of_def listed_def by (auto split: option.splits if_splits)
  moreover have "?d \<noteq> [] \<longleftrightarrow> listed env m \<noteq> []" by (simp add: listed_def)
  ultimately show ?thesis by (simp only:)
qed

lemma build_fields:
  fixes env gen db runs hs kid key
  defines "m \<equiv> build_manifest env gen db runs hs kid key"
  shows "listed env m = sort hs" "core_of env m = manifest_core (PInt 1) (PStr ''sha256'') (PStr gen) (PStr db) (PList (map PStr runs)) hs"
    "manifest_field env m ''manifest_sha256'' = compute_manifest_digest env (core_of env m)"
    "dict_get_or m ''signature'' PNone = (case given key of None \<Rightarrow> PNone
       | Some k \<Rightarrow> PDict [(''algorithm'', PStr SIGNATURE_ALGORITHM), (''key_id'', PStr (or_default kid)),
           (''value'', PStr (sign_manifest_digest env (compute_manifest_digest env (core_of env m)) k))])"
proof -
  have s: "map ((\<lambda>(k, v). (k, py_str (au_float env) v)) \<circ> (\<lambda>(k, v). (k, PStr v))) hs' = hs'" for hs' :: "(string, string) dict"
    by (simp add: comp_def case_prod_unfold)
  show l: "listed env m = sort hs"
    by (auto simp: m_def listed_def build_manifest_def manifest_core_def dict_get_or_def hash_dict_def s Let_def split: option.splits)
  show c: "core_of env m = manifest_core (PInt 1) (PStr ''sha256'') (PStr gen) (PStr db) (PList (map PStr runs)) hs"
    unfolding core_of_def l by (auto simp: m_def build_manifest_def manifest_core_def dict_get_or_def hash_dict_def Let_def sorted_sort_id split: option.splits)
  show "manifest_field env m ''manifest_sha256'' = compute_manifest_digest env (core_of env m)"
    unfolding c by (auto simp: m_def manifest_field_def build_manifest_def manifest_core_def dict_get_or_def Let_def split: option.splits)
  show "dict_get_or m ''signature'' PNone = (case given key of None \<Rightarrow> PNone
       | Some k \<Rightarrow> PDict [(''algorithm'', PStr SIGNATURE_ALGORITHM), (''key_id'', PStr (or_default kid)),
           (''value'', PStr (sign_manifest_digest env (compute_manifest_digest env (core_of env m)) k))])"
    unfolding c by (auto simp: m_def build_manifest_def manifest_core_def dict_get_or_def Let_def split: option.splits)
qed

lemma check_signature_signed:
  "snd (check_signature env digest (PDict [(''algorithm'', PStr SIGNATURE_ALGORITHM), (''key_id'', PStr kid), (''value'', PStr v)]) key req) = []
    \<longleftrightarrow> v \<noteq> [] \<and> (\<exists>k. given key = Some k \<and> v = sign_manifest_digest env digest k)"
  by (auto simp: check_signature_def dict_get_or_def Let_def split: option.splits)

section \<open>Properties of manifests\<close>

text \<open>C18: A manifest that was built for some files verifies exactly when every listed file is there with the content its hash was taken of,
  the digest is the expected one if one is given, and the signature fits: a signed manifest needs a key that gives the same
  signature, an unsigned one passes unless a signature is required, also when a key was given.\<close>

theorem built_manifest_verifies:
  assumes "hs \<noteq> []" and "\<And>t. au_sha env t \<noteq> []" and "\<And>k t. au_hmac env k t \<noteq> []"
    and m_def: "m = build_manifest env gen db runs hs kid key"
  shows "vr_verified (verify_bundle_manifest env files m vkey req anchor) \<longleftrightarrow>
     (\<forall>(k, h)\<in>set hs. \<exists>bytes. files k = Some bytes \<and> au_sha env bytes = h)
     \<and> (\<forall>x. given anchor = Some x \<longrightarrow> manifest_field env m ''manifest_sha256'' = x)
     \<and> (case given key of None \<Rightarrow> \<not> req
        | Some k \<Rightarrow> \<exists>k'. given vkey = Some k' \<and> au_hmac env k (manifest_field env m ''manifest_sha256'') = au_hmac env k' (manifest_field env m ''manifest_sha256''))"
proof -
  let ?d = "manifest_field env m ''manifest_sha256''"
  have d: "?d = compute_manifest_digest env (core_of env m)" "?d \<noteq> []"
    using build_fields(3) [of env gen db runs hs kid key] assms(2) by (simp_all add: m_def compute_manifest_digest_def sha256_bytes_def)
  have l: "listed env m = sort hs" using build_fields(1) by (simp add: m_def)
  then have "sort hs \<noteq> []" using assms(1) by (metis set_empty set_sort)
  moreover have "snd (check_signature env ?d (dict_get_or m ''signature'' PNone) vkey req) = [] \<longleftrightarrow> (case given key of None \<Rightarrow> \<not> req
      | Some k \<Rightarrow> \<exists>k'. given vkey = Some k' \<and> au_hmac env k ?d = au_hmac env k' ?d)"
    using build_fields(4) [of env gen db runs hs kid key] check_signature_signed assms(3) d(1)
    by (auto simp: m_def sign_manifest_digest_def check_signature_def split: option.splits)
  ultimately show ?thesis using d(2) unfolding verified_iff l d(1) [symmetric] by auto
qed


text \<open>Concrete arguments: a hash that is no better than the text itself, and an encoding of the file hashes.\<close>

definition enc_text :: "string \<Rightarrow> string" where
  "enc_text s = replicate (length s) CHR ''1'' @ CHR ''0'' # s"

fun enc_hashes :: "(string, string) dict \<Rightarrow> string" where
  "enc_hashes [] = ''0''"
| "enc_hashes ((k, v) # hs) = CHR ''1'' # enc_text k @ enc_text v @ enc_hashes hs"

lemma enc_text_inj: "enc_text s @ x = enc_text t @ y \<longleftrightarrow> s = t \<and> x = y"
proof
  assume e: "enc_text s @ x = enc_text t @ y"
  have "takeWhile (\<lambda>c. c = CHR ''1'') (enc_text u @ z) = replicate (length u) CHR ''1''" for u z by (simp add: enc_text_def takeWhile_append)
  then have "length s = length t" using arg_cong [OF e, of "takeWhile (\<lambda>c. c = CHR ''1'')"] by (metis length_replicate)
  then show "s = t \<and> x = y" using e by (simp add: enc_text_def)
qed simp

lemma enc_hashes_inj: "enc_hashes a = enc_hashes b \<Longrightarrow> a = b"
proof (induction a arbitrary: b rule: enc_hashes.induct)
  case 1
  then show ?case by (cases b rule: enc_hashes.cases) auto
next
  case (2 k v hs)
  then show ?case by (cases b rule: enc_hashes.cases) (auto simp: enc_text_inj)
qed

definition sample_audit :: audit_env where
  "sample_audit = \<lparr>au_json = (\<lambda>v. case v of PDict d \<Rightarrow> (case dict_get_or d ''file_hashes'' PNone of
       PDict h \<Rightarrow> enc_hashes (map (\<lambda>(k, v). (k, case v of PStr t \<Rightarrow> t | _ \<Rightarrow> [])) h) | _ \<Rightarrow> []) | _ \<Rightarrow> []),
     au_sha = (\<lambda>t. CHR ''#'' # t), au_hmac = (\<lambda>k t. CHR ''!'' # k @ t), au_float = (\<lambda>_. ''0.5'')\<rparr>"

definition sample_manifest :: "string option \<Rightarrow> (string, pyval) dict" where
  "sample_manifest key = build_manifest sample_audit ''2026'' ''state.db'' [''run_1''] [(''a.json'', ''#{}'')] None key"

lemma sample_json:
  assumes "au_json sample_audit (PDict a) = au_json sample_audit (PDict b)" and "dict_get_or a ''file_hashes'' PNone = hash_dict h"
    and "dict_get_or b ''file_hashes'' PNone = hash_dict h'"
  shows "sort h = sort h'"
proof -
  have "map ((\<lambda>(k, v). (k, case v of PStr t \<Rightarrow> t | _ \<Rightarrow> [])) \<circ> (\<lambda>(k, v). (k, PStr v))) xs = xs" for xs :: "(string, string) dict"
    by (simp add: comp_def case_prod_unfold)
  then have "enc_hashes (sort h) = enc_hashes (sort h')" using assms by (simp add: sample_audit_def hash_dict_def)
  then show ?thesis by (rule enc_hashes_inj)
qed

text \<open>The encoding can be read back.\<close>

definition dec_text :: "string \<Rightarrow> string \<times> string" where
  "dec_text s = (let n = length (takeWhile (\<lambda>c. c = CHR ''1'') s); rest = drop (Suc n) s in (take n rest, drop n rest))"

function dec_hashes :: "string \<Rightarrow> (string, string) dict" where
  "dec_hashes s = (if s = [] \<or> hd s \<noteq> CHR ''1'' then []
     else let (k, r) = dec_text (tl s); (v, r') = dec_text r in (k, v) # dec_hashes r')"
  by auto
termination
  by (relation "measure length") (auto simp: dec_text_def Let_def length_greater_0_conv [symmetric] simp del: length_greater_0_conv)

declare dec_hashes.simps [simp del]

lemma dec_enc_text: "dec_text (enc_text s @ x) = (s, x)"
proof -
  have "takeWhile (\<lambda>c. c = CHR ''1'') (enc_text s @ x) = replicate (length s) CHR ''1''" by (simp add: enc_text_def takeWhile_append)
  then show ?thesis by (simp add: dec_text_def enc_text_def Let_def)
qed

lemma dec_enc_hashes: "dec_hashes (enc_hashes hs) = hs"
  by (induction hs rule: enc_hashes.induct) (subst dec_hashes.simps, simp add: dec_enc_text)+

lemma sample_dumps:
  "au_json sample_audit (PDict (build_manifest env gen db runs hs kid key)) \<noteq> ''{}''
   \<and> build_manifest env gen db runs (dec_hashes (au_json sample_audit (PDict (build_manifest env gen db runs hs kid key)))) kid key = build_manifest env gen db runs hs kid key"
proof -
  have h: "dict_get_or (build_manifest env gen db runs hs kid key) ''file_hashes'' PNone = hash_dict hs"
    by (auto simp: build_manifest_def manifest_core_def dict_get_or_def Let_def split: option.splits)
  have "map ((\<lambda>(k, v). (k, case v of PStr t \<Rightarrow> t | _ \<Rightarrow> [])) \<circ> (\<lambda>(k, v). (k, PStr v))) xs = xs" for xs :: "(string, string) dict"
    by (simp add: comp_def case_prod_unfold)
  then have e: "au_json sample_audit (PDict (build_manifest env gen db runs hs kid key)) = enc_hashes (sort hs)"
    using h by (simp add: sample_audit_def hash_dict_def)
  have "enc_hashes xs \<noteq> ''{}''" for xs by (cases xs rule: enc_hashes.cases) auto
  moreover have "hash_dict (sort hs) = hash_dict hs" by (simp add: hash_dict_def sorted_sort_id)
  ultimately show ?thesis unfolding e dec_enc_hashes by (simp add: build_manifest_def manifest_core_def Let_def)
qed

theorem built_manifest_verifies_witness:
  "vr_verified (verify_bundle_manifest sample_audit [''a.json'' \<mapsto> ''{}''] (sample_manifest None) (Some ''key'') False None)
   \<and> \<not> vr_verified (verify_bundle_manifest sample_audit [''a.json'' \<mapsto> ''{}''] (sample_manifest (Some ''key'')) (Some ''other'') False None)"
proof -
  have c: "[(''a.json'', ''#{}'')] \<noteq> []" "\<And>t. au_sha sample_audit t \<noteq> []" "\<And>k t. au_hmac sample_audit k t \<noteq> []"
    by (simp_all add: sample_audit_def)
  show ?thesis
    using built_manifest_verifies [OF c sample_manifest_def [of None], of "[''a.json'' \<mapsto> ''{}'']" "Some ''key''" False None]
      built_manifest_verifies [OF c sample_manifest_def [of "Some ''key''"], of "[''a.json'' \<mapsto> ''{}'']" "Some ''other''" False None]
    by (simp add: given_def) (simp add: sample_audit_def)
qed


end
