(* ===== verification/EAP_State_Backup.thy ===== *)
theory EAP_State_Backup
  imports EAP_Audit EAP_Paths
begin

text \<open>
  Backup and restore of the state database, \<^verbatim>\<open>src/scripts/eap_state_backup.py\<close>, over a tree of files: a path is
  its list of names, a directory exists while a file is below it, symbolic links do not occur. What SQLite makes of a
  database file (its tables, a consistent copy of it, the recent run ids), the two export scripts (the files they write, or
  failure), JSON texts and the clock are arguments. Printing is not modelled.
\<close>

section \<open>Files\<close>

type_synonym tree = "(fspath, string) dict"

definition is_file :: "tree \<Rightarrow> fspath \<Rightarrow> bool" where
  "is_file fs p = (map_of fs p \<noteq> None)"

definition is_dir :: "tree \<Rightarrow> fspath \<Rightarrow> bool" where
  "is_dir fs p = list_ex (\<lambda>(q, _). strict_prefix p q) fs"

definition there :: "tree \<Rightarrow> fspath \<Rightarrow> bool" where
  "there fs p = (is_file fs p \<or> is_dir fs p)"

definition rmtree :: "fspath \<Rightarrow> tree \<Rightarrow> tree" where
  "rmtree d fs = filter (\<lambda>(q, _). \<not> prefix d q) fs"

definition write_file :: "fspath \<Rightarrow> string \<Rightarrow> tree \<Rightarrow> tree" where
  "write_file p text fs = dict_set p text fs"

definition write_all :: "fspath \<Rightarrow> tree \<Rightarrow> tree \<Rightarrow> tree" where
  "write_all d files fs = fold (\<lambda>(q, text). write_file (d @ q) text) files fs"

definition moved_path :: "fspath \<Rightarrow> fspath \<Rightarrow> fspath \<Rightarrow> fspath" where
  "moved_path a b q = (if prefix a q then b @ drop (length a) q else q)"

definition move_tree :: "fspath \<Rightarrow> fspath \<Rightarrow> tree \<Rightarrow> tree" where
  "move_tree a b fs = map (\<lambda>(q, text). (moved_path a b q, text)) fs"

definition files_below :: "fspath \<Rightarrow> tree \<Rightarrow> tree" where
  \<comment> \<open>with paths relative to the directory\<close>
  "files_below d fs = map (\<lambda>(q, text). (drop (length d) q, text)) (filter (\<lambda>(q, _). strict_prefix d q) fs)"

definition bundle_file :: "tree \<Rightarrow> fspath \<Rightarrow> string \<Rightarrow> string option" where
  \<comment> \<open>\<open>bundle_dir / filename\<close>\<close>
  "bundle_file fs d filename = map_of fs (normpath (if startswith filename ''/'' then [] else d) (py_split (CHR ''/'') filename))"

section \<open>Errors, arguments and the state database\<close>

datatype backup_error = DbMissing | BackupExists | NotADatabase | MissingTables "string list" | ScriptFailed
  | SelfVerification "audit_error list" | BackupNotFound | BadManifest | BadMetadata | VerificationFailed "audit_error list"
  | DiagnosticsExist | TargetExists | TargetIsDirectory

record backup_env =
  be_audit :: audit_env
  be_tables :: "string \<Rightarrow> string list option"
  be_copy :: "string \<Rightarrow> string"
  be_run_ids :: "string \<Rightarrow> string list"
  be_telemetry :: "string \<Rightarrow> tree option"
  be_bundle :: "string \<Rightarrow> tree option"
  be_metadata :: "string \<Rightarrow> string"
  be_report :: string
  be_dumps :: "pyval \<Rightarrow> string"
  be_loads :: "string \<Rightarrow> pyval option"
  be_now :: string

record backup_args =
  ba_db :: fspath
  ba_root :: fspath
  ba_name :: string
  ba_overwrite :: bool
  ba_dry_run :: bool
  ba_signing_key :: "string option"
  ba_signer_key_id :: string

record restore_args =
  ra_dir :: fspath
  ra_db :: fspath
  ra_force :: bool
  ra_skip_verify :: bool
  ra_require_signature :: bool
  ra_signing_key :: "string option"
  ra_diagnostics :: fspath
  ra_skip_diagnostics :: bool
  ra_report_path :: fspath
  ra_slug :: string

definition REQUIRED_TABLES :: "string list" where
  "REQUIRED_TABLES = [''execution_trace_events'', ''execution_run_summaries'', ''execution_run_checkpoints'',
     ''execution_run_diagnostics'', ''conversation_sessions'', ''conversation_turns'']"

definition validate_state_db :: "backup_env \<Rightarrow> tree \<Rightarrow> fspath \<Rightarrow> backup_error + unit" where
  "validate_state_db env fs p = (case map_of fs p of
     None \<Rightarrow> Inl DbMissing
   | Some db \<Rightarrow> (case be_tables env db of
       None \<Rightarrow> Inl NotADatabase
     | Some tables \<Rightarrow> let missing = filter (\<lambda>t. t \<notin> set tables) REQUIRED_TABLES in if missing \<noteq> [] then Inl (MissingTables missing) else Inr ()))"

section \<open>Backup\<close>

definition state_path :: fspath where
  "state_path = [''state'', ''agent_state.db'']"

definition relative_file_hashes :: "backup_env \<Rightarrow> tree \<Rightarrow> fspath \<Rightarrow> (string, string) dict" where
  "relative_file_hashes env fs d =
     sort (map (\<lambda>(q, text). (join ''/'' q, sha256_file (be_audit env) text)) (filter (\<lambda>(q, _). last q \<noteq> ''backup_manifest.json'') (files_below d fs)))"

definition backup_manifest :: "backup_env \<Rightarrow> backup_args \<Rightarrow> string \<Rightarrow> (string, string) dict \<Rightarrow> (string, pyval) dict" where
  "backup_manifest env args snapshot file_hashes = build_manifest (be_audit env) (be_now env) (join ''/'' ([] # ba_db args)) (be_run_ids env snapshot)
     file_hashes (Some (ba_signer_key_id args)) (ba_signing_key args)"

definition fill_backup :: "backup_env \<Rightarrow> backup_args \<Rightarrow> string \<Rightarrow> fspath \<Rightarrow> tree \<Rightarrow> (backup_error + unit) \<times> tree" where
  "fill_backup env args source temp fs =
     (let snapshot = be_copy env source; fs1 = write_file (temp @ state_path) snapshot fs in
      case validate_state_db env fs1 (temp @ state_path) of Inl e \<Rightarrow> (Inl e, fs1) | Inr _ \<Rightarrow>
      (case be_telemetry env snapshot of None \<Rightarrow> (Inl ScriptFailed, fs1) | Some telemetry \<Rightarrow>
       let fs2 = write_all (temp @ [''diagnostics'', ''telemetry'']) telemetry fs1 in
       (case be_bundle env snapshot of None \<Rightarrow> (Inl ScriptFailed, fs2) | Some exported \<Rightarrow>
        let fs3 = write_all (temp @ [''diagnostics'', ''audit_bundle'']) exported fs2;
            fs4 = write_file (temp @ [''backup_metadata.json'']) (be_metadata env snapshot) fs3;
            file_hashes = relative_file_hashes env fs4 temp;
            manifest = backup_manifest env args snapshot file_hashes;
            fs5 = write_file (temp @ [''backup_manifest.json'']) (be_dumps env (PDict manifest)) fs4;
            verification = verify_bundle_manifest (be_audit env) (bundle_file fs5 temp) manifest (ba_signing_key args)
              (given (ba_signing_key args) \<noteq> None) None
        in (if vr_verified verification then Inr () else Inl (SelfVerification (vr_errors verification)), fs5))))"

definition backup_dir :: "backup_args \<Rightarrow> fspath" where
  "backup_dir args = ba_root args @ [ba_name args]"

definition temp_dir :: "backup_args \<Rightarrow> fspath" where
  "temp_dir args = ba_root args @ [ba_name args @ ''.tmp'']"

definition backup :: "backup_env \<Rightarrow> backup_args \<Rightarrow> tree \<Rightarrow> (backup_error + unit) \<times> tree" where
  "backup env args fs = (case map_of fs (ba_db args) of
     None \<Rightarrow> (Inl DbMissing, fs)
   | Some source \<Rightarrow>
       if ba_dry_run args then (validate_state_db env fs (ba_db args), fs)
       else if there fs (backup_dir args) \<and> \<not> ba_overwrite args then (Inl BackupExists, fs)
       else let fs1 = rmtree (backup_dir args) fs; fs2 = rmtree (temp_dir args) fs1 in
         (case fill_backup env args source (temp_dir args) fs2 of
            (Inl e, fs3) \<Rightarrow> (Inl e, rmtree (temp_dir args) fs3)
          | (Inr _, fs3) \<Rightarrow> (Inr (), move_tree (temp_dir args) (backup_dir args) fs3)))"

section \<open>Restore\<close>

definition load_json :: "backup_env \<Rightarrow> tree \<Rightarrow> fspath \<Rightarrow> backup_error \<Rightarrow> backup_error + (string, pyval) dict" where
  "load_json env fs p err = (case map_of fs p of None \<Rightarrow> Inl err
     | Some text \<Rightarrow> (case be_loads env text of Some (PDict d) \<Rightarrow> Inr d | _ \<Rightarrow> Inl err))"

definition with_suffix :: "fspath \<Rightarrow> string \<Rightarrow> fspath" where
  \<comment> \<open>\<open>p.with_name(p.name + suffix)\<close>\<close>
  "with_suffix p added = butlast p @ [last p @ added]"

definition diagnostics_dest :: "restore_args \<Rightarrow> fspath" where
  "diagnostics_dest args = ra_diagnostics args @ [last (ra_dir args)]"

definition checked_snapshot :: "backup_env \<Rightarrow> restore_args \<Rightarrow> tree \<Rightarrow> backup_error + unit" where
  \<comment> \<open>everything \<open>_restore\<close> checks before it writes\<close>
  "checked_snapshot env args fs =
     bindR (raise_if (\<not> is_dir fs (ra_dir args)) BackupNotFound) (\<lambda>_.
     bindR (load_json env fs (ra_dir args @ [''backup_manifest.json'']) BadManifest) (\<lambda>manifest.
     bindR (load_json env fs (ra_dir args @ [''backup_metadata.json'']) BadMetadata) (\<lambda>metadata.
     bindR (let result = verify_bundle_manifest (be_audit env) (bundle_file fs (ra_dir args)) manifest (ra_signing_key args) (ra_require_signature args) None
        in raise_if (\<not> ra_skip_verify args \<and> \<not> vr_verified result) (VerificationFailed (vr_errors result))) (\<lambda>_.
     bindR (validate_state_db env fs (ra_dir args @ state_path)) (\<lambda>_.
     bindR (raise_if (is_dir fs (ra_dir args @ [''diagnostics'']) \<and> \<not> ra_skip_diagnostics args
         \<and> there fs (diagnostics_dest args) \<and> \<not> ra_force args) DiagnosticsExist) (\<lambda>_.
     bindR (raise_if (there fs (ra_db args) \<and> \<not> ra_force args) TargetExists) (\<lambda>_.
       raise_if (is_dir fs (ra_db args)) TargetIsDirectory)))))))"

definition rollback_path :: "restore_args \<Rightarrow> fspath" where
  "rollback_path args = with_suffix (ra_db args) (''.pre_restore.'' @ ra_slug args @ ''.bak'')"

definition replace_db :: "restore_args \<Rightarrow> string \<Rightarrow> tree \<Rightarrow> tree" where
  "replace_db args snapshot fs =
     (let fs1 = (case map_of fs (ra_db args) of None \<Rightarrow> fs | Some old \<Rightarrow> write_file (rollback_path args) old fs)
      in write_file (ra_db args) snapshot (AList.delete (with_suffix (ra_db args) ''.restoring'') fs1))"

definition copy_diagnostics :: "restore_args \<Rightarrow> tree \<Rightarrow> tree" where
  "copy_diagnostics args fs = write_all (diagnostics_dest args) (files_below (ra_dir args @ [''diagnostics'']) fs) (rmtree (diagnostics_dest args) fs)"

definition restore :: "backup_env \<Rightarrow> restore_args \<Rightarrow> tree \<Rightarrow> (backup_error + unit) \<times> tree" where
  "restore env args fs = (case checked_snapshot env args fs of Inl e \<Rightarrow> (Inl e, fs) | Inr _ \<Rightarrow>
     (let fs1 = replace_db args (the (map_of fs (ra_dir args @ state_path))) fs
      in case validate_state_db env fs1 (ra_db args) of Inl e \<Rightarrow> (Inl e, fs1) | Inr _ \<Rightarrow>
        (let fs2 = (if is_dir fs (ra_dir args @ [''diagnostics'']) \<and> \<not> ra_skip_diagnostics args then copy_diagnostics args fs1 else fs1)
         in (Inr (), write_file (ra_report_path args) (be_report env) fs2))))"

section \<open>Trees\<close>

lemma map_of_rmtree: "map_of (rmtree d fs) p = (if prefix d p then None else map_of fs p)"
  by (induction fs) (auto simp: rmtree_def)

lemma map_of_write_file [simp]: "map_of (write_file p text fs) = (map_of fs)(p \<mapsto> text)"
  by (simp add: write_file_def)

lemma write_all_frame: "\<not> prefix d p \<Longrightarrow> map_of (write_all d files fs) p = map_of fs p"
  unfolding write_all_def by (induction files arbitrary: fs) (auto simp: prefix_def split: prod.splits)

lemma keys_write_file: "set (map fst (write_file p text fs)) = insert p (set (map fst fs))"
  unfolding write_file_def by (rule dict_keys_set)

lemma keys_write_all: "q \<in> set (map fst (write_all d files fs)) \<longleftrightarrow> q \<in> set (map fst fs) \<or> (\<exists>r\<in>set (map fst files). q = d @ r)"
proof (induction files arbitrary: fs)
  case (Cons f files)
  have e: "write_all d (f # files) fs = write_all d files (write_file (d @ fst f) (snd f) fs)" by (simp add: write_all_def case_prod_unfold)
  show ?case unfolding e Cons keys_write_file by auto
qed (simp add: write_all_def)

lemma moved_key:
  assumes "\<not> prefix b q"
  shows "moved_path a b q = b @ r \<longleftrightarrow> q = a @ r" "\<not> prefix a p \<Longrightarrow> \<not> prefix b p \<Longrightarrow> moved_path a b q = p \<longleftrightarrow> q = p"
  using assms by (auto simp: moved_path_def prefix_def)

lemma map_of_move_tree:
  assumes "\<forall>q\<in>set (map fst fs). \<not> prefix b q"
  shows "map_of (move_tree a b fs) (b @ r) = map_of fs (a @ r)"
    "\<not> prefix a p \<Longrightarrow> \<not> prefix b p \<Longrightarrow> map_of (move_tree a b fs) p = map_of fs p"
  using assms by (induction fs) (auto simp: move_tree_def moved_key eq_commute [of _ "moved_path a b _"])

lemma is_dir_iff: "is_dir fs p \<longleftrightarrow> (\<exists>q\<in>set (map fst fs). strict_prefix p q)"
  by (force simp: is_dir_def list_ex_iff)

lemma keys_rmtree: "q \<in> set (map fst (rmtree d fs)) \<longleftrightarrow> q \<in> set (map fst fs) \<and> \<not> prefix d q"
  by (force simp: rmtree_def)

lemma there_rmtree: "\<not> there (rmtree d fs) d"
proof -
  have "map_of (rmtree d fs) d = None" by (simp add: map_of_rmtree)
  moreover have "\<not> is_dir (rmtree d fs) d" unfolding is_dir_iff keys_rmtree Bex_def by (auto simp: keys_rmtree)
  ultimately show ?thesis by (simp add: there_def is_file_def)
qed

lemma not_there: "\<forall>q\<in>set (map fst fs). \<not> prefix d q \<Longrightarrow> \<not> there fs d"
  unfolding there_def is_file_def is_dir_iff dict_has_iff by (auto simp: strict_prefix_def simp del: set_map)

lemma is_dir_file: "map_of fs (p @ [n]) = Some text \<Longrightarrow> is_dir fs p"
  by (force simp: is_dir_iff strict_prefix_def dest: map_of_SomeD)

section \<open>Restore\<close>

lemma validate_same: "map_of fs p = map_of fs' q \<Longrightarrow> validate_state_db env fs p = validate_state_db env fs' q"
  by (simp add: validate_state_db_def)

lemma validate_snapshot: "validate_state_db env fs p = Inr u \<Longrightarrow> \<exists>db. map_of fs p = Some db"
  by (auto simp: validate_state_db_def split: option.splits)

lemma checked_facts:
  assumes "checked_snapshot env args fs = Inr u"
  obtains manifest metadata where "validate_state_db env fs (ra_dir args @ state_path) = Inr ()"
    "load_json env fs (ra_dir args @ [''backup_manifest.json'']) BadManifest = Inr manifest"
    "ra_skip_verify args \<or> vr_verified (verify_bundle_manifest (be_audit env) (bundle_file fs (ra_dir args)) manifest (ra_signing_key args)
       (ra_require_signature args) None)"
    "there fs (ra_db args) \<Longrightarrow> ra_force args"
  using assms by (auto simp: checked_snapshot_def res_simps Let_def)

lemma replaced_db:
  "map_of (replace_db args snapshot fs) (ra_db args) = Some snapshot"
  "map_of fs (ra_db args) = Some old \<Longrightarrow> map_of (replace_db args snapshot fs) (rollback_path args) = Some old"
proof -
  show "map_of (replace_db args snapshot fs) (ra_db args) = Some snapshot" by (simp add: replace_db_def Let_def)
  have "rollback_path args \<noteq> with_suffix (ra_db args) ''.restoring''" by (simp add: rollback_path_def with_suffix_def)
  moreover have "last (rollback_path args) \<noteq> last (ra_db args)" by (simp add: rollback_path_def with_suffix_def)
  ultimately show "map_of (replace_db args snapshot fs) (rollback_path args) = Some old" if "map_of fs (ra_db args) = Some old"
    using that by (auto simp: replace_db_def Let_def delete_conv)
qed


section \<open>Names in a manifest\<close>

definition clean_path :: "fspath \<Rightarrow> bool" where
  "clean_path p \<longleftrightarrow> p \<noteq> [] \<and> (\<forall>w\<in>set p. proper_name w \<and> CHR ''/'' \<notin> set w)"

lemma py_split_word: "c \<notin> set w \<Longrightarrow> py_split c w = [w]" "c \<notin> set w \<Longrightarrow> py_split c (w @ c # s) = w # py_split c s"
  by (induction w) auto

lemma join_Cons: "join sep (x # y # ys) = x @ sep @ join sep (y # ys)"
  by (simp add: join_def)

lemma py_split_join: "ws \<noteq> [] \<Longrightarrow> \<forall>w\<in>set ws. c \<notin> set w \<Longrightarrow> py_split c (join [c] ws) = ws"
proof (induction ws)
  case (Cons w ws)
  then show ?case by (cases ws) (simp_all add: join_Cons py_split_word, simp add: join_def py_split_word)
qed simp

lemma normpath_proper: "\<forall>w\<in>set p. proper_name w \<Longrightarrow> normpath d p = d @ p"
  by (induction p arbitrary: d) (auto simp: proper_name_def)

lemma bundle_file_clean:
  assumes "clean_path p"
  shows "bundle_file fs d (join ''/'' p) = map_of fs (d @ p)"
proof -
  obtain w ws where p: "p = w # ws" "proper_name w" "CHR ''/'' \<notin> set w" using assms by (cases p) (auto simp: clean_path_def)
  then obtain x xs where "w = x # xs" "x \<noteq> CHR ''/''" by (cases w) (auto simp: proper_name_def skip_name_def)
  then have "\<not> startswith (join ''/'' p) ''/''" using p(1) by (cases ws) (auto simp: join_def startswith_def)
  then show ?thesis using assms py_split_join [of p "CHR ''/''"] normpath_proper [of p d] by (simp add: bundle_file_def clean_path_def)
qed

lemma verified_transfer:
  assumes "vr_verified (verify_bundle_manifest env files m key (given key \<noteq> None) None)"
    and "m = build_manifest env gen db runs hs kid key" and "map_of m' = map_of m" and "req \<Longrightarrow> given key \<noteq> None"
    and "\<And>k h. (k, h) \<in> set hs \<Longrightarrow> files' k = files k"
  shows "vr_verified (verify_bundle_manifest env files' m' key req None)"
proof -
  have g: "dict_get_or m' = dict_get_or m" using assms(3) by (simp add: dict_get_or_def fun_eq_iff)
  then have e: "listed env m' = listed env m" "manifest_field env m' = manifest_field env m" "core_of env m' = core_of env m"
    by (simp_all add: listed_def manifest_field_def core_of_def fun_eq_iff)
  have l: "set (listed env m) = set hs" using build_fields(1) [of env gen db runs hs kid key] assms(2) by simp
  have "snd (check_signature env d (dict_get_or m ''signature'' PNone) key req) = []"
    if "snd (check_signature env d (dict_get_or m ''signature'' PNone) key (given key \<noteq> None)) = []" for d
    using that assms(4) build_fields(4) [of env gen db runs hs kid key] assms(2)
    by (cases "given key") (auto simp: check_signature_def)
  then show ?thesis using assms(1,5) unfolding verified_iff e g l by force
qed

section \<open>Backup\<close>

lemma fill_frame:
  assumes "fill_backup env args source temp fs = (res, fs')" and "\<not> prefix temp p"
  shows "map_of fs' p = map_of fs p"
proof -
  have "p \<noteq> temp @ q" "\<not> prefix (temp @ q) p" for q using assms(2) by (auto simp: prefix_def)
  then show ?thesis using assms(1) by (auto simp: fill_backup_def Let_def write_all_frame split: sum.splits option.splits)
qed

lemma fill_keys:
  assumes "fill_backup env args source temp fs = (res, fs')" and "q \<in> set (map fst fs')"
  shows "q \<in> set (map fst fs) \<or> prefix temp q"
  using assms by (auto simp: fill_backup_def Let_def keys_write_file keys_write_all simp del: set_map split: sum.splits option.splits)

definition filled :: "fspath \<Rightarrow> string \<Rightarrow> string \<Rightarrow> tree \<Rightarrow> tree \<Rightarrow> tree \<Rightarrow> tree" where
  \<comment> \<open>the files of a backup before its manifest\<close>
  "filled temp snapshot metadata telemetry exported fs = write_file (temp @ [''backup_metadata.json'']) metadata
     (write_all (temp @ [''diagnostics'', ''audit_bundle'']) exported (write_all (temp @ [''diagnostics'', ''telemetry'']) telemetry
       (write_file (temp @ state_path) snapshot fs)))"

lemma fill_Inr:
  assumes "fill_backup env args source temp fs = (Inr (), fs')"
  obtains telemetry exported manifest where "be_telemetry env (be_copy env source) = Some telemetry" "be_bundle env (be_copy env source) = Some exported"
    "validate_state_db env (write_file (temp @ state_path) (be_copy env source) fs) (temp @ state_path) = Inr ()"
    "manifest = backup_manifest env args (be_copy env source)
       (relative_file_hashes env (filled temp (be_copy env source) (be_metadata env (be_copy env source)) telemetry exported fs) temp)"
    "fs' = write_file (temp @ [''backup_manifest.json'']) (be_dumps env (PDict manifest))
       (filled temp (be_copy env source) (be_metadata env (be_copy env source)) telemetry exported fs)"
    "vr_verified (verify_bundle_manifest (be_audit env) (bundle_file fs' temp) manifest (ba_signing_key args) (given (ba_signing_key args) \<noteq> None) None)"
  using assms by (auto simp: fill_backup_def filled_def Let_def split: sum.splits option.splits if_splits)

lemma filled_clean:
  assumes "\<forall>q\<in>set (map fst fs). \<not> prefix temp q" and "\<forall>q\<in>set (map fst telemetry) \<union> set (map fst exported). clean_path q"
    and "q \<in> set (map fst (filled temp snapshot metadata telemetry exported fs))" and "prefix temp q"
  shows "clean_path (drop (length temp) q)"
proof -
  have "clean_path state_path" "clean_path [''backup_metadata.json'']" by code_simp+
  moreover have "clean_path ([''diagnostics'', n] @ r)" if "clean_path r" "n = ''telemetry'' \<or> n = ''audit_bundle''" for n r
  proof -
    have "clean_path [''diagnostics'', ''telemetry'']" "clean_path [''diagnostics'', ''audit_bundle'']" by code_simp+
    then show ?thesis using that by (auto simp: clean_path_def)
  qed
  moreover have "q = temp @ state_path \<or> q = temp @ [''backup_metadata.json'']
      \<or> (\<exists>r\<in>set (map fst telemetry). q = (temp @ [''diagnostics'', ''telemetry'']) @ r) \<or> (\<exists>r\<in>set (map fst exported). q = (temp @ [''diagnostics'', ''audit_bundle'']) @ r)"
    using assms(1,3,4) unfolding filled_def by (auto simp: keys_write_file keys_write_all simp del: set_map)
  ultimately show ?thesis using assms(2) by (auto simp del: set_map simp: ball_Un)
qed

lemma filled_files:
  "map_of (filled temp snapshot metadata telemetry exported fs) (temp @ state_path) = Some snapshot"
  "map_of (filled temp snapshot metadata telemetry exported fs) (temp @ [''backup_metadata.json'']) = Some metadata"
  by (simp_all add: filled_def state_path_def write_all_frame)

lemma relative_names:
  assumes "(k, h) \<in> set (relative_file_hashes env fs d)"
  shows "\<exists>q\<in>set (map fst fs). strict_prefix d q \<and> k = join ''/'' (drop (length d) q)"
  using assms by (force simp: relative_file_hashes_def files_below_def)

lemma fill_success:
  assumes "fill_backup env args source temp fs = (Inr (), fs')" and "\<forall>q\<in>set (map fst fs). \<not> prefix temp q"
    and "\<And>files. be_telemetry env (be_copy env source) = Some files \<or> be_bundle env (be_copy env source) = Some files
      \<Longrightarrow> \<forall>q\<in>set (map fst files). clean_path q"
  obtains hs where
    "map_of fs' (temp @ [''backup_manifest.json'']) = Some (be_dumps env (PDict (backup_manifest env args (be_copy env source) hs)))"
    "vr_verified (verify_bundle_manifest (be_audit env) (bundle_file fs' temp) (backup_manifest env args (be_copy env source) hs)
       (ba_signing_key args) (given (ba_signing_key args) \<noteq> None) None)"
    "\<And>k h. (k, h) \<in> set hs \<Longrightarrow> \<exists>p. clean_path p \<and> k = join ''/'' p"
    "map_of fs' (temp @ state_path) = Some (be_copy env source)"
    "map_of fs' (temp @ [''backup_metadata.json'']) = Some (be_metadata env (be_copy env source))"
    "validate_state_db env fs' (temp @ state_path) = Inr ()"
proof -
  let ?snap = "be_copy env source"
  obtain telemetry exported manifest where f: "be_telemetry env ?snap = Some telemetry" "be_bundle env ?snap = Some exported"
    "validate_state_db env (write_file (temp @ state_path) ?snap fs) (temp @ state_path) = Inr ()"
    "manifest = backup_manifest env args ?snap (relative_file_hashes env (filled temp ?snap (be_metadata env ?snap) telemetry exported fs) temp)"
    "fs' = write_file (temp @ [''backup_manifest.json'']) (be_dumps env (PDict manifest)) (filled temp ?snap (be_metadata env ?snap) telemetry exported fs)"
    "vr_verified (verify_bundle_manifest (be_audit env) (bundle_file fs' temp) manifest (ba_signing_key args) (given (ba_signing_key args) \<noteq> None) None)"
    using fill_Inr [OF assms(1)] by metis
  let ?fs4 = "filled temp ?snap (be_metadata env ?snap) telemetry exported fs"
  have clean: "\<forall>q\<in>set (map fst telemetry) \<union> set (map fst exported). clean_path q" using assms(3) f(1,2) by blast
  have "\<exists>p. clean_path p \<and> k = join ''/'' p" if "(k, h) \<in> set (relative_file_hashes env ?fs4 temp)" for k h
    using relative_names [OF that] filled_clean [OF assms(2) clean] by (meson prefix_order.less_imp_le)
  moreover have s: "map_of fs' (temp @ state_path) = Some ?snap" "map_of fs' (temp @ [''backup_metadata.json'']) = Some (be_metadata env ?snap)"
    unfolding f(5) by (simp_all add: filled_files, simp add: state_path_def filled_files [unfolded state_path_def])
  moreover have "validate_state_db env fs' (temp @ state_path) = Inr ()"
    using f(3) validate_same [of fs' "temp @ state_path" "write_file (temp @ state_path) ?snap fs" "temp @ state_path"] s(1) by simp
  moreover have "map_of fs' (temp @ [''backup_manifest.json'']) = Some (be_dumps env (PDict manifest))" by (simp add: f(5))
  ultimately show thesis using that f(4,6) by metis
qed

lemma temp_and_dir: "\<not> prefix (temp_dir args) (backup_dir args @ p)" "\<not> prefix (backup_dir args) (temp_dir args @ p)"
  by (auto simp: temp_dir_def backup_dir_def prefix_def)

lemma dir_not_temp: "prefix (temp_dir args) q \<Longrightarrow> \<not> prefix (backup_dir args) q"
  using temp_and_dir(2) [of args] by (metis prefixE)

lemma backup_success:
  assumes "backup env args fs = (Inr (), fs1)" and "\<not> ba_dry_run args" and "map_of fs (ba_db args) = Some source"
  obtains fs3 where "fill_backup env args source (temp_dir args) (rmtree (temp_dir args) (rmtree (backup_dir args) fs)) = (Inr (), fs3)"
    "fs1 = move_tree (temp_dir args) (backup_dir args) fs3" "\<forall>q\<in>set (map fst fs3). \<not> prefix (backup_dir args) q"
proof -
  let ?fs2 = "rmtree (temp_dir args) (rmtree (backup_dir args) fs)"
  obtain fs3 where f: "fill_backup env args source (temp_dir args) ?fs2 = (Inr (), fs3)" "fs1 = move_tree (temp_dir args) (backup_dir args) fs3"
    using assms by (auto simp: backup_def Let_def split: if_splits prod.splits sum.splits)
  have "\<not> prefix (backup_dir args) q" if "q \<in> set (map fst fs3)" for q
  proof -
    have "q \<in> set (map fst ?fs2) \<or> prefix (temp_dir args) q" using fill_keys [OF f(1) that] .
    then show ?thesis using dir_not_temp by (auto simp: keys_rmtree simp del: set_map)
  qed
  then show thesis using that f by blast
qed

section \<open>Properties of backups\<close>


text \<open>C40: A backup that fails leaves every file outside its own two directories as it was, and nothing in the temporary one. With \<open>--overwrite\<close>
  the previous backup of the same name is gone by then: it is deleted before the new one has been made.\<close>

theorem failed_backup_effects:
  assumes "backup env args fs = (Inl e, fs')"
  shows "(\<forall>p. \<not> prefix (temp_dir args) p \<and> \<not> prefix (backup_dir args) p \<longrightarrow> map_of fs' p = map_of fs p)
    \<and> (fs' = fs \<or> (\<not> there fs' (temp_dir args) \<and> \<not> there fs' (backup_dir args)))
    \<and> (there fs (backup_dir args) \<and> fs' \<noteq> fs \<longrightarrow> ba_overwrite args)"
proof (cases "fs' = fs")
  case True
  then show ?thesis by simp
next
  case False
  let ?fs2 = "rmtree (temp_dir args) (rmtree (backup_dir args) fs)"
  obtain source fs3 where f: "fill_backup env args source (temp_dir args) ?fs2 = (Inl e, fs3)" "fs' = rmtree (temp_dir args) fs3"
      "there fs (backup_dir args) \<longrightarrow> ba_overwrite args"
    using assms False by (auto simp: backup_def Let_def split: option.splits if_splits prod.splits sum.splits)
  have "map_of fs' p = map_of fs p" if "\<not> prefix (temp_dir args) p \<and> \<not> prefix (backup_dir args) p" for p
    using that fill_frame [OF f(1), of p] f(2) by (simp add: map_of_rmtree)
  moreover have "\<not> prefix (backup_dir args) q" if "q \<in> set (map fst fs')" for q
    using that fill_keys [OF f(1), of q] by (auto simp: f(2) keys_rmtree simp del: set_map)
  then have "\<not> there fs' (backup_dir args)" by (simp add: not_there del: set_map)
  ultimately show ?thesis using there_rmtree [of "temp_dir args" fs3] f(2,3) by blast
qed

section \<open>Examples\<close>

definition sample_backup_env :: "bool \<Rightarrow> backup_env" where
  \<comment> \<open>the argument says whether the export of telemetry succeeds\<close>
  "sample_backup_env exports = \<lparr>be_audit = sample_audit, be_tables = (\<lambda>db. if db = ''db'' then Some REQUIRED_TABLES else None), be_copy = (\<lambda>db. db),
     be_run_ids = (\<lambda>_. [''run_1'']), be_telemetry = (\<lambda>_. if exports then Some [([''pack.json''], ''{}'')] else None),
     be_bundle = (\<lambda>_. Some [([''manifest.json''], ''{}'')]), be_metadata = (\<lambda>_. ''{}''), be_report = ''report'',
     be_dumps = (\<lambda>v. au_json sample_audit v),
     be_loads = (\<lambda>t. if t = ''{}'' then Some (PDict []) else Some (PDict (build_manifest sample_audit ''2026'' ''/db'' [''run_1''] (dec_hashes t) (Some ''ops'') (Some ''key'')))),
     be_now = ''2026''\<rparr>"

definition sample_backup_args :: backup_args where
  "sample_backup_args = \<lparr>ba_db = [''db''], ba_root = [''backups''], ba_name = ''b'', ba_overwrite = True, ba_dry_run = False,
     ba_signing_key = Some ''key'', ba_signer_key_id = ''ops''\<rparr>"

definition sample_restore_args :: restore_args where
  "sample_restore_args = \<lparr>ra_dir = [''backups'', ''b''], ra_db = [''db''], ra_force = True, ra_skip_verify = False, ra_require_signature = True,
     ra_signing_key = Some ''key'', ra_diagnostics = [''diag''], ra_skip_diagnostics = False, ra_report_path = [''report.json''], ra_slug = ''now''\<rparr>"

definition sample_tree :: tree where
  "sample_tree = [([''db''], ''db''), ([''backups'', ''b'', ''state'', ''agent_state.db''], ''old'')]"

theorem failed_backup_effects_witness:
  "there sample_tree [''backups'', ''b''] \<and> (\<exists>e fs'. backup (sample_backup_env False) sample_backup_args sample_tree = (Inl e, fs')
     \<and> \<not> there fs' [''backups'', ''b''] \<and> map_of fs' [''db''] = Some ''db'')"
proof -
  let ?r = "backup (sample_backup_env False) sample_backup_args sample_tree"
  have c: "there sample_tree [''backups'', ''b'']" "isl (fst ?r)" "snd ?r \<noteq> sample_tree" "backup_dir sample_backup_args = [''backups'', ''b'']"
    "\<not> prefix (temp_dir sample_backup_args) [''db'']" "\<not> prefix (backup_dir sample_backup_args) [''db'']" "map_of sample_tree [''db''] = Some ''db''"
    by code_simp+
  obtain e where "?r = (Inl e, snd ?r)" using c(2) by (cases ?r) (auto simp: isl_def)
  with failed_backup_effects [OF this] c show ?thesis by metis
qed



end
