(* ===== verification/EAP_Migrations.thy ===== *)
theory EAP_Migrations
  imports EAP_Prelude
begin

text \<open>
  The schema of the state database: the creation of its tables by \<open>StateManager._init_db\<close>
  (\<^verbatim>\<open>src/eap/protocol/state_manager.py\<close>) and \<open>SQLitePointerStore.initialize\<close>
  (\<^verbatim>\<open>storage/sqlite_store.py\<close>), and the versioned migrations of
  \<^verbatim>\<open>src/eap/protocol/migrations.py\<close> with the script \<^verbatim>\<open>migrate_state_db.py\<close>.

  A database is its tables, each with columns and rows, and its indexes; a row gives a value to some columns,
  the others are NULL. Of the statements the source sends, the model keeps what decides whether they succeed and
  what they change: names, columns and rows. Types and constraints of columns are left out. A connection
  follows the default of \<^verbatim>\<open>sqlite3\<close>: a transaction is opened by the first statement that
  changes rows, statements that change the schema run outside a transaction unless one is open, and leaving the
  \<open>with\<close> block commits or rolls back. What a crash leaves behind is the state of the last commit, \<open>durable\<close>.
\<close>

section \<open>SQL\<close>

datatype sql_value = SqlNull | SqlInt int | SqlText string

type_synonym sql_row = "(string, sql_value) dict"

record sql_table =
  tb_cols :: "string list"
  tb_rows :: "sql_row list"

record sql_db =
  db_tables :: "(string, sql_table) dict"
  db_indexes :: "(string, string \<times> string) dict"

datatype sql_error =
    TableMissing string
  | ColumnMissing string string
  | DuplicateColumn string string
  | NameTaken string

datatype sql_stmt =
    CreateTable string "string list"
  | CreateIndex string string string
  | AddColumn string string
  | FillNull string string string
  | SetVersion int string string

definition cell :: "sql_row \<Rightarrow> string \<Rightarrow> sql_value" where
  "cell r c = dict_get_or r c SqlNull"

definition with_table :: "sql_db \<Rightarrow> string \<Rightarrow> (sql_table \<Rightarrow> sql_error + 'a) \<Rightarrow> sql_error + 'a" where
  "with_table d t f = (case map_of (db_tables d) t of None \<Rightarrow> Inl (TableMissing t) | Some tb \<Rightarrow> f tb)"

definition put_table :: "string \<Rightarrow> sql_table \<Rightarrow> sql_db \<Rightarrow> sql_db" where
  "put_table t tb d = d\<lparr>db_tables := AList.update t tb (db_tables d)\<rparr>"

fun exec_sql :: "sql_db \<Rightarrow> sql_stmt \<Rightarrow> sql_error + sql_db" where
  "exec_sql d (CreateTable t cs) =
     (if dict_has (db_tables d) t then Inr d
      else if dict_has (db_indexes d) t then Inl (NameTaken t)
      else Inr (put_table t \<lparr>tb_cols = cs, tb_rows = []\<rparr> d))"
| "exec_sql d (CreateIndex i t c) = with_table d t (\<lambda>tb.
     if dict_has (db_tables d) i then Inl (NameTaken i)
     else if dict_has (db_indexes d) i then Inr d
     else if c \<notin> set (tb_cols tb) then Inl (ColumnMissing t c)
     else Inr (d\<lparr>db_indexes := AList.update i (t, c) (db_indexes d)\<rparr>))"
| "exec_sql d (AddColumn t c) = with_table d t (\<lambda>tb.
     if c \<in> set (tb_cols tb) then Inl (DuplicateColumn t c)
     else Inr (put_table t \<lparr>tb_cols = tb_cols tb @ [c], tb_rows = map (\<lambda>r. r @ [(c, SqlNull)]) (tb_rows tb)\<rparr> d))"
| "exec_sql d (FillNull t c v) = with_table d t (\<lambda>tb.
     if c \<notin> set (tb_cols tb) then Inl (ColumnMissing t c)
     else Inr (put_table t (tb\<lparr>tb_rows := map (\<lambda>r. if cell r c = SqlNull then AList.update c (SqlText v) r else r) (tb_rows tb)\<rparr>) d))"
| "exec_sql d (SetVersion v description applied_at) = with_table d ''schema_migrations'' (\<lambda>tb.
     case filter (\<lambda>c. c \<notin> set (tb_cols tb)) [''version'', ''description'', ''applied_at_utc''] of
       c # _ \<Rightarrow> Inl (ColumnMissing ''schema_migrations'' c)
     | [] \<Rightarrow> Inr (put_table ''schema_migrations'' (tb\<lparr>tb_rows := filter (\<lambda>r. cell r ''version'' \<noteq> SqlInt v) (tb_rows tb) @
         [[(''version'', SqlInt v), (''description'', SqlText description), (''applied_at_utc'', SqlText applied_at)]]\<rparr>) d))"

text \<open>Connections.\<close>

record sql_conn =
  cn_db :: sql_db
  cn_saved :: "sql_db option"

definition connect :: "sql_db \<Rightarrow> sql_conn" where
  "connect d = \<lparr>cn_db = d, cn_saved = None\<rparr>"

definition durable :: "sql_conn \<Rightarrow> sql_db" where
  "durable c = (case cn_saved c of None \<Rightarrow> cn_db c | Some d \<Rightarrow> d)"

fun opens_transaction :: "sql_stmt \<Rightarrow> bool" where
  "opens_transaction (FillNull _ _ _) = True"
| "opens_transaction (SetVersion _ _ _) = True"
| "opens_transaction _ = False"

definition run_sql :: "sql_conn \<Rightarrow> sql_stmt \<Rightarrow> (sql_error + unit) \<times> sql_conn" where
  "run_sql c st =
     (let c' = (if opens_transaction st \<and> cn_saved c = None then c\<lparr>cn_saved := Some (cn_db c)\<rparr> else c)
      in case exec_sql (cn_db c') st of Inl e \<Rightarrow> (Inl e, c') | Inr d \<Rightarrow> (Inr (), c'\<lparr>cn_db := d\<rparr>))"

fun execute_sql :: "sql_conn \<Rightarrow> sql_stmt list \<Rightarrow> (sql_error + unit) \<times> sql_conn" where
  "execute_sql c [] = (Inr (), c)"
| "execute_sql c (st # sts) = (case run_sql c st of (Inl e, c') \<Rightarrow> (Inl e, c') | (Inr _, c') \<Rightarrow> execute_sql c' sts)"

definition leave_with :: "(sql_error + unit) \<times> sql_conn \<Rightarrow> (sql_error + unit) \<times> sql_db" where
  "leave_with rc = (case rc of (Inl e, c) \<Rightarrow> (Inl e, durable c) | (Inr u, c) \<Rightarrow> (Inr u, cn_db c))"

section \<open>Migrations\<close>

record migration_step =
  mg_version :: int
  mg_description :: string
  mg_statements :: "sql_stmt list"

definition migration_table :: sql_stmt where
  "migration_table = CreateTable ''schema_migrations'' [''version'', ''description'', ''applied_at_utc'']"

definition diagnostics_table :: sql_stmt where
  "diagnostics_table = CreateTable ''execution_run_diagnostics'' [''run_id'', ''updated_at_utc'', ''payload_json'']"

definition diagnostics_index :: sql_stmt where
  "diagnostics_index = CreateIndex ''idx_execution_run_diagnostics_updated'' ''execution_run_diagnostics'' ''updated_at_utc''"

definition checkpoints_table :: sql_stmt where
  "checkpoints_table = CreateTable ''execution_run_checkpoints'' [''run_id'', ''started_at_utc'', ''updated_at_utc'', ''status'',
     ''macro_payload'', ''step_status_payload'', ''branch_decisions_payload'', ''final_pointer_id'']"

definition actor_column :: sql_stmt where
  "actor_column = AddColumn ''execution_run_checkpoints'' ''actor_metadata_payload''"

definition MIGRATIONS :: "migration_step list" where
  "MIGRATIONS = [
     \<lparr>mg_version = 1, mg_description = ''Create schema_migrations tracking table'', mg_statements = [migration_table]\<rparr>,
     \<lparr>mg_version = 2, mg_description = ''Add trace-event step_id index for faster diagnostics'',
      mg_statements = [CreateIndex ''idx_execution_trace_events_step_id'' ''execution_trace_events'' ''step_id'']\<rparr>,
     \<lparr>mg_version = 3, mg_description = ''Add run-summary completion-time index for faster history queries'',
      mg_statements = [CreateIndex ''idx_execution_run_summaries_completed_at'' ''execution_run_summaries'' ''completed_at_utc'']\<rparr>,
     \<lparr>mg_version = 4, mg_description = ''Add execution run diagnostics table for telemetry exports'',
      mg_statements = [diagnostics_table, diagnostics_index]\<rparr>,
     \<lparr>mg_version = 5, mg_description = ''Add actor metadata payload column to run checkpoints for governance'',
      mg_statements = [checkpoints_table, actor_column]\<rparr>]"

definition LATEST_SCHEMA_VERSION :: int where
  "LATEST_SCHEMA_VERSION = (if MIGRATIONS = [] then 0 else mg_version (last MIGRATIONS))"

definition int_cells :: "sql_row list \<Rightarrow> string \<Rightarrow> int list" where
  "int_cells rs c = concat (map (\<lambda>r. case cell r c of SqlInt n \<Rightarrow> [n] | _ \<Rightarrow> []) rs)"

definition current_schema_version :: "sql_db \<Rightarrow> sql_error + int" where
  \<comment> \<open>\<open>SELECT COALESCE(MAX(version), 0) FROM schema_migrations\<close>\<close>
  "current_schema_version d = (case map_of (db_tables d) ''schema_migrations'' of None \<Rightarrow> Inr 0
     | Some tb \<Rightarrow> if ''version'' \<notin> set (tb_cols tb) then Inl (ColumnMissing ''schema_migrations'' ''version'')
         else Inr (case int_cells (tb_rows tb) ''version'' of [] \<Rightarrow> 0 | n # ns \<Rightarrow> fold max ns n))"

datatype migration_error = BadTarget | MigrationSql sql_error

definition target_of :: "int option \<Rightarrow> migration_error + int" where
  "target_of target_version =
     (let target = (case target_version of None \<Rightarrow> LATEST_SCHEMA_VERSION | Some v \<Rightarrow> v)
      in if target < 0 \<or> target > LATEST_SCHEMA_VERSION then Inl BadTarget else Inr target)"

definition planned :: "int \<Rightarrow> int \<Rightarrow> migration_step list" where
  "planned current target = filter (\<lambda>step. current < mg_version step \<and> mg_version step \<le> target) MIGRATIONS"

definition lift_sql :: "sql_error + 'a \<Rightarrow> migration_error + 'a" where
  "lift_sql r = (case r of Inl e \<Rightarrow> Inl (MigrationSql e) | Inr x \<Rightarrow> Inr x)"

definition pending_migrations :: "sql_db \<Rightarrow> int option \<Rightarrow> migration_error + migration_step list" where
  "pending_migrations d target_version = bindR (target_of target_version) (\<lambda>target.
     bindR (lift_sql (current_schema_version d)) (\<lambda>current. Inr (planned current target)))"

definition step_script :: "string \<Rightarrow> migration_step \<Rightarrow> sql_stmt list" where
  "step_script applied_at step = mg_statements step @ [SetVersion (mg_version step) (mg_description step) applied_at]"

definition migration_script :: "string \<Rightarrow> int \<Rightarrow> int \<Rightarrow> sql_stmt list" where
  "migration_script applied_at current target = migration_table # concat (map (step_script applied_at) (planned current target))"

record migration_report =
  mr_dry_run :: bool
  mr_current :: int
  mr_target :: int
  mr_planned :: "int list"
  mr_applied :: "int list"
  mr_final :: "int option"

definition apply_sqlite_migrations ::
    "sql_db \<Rightarrow> int option \<Rightarrow> bool \<Rightarrow> string \<Rightarrow> (migration_error + migration_report) \<times> sql_db" where
  \<comment> \<open>\<open>applied_at\<close> is the clock; the second component is the database file afterwards\<close>
  "apply_sqlite_migrations d target_version dry_run applied_at =
     (case bindR (target_of target_version) (\<lambda>target. bindR (lift_sql (current_schema_version d)) (\<lambda>current. Inr (target, current))) of
       Inl e \<Rightarrow> (Inl e, d)
     | Inr (target, current) \<Rightarrow>
         let versions = map mg_version (planned current target);
             report = \<lparr>mr_dry_run = dry_run, mr_current = current, mr_target = target, mr_planned = versions,
                       mr_applied = (if dry_run then [] else versions), mr_final = None\<rparr>
         in if dry_run then (Inr report, d)
            else case execute_sql (connect d) (migration_script applied_at current target) of
              (Inl e, c) \<Rightarrow> (Inl (MigrationSql e), durable c)
            | (Inr _, c) \<Rightarrow> (case current_schema_version (cn_db c) of
                Inl e \<Rightarrow> (Inl (MigrationSql e), durable c)
              | Inr final \<Rightarrow> (Inr (report\<lparr>mr_final := Some final\<rparr>), cn_db c)))"

section \<open>Opening the state manager\<close>

definition state_tables :: "sql_stmt list" where
  "state_tables = [
     CreateTable ''execution_trace_events'' [''event_id'', ''run_id'', ''step_id'', ''tool_name'', ''event_type'', ''timestamp_utc'',
       ''attempt'', ''resolved_arguments'', ''input_pointer_ids'', ''output_pointer_id'', ''duration_ms'', ''retry_delay_seconds'',
       ''error_payload''],
     CreateIndex ''idx_execution_trace_events_run_id'' ''execution_trace_events'' ''run_id'',
     CreateTable ''execution_run_summaries'' [''run_id'', ''started_at_utc'', ''completed_at_utc'', ''total_steps'',
       ''succeeded_steps'', ''failed_steps'', ''total_duration_ms'', ''final_pointer_id''],
     checkpoints_table,
     CreateIndex ''idx_execution_run_checkpoints_status'' ''execution_run_checkpoints'' ''status'',
     CreateIndex ''idx_execution_run_checkpoints_updated'' ''execution_run_checkpoints'' ''updated_at_utc'',
     diagnostics_table,
     diagnostics_index,
     CreateTable ''conversation_sessions'' [''session_id'', ''created_at_utc'', ''updated_at_utc'', ''memory_strategy'',
       ''window_turn_limit'', ''summary_text'', ''metadata''],
     CreateTable ''conversation_turns'' [''turn_id'', ''session_id'', ''role'', ''content'', ''created_at_utc'', ''pointer_ids'',
       ''macro_run_id'', ''metadata''],
     CreateIndex ''idx_conversation_turns_session_id'' ''conversation_turns'' ''session_id'',
     CreateIndex ''idx_conversation_sessions_updated_at'' ''conversation_sessions'' ''updated_at_utc'']"

definition state_store_table :: sql_stmt where
  "state_store_table = CreateTable ''state_store'' [''pointer_id'', ''raw_data'', ''summary'', ''metadata'', ''created_at_utc'',
     ''ttl_seconds'', ''expires_at_utc'']"

definition table_info :: "sql_db \<Rightarrow> string \<Rightarrow> string list" where
  "table_info d t = (case map_of (db_tables d) t of None \<Rightarrow> [] | Some tb \<Rightarrow> tb_cols tb)"

definition ensure_lifecycle_columns :: "string list \<Rightarrow> string \<Rightarrow> sql_stmt list" where
  "ensure_lifecycle_columns existing now =
     map (AddColumn ''state_store'') (filter (\<lambda>c. c \<notin> set existing) [''created_at_utc'', ''ttl_seconds'', ''expires_at_utc''])
       @ [FillNull ''state_store'' ''created_at_utc'' now]"

definition sq_initialize :: "string \<Rightarrow> sql_db \<Rightarrow> (sql_error + unit) \<times> sql_db" where
  "sq_initialize now d = leave_with (case run_sql (connect d) state_store_table of
       (Inl e, c) \<Rightarrow> (Inl e, c)
     | (Inr _, c) \<Rightarrow> execute_sql c (ensure_lifecycle_columns (table_info (cn_db c) ''state_store'') now
         @ [CreateIndex ''idx_state_store_expires_at_utc'' ''state_store'' ''expires_at_utc'']))"

definition init_db :: "string \<Rightarrow> string \<Rightarrow> sql_db \<Rightarrow> (migration_error + migration_report) \<times> sql_db" where
  \<comment> \<open>\<open>_init_db\<close> with the SQLite pointer store on the same file\<close>
  "init_db now applied_at d = (case sq_initialize now d of
       (Inl e, d1) \<Rightarrow> (Inl (MigrationSql e), d1)
     | (Inr _, d1) \<Rightarrow> (case leave_with (execute_sql (connect d1) state_tables) of
         (Inl e, d2) \<Rightarrow> (Inl (MigrationSql e), d2)
       | (Inr _, d2) \<Rightarrow> apply_sqlite_migrations d2 None False applied_at))"

text \<open>The migration script, on the files that are databases.\<close>

record migrate_args =
  ma_db :: string
  ma_target :: int
  ma_dry_run :: bool
  ma_backup :: bool

datatype migrate_error = DbNotFound | MigrateFailed migration_error

definition migrate_main :: "(string, sql_db) dict \<Rightarrow> migrate_args \<Rightarrow> string
    \<Rightarrow> (migrate_error + migration_report) \<times> (string, sql_db) dict" where
  "migrate_main files args applied_at = (case map_of files (ma_db args) of None \<Rightarrow> (Inl DbNotFound, files)
     | Some d \<Rightarrow>
         let files1 = (if ma_backup args \<and> \<not> ma_dry_run args then AList.update (ma_db args @ ''.bak'') d files else files);
             (r, d') = apply_sqlite_migrations d (Some (ma_target args)) (ma_dry_run args) applied_at
         in (map_sum MigrateFailed id r, AList.update (ma_db args) d' files1))"

section \<open>What a database keeps\<close>

definition has_column :: "sql_db \<Rightarrow> string \<Rightarrow> string \<Rightarrow> bool" where
  "has_column d t c = (c \<in> set (table_info d t))"

definition has_table :: "sql_db \<Rightarrow> string \<Rightarrow> bool" where
  "has_table d t = dict_has (db_tables d) t"

text \<open>The columns each known table has from the start; a state store of an early version has no lifecycle columns.\<close>

fun declared_table :: "sql_stmt \<Rightarrow> (string \<times> string list) list" where
  "declared_table (CreateTable t cs) = [(t, cs)]"
| "declared_table _ = []"

fun declared_index :: "sql_stmt \<Rightarrow> string list" where
  "declared_index (CreateIndex i t c) = [i]"
| "declared_index _ = []"

definition known_tables :: "(string, string list) dict" where
  "known_tables = (''state_store'', [''pointer_id'', ''raw_data'', ''summary'', ''metadata''])
     # concat (map declared_table (migration_table # state_tables))"

definition known_indexes :: "string list" where
  "known_indexes = ''idx_state_store_expires_at_utc'' # concat (map declared_index (state_tables @ concat (map mg_statements MIGRATIONS)))"

definition compatible :: "sql_db \<Rightarrow> bool" where
  "compatible d = (list_all (\<lambda>(t, cs). (has_table d t \<longrightarrow> set cs \<subseteq> set (table_info d t)) \<and> \<not> dict_has (db_indexes d) t) known_tables
     \<and> list_all (\<lambda>i. \<not> has_table d i) known_indexes)"

definition actor_known :: "sql_db \<Rightarrow> bool" where
  "actor_known d = has_column d ''execution_run_checkpoints'' ''actor_metadata_payload''"

definition schema_ok :: "sql_db \<Rightarrow> bool" where
  "schema_ok d = (compatible d \<and> (case current_schema_version d of Inl _ \<Rightarrow> False | Inr n \<Rightarrow> 0 \<le> n \<and> (actor_known d = (5 \<le> n))))"

text \<open>No row is lost and no value changed, except that a missing creation time is filled in.\<close>

definition row_kept :: "sql_row \<Rightarrow> sql_row \<Rightarrow> bool" where
  "row_kept r r' = (\<forall>c. cell r' c = cell r c \<or> c = ''created_at_utc'' \<and> cell r c = SqlNull)"

definition keeps_data :: "sql_db \<Rightarrow> sql_db \<Rightarrow> bool" where
  "keeps_data d d' = ((\<forall>t tb. map_of (db_tables d) t = Some tb \<longrightarrow>
     (\<exists>tb'. map_of (db_tables d') t = Some tb' \<and> set (tb_cols tb) \<subseteq> set (tb_cols tb')
       \<and> (t \<noteq> ''schema_migrations'' \<longrightarrow> list_all2 row_kept (tb_rows tb) (tb_rows tb'))))
     \<and> (\<forall>i. dict_has (db_indexes d) i \<longrightarrow> dict_has (db_indexes d') i))"

definition versions :: "sql_db \<Rightarrow> int list" where
  "versions d = (case map_of (db_tables d) ''schema_migrations'' of None \<Rightarrow> [] | Some tb \<Rightarrow> int_cells (tb_rows tb) ''version'')"

fun stmt_versions :: "sql_stmt \<Rightarrow> int set" where
  "stmt_versions (SetVersion v _ _) = {v}"
| "stmt_versions _ = {}"

lemma row_kept_refl [simp]: "row_kept r r"
  by (simp add: row_kept_def)

lemma row_kept_value: "row_kept r r' \<Longrightarrow> cell r c \<noteq> SqlNull \<Longrightarrow> cell r' c = cell r c"
  by (auto simp: row_kept_def)

lemma row_kept_trans: "row_kept r1 r2 \<Longrightarrow> row_kept r2 r3 \<Longrightarrow> row_kept r1 r3"
  unfolding row_kept_def by metis

lemma rows_kept_refl [simp]: "list_all2 row_kept rs rs"
  by (simp add: list_all2_same)

lemma rows_kept_trans: "list_all2 row_kept r1 r2 \<Longrightarrow> list_all2 row_kept r2 r3 \<Longrightarrow> list_all2 row_kept r1 r3"
  by (rule list_all2_trans [of row_kept row_kept row_kept]) (auto intro: row_kept_trans)

lemma keeps_data_refl [simp]: "keeps_data d d"
  by (simp add: keeps_data_def)

lemma keeps_data_trans: "keeps_data d1 d2 \<Longrightarrow> keeps_data d2 d3 \<Longrightarrow> keeps_data d1 d3"
  unfolding keeps_data_def by (meson order_trans rows_kept_trans)

lemma cell_add [simp]: "cell (r @ [(c, SqlNull)]) = cell r"
  by (rule ext) (auto simp: cell_def dict_get_or_def map_add_def split: option.splits)

lemma cell_set [simp]: "cell (AList.update c v r) c' = (if c' = c then v else cell r c')"
  by (simp add: cell_def)

lemma put_table_simps [simp]:
  "db_tables (put_table t tb d) = AList.update t tb (db_tables d)" "db_indexes (put_table t tb d) = db_indexes d"
  by (simp_all add: put_table_def)

text \<open>A statement that succeeds keeps the data, unless it overwrites other columns than the creation time.\<close>

fun fills_creation :: "sql_stmt \<Rightarrow> bool" where
  "fills_creation (FillNull t c v) = (c = ''created_at_utc'')"
| "fills_creation _ = True"

lemma keeps_data_put:
  assumes "map_of (db_tables d) t = Some tb" "set (tb_cols tb) \<subseteq> set (tb_cols tb')"
    "t \<noteq> ''schema_migrations'' \<Longrightarrow> list_all2 row_kept (tb_rows tb) (tb_rows tb')"
  shows "keeps_data d (put_table t tb' d)"
  using assms by (auto simp: keeps_data_def)

lemma exec_sql_keeps:
  assumes "exec_sql d st = Inr d'" "fills_creation st"
  shows "keeps_data d d'"
  using assms
proof (cases st)
  case (CreateTable t cs)
  with assms show ?thesis by (auto simp: keeps_data_def split: if_splits)
next
  case (CreateIndex i t c)
  with assms show ?thesis by (auto simp: keeps_data_def with_table_def split: if_splits option.splits)
next
  case (AddColumn t c)
  with assms show ?thesis
    by (auto simp: with_table_def list_all2_map2 list_all2_same row_kept_def intro!: keeps_data_put split: if_splits option.splits)
next
  case (FillNull t c v)
  with assms show ?thesis
    by (auto simp: with_table_def list_all2_map2 list_all2_same row_kept_def intro!: keeps_data_put split: if_splits option.splits)
next
  case (SetVersion v x a)
  with assms show ?thesis
    by (auto simp: with_table_def intro!: keeps_data_put split: if_splits option.splits)
qed

lemma int_cells_simps:
  "int_cells (map (\<lambda>r. r @ [(c, SqlNull)]) rs) k = int_cells rs k"
  "int_cells (map (\<lambda>r. if cell r c = SqlNull then AList.update c (SqlText v) r else r) rs) k = int_cells rs k"
  "int_cells (xs @ ys) k = int_cells xs k @ int_cells ys k"
  by (auto simp: int_cells_def comp_def intro!: arg_cong [of _ _ concat] split: sql_value.splits)

lemma set_int_cells: "n \<in> set (int_cells rs k) \<longleftrightarrow> (\<exists>r\<in>set rs. cell r k = SqlInt n)"
  by (force simp: int_cells_def split: sql_value.splits)

lemma exec_sql_versions: "exec_sql d st = Inr d' \<Longrightarrow> set (versions d') = set (versions d) \<union> stmt_versions st"
proof (cases st)
  case (SetVersion v x a)
  assume "exec_sql d st = Inr d'"
  with SetVersion obtain tb where tb: "map_of (db_tables d) ''schema_migrations'' = Some tb"
    and d': "d' = put_table ''schema_migrations'' (tb\<lparr>tb_rows := filter (\<lambda>r. cell r ''version'' \<noteq> SqlInt v) (tb_rows tb) @
      [[(''version'', SqlInt v), (''description'', SqlText x), (''applied_at_utc'', SqlText a)]]\<rparr>) d"
    by (auto simp: with_table_def split: if_splits option.splits)
  have "cell [(''version'', SqlInt v), (''description'', SqlText x), (''applied_at_utc'', SqlText a)] ''version'' = SqlInt v"
    by (simp add: cell_def dict_get_or_def)
  with tb SetVersion show ?thesis
    by (auto simp: d' versions_def int_cells_simps set_int_cells) (metis sql_value.inject(1))
qed (auto simp: with_table_def versions_def int_cells_simps int_cells_def [of "[]"] split: if_splits option.splits)

text \<open>The version is the largest one recorded.\<close>

lemma fold_max: "fold max ns (n :: int) = Max (insert n (set ns))"
  using Max.set_eq_fold [of n ns] by simp

lemma current_version_iff:
  "current_schema_version d = Inr n \<longleftrightarrow> (has_table d ''schema_migrations'' \<longrightarrow> has_column d ''schema_migrations'' ''version'')
     \<and> n = (if versions d = [] then 0 else Max (set (versions d)))"
  by (auto simp: current_schema_version_def has_table_def has_column_def table_info_def versions_def fold_max
      split: option.splits list.splits)

section \<open>Scripts that fit every compatible database\<close>

text \<open>\<open>fits present sts\<close> checks a script without a database: tables are created with their known columns, an index is put on a known
  column of a table that is present by then.\<close>

fun fits :: "string list \<Rightarrow> sql_stmt list \<Rightarrow> bool" where
  "fits present [] = True"
| "fits present (CreateTable t cs # sts) = ((case map_of known_tables t of None \<Rightarrow> False | Some ks \<Rightarrow> set ks \<subseteq> set cs)
     \<and> ''actor_metadata_payload'' \<notin> set cs \<and> fits (t # present) sts)"
| "fits present (CreateIndex i t c # sts) = (i \<in> set known_indexes \<and> i \<notin> fst ` set known_tables \<and> t \<in> set present
     \<and> (case map_of known_tables t of None \<Rightarrow> False | Some ks \<Rightarrow> c \<in> set ks) \<and> fits present sts)"
| "fits present (SetVersion v x a # sts) = (''schema_migrations'' \<in> set present \<and> fits present sts)"
| "fits present (st # sts) = False"

definition state_table_names :: "string list" where
  "state_table_names = map fst (concat (map declared_table state_tables))"

lemma map_of_known:
  assumes "compatible d" "map_of known_tables t = Some ks"
  shows "has_table d t \<Longrightarrow> set ks \<subseteq> set (table_info d t)" "\<not> dict_has (db_indexes d) t"
  using assms map_of_SomeD [OF assms(2)] by (auto simp: compatible_def list_all_iff)

lemma map_of_known_D: "map_of known_tables t = Some ks \<Longrightarrow> t \<in> fst ` set known_tables"
  by (force dest: map_of_SomeD)

lemma distinct_known: "distinct (map fst known_tables)" "fst ` set known_tables \<inter> set known_indexes = {}"
  by code_simp+

lemma known_migrations: "map_of known_tables ''schema_migrations'' = Some [''version'', ''description'', ''applied_at_utc'']"
  by code_simp

definition script_effect :: "sql_db \<Rightarrow> sql_stmt list \<Rightarrow> sql_db \<Rightarrow> bool" where
  "script_effect d sts d' = (compatible d' \<and> keeps_data d d' \<and> (\<forall>t. has_column d' t ''actor_metadata_payload'' = has_column d t ''actor_metadata_payload'')
     \<and> set (versions d') = set (versions d) \<union> \<Union> (stmt_versions ` set sts)
     \<and> (\<forall>t cs. CreateTable t cs \<in> set sts \<longrightarrow> has_table d' t) \<and> (\<forall>i t c. CreateIndex i t c \<in> set sts \<longrightarrow> dict_has (db_indexes d') i))"

lemma kept_tables: "keeps_data d d' \<Longrightarrow> has_table d t \<Longrightarrow> has_table d' t"
  by (fastforce simp: keeps_data_def has_table_def)

lemma table_info_put [simp]:
  "table_info (put_table t tb d) t' = (if t' = t then tb_cols tb else table_info d t')"
  "has_table (put_table t tb d) t' \<longleftrightarrow> t' = t \<or> has_table d t'"
  "has_column (put_table t tb d) t' c \<longleftrightarrow> (if t' = t then c \<in> set (tb_cols tb) else has_column d t' c)"
  by (simp_all add: table_info_def has_table_def has_column_def)

lemma table_info_index [simp]:
  "table_info (d\<lparr>db_indexes := x\<rparr>) t = table_info d t" "has_table (d\<lparr>db_indexes := x\<rparr>) t = has_table d t"
  "has_column (d\<lparr>db_indexes := x\<rparr>) t c = has_column d t c"
  by (simp_all add: table_info_def has_table_def has_column_def)

lemma compatible_put:
  assumes "compatible d" "\<And>ks. map_of known_tables t = Some ks \<Longrightarrow> set ks \<subseteq> set (tb_cols tb)" "t \<notin> set known_indexes"
  shows "compatible (put_table t tb d)"
  using assms distinct_known(1) by (fastforce simp: compatible_def list_all_iff)

lemma compatible_index:
  assumes "compatible d" "i \<notin> fst ` set known_tables"
  shows "compatible (d\<lparr>db_indexes := AList.update i x (db_indexes d)\<rparr>)"
proof -
  have "t \<noteq> i" if "(t, ks) \<in> set known_tables" for t ks using assms(2) that by force
  with assms(1) show ?thesis unfolding compatible_def list_all_iff by auto
qed

lemma table_columns: "map_of (db_tables d) t = Some tb \<Longrightarrow> table_info d t = tb_cols tb" "map_of (db_tables d) t = Some tb \<Longrightarrow> has_table d t"
  by (simp_all add: table_info_def has_table_def)

lemma fits_exec:
  assumes "fits present (st # sts)" "compatible d" "list_all (has_table d) present"
  obtains d' where "exec_sql d st = Inr d'" "compatible d'" "fills_creation st"
    "\<And>t. has_column d' t ''actor_metadata_payload'' = has_column d t ''actor_metadata_payload''"
    "fits (map fst (declared_table st) @ present) sts"
proof (cases st)
  case (CreateTable t cs)
  with assms obtain ks where ks: "map_of known_tables t = Some ks" "set ks \<subseteq> set cs" "''actor_metadata_payload'' \<notin> set cs"
    by (auto split: option.splits)
  with map_of_known(2) [OF assms(2)] have "\<not> dict_has (db_indexes d) t" by blast
  moreover have "t \<notin> set known_indexes" using map_of_known_D [OF ks(1)] distinct_known(2) by blast
  moreover have "table_info d t = []" if "\<not> has_table d t"
    using that by (simp add: has_table_def table_info_def)
  moreover have "compatible (put_table t \<lparr>tb_cols = cs, tb_rows = []\<rparr> d)"
    using compatible_put [OF assms(2), of t] ks calculation(2) by simp
  ultimately show ?thesis
    using that [of d] that [of "put_table t \<lparr>tb_cols = cs, tb_rows = []\<rparr> d"] assms CreateTable ks
    by (cases "has_table d t") (auto simp: has_table_def has_column_def)
next
  case (CreateIndex i t c)
  with assms obtain ks where ks: "map_of known_tables t = Some ks" "c \<in> set ks" "has_table d t" "i \<in> set known_indexes"
      "i \<notin> fst ` set known_tables"
    by (auto simp: list_all_iff split: option.splits)
  then obtain tb where tb: "map_of (db_tables d) t = Some tb" "c \<in> set (tb_cols tb)"
    using map_of_known(1) [OF assms(2) ks(1)] by (auto simp: has_table_def table_info_def)
  have "\<not> dict_has (db_tables d) i" using assms(2) ks(4) by (simp add: compatible_def list_all_iff has_table_def)
  then show ?thesis
    using that [of "if dict_has (db_indexes d) i then d else d\<lparr>db_indexes := AList.update i (t, c) (db_indexes d)\<rparr>"] assms CreateIndex ks tb
    by (auto simp: with_table_def compatible_index)
next
  case (SetVersion v x a)
  with assms obtain tb where tb: "map_of (db_tables d) ''schema_migrations'' = Some tb"
    by (auto simp: list_all_iff has_table_def)
  then have cols: "{''version'', ''description'', ''applied_at_utc''} \<subseteq> set (tb_cols tb)"
    using map_of_known(1) [OF assms(2) known_migrations] by (auto simp: table_columns)
  moreover have "''schema_migrations'' \<notin> set known_indexes" using map_of_known_D [OF known_migrations] distinct_known(2) by blast
  ultimately show ?thesis
    using that tb assms SetVersion compatible_put [OF assms(2), of "''schema_migrations''"]
    by (auto simp: with_table_def known_migrations table_columns has_column_def)
qed (use assms in auto)

lemma exec_creates:
  "exec_sql d st = Inr d' \<Longrightarrow> t \<in> set (map fst (declared_table st)) \<Longrightarrow> has_table d' t"
  "exec_sql d (CreateIndex i u c) = Inr d' \<Longrightarrow> dict_has (db_indexes d') i"
  by (cases st) (auto simp: has_table_def with_table_def split: if_splits option.splits)

lemma fits_script:
  assumes "fits present sts" "compatible d" "list_all (has_table d) present"
  shows "\<exists>d'. foldR exec_sql d sts = Inr d' \<and> script_effect d sts d'"
  using assms
proof (induction sts arbitrary: present d)
  case Nil
  then show ?case by (simp add: script_effect_def)
next
  case (Cons st sts)
  from fits_exec [OF Cons.prems] obtain d1 where d1: "exec_sql d st = Inr d1" "compatible d1" "fills_creation st"
      "\<And>t. has_column d1 t ''actor_metadata_payload'' = has_column d t ''actor_metadata_payload''"
      "fits (map fst (declared_table st) @ present) sts"
    by blast
  note kept = exec_sql_keeps [OF d1(1,3)]
  have "list_all (has_table d1) (map fst (declared_table st) @ present)"
    using exec_creates(1) [OF d1(1)] Cons.prems(3) kept_tables [OF kept] by (auto simp: list_all_iff)
  with Cons.IH [OF d1(5,2)] obtain d' where d': "foldR exec_sql d1 sts = Inr d'" "script_effect d1 sts d'" by blast
  have later: "keeps_data d1 d'" using d'(2) by (simp add: script_effect_def)
  have "has_table d' t" if "st = CreateTable t cs" for t cs
    using exec_creates(1) [OF d1(1), of t] that kept_tables [OF later] by simp
  moreover have "dict_has (db_indexes d') i" if "st = CreateIndex i t c" for i t c
    using exec_creates(2) [of d i t c d1] d1(1) that later by (simp add: keeps_data_def)
  moreover have "keeps_data d d'" using keeps_data_trans [OF kept later] .
  moreover have "set (versions d') = set (versions d) \<union> \<Union> (stmt_versions ` set (st # sts))"
    using d'(2) exec_sql_versions [OF d1(1)] by (auto simp: script_effect_def)
  ultimately have "script_effect d (st # sts) d'"
    using d'(2) d1(4) unfolding script_effect_def by (metis set_ConsD)
  with d'(1) d1(1) show ?case by simp
qed

lemma settled_script:
  assumes "\<And>st. st \<in> set sts \<Longrightarrow> exec_sql d st = Inr d"
  shows "foldR exec_sql d sts = Inr d"
  using assms by (induction sts) auto

lemma fits_append: "fits present (xs @ ys) \<longleftrightarrow> fits present xs \<and> fits (map fst (concat (rev (map declared_table xs))) @ present) ys"
proof (induction xs arbitrary: present)
  case (Cons st xs)
  then show ?case by (cases st) auto
qed simp

lemma fits_mono: "fits present sts \<Longrightarrow> set present \<subseteq> set ts \<Longrightarrow> fits ts sts"
proof (induction sts arbitrary: present ts)
  case (Cons st sts)
  have "fits (t # present) sts \<Longrightarrow> fits (t # ts) sts" for t using Cons.IH [of "t # present" "t # ts"] Cons.prems(2) by auto
  with Cons.prems Cons.IH [of present ts] show ?case by (cases st) (auto split: option.splits)
qed simp

section \<open>Migrating\<close>

definition early_steps :: "migration_step list" where
  "early_steps = butlast MIGRATIONS"

definition last_step :: migration_step where
  "last_step = last MIGRATIONS"

definition migrated_tables :: "string list" where
  "migrated_tables = [''execution_trace_events'', ''execution_run_summaries'']"

lemma migrations_split: "MIGRATIONS = early_steps @ [last_step]"
  by (simp add: early_steps_def last_step_def MIGRATIONS_def)

lemma latest_version: "LATEST_SCHEMA_VERSION = 5" "mg_version last_step = 5"
  by (simp_all add: LATEST_SCHEMA_VERSION_def last_step_def MIGRATIONS_def)

lemma early_fits: "step \<in> set early_steps \<Longrightarrow> fits (''schema_migrations'' # migrated_tables) (step_script applied_at step)"
  by (auto simp: early_steps_def MIGRATIONS_def step_script_def migration_table_def diagnostics_table_def diagnostics_index_def
      migrated_tables_def known_tables_def known_indexes_def state_tables_def checkpoints_table_def actor_column_def)

text \<open>The connection runs the same statements.\<close>

lemma execute_sql_iff:
  "foldR exec_sql (cn_db c) sts = Inr d' \<Longrightarrow> \<exists>c'. execute_sql c sts = (Inr (), c') \<and> cn_db c' = d'"
  by (induction sts arbitrary: c) (auto simp: run_sql_def Let_def split: sum.splits)

lemma planned_split:
  "planned current target = filter (\<lambda>step. current < mg_version step \<and> mg_version step \<le> target) early_steps
     @ (if current < 5 \<and> 5 \<le> target then [last_step] else [])"
  by (simp add: planned_def migrations_split latest_version)

lemma planned_versions:
  assumes "0 \<le> current" "target \<le> 5"
  shows "set (map mg_version (planned current target)) = {current<..target}"
  using assms by (auto simp: planned_def MIGRATIONS_def)

lemma planned_nothing: "target \<le> current \<Longrightarrow> planned current target = []"
  by (auto simp: planned_def filter_empty_conv)

lemma steps_fit:
  "set steps \<subseteq> set early_steps \<Longrightarrow> set (''schema_migrations'' # migrated_tables) \<subseteq> set ts \<Longrightarrow> fits ts (concat (map (step_script applied_at) steps))"
proof (induction steps arbitrary: ts)
  case (Cons step steps)
  then have "fits ts (step_script applied_at step)" using fits_mono [OF early_fits] by simp
  moreover have "fits (us @ ts) (concat (map (step_script applied_at) steps))" for us
    using Cons.IH [of "us @ ts"] Cons.prems by auto
  ultimately show ?case by (simp add: fits_append)
qed simp

lemma step_versions: "set steps \<subseteq> set MIGRATIONS \<Longrightarrow> \<Union> (stmt_versions ` set (concat (map (step_script applied_at) steps))) = mg_version ` set steps"
proof (induction steps)
  case (Cons step steps)
  then have "\<Union> (stmt_versions ` set (step_script applied_at step)) = {mg_version step}"
    by (auto simp: step_script_def MIGRATIONS_def migration_table_def diagnostics_table_def diagnostics_index_def checkpoints_table_def
        actor_column_def)
  with Cons show ?case by (simp add: image_Un)
qed simp

definition migrates :: "sql_db \<Rightarrow> int \<Rightarrow> int \<Rightarrow> sql_db \<Rightarrow> bool" where
  "migrates d current target d' = (compatible d' \<and> keeps_data d d' \<and> has_table d' ''schema_migrations''
     \<and> set (versions d') = set (versions d) \<union> mg_version ` set (planned current target)
     \<and> (actor_known d' \<longleftrightarrow> actor_known d \<or> current < 5 \<and> 5 \<le> target))"

lemma add_column:
  assumes "compatible d" "has_table d t" "\<not> has_column d t c" "t \<in> fst ` set known_tables"
  shows "\<exists>d'. exec_sql d (AddColumn t c) = Inr d' \<and> compatible d' \<and> db_indexes d' = db_indexes d \<and> has_table d' = has_table d
    \<and> table_info d' = (table_info d) (t := table_info d t @ [c])"
proof -
  from assms(2) obtain tb where tb: "map_of (db_tables d) t = Some tb" by (auto simp: has_table_def)
  let ?tb = "\<lparr>tb_cols = tb_cols tb @ [c], tb_rows = map (\<lambda>r. r @ [(c, SqlNull)]) (tb_rows tb)\<rparr>"
  have "t \<notin> set known_indexes" using assms(4) distinct_known(2) by blast
  then have "compatible (put_table t ?tb d)"
    using map_of_known(1) [OF assms(1) _ assms(2)] table_columns(1) [OF tb] by (auto intro!: compatible_put [OF assms(1)])
  with tb assms(2,3) show ?thesis
    by (intro exI [of _ "put_table t ?tb d"]) (auto simp: with_table_def has_column_def table_columns(1) [OF tb] fun_eq_iff)
qed

definition early_script :: "string \<Rightarrow> int \<Rightarrow> int \<Rightarrow> sql_stmt list" where
  "early_script applied_at current target = migration_table
     # concat (map (step_script applied_at) (filter (\<lambda>step. current < mg_version step \<and> mg_version step \<le> target) early_steps))
     @ (if current < 5 \<and> 5 \<le> target then [checkpoints_table] else [])"

lemma early_script_fits: "fits migrated_tables (early_script applied_at current target)"
proof -
  have "fits (''schema_migrations'' # migrated_tables)
      (concat (map (step_script applied_at) (filter (\<lambda>step. current < mg_version step \<and> mg_version step \<le> target) early_steps)))"
    by (rule steps_fit) auto
  moreover have "fits ts [checkpoints_table]" for ts by (simp add: checkpoints_table_def known_tables_def state_tables_def migration_table_def)
  ultimately show ?thesis by (simp add: early_script_def fits_append migration_table_def known_migrations)
qed

lemma migration_script_split:
  "migration_script applied_at current target = early_script applied_at current target
     @ (if current < 5 \<and> 5 \<le> target then [actor_column, SetVersion 5 (mg_description last_step) applied_at] else [])"
  by (simp add: early_script_def migration_script_def planned_split step_script_def last_step_def MIGRATIONS_def)

lemma early_runs:
  assumes "compatible d" "list_all (has_table d) migrated_tables"
  obtains d1 where "foldR exec_sql d (early_script applied_at current target) = Inr d1" "compatible d1" "keeps_data d d1"
    "actor_known d1 = actor_known d" "has_table d1 ''schema_migrations''"
    "current < 5 \<Longrightarrow> 5 \<le> target \<Longrightarrow> has_table d1 ''execution_run_checkpoints''"
    "set (versions d1) = set (versions d) \<union> mg_version ` set (filter (\<lambda>step. current < mg_version step \<and> mg_version step \<le> target) early_steps)"
proof -
  let ?early = "filter (\<lambda>step. current < mg_version step \<and> mg_version step \<le> target) early_steps"
  let ?script = "early_script applied_at current target"
  from fits_script [OF early_script_fits assms] obtain d1 where d1: "foldR exec_sql d ?script = Inr d1" "script_effect d ?script d1" by blast
  have "mg_version ` set ?early = \<Union> (stmt_versions ` set ?script)"
    using step_versions [of ?early applied_at] by (auto simp: early_script_def migrations_split migration_table_def checkpoints_table_def)
  moreover have "has_table d1 ''schema_migrations''"
    using d1(2) by (simp add: early_script_def script_effect_def migration_table_def)
  moreover have "has_table d1 ''execution_run_checkpoints''" if "current < 5" "5 \<le> target"
    using d1(2) that by (simp add: early_script_def script_effect_def checkpoints_table_def)
  ultimately show thesis using that [OF d1(1)] d1(2) by (simp add: script_effect_def actor_known_def)
qed

lemma actor_added:
  assumes "compatible d" "has_table d ''execution_run_checkpoints''" "\<not> actor_known d"
  obtains d' where "exec_sql d actor_column = Inr d'" "compatible d'" "has_table d' = has_table d" "actor_known d'"
proof -
  have "''execution_run_checkpoints'' \<in> fst ` set known_tables" by code_simp
  from add_column [OF assms(1,2) _ this] assms(3) obtain d' where d': "exec_sql d actor_column = Inr d'" "compatible d'" "has_table d' = has_table d"
      "table_info d' = (table_info d) (''execution_run_checkpoints'' := table_info d ''execution_run_checkpoints'' @ [''actor_metadata_payload''])"
    unfolding actor_column_def actor_known_def by blast
  show thesis by (rule that [OF d'(1-3)]) (simp add: d'(4) actor_known_def has_column_def)
qed

lemma last_runs:
  assumes "compatible d1" "has_table d1 ''schema_migrations''" "has_table d1 ''execution_run_checkpoints''" "\<not> actor_known d1"
  shows "\<exists>d3. foldR exec_sql d1 [actor_column, SetVersion 5 x applied_at] = Inr d3 \<and> compatible d3 \<and> keeps_data d1 d3 \<and> actor_known d3
    \<and> set (versions d3) = insert 5 (set (versions d1))"
proof -
  from actor_added [OF assms(1,3,4)] obtain d2 where d2: "exec_sql d1 actor_column = Inr d2" "compatible d2" "has_table d2 = has_table d1"
      "actor_known d2" by blast
  let ?set = "SetVersion 5 x applied_at"
  have "list_all (has_table d2) [''schema_migrations'']" using assms(2) by (simp add: d2(3))
  from fits_script [OF _ d2(2) this, of "[?set]"] obtain d3 where d3: "exec_sql d2 ?set = Inr d3" "script_effect d2 [?set] d3"
    by (auto split: sum.splits)
  have "keeps_data d1 d3"
    using exec_sql_keeps [OF d2(1)] exec_sql_keeps [OF d3(1)] keeps_data_trans by (auto simp: actor_column_def)
  moreover have "actor_known d3" using d3(2) d2(4) by (simp add: script_effect_def actor_known_def)
  moreover have "set (versions d3) = insert 5 (set (versions d1))"
    using exec_sql_versions [OF d3(1)] exec_sql_versions [OF d2(1)] by (simp add: actor_column_def)
  ultimately show ?thesis using d2(1) d3 by (simp del: exec_sql.simps add: script_effect_def)
qed

lemma migration_runs:
  assumes "compatible d" "list_all (has_table d) migrated_tables" "current < 5 \<Longrightarrow> 5 \<le> target \<Longrightarrow> \<not> actor_known d"
  shows "\<exists>d'. foldR exec_sql d (migration_script applied_at current target) = Inr d' \<and> migrates d current target d'"
proof -
  from early_runs [OF assms(1,2), of applied_at current target] obtain d1 where
    d1: "foldR exec_sql d (early_script applied_at current target) = Inr d1" "compatible d1" "keeps_data d d1"
      "actor_known d1 = actor_known d" "has_table d1 ''schema_migrations''"
      "current < 5 \<Longrightarrow> 5 \<le> target \<Longrightarrow> has_table d1 ''execution_run_checkpoints''"
      "set (versions d1) = set (versions d) \<union> mg_version ` set (filter (\<lambda>step. current < mg_version step \<and> mg_version step \<le> target) early_steps)"
    by blast
  show ?thesis
  proof (cases "current < 5 \<and> 5 \<le> target")
    case False
    with d1 show ?thesis by (intro exI [of _ d1]) (auto simp: migration_script_split migrates_def planned_split)
  next
    case True
    from last_runs [OF d1(2,5)] d1(4,6) assms(3) True obtain d3 where
      d3: "foldR exec_sql d1 [actor_column, SetVersion 5 (mg_description last_step) applied_at] = Inr d3" "compatible d3" "keeps_data d1 d3"
        "actor_known d3" "set (versions d3) = insert 5 (set (versions d1))" by blast
    have "foldR exec_sql d (migration_script applied_at current target) = Inr d3"
      using True d1(1) d3(1) by (simp only: migration_script_split foldR_append if_True bindR_simps simp_thms)
    moreover have "keeps_data d d3" "has_table d3 ''schema_migrations''"
      using keeps_data_trans [OF d1(3) d3(3)] kept_tables [OF d3(3) d1(5)] by auto
    ultimately show ?thesis using True d3 d1(7) by (auto simp: migrates_def planned_split latest_version)
  qed
qed

lemma schema_okD:
  assumes "schema_ok d"
  obtains n where "current_schema_version d = Inr n" "0 \<le> n" "actor_known d \<longleftrightarrow> 5 \<le> n" "compatible d"
  using assms by (auto simp: schema_ok_def split: sum.splits)

lemma migrates_version:
  assumes "schema_ok d" "current_schema_version d = Inr current" "migrates d current target d'" "0 \<le> target" "target \<le> 5"
  shows "current_schema_version d' = Inr (max current target)" "schema_ok d'"
proof -
  from assms(1,2) have cur: "0 \<le> current" "actor_known d \<longleftrightarrow> 5 \<le> current" by (auto simp: schema_ok_def)
  have recorded: "set (versions d') = set (versions d) \<union> {current<..target}"
    using assms(3) planned_versions [OF cur(1) assms(5)] by (simp add: migrates_def)
  have here: "current = (if versions d = [] then 0 else Max (set (versions d)))" using assms(2) by (simp add: current_version_iff)
  have "max current target = (if versions d' = [] then 0 else Max (set (versions d')))"
  proof (cases "current < target")
    case True
    have "v \<le> current" if "v \<in> set (versions d)" for v using here that by (auto split: if_splits)
    with True recorded have "Max (set (versions d')) = target" by (intro Max_eqI) force+
    moreover from True recorded have "versions d' \<noteq> []" by auto
    ultimately show ?thesis using True by simp
  next
    case False
    with recorded have "set (versions d') = set (versions d)" by auto
    with here False show ?thesis by (metis max.absorb1 not_less set_empty)
  qed
  moreover have "set [''version'', ''description'', ''applied_at_utc''] \<subseteq> set (table_info d' ''schema_migrations'')"
    using assms(3) map_of_known(1) [OF _ known_migrations] by (simp add: migrates_def)
  ultimately show version: "current_schema_version d' = Inr (max current target)"
    by (simp add: current_version_iff has_column_def)
  show "schema_ok d'" using assms(3-5) version cur by (auto simp: schema_ok_def migrates_def)
qed

lemma apply_unfold:
  assumes "current_schema_version d = Inr current" "0 \<le> target" "target \<le> 5"
    "foldR exec_sql d (migration_script applied_at current target) = Inr d'" "current_schema_version d' = Inr final"
  shows "apply_sqlite_migrations d (Some target) False applied_at =
    (Inr \<lparr>mr_dry_run = False, mr_current = current, mr_target = target, mr_planned = map mg_version (planned current target),
          mr_applied = map mg_version (planned current target), mr_final = Some final\<rparr>, d')"
  using assms execute_sql_iff [of "connect d" "migration_script applied_at current target" d']
  by (auto simp: apply_sqlite_migrations_def target_of_def latest_version lift_sql_def connect_def Let_def)

lemma migration_table_settled:
  assumes "has_table d ''schema_migrations''"
  shows "foldR exec_sql d (migration_script applied_at current target) = foldR exec_sql d (concat (map (step_script applied_at) (planned current target)))"
  using assms by (auto simp: migration_script_def migration_table_def has_table_def)


section \<open>Opening\<close>

definition lifecycle_columns :: "string list" where
  "lifecycle_columns = [''created_at_utc'', ''ttl_seconds'', ''expires_at_utc'']"

definition created_known :: "sql_db \<Rightarrow> bool" where
  "created_known d = (case map_of (db_tables d) ''state_store'' of None \<Rightarrow> False
     | Some tb \<Rightarrow> set lifecycle_columns \<subseteq> set (tb_cols tb) \<and> list_all (\<lambda>r. cell r ''created_at_utc'' \<noteq> SqlNull) (tb_rows tb))"

definition store_ready :: "sql_db \<Rightarrow> bool" where
  "store_ready d = (created_known d \<and> dict_has (db_indexes d) ''idx_state_store_expires_at_utc'')"

lemma update_same: "map_of xs k = Some v \<Longrightarrow> AList.update k v xs = xs"
  by (induction xs) (auto split: if_splits)

lemma store_names: "map_of known_tables ''state_store'' = Some [''pointer_id'', ''raw_data'', ''summary'', ''metadata'']"
    "''idx_state_store_expires_at_utc'' \<in> set known_indexes"
    "''idx_state_store_expires_at_utc'' \<notin> fst ` set known_tables"
  by code_simp+

lemma add_columns:
  assumes "compatible d" "has_table d t" "t \<in> fst ` set known_tables" "distinct cs" "set cs \<inter> set (table_info d t) = {}"
  shows "\<exists>d'. foldR exec_sql d (map (AddColumn t) cs) = Inr d' \<and> compatible d' \<and> keeps_data d d' \<and> versions d' = versions d
    \<and> table_info d' = (table_info d) (t := table_info d t @ cs)"
  using assms
proof (induction cs arbitrary: d)
  case (Cons c cs)
  then have "\<not> has_column d t c" by (simp add: has_column_def)
  from add_column [OF Cons.prems(1,2) this Cons.prems(3)] obtain d1 where d1: "exec_sql d (AddColumn t c) = Inr d1" "compatible d1"
      "has_table d1 = has_table d" "table_info d1 = (table_info d) (t := table_info d t @ [c])" by blast
  have later: "has_table d1 t" "distinct cs" "set cs \<inter> set (table_info d1 t) = {}" using d1(3,4) Cons.prems(2,4,5) by auto
  from Cons.IH [OF d1(2) later(1) Cons.prems(3) later(2,3)] obtain d' where "foldR exec_sql d1 (map (AddColumn t) cs) = Inr d'"
      "compatible d'" "keeps_data d1 d'" "versions d' = versions d1" "table_info d' = (table_info d1) (t := table_info d1 t @ cs)" by blast
  moreover have "keeps_data d d1" using exec_sql_keeps [OF d1(1)] by simp
  moreover have "versions d1 = versions d"
    using d1(1) by (auto simp: with_table_def versions_def int_cells_simps split: option.splits if_splits)
  ultimately show ?case using d1(1,4) by (auto simp del: exec_sql.simps intro: keeps_data_trans)
qed simp

lemma fill_created:
  assumes "compatible d" "has_table d ''state_store''" "set lifecycle_columns \<subseteq> set (table_info d ''state_store'')"
  shows "\<exists>d'. exec_sql d (FillNull ''state_store'' ''created_at_utc'' now) = Inr d' \<and> compatible d' \<and> created_known d'
    \<and> table_info d' = table_info d \<and> has_table d' = has_table d \<and> versions d' = versions d"
proof -
  from assms(2) obtain tb where tb: "map_of (db_tables d) ''state_store'' = Some tb" by (auto simp: has_table_def)
  let ?tb = "tb\<lparr>tb_rows := map (\<lambda>r. if cell r ''created_at_utc'' = SqlNull then AList.update ''created_at_utc'' (SqlText now) r else r) (tb_rows tb)\<rparr>"
  have "''state_store'' \<notin> set known_indexes" using map_of_known_D [OF store_names(1)] distinct_known(2) by blast
  then have "compatible (put_table ''state_store'' ?tb d)"
    using map_of_known(1) [OF assms(1) _ assms(2)] table_columns(1) [OF tb] by (auto intro!: compatible_put [OF assms(1)])
  with tb assms(2,3) show ?thesis
    by (intro exI [of _ "put_table ''state_store'' ?tb d"])
      (auto simp: with_table_def table_columns(1) [OF tb] fun_eq_iff created_known_def lifecycle_columns_def list_all_iff versions_def)
qed

lemma expiry_index:
  assumes "compatible d" "has_table d ''state_store''" "''expires_at_utc'' \<in> set (table_info d ''state_store'')"
  shows "\<exists>d'. exec_sql d (CreateIndex ''idx_state_store_expires_at_utc'' ''state_store'' ''expires_at_utc'') = Inr d'
    \<and> compatible d' \<and> db_tables d' = db_tables d \<and> dict_has (db_indexes d') ''idx_state_store_expires_at_utc''"
proof -
  from assms(2,3) obtain tb where tb: "map_of (db_tables d) ''state_store'' = Some tb" "''expires_at_utc'' \<in> set (tb_cols tb)"
    by (auto simp: has_table_def table_info_def)
  have "\<not> dict_has (db_tables d) ''idx_state_store_expires_at_utc''"
    using assms(1) store_names(2) by (simp add: compatible_def list_all_iff has_table_def)
  then show ?thesis
    using tb assms(1) compatible_index [OF assms(1) store_names(3)]
    by (cases "dict_has (db_indexes d) ''idx_state_store_expires_at_utc''") (auto simp: with_table_def)
qed

lemma run_sql_ok: "exec_sql (cn_db c) st = Inr d \<Longrightarrow> \<exists>c'. run_sql c st = (Inr (), c') \<and> cn_db c' = d"
  by (simp add: run_sql_def Let_def)

lemma same_tables: "db_tables d' = db_tables d \<Longrightarrow> table_info d' = table_info d"
  "db_tables d' = db_tables d \<Longrightarrow> versions d' = versions d" "db_tables d' = db_tables d \<Longrightarrow> created_known d' = created_known d"
  by (simp_all add: table_info_def versions_def created_known_def fun_eq_iff)

lemma sq_initialize_unfold:
  assumes "exec_sql d state_store_table = Inr d1"
    "foldR exec_sql d1 (ensure_lifecycle_columns (table_info d1 ''state_store'') now
      @ [CreateIndex ''idx_state_store_expires_at_utc'' ''state_store'' ''expires_at_utc'']) = Inr d'"
  shows "sq_initialize now d = (Inr (), d')"
proof -
  from run_sql_ok [of "connect d"] assms(1) obtain c where c: "run_sql (connect d) state_store_table = (Inr (), c)" "cn_db c = d1"
    by (auto simp: connect_def)
  from execute_sql_iff [of c] assms(2) c(2) show ?thesis by (force simp: sq_initialize_def c(1) leave_with_def)
qed

lemma sq_initialize_spec:
  assumes "compatible d"
  shows "\<exists>d'. sq_initialize now d = (Inr (), d') \<and> compatible d' \<and> keeps_data d d' \<and> store_ready d' \<and> actor_known d' = actor_known d
    \<and> set (versions d') = set (versions d)"
proof -
  have "fits [] [state_store_table]" by (simp add: state_store_table_def store_names)
  from fits_script [OF this assms] obtain d1 where d1: "exec_sql d state_store_table = Inr d1" "script_effect d [state_store_table] d1"
    by (auto split: sum.splits)
  let ?missing = "filter (\<lambda>c. c \<notin> set (table_info d1 ''state_store'')) lifecycle_columns"
  have store: "compatible d1" "has_table d1 ''state_store''" "''state_store'' \<in> fst ` set known_tables"
    using d1(2) map_of_known_D [OF store_names(1)] by (auto simp: script_effect_def state_store_table_def)
  have "distinct ?missing" "set ?missing \<inter> set (table_info d1 ''state_store'') = {}" by (auto simp: lifecycle_columns_def)
  from add_columns [OF store this] obtain d2 where d2: "foldR exec_sql d1 (map (AddColumn ''state_store'') ?missing) = Inr d2" "compatible d2"
      "keeps_data d1 d2" "versions d2 = versions d1" "table_info d2 = (table_info d1) (''state_store'' := table_info d1 ''state_store'' @ ?missing)" by blast
  have "has_table d2 ''state_store''" using kept_tables [OF d2(3) store(2)] .
  from fill_created [OF d2(2) this, of now] d2(5) obtain d3 where d3: "exec_sql d2 (FillNull ''state_store'' ''created_at_utc'' now) = Inr d3"
      "compatible d3" "created_known d3" "table_info d3 = table_info d2" "has_table d3 = has_table d2" "versions d3 = versions d2" by auto
  have "''expires_at_utc'' \<in> set (table_info d3 ''state_store'')" using d2(5) by (auto simp: d3(4) lifecycle_columns_def)
  moreover have "has_table d3 ''state_store''" using \<open>has_table d2 ''state_store''\<close> by (simp add: d3(5))
  ultimately obtain d4 where
      d4: "exec_sql d3 (CreateIndex ''idx_state_store_expires_at_utc'' ''state_store'' ''expires_at_utc'') = Inr d4" "compatible d4"
      "db_tables d4 = db_tables d3" "dict_has (db_indexes d4) ''idx_state_store_expires_at_utc''"
    using expiry_index [OF d3(2)] by blast
  let ?rest = "ensure_lifecycle_columns (table_info d1 ''state_store'') now
    @ [CreateIndex ''idx_state_store_expires_at_utc'' ''state_store'' ''expires_at_utc'']"
  have "foldR exec_sql d1 ?rest = Inr d4"
    using d2(1) d3(1) d4(1) by (simp del: exec_sql.simps filter.simps add: ensure_lifecycle_columns_def lifecycle_columns_def foldR_append)
  then have "sq_initialize now d = (Inr (), d4)" using sq_initialize_unfold [OF d1(1)] by blast
  moreover have "keeps_data d d4"
    using d1(2) d2(3) exec_sql_keeps [OF d3(1)] exec_sql_keeps [OF d4(1)] by (auto simp: script_effect_def intro: keeps_data_trans)
  moreover have "set (versions d4) = set (versions d)"
    using d1(2) d2(4) d3(6) same_tables(2) [OF d4(3)] by (simp add: script_effect_def state_store_table_def)
  moreover have "actor_known d4 = actor_known d"
    using d1(2) by (simp add: actor_known_def has_column_def same_tables(1) [OF d4(3)] d3(4) d2(5) script_effect_def)
  moreover have "store_ready d4" using d3(3) d4(4) same_tables(3) [OF d4(3)] by (simp add: store_ready_def)
  ultimately show ?thesis using d4(2) by blast
qed

lemma sq_initialize_settled:
  assumes "compatible d" "store_ready d"
  shows "sq_initialize now d = (Inr (), d)"
proof -
  from assms(2) obtain tb where tb: "map_of (db_tables d) ''state_store'' = Some tb" "set lifecycle_columns \<subseteq> set (tb_cols tb)"
      "\<And>r. r \<in> set (tb_rows tb) \<Longrightarrow> cell r ''created_at_utc'' \<noteq> SqlNull" "dict_has (db_indexes d) ''idx_state_store_expires_at_utc''"
    by (auto simp: store_ready_def created_known_def list_all_iff split: option.splits)
  have "\<not> dict_has (db_tables d) ''idx_state_store_expires_at_utc''"
    using assms(1) store_names(2) by (simp add: compatible_def list_all_iff has_table_def)
  with tb have index: "exec_sql d (CreateIndex ''idx_state_store_expires_at_utc'' ''state_store'' ''expires_at_utc'') = Inr d"
    by (simp add: with_table_def)
  have "map (\<lambda>r. if cell r ''created_at_utc'' = SqlNull then AList.update ''created_at_utc'' (SqlText now) r else r) (tb_rows tb) = tb_rows tb"
    using tb(3) by (simp add: map_idI)
  with tb(1,2) have fill: "exec_sql d (FillNull ''state_store'' ''created_at_utc'' now) = Inr d"
    by (simp add: with_table_def lifecycle_columns_def put_table_def update_same)
  have "foldR exec_sql d (ensure_lifecycle_columns (table_info d ''state_store'') now
    @ [CreateIndex ''idx_state_store_expires_at_utc'' ''state_store'' ''expires_at_utc'']) = Inr d"
    using tb(1,2) fill index by (simp del: exec_sql.simps add: ensure_lifecycle_columns_def table_columns lifecycle_columns_def)
  moreover have "exec_sql d state_store_table = Inr d" using tb(1) by (simp add: state_store_table_def)
  ultimately show ?thesis by (intro sq_initialize_unfold)
qed

lemma store_ready_kept: "store_ready d \<Longrightarrow> keeps_data d d' \<Longrightarrow> store_ready d'"
proof -
  assume ready: "store_ready d" and kept: "keeps_data d d'"
  from ready obtain tb where tb: "map_of (db_tables d) ''state_store'' = Some tb" "set lifecycle_columns \<subseteq> set (tb_cols tb)"
      "\<And>r. r \<in> set (tb_rows tb) \<Longrightarrow> cell r ''created_at_utc'' \<noteq> SqlNull"
    by (auto simp: store_ready_def created_known_def list_all_iff split: option.splits)
  with kept obtain tb' where tb': "map_of (db_tables d') ''state_store'' = Some tb'" "set (tb_cols tb) \<subseteq> set (tb_cols tb')"
      "list_all2 row_kept (tb_rows tb) (tb_rows tb')" by (force simp: keeps_data_def)
  have "cell r' ''created_at_utc'' \<noteq> SqlNull" if "r' \<in> set (tb_rows tb')" for r'
  proof -
    from that tb'(3) obtain r where "r \<in> set (tb_rows tb)" "row_kept r r'" by (metis in_set_conv_nth list_all2_conv_all_nth)
    with tb(3) show ?thesis using row_kept_value [of r r'] by simp
  qed
  with tb(2) tb'(1,2) ready kept show "store_ready d'"
    by (auto simp: store_ready_def created_known_def list_all_iff keeps_data_def)
qed

lemma version_transfer:
  assumes "current_schema_version d = Inr n" "compatible d'" "set (versions d') = set (versions d)"
  shows "current_schema_version d' = Inr n"
proof -
  have "has_column d' ''schema_migrations'' ''version''" if "has_table d' ''schema_migrations''"
    using map_of_known(1) [OF assms(2) known_migrations that] by (simp add: has_column_def)
  moreover have "versions d' = [] \<longleftrightarrow> versions d = []" using assms(3) by (metis set_empty)
  ultimately show ?thesis using assms(1,3) by (simp add: current_version_iff)
qed

lemma state_tables_fit: "fits [] state_tables"
  by code_simp

lemma state_tables_known: "list_all (\<lambda>st. case st of CreateTable t cs \<Rightarrow> map_of known_tables t = Some cs
     | CreateIndex i t c \<Rightarrow> i \<in> set known_indexes \<and> t \<in> set state_table_names | _ \<Rightarrow> False) state_tables"
  by code_simp

lemma state_table_named:
  assumes "t \<in> set state_table_names"
  obtains cs where "CreateTable t cs \<in> set state_tables"
proof -
  from assms obtain st cs where st: "st \<in> set state_tables" "(t, cs) \<in> set (declared_table st)"
    by (auto simp: state_table_names_def)
  from st(2) have "st = CreateTable t cs" by (cases st) auto
  with st(1) that show thesis by blast
qed

lemma state_tables_cases:
  assumes "st \<in> set state_tables"
  obtains t cs where "st = CreateTable t cs" "map_of known_tables t = Some cs"
  | i t c cs where "st = CreateIndex i t c" "i \<in> set known_indexes" "CreateTable t cs \<in> set state_tables"
proof -
  have "case st of CreateTable t cs \<Rightarrow> map_of known_tables t = Some cs
     | CreateIndex i t c \<Rightarrow> i \<in> set known_indexes \<and> t \<in> set state_table_names | _ \<Rightarrow> False"
    using state_tables_known assms by (simp add: list_all_iff)
  then show thesis by (cases st rule: sql_stmt.exhaust) (auto intro: that elim: state_table_named)
qed

text \<open>Everything \<open>StateManager\<close> reads or writes is there.\<close>

definition state_ready :: "sql_db \<Rightarrow> bool" where
  "state_ready d = (store_ready d \<and> actor_known d \<and> list_all (\<lambda>st. case st of
       CreateTable t cs \<Rightarrow> has_table d t \<and> set cs \<subseteq> set (table_info d t)
     | CreateIndex i t c \<Rightarrow> dict_has (db_indexes d) i
     | _ \<Rightarrow> True) state_tables)"

lemma state_tables_settled:
  assumes "compatible d" "state_ready d"
  shows "foldR exec_sql d state_tables = Inr d"
proof (rule settled_script)
  fix st
  assume st: "st \<in> set state_tables"
  from assms(2) have ready: "\<And>st. st \<in> set state_tables \<Longrightarrow> (case st of CreateTable t cs \<Rightarrow> has_table d t \<and> set cs \<subseteq> set (table_info d t)
      | CreateIndex i t c \<Rightarrow> dict_has (db_indexes d) i | _ \<Rightarrow> True)"
    by (simp add: state_ready_def list_all_iff)
  from st show "exec_sql d st = Inr d"
  proof (cases rule: state_tables_cases)
    case 1
    with ready [OF st] show ?thesis by (simp add: has_table_def)
  next
    case (2 i t c cs)
    from 2(2) assms(1) have "\<not> has_table d i" by (simp add: compatible_def list_all_iff)
    with ready [OF 2(3)] ready [OF st] 2(1) show ?thesis by (auto simp: with_table_def has_table_def)
  qed
qed

lemma tables_created:
  assumes "compatible d"
  shows "\<exists>d'. leave_with (execute_sql (connect d) state_tables) = (Inr (), d') \<and> script_effect d state_tables d'"
proof -
  from fits_script [OF state_tables_fit assms] obtain d' where "foldR exec_sql d state_tables = Inr d'" "script_effect d state_tables d'" by auto
  with execute_sql_iff [of "connect d" state_tables d'] show ?thesis by (auto simp: connect_def leave_with_def)
qed

lemma state_readyI:
  assumes "compatible d'" "store_ready d'" "actor_known d'" "script_effect d state_tables d2" "keeps_data d2 d'"
  shows "state_ready d'"
proof -
  have tables: "has_table d' t" if "CreateTable t cs \<in> set state_tables" for t cs
  proof -
    from assms(4) that have "has_table d2 t" unfolding script_effect_def by blast
    with kept_tables [OF assms(5)] show ?thesis .
  qed
  have "case st of CreateTable t cs \<Rightarrow> has_table d' t \<and> set cs \<subseteq> set (table_info d' t)
      | CreateIndex i t c \<Rightarrow> dict_has (db_indexes d') i | _ \<Rightarrow> True" if st: "st \<in> set state_tables" for st
    using st
  proof (cases rule: state_tables_cases)
    case (1 t cs)
    with map_of_known(1) [OF assms(1)] tables st show ?thesis by auto
  next
    case (2 i t c cs)
    with assms(4) st have "dict_has (db_indexes d2) i" unfolding script_effect_def by blast
    with assms(5) 2(1) show ?thesis by (simp add: keeps_data_def)
  qed
  with assms(2,3) show ?thesis by (simp add: state_ready_def list_all_iff)
qed

lemma apply_latest: "apply_sqlite_migrations d None = apply_sqlite_migrations d (Some LATEST_SCHEMA_VERSION)"
  by (simp add: apply_sqlite_migrations_def target_of_def fun_eq_iff)

lemma reopening:
  assumes "schema_ok d" "state_ready d" "current_schema_version d = Inr current" "5 \<le> current" "has_table d ''schema_migrations''"
  shows "\<exists>again. init_db now applied_at d = (Inr again, d) \<and> mr_applied again = []"
proof -
  from assms(1,2) have "compatible d" "store_ready d" by (simp_all add: schema_ok_def state_ready_def)
  with sq_initialize_settled state_tables_settled [OF _ assms(2)] execute_sql_iff [of "connect d" state_tables d]
  have "sq_initialize now d = (Inr (), d)" "leave_with (execute_sql (connect d) state_tables) = (Inr (), d)"
    by (auto simp: connect_def leave_with_def)
  moreover have "foldR exec_sql d (migration_script applied_at current 5) = Inr d"
    using assms(4,5) by (simp add: migration_table_settled planned_nothing)
  ultimately show ?thesis
    using apply_unfold [OF assms(3) _ _ _ assms(3), of 5] assms(4) by (simp add: init_db_def apply_latest latest_version planned_nothing)
qed

lemma init_db_tables:
  assumes "compatible d"
  obtains d1 d2 where "\<And>applied_at. init_db now applied_at d = apply_sqlite_migrations d2 None False applied_at" "keeps_data d d2"
    "script_effect d1 state_tables d2" "store_ready d2" "actor_known d2 = actor_known d" "set (versions d2) = set (versions d)"
    "list_all (has_table d2) migrated_tables"
proof -
  from sq_initialize_spec [OF assms, of now] obtain d1 where d1: "sq_initialize now d = (Inr (), d1)" "compatible d1" "keeps_data d d1"
      "store_ready d1" "actor_known d1 = actor_known d" "set (versions d1) = set (versions d)" by blast
  from tables_created [OF d1(2)] obtain d2 where d2: "leave_with (execute_sql (connect d1) state_tables) = (Inr (), d2)"
      "script_effect d1 state_tables d2" by blast
  have quiet: "\<Union> (stmt_versions ` set state_tables) = {}" by (auto elim: state_tables_cases)
  have "set migrated_tables \<subseteq> set state_table_names" by code_simp
  then have "list_all (has_table d2) migrated_tables"
    using d2(2) unfolding script_effect_def list_all_iff by (meson state_table_named subsetD)
  moreover from d2(2) have "keeps_data d1 d2" by (simp add: script_effect_def)
  ultimately show thesis
    using that [OF _ _ d2(2)] d1 d2 quiet store_ready_kept keeps_data_trans by (simp add: init_db_def script_effect_def actor_known_def)
qed

text \<open>C19: Opening the state manager on any sound database file, an empty one or one left by an earlier version, succeeds: afterwards every
  table, column and index it uses is there, the version is at least the latest one, no row is lost and no stored value has changed but for
  creation times that were missing. Opening it again changes nothing.\<close>

theorem opening_migrates:
  assumes "schema_ok d" "current_schema_version d = Inr current"
  shows "\<exists>report d'. init_db now applied_at d = (Inr report, d') \<and> state_ready d' \<and> schema_ok d' \<and> keeps_data d d'
    \<and> current_schema_version d' = Inr (max current LATEST_SCHEMA_VERSION)
    \<and> (\<exists>again. init_db now' applied_at' d' = (Inr again, d') \<and> mr_applied again = [])"
proof -
  from assms have "compatible d" by (simp add: schema_ok_def)
  from init_db_tables [OF this, of now] obtain d1 d2 where opened: "init_db now applied_at d = apply_sqlite_migrations d2 None False applied_at"
      "keeps_data d d2" "script_effect d1 state_tables d2" "store_ready d2" "actor_known d2 = actor_known d"
      "set (versions d2) = set (versions d)" "list_all (has_table d2) migrated_tables" by metis
  then have "compatible d2" by (simp add: script_effect_def)
  with version_transfer [OF assms(2) _ opened(6)] have here: "current_schema_version d2 = Inr current" by blast
  with assms opened(5) \<open>compatible d2\<close> have same: "schema_ok d2" "actor_known d2 \<longleftrightarrow> 5 \<le> current" by (auto simp: schema_ok_def)
  from migration_runs [OF \<open>compatible d2\<close> opened(7), of current 5 applied_at] same(2) obtain d3 where
      d3: "foldR exec_sql d2 (migration_script applied_at current 5) = Inr d3" "migrates d2 current 5 d3" by auto
  note version = migrates_version [OF same(1) here d3(2), simplified]
  from d3(2) have kept: "keeps_data d2 d3" "compatible d3" "has_table d3 ''schema_migrations''" by (simp_all add: migrates_def)
  have ready: "state_ready d3"
    using state_readyI [OF kept(2) _ _ opened(3) kept(1)] store_ready_kept [OF opened(4) kept(1)] d3(2) same(2) by (auto simp: migrates_def)
  from reopening [OF version(2) ready version(1) _ kept(3)]
  have "\<exists>again. init_db now' applied_at' d3 = (Inr again, d3) \<and> mr_applied again = []" by simp
  moreover have "keeps_data d d3" using keeps_data_trans [OF opened(2) kept(1)] .
  ultimately show ?thesis
    using apply_unfold [OF here _ _ d3(1) version(1)] ready version opened(1) by (simp add: apply_latest latest_version)
qed

text \<open>With \<open>--backup\<close> the script leaves the database as it was beside the migrated one, whether or not the migration succeeds.\<close>

lemma migrate_keeps_backup:
  assumes "map_of files (ma_db args) = Some d" "ma_backup args" "\<not> ma_dry_run args"
  shows "map_of (snd (migrate_main files args applied_at)) (ma_db args @ ''.bak'') = Some d"
  using assms by (simp add: migrate_main_def Let_def split: prod.splits)

section \<open>Interrupted migrations\<close>

definition stranded :: "sql_db \<Rightarrow> bool" where
  "stranded d = (compatible d \<and> actor_known d \<and> (case current_schema_version d of Inl _ \<Rightarrow> False | Inr n \<Rightarrow> 0 \<le> n \<and> n < 5))"

definition duplicate_actor :: migration_error where
  "duplicate_actor = MigrationSql (DuplicateColumn ''execution_run_checkpoints'' ''actor_metadata_payload'')"

lemma saved_stays: "cn_saved c = Some d \<Longrightarrow> cn_saved (snd (execute_sql c sts)) = Some d"
proof (induction sts arbitrary: c)
  case (Cons st sts)
  then show ?case by (auto simp: run_sql_def Let_def split: sum.splits)
qed simp

lemma execute_sql_append:
  "execute_sql c (xs @ ys) = (case execute_sql c xs of (Inl e, c') \<Rightarrow> (Inl e, c') | (Inr _, c') \<Rightarrow> execute_sql c' ys)"
  by (induction xs arbitrary: c) (auto split: prod.splits sum.splits)

text \<open>Until the first statement that changes rows every statement is durable at once, afterwards none is.\<close>

lemma durable_prefix:
  assumes "execute_sql c sts = (Inr (), c')" "cn_saved c = None"
  shows "\<exists>before after. sts = before @ after \<and> foldR exec_sql (cn_db c) before = Inr (durable c') \<and> \<Union> (stmt_versions ` set before) = {}"
  using assms
proof (induction sts arbitrary: c)
  case Nil
  then show ?case by (simp add: durable_def)
next
  case (Cons st sts)
  show ?case
  proof (cases "opens_transaction st")
    case True
    with Cons.prems obtain d where "execute_sql (c\<lparr>cn_saved := Some (cn_db c), cn_db := d\<rparr>) sts = (Inr (), c')"
      by (auto simp: run_sql_def Let_def split: sum.splits)
    with saved_stays [of "c\<lparr>cn_saved := Some (cn_db c), cn_db := d\<rparr>" "cn_db c" sts] have "cn_saved c' = Some (cn_db c)" by simp
    then show ?thesis by (intro exI [of _ "[]"] exI [of _ "st # sts"]) (simp add: durable_def)
  next
    case False
    with Cons.prems obtain d where c1: "exec_sql (cn_db c) st = Inr d" "execute_sql (c\<lparr>cn_db := d\<rparr>) sts = (Inr (), c')"
      by (auto simp: run_sql_def Let_def split: sum.splits)
    have "cn_saved (c\<lparr>cn_db := d\<rparr>) = None" using Cons.prems(2) by simp
    from Cons.IH [OF c1(2) this] obtain before after where "sts = before @ after" "foldR exec_sql d before = Inr (durable c')"
        "\<Union> (stmt_versions ` set before) = {}" by (elim exE conjE) simp
    with c1(1) False show ?thesis
      by (intro exI [of _ "st # before"] exI [of _ after]) (cases st; simp del: exec_sql.simps)
  qed
qed

lemma strandedI:
  assumes "current_schema_version d = Inr n" "0 \<le> n" "n < 5" "compatible d'" "set (versions d') = set (versions d)" "actor_known d'"
  shows "stranded d'"
  using version_transfer [OF assms(1,4,5)] assms by (simp add: stranded_def)

lemma failing_migration:
  assumes "compatible d" "list_all (has_table d) migrated_tables" "current_schema_version d = Inr n" "0 \<le> n" "n < 5" "actor_known d"
  shows "\<exists>d'. apply_sqlite_migrations d None False applied_at = (Inl duplicate_actor, d') \<and> stranded d'"
proof -
  let ?script = "early_script applied_at n 5"
  obtain d1 where d1: "foldR exec_sql d ?script = Inr d1" "actor_known d1" "has_table d1 ''execution_run_checkpoints''"
    by (rule early_runs [OF assms(1,2), of applied_at n 5]) (use assms(5,6) in simp)
  with execute_sql_iff [of "connect d" ?script d1] obtain c where c: "execute_sql (connect d) ?script = (Inr (), c)" "cn_db c = d1"
    by (auto simp: connect_def)
  have "run_sql c actor_column = (Inl (DuplicateColumn ''execution_run_checkpoints'' ''actor_metadata_payload''), c)"
    using d1(2,3) c(2) by (auto simp: run_sql_def actor_column_def with_table_def has_table_def actor_known_def has_column_def table_columns)
  then have run: "execute_sql (connect d) (migration_script applied_at n 5) = (Inl (DuplicateColumn ''execution_run_checkpoints'' ''actor_metadata_payload''), c)"
    using assms(5) c(1) by (simp add: migration_script_split execute_sql_append)
  from durable_prefix [OF c(1)] obtain before after where before: "?script = before @ after" "foldR exec_sql d before = Inr (durable c)"
      "\<Union> (stmt_versions ` set before) = {}" by (auto simp: connect_def)
  have "fits migrated_tables before" using early_script_fits [of applied_at n 5] by (simp add: before(1) fits_append)
  from fits_script [OF this assms(1,2)] before(2) have "script_effect d before (durable c)" by auto
  then have "stranded (durable c)"
    using assms(6) before(3) by (intro strandedI [OF assms(3-5)]) (simp_all add: script_effect_def actor_known_def)
  with run assms(3) show ?thesis
    by (simp add: apply_sqlite_migrations_def target_of_def latest_version lift_sql_def duplicate_actor_def)
qed

lemma autocommits: "\<forall>st\<in>set sts. \<not> opens_transaction st \<Longrightarrow> cn_saved c = None \<Longrightarrow> cn_saved (snd (execute_sql c sts)) = None"
  by (induction sts arbitrary: c) (auto simp: run_sql_def Let_def split: sum.splits)

lemma crash_strands:
  assumes "schema_ok d" "current_schema_version d = Inr 4"
  shows "stranded (durable (snd (execute_sql (connect d) [migration_table, checkpoints_table, actor_column])))"
proof -
  from assms have ok: "compatible d" "\<not> actor_known d" by (auto simp: schema_ok_def)
  have "fits [] [migration_table, checkpoints_table]" by code_simp
  from fits_script [OF this ok(1)] obtain d1 where d1: "foldR exec_sql d [migration_table, checkpoints_table] = Inr d1"
      "script_effect d [migration_table, checkpoints_table] d1" by auto
  from d1(2) ok(2) have "compatible d1" "has_table d1 ''execution_run_checkpoints''" "\<not> actor_known d1"
    by (auto simp: script_effect_def checkpoints_table_def actor_known_def)
  then obtain d2 where d2: "exec_sql d1 actor_column = Inr d2" "compatible d2" "actor_known d2" by (rule actor_added)
  let ?sts = "[migration_table, checkpoints_table, actor_column]"
  have "foldR exec_sql (cn_db (connect d)) ?sts = Inr d2"
    using d1(1) d2(1) foldR_append [of exec_sql d "[migration_table, checkpoints_table]" "[actor_column]"] by (simp add: connect_def del: exec_sql.simps)
  from execute_sql_iff [OF this] obtain c where c: "execute_sql (connect d) ?sts = (Inr (), c)" "cn_db c = d2" by blast
  have "cn_saved c = None"
    using autocommits [of ?sts "connect d"] c(1) by (simp add: connect_def migration_table_def checkpoints_table_def actor_column_def)
  then have "durable c = d2" using c(2) by (simp add: durable_def)
  moreover have "set (versions d2) = set (versions d)"
    using d1(2) exec_sql_versions [OF d2(1)] by (simp add: script_effect_def migration_table_def checkpoints_table_def actor_column_def)
  ultimately show ?thesis using strandedI [OF assms(2) _ _ d2(2) _ d2(3)] c(1) by simp
qed

text \<open>The step to version 5 is not atomic: a database at version 4 whose migration is interrupted after the column is added, and before the version is
  recorded, is stranded. From then on no opening succeeds: each one fails on the duplicate column and leaves a stranded database.\<close>

theorem interrupted_migration_strands:
  assumes "schema_ok d" "current_schema_version d = Inr 4"
  shows "stranded (durable (snd (execute_sql (connect d) (take 3 (migration_script applied_at 4 5)))))
    \<and> (\<forall>d now applied_at. stranded d \<longrightarrow> (\<exists>d'. init_db now applied_at d = (Inl duplicate_actor, d') \<and> stranded d'))"
proof (intro conjI allI impI)
  have "take 3 (migration_script applied_at 4 5) = [migration_table, checkpoints_table, actor_column]"
    by (simp add: migration_script_def planned_def MIGRATIONS_def step_script_def)
  with crash_strands [OF assms] show "stranded (durable (snd (execute_sql (connect d) (take 3 (migration_script applied_at 4 5)))))" by simp
next
  fix d now applied_at
  assume "stranded d"
  then obtain n where n: "compatible d" "actor_known d" "current_schema_version d = Inr n" "0 \<le> n" "n < 5"
    by (auto simp: stranded_def split: sum.splits)
  from init_db_tables [OF n(1), of now] obtain d1 d2 where
      opened: "\<And>applied_at. init_db now applied_at d = apply_sqlite_migrations d2 None False applied_at"
      "script_effect d1 state_tables d2" "actor_known d2 = actor_known d" "set (versions d2) = set (versions d)"
      "list_all (has_table d2) migrated_tables" by metis
  then have "compatible d2" by (simp add: script_effect_def)
  from failing_migration [OF this opened(5) version_transfer [OF n(3) this opened(4)] n(4,5)] opened(1,3) n(2)
  show "\<exists>d'. init_db now applied_at d = (Inl duplicate_actor, d') \<and> stranded d'" by simp
qed

section \<open>A database at version 4\<close>

definition sample_db :: sql_db where
  "sample_db = \<lparr>db_tables = [
     (''schema_migrations'', \<lparr>tb_cols = [''version'', ''description'', ''applied_at_utc''],
        tb_rows = [[(''version'', SqlInt 3)], [(''version'', SqlInt 4)]]\<rparr>),
     (''state_store'', \<lparr>tb_cols = [''pointer_id'', ''raw_data'', ''summary'', ''metadata''],
        tb_rows = [[(''pointer_id'', SqlText ''ptr_1''), (''raw_data'', SqlText ''data'')]]\<rparr>),
     (''execution_trace_events'', \<lparr>tb_cols = [''event_id'', ''run_id'', ''step_id'', ''tool_name'', ''event_type'', ''timestamp_utc'',
       ''attempt'', ''resolved_arguments'', ''input_pointer_ids'', ''output_pointer_id'', ''duration_ms'', ''retry_delay_seconds'',
       ''error_payload''], tb_rows = []\<rparr>),
     (''execution_run_summaries'', \<lparr>tb_cols = [''run_id'', ''started_at_utc'', ''completed_at_utc'', ''total_steps'',
       ''succeeded_steps'', ''failed_steps'', ''total_duration_ms'', ''final_pointer_id''], tb_rows = []\<rparr>)],
     db_indexes = [(''idx_execution_trace_events_run_id'', ''execution_trace_events'', ''run_id'')]\<rparr>"

lemma sample_db_ok: "schema_ok sample_db" "current_schema_version sample_db = Inr 4" "list_all (has_table sample_db) migrated_tables"
  by code_simp+


theorem opening_migrates_witness:
  "schema_ok sample_db \<and> (\<exists>report d'. init_db ''t0'' ''t1'' sample_db = (Inr report, d') \<and> state_ready d' \<and> keeps_data sample_db d')"
  using opening_migrates [OF sample_db_ok(1,2), of "''t0''" "''t1''" "''t2''" "''t3''"] sample_db_ok(1) by auto

theorem interrupted_migration_strands_witness:
  "schema_ok sample_db \<and> stranded (durable (snd (execute_sql (connect sample_db) (take 3 (migration_script ''t1'' 4 5)))))"
  using interrupted_migration_strands [OF sample_db_ok(1,2), of "''t1''"] sample_db_ok(1) by blast

end
