(* ===== verification/EAP_Mcp.thy ===== *)
theory EAP_Mcp
  imports EAP_Numbers
begin

text \<open>
  The client of the Model Context Protocol over the standard streams of a child process,
  \<^verbatim>\<open>src/eap/environment/mcp_client.py\<close>, and the tool that uses it,
  \<^verbatim>\<open>tools/mcp_tools.py\<close>.

  The output of the server is a list of arrivals: chunks of bytes, or the end of the stream, each with its
  time. The clock is part of the state; reading it takes \<open>tick\<close>, waiting in \<open>select\<close> moves it to
  the next arrival or to the timeout. The loops that wait take fuel, and \<open>None\<close> is running out of it.
  JSON, UTF-8, the splitting of the command line and the start of the process are arguments. Writing to the
  server never blocks in the model.
\<close>

section \<open>The pipe from the server\<close>

datatype arrival = Chunk rat char string | Closes rat

record pipe =
  pp_now :: rat
  pp_ready :: string
  pp_future :: "arrival list"

definition read_clock :: "rat \<Rightarrow> pipe \<Rightarrow> rat \<times> pipe" where
  "read_clock tick p = (let now = pp_now p + tick in (now, p\<lparr>pp_now := now\<rparr>))"

definition select_readable :: "rat \<Rightarrow> pipe \<Rightarrow> bool \<times> pipe" where
  \<comment> \<open>\<open>select.select([fd], [], [], timeout)\<close>\<close>
  "select_readable timeout p = (let until = pp_now p + timeout in
     if pp_ready p \<noteq> [] then (True, p)
     else case pp_future p of
       [] \<Rightarrow> (False, p\<lparr>pp_now := until\<rparr>)
     | Chunk t b bs # rest \<Rightarrow>
         if t \<le> until then (True, p\<lparr>pp_now := max (pp_now p) t, pp_ready := b # bs, pp_future := rest\<rparr>) else (False, p\<lparr>pp_now := until\<rparr>)
     | Closes t # rest \<Rightarrow> if t \<le> until then (True, p\<lparr>pp_now := max (pp_now p) t\<rparr>) else (False, p\<lparr>pp_now := until\<rparr>))"

definition os_read :: "nat \<Rightarrow> pipe \<Rightarrow> string \<times> pipe" where
  \<comment> \<open>\<open>os.read(fd, n)\<close> on a readable pipe: the empty string at the end of the stream\<close>
  "os_read n p = (take n (pp_ready p), p\<lparr>pp_ready := drop n (pp_ready p)\<rparr>)"

datatype mcp_error =
    EmptyCommand | NotStarted | ServerExited | TimedOutHeader | TimedOutBody | ClosedBeforeHeader | ClosedBeforeBody
  | MissingLength | BadJson | ErrorResponse pyval | NotAdvertised string
  | BadCommand | SpawnFailed | BrokenPipe | BadLength | BadUtf8 | BadType

definition is_mcp_error :: "mcp_error \<Rightarrow> bool" where
  \<comment> \<open>an \<open>MCPClientError\<close>; the others are exceptions of the standard library\<close>
  "is_mcp_error e = (e \<notin> {BadCommand, SpawnFailed, BrokenPipe, BadLength, BadUtf8, BadType})"

definition wait_readable :: "rat \<Rightarrow> rat \<Rightarrow> pipe \<Rightarrow> bool option \<times> pipe" where
  \<comment> \<open>one pass of a reading loop up to \<open>os.read\<close>: \<open>None\<close> when the deadline has passed\<close>
  "wait_readable tick deadline p = (case read_clock tick p of (t1, p1) \<Rightarrow>
     if t1 > deadline then (None, p1)
     else case read_clock tick p1 of (t2, p2) \<Rightarrow>
       case select_readable (max 0 (deadline - t2)) p2 of (readable, p3) \<Rightarrow> (Some readable, p3))"

fun read_until :: "nat \<Rightarrow> rat \<Rightarrow> string \<Rightarrow> rat \<Rightarrow> string \<Rightarrow> pipe \<Rightarrow> ((mcp_error + string) \<times> pipe) option" where
  "read_until 0 tick delimiter deadline data p = None"
| "read_until (Suc fuel) tick delimiter deadline data p =
     (if is_substring delimiter data then Some (Inr data, p)
      else case wait_readable tick deadline p of
        (None, p1) \<Rightarrow> Some (Inl TimedOutHeader, p1)
      | (Some False, p1) \<Rightarrow> read_until fuel tick delimiter deadline data p1
      | (Some True, p1) \<Rightarrow> (case os_read 1 p1 of (chunk, p2) \<Rightarrow>
          if chunk = [] then Some (Inr data, p2) else read_until fuel tick delimiter deadline (data @ chunk) p2))"

fun read_exact :: "nat \<Rightarrow> rat \<Rightarrow> int \<Rightarrow> rat \<Rightarrow> string \<Rightarrow> pipe \<Rightarrow> ((mcp_error + string) \<times> pipe) option" where
  "read_exact 0 tick byte_count deadline data p = None"
| "read_exact (Suc fuel) tick byte_count deadline data p =
     (if byte_count \<le> int (length data) then Some (Inr data, p)
      else case wait_readable tick deadline p of
        (None, p1) \<Rightarrow> Some (Inl TimedOutBody, p1)
      | (Some False, p1) \<Rightarrow> read_exact fuel tick byte_count deadline data p1
      | (Some True, p1) \<Rightarrow> (case os_read (nat (byte_count - int (length data))) p1 of (chunk, p2) \<Rightarrow>
          if chunk = [] then Some (Inl ClosedBeforeBody, p2) else read_exact fuel tick byte_count deadline (data @ chunk) p2))"

section \<open>Messages\<close>

abbreviation CR :: char where "CR \<equiv> CHR 0x0D"
abbreviation LF :: char where "LF \<equiv> CHR 0x0A"

fun split_crlf :: "string \<Rightarrow> string list" where
  "split_crlf [] = [[]]"
| "split_crlf [c] = [[c]]"
| "split_crlf (c # d # s) = (if c = CR \<and> d = LF then [] # split_crlf s
     else case split_crlf (d # s) of [] \<Rightarrow> [[c]] | w # ws \<Rightarrow> (c # w) # ws)"

definition parse_content_length :: "string \<Rightarrow> mcp_error + int" where
  "parse_content_length header_text =
     (case filter (\<lambda>line. startswith (py_lower line) ''content-length:'') (split_crlf header_text) of
       [] \<Rightarrow> Inl MissingLength
     | line # _ \<Rightarrow> (case py_int (py_strip (drop 1 (dropWhile (\<lambda>c. c \<noteq> CHR '':'') line))) of None \<Rightarrow> Inl BadLength | Some n \<Rightarrow> Inr n))"

record mcp_world =
  mw_pipe :: pipe
  mw_exit :: "rat option"
  mw_broken :: "rat option"
  mw_stdin :: "string list"
  mw_stopped :: bool

record mcp_env =
  me_tick :: rat
  me_dumps :: "pyval \<Rightarrow> string"
  me_dumps_sorted :: "pyval \<Rightarrow> string"
  me_loads :: "string \<Rightarrow> pyval option"
  me_decode :: "string \<Rightarrow> string option"
  me_decode_replace :: "string \<Rightarrow> string"
  me_split :: "string \<Rightarrow> string list option"
  me_spawn :: "string list \<Rightarrow> string option \<Rightarrow> mcp_world option"

record mcp_state =
  ms_process :: "mcp_world option"
  ms_request_id :: int

type_synonym 'a mcp = "mcp_state \<Rightarrow> ((mcp_error + 'a) \<times> mcp_state) option"

definition retM :: "'a \<Rightarrow> 'a mcp" where
  "retM x st = Some (Inr x, st)"

definition failM :: "mcp_error \<Rightarrow> 'a mcp" where
  "failM e st = Some (Inl e, st)"

definition bindM :: "'a mcp \<Rightarrow> ('a \<Rightarrow> 'b mcp) \<Rightarrow> 'b mcp" where
  "bindM m f st = (case m st of None \<Rightarrow> None | Some (Inl e, st') \<Rightarrow> Some (Inl e, st') | Some (Inr x, st') \<Rightarrow> f x st')"

definition passed :: "rat \<Rightarrow> rat option \<Rightarrow> bool" where
  "passed now t = opt_holds (\<lambda>t. t \<le> now) t"

definition require_process :: "mcp_world mcp" where
  "require_process st = (case ms_process st of None \<Rightarrow> failM NotStarted st
     | Some w \<Rightarrow> if passed (pp_now (mw_pipe w)) (mw_exit w) then failM ServerExited st else retM w st)"

definition put_world :: "mcp_world \<Rightarrow> unit mcp" where
  "put_world w st = Some (Inr (), st\<lparr>ms_process := Some w\<rparr>)"

definition frame_message :: "string \<Rightarrow> string" where
  "frame_message raw = ''Content-Length: '' @ int_repr (int (length raw)) @ [CR, LF, CR, LF] @ raw"

definition mcp_write_message :: "mcp_env \<Rightarrow> pyval \<Rightarrow> unit mcp" where
  "mcp_write_message env payload = bindM require_process (\<lambda>w.
     if passed (pp_now (mw_pipe w)) (mw_broken w) then failM BrokenPipe
     else put_world (w\<lparr>mw_stdin := mw_stdin w @ [frame_message (me_dumps env payload)]\<rparr>))"

definition run_pipe :: "mcp_world \<Rightarrow> ((mcp_error + 'a) \<times> pipe) option \<Rightarrow> 'a mcp" where
  "run_pipe w r st = (case r of None \<Rightarrow> None | Some (res, p) \<Rightarrow> Some (res, st\<lparr>ms_process := Some (w\<lparr>mw_pipe := p\<rparr>)\<rparr>))"

definition liftM :: "mcp_error + 'a \<Rightarrow> 'a mcp" where
  "liftM r = (case r of Inl e \<Rightarrow> failM e | Inr x \<Rightarrow> retM x)"

definition decode_body :: "mcp_env \<Rightarrow> string \<Rightarrow> mcp_error + pyval" where
  "decode_body env body = (case me_decode env body of None \<Rightarrow> Inl BadUtf8
     | Some text \<Rightarrow> (case me_loads env text of None \<Rightarrow> Inl BadJson | Some v \<Rightarrow> Inr v))"

definition read_frame :: "mcp_env \<Rightarrow> nat \<Rightarrow> rat \<Rightarrow> pipe \<Rightarrow> ((mcp_error + pyval) \<times> pipe) option" where
  "read_frame env fuel deadline p = (case read_until fuel (me_tick env) [CR, LF, CR, LF] deadline [] p of
       None \<Rightarrow> None
     | Some (Inl e, p1) \<Rightarrow> Some (Inl e, p1)
     | Some (Inr header, p1) \<Rightarrow>
         if header = [] then Some (Inl ClosedBeforeHeader, p1)
         else (case parse_content_length (me_decode_replace env header) of
             Inl e \<Rightarrow> Some (Inl e, p1)
           | Inr content_length \<Rightarrow> (case read_exact fuel (me_tick env) content_length deadline [] p1 of
               None \<Rightarrow> None
             | Some (Inl e, p2) \<Rightarrow> Some (Inl e, p2)
             | Some (Inr body, p2) \<Rightarrow> Some (decode_body env body, p2))))"

definition read_message :: "mcp_env \<Rightarrow> nat \<Rightarrow> rat \<Rightarrow> pyval mcp" where
  "read_message env fuel deadline = bindM require_process (\<lambda>w. run_pipe w (read_frame env fuel deadline (mw_pipe w)))"

section \<open>Requests\<close>

fun answer_to :: "int \<Rightarrow> pyval \<Rightarrow> (mcp_error + pyval) option" where
  \<comment> \<open>\<open>None\<close> when the loop goes on\<close>
  "answer_to request_id (PDict d) =
     (if \<not> dict_has d ''id'' then None
      else if \<not> py_eq (py_get (PDict d) ''id'') (PInt request_id) then None
      else (case map_of d ''error'' of Some e \<Rightarrow> Some (Inl (ErrorResponse e)) | None \<Rightarrow> Some (Inr (dict_get_or d ''result'' (PDict [])))))"
| "answer_to request_id (PList xs) = (if list_ex (\<lambda>x. py_eq x (PStr ''id'')) xs then Some (Inl BadType) else None)"
| "answer_to request_id (PStr s) = (if is_substring ''id'' s then Some (Inl BadType) else None)"
| "answer_to request_id _ = Some (Inl BadType)"

fun await_answer :: "mcp_env \<Rightarrow> nat \<Rightarrow> nat \<Rightarrow> rat \<Rightarrow> int \<Rightarrow> pyval mcp" where
  "await_answer env fuel 0 deadline request_id = (\<lambda>st. None)"
| "await_answer env fuel (Suc rounds) deadline request_id =
     bindM (read_message env fuel deadline) (\<lambda>incoming.
       case answer_to request_id incoming of None \<Rightarrow> await_answer env fuel rounds deadline request_id | Some r \<Rightarrow> liftM r)"

definition request_message :: "int \<Rightarrow> string \<Rightarrow> pyval \<Rightarrow> pyval" where
  "request_message request_id method params =
     PDict [(''jsonrpc'', PStr ''2.0''), (''id'', PInt request_id), (''method'', PStr method), (''params'', params)]"

definition next_id :: "int mcp" where
  "next_id st = (let i = ms_request_id st + 1 in Some (Inr i, st\<lparr>ms_request_id := i\<rparr>))"

definition start_deadline :: "mcp_env \<Rightarrow> rat \<Rightarrow> rat mcp" where
  "start_deadline env timeout st = (case ms_process st of None \<Rightarrow> Some (Inl NotStarted, st)
     | Some w \<Rightarrow> (case read_clock (me_tick env) (mw_pipe w) of (t, p) \<Rightarrow>
         Some (Inr (t + timeout), st\<lparr>ms_process := Some (w\<lparr>mw_pipe := p\<rparr>)\<rparr>)))"

definition mcp_request :: "mcp_env \<Rightarrow> nat \<Rightarrow> rat \<Rightarrow> string \<Rightarrow> pyval \<Rightarrow> pyval mcp" where
  "mcp_request env fuel timeout method params = bindM next_id (\<lambda>request_id.
     bindM (mcp_write_message env (request_message request_id method params)) (\<lambda>_.
     bindM (start_deadline env timeout) (\<lambda>deadline. await_answer env fuel fuel deadline request_id)))"

definition notify :: "mcp_env \<Rightarrow> string \<Rightarrow> pyval \<Rightarrow> unit mcp" where
  "notify env method params = mcp_write_message env (PDict [(''jsonrpc'', PStr ''2.0''), (''method'', PStr method), (''params'', params)])"

definition initialize_mcp :: "mcp_env \<Rightarrow> nat \<Rightarrow> rat \<Rightarrow> pyval mcp" where
  "initialize_mcp env fuel timeout = bindM (mcp_request env fuel timeout ''initialize''
       (PDict [(''protocolVersion'', PStr ''2024-11-05''), (''capabilities'', PDict []),
               (''clientInfo'', PDict [(''name'', PStr ''eap-mcp-bridge''), (''version'', PStr ''0.1.0'')])])) (\<lambda>response.
     bindM (notify env ''notifications/initialized'' (PDict [])) (\<lambda>_. retM response))"

definition start_client :: "mcp_env \<Rightarrow> nat \<Rightarrow> rat \<Rightarrow> string \<Rightarrow> string option \<Rightarrow> unit mcp" where
  "start_client env fuel timeout server_command working_directory st =
     (if ms_process st \<noteq> None then Some (Inr (), st)
      else case me_split env server_command of None \<Rightarrow> failM BadCommand st
      | Some [] \<Rightarrow> failM EmptyCommand st
      | Some parts \<Rightarrow> (case me_spawn env parts (if working_directory = Some [] then None else working_directory) of
          None \<Rightarrow> failM SpawnFailed st
        | Some w \<Rightarrow> bindM (initialize_mcp env fuel timeout) (\<lambda>_. retM ()) (st\<lparr>ms_process := Some w\<rparr>)))"

definition list_tools :: "mcp_env \<Rightarrow> nat \<Rightarrow> rat \<Rightarrow> pyval mcp" where
  "list_tools env fuel timeout = mcp_request env fuel timeout ''tools/list'' (PDict [])"

definition call_message :: "string \<Rightarrow> pyval \<Rightarrow> pyval" where
  "call_message tool_name arguments = PDict [(''name'', PStr tool_name), (''arguments'', arguments)]"

definition call_tool :: "mcp_env \<Rightarrow> nat \<Rightarrow> rat \<Rightarrow> string \<Rightarrow> pyval \<Rightarrow> pyval mcp" where
  "call_tool env fuel timeout tool_name arguments = mcp_request env fuel timeout ''tools/call'' (call_message tool_name arguments)"

text \<open>The names a server advertises: the elements of \<open>tools\<close> that are dictionaries, and what the set of names accepts.\<close>

fun hashable :: "pyval \<Rightarrow> bool" where
  "hashable (PList _) = False"
| "hashable (PDict _) = False"
| "hashable _ = True"

definition tool_names :: "pyval list \<Rightarrow> mcp_error + pyval list" where
  "tool_names tools = mapR (\<lambda>tool. let name = py_get tool ''name'' in if hashable name then Inr name else Inl BadType) (filter is_dict tools)"

definition advertised :: "pyval \<Rightarrow> mcp_error + pyval list" where
  "advertised listed = (case listed of
     PDict d \<Rightarrow> (case dict_get_or d ''tools'' (PList []) of
         PList tools \<Rightarrow> tool_names tools
       | PDict _ \<Rightarrow> Inr [] | PStr _ \<Rightarrow> Inr []
       | _ \<Rightarrow> Inl BadType)
   | _ \<Rightarrow> Inl BadType)"

definition sortable :: "pyval list \<Rightarrow> bool" where
  \<comment> \<open>the error message sorts the names: texts and numbers together raise\<close>
  "sortable names = (let truthy = filter py_truthy names in list_all is_str truthy \<or> list_all (\<lambda>v. \<not> is_str v) truthy)"

definition check_listed :: "mcp_env \<Rightarrow> nat \<Rightarrow> rat \<Rightarrow> string \<Rightarrow> unit mcp" where
  "check_listed env fuel timeout tool_name = bindM (list_tools env fuel timeout) (\<lambda>listed.
     bindM (liftM (advertised listed)) (\<lambda>names.
       if PStr tool_name \<in> set names then retM ()
       else if sortable names then failM (NotAdvertised tool_name) else failM BadType))"

definition close_client :: "mcp_state \<Rightarrow> mcp_state \<times> mcp_world option" where
  \<comment> \<open>the second component is the world of the ended process; a killed process ends\<close>
  "close_client st = (st\<lparr>ms_process := None\<rparr>, map_option (\<lambda>w. w\<lparr>mw_stopped := True\<rparr>) (ms_process st))"

definition invoke_mcp_tool_stdio :: "mcp_env \<Rightarrow> nat \<Rightarrow> rat \<Rightarrow> string \<Rightarrow> string option \<Rightarrow> string \<Rightarrow> pyval \<Rightarrow> bool
    \<Rightarrow> ((mcp_error + pyval) \<times> mcp_world option) option" where
  \<comment> \<open>the second component is the child process, if one was started; \<open>__exit__\<close> runs only when \<open>__enter__\<close> returned\<close>
  "invoke_mcp_tool_stdio env fuel timeout server_command working_directory tool_name arguments require_listed =
     (case start_client env fuel timeout server_command working_directory \<lparr>ms_process = None, ms_request_id = 0\<rparr> of
       None \<Rightarrow> None
     | Some (Inl e, st) \<Rightarrow> Some (Inl e, ms_process st)
     | Some (Inr _, st) \<Rightarrow>
         (case bindM (if require_listed then check_listed env fuel timeout tool_name else retM ()) (\<lambda>_.
             call_tool env fuel timeout tool_name arguments) st of
           None \<Rightarrow> None
         | Some (r, st') \<Rightarrow> Some (r, snd (close_client st'))))"

datatype tool_failure = ToolRuntimeError mcp_error | ToolRaised mcp_error

definition invoke_mcp_tool :: "mcp_env \<Rightarrow> nat \<Rightarrow> rat \<Rightarrow> string \<Rightarrow> string option \<Rightarrow> string \<Rightarrow> pyval option \<Rightarrow> bool
    \<Rightarrow> ((tool_failure + string) \<times> mcp_world option) option" where
  "invoke_mcp_tool env fuel timeout server_command working_directory tool_name tool_arguments require_listed =
     (case invoke_mcp_tool_stdio env fuel timeout server_command working_directory tool_name
         (case tool_arguments of Some v \<Rightarrow> if py_truthy v then v else PDict [] | None \<Rightarrow> PDict []) require_listed of
       None \<Rightarrow> None
     | Some (Inl e, w) \<Rightarrow> Some (Inl (if is_mcp_error e then ToolRuntimeError e else ToolRaised e), w)
     | Some (Inr v, w) \<Rightarrow> Some (Inr (me_dumps_sorted env v), w))"

end
