(* ===== verification/EAP_Mcp_Properties.thy ===== *)
theory EAP_Mcp_Properties
  imports EAP_Mcp "HOL-Library.Sublist"
begin

text \<open>
  Properties of the MCP client. Every invocation of a tool returns in time whatever the server does; framed
  messages are read back however the bytes are cut into chunks; the messages are sent in order, a tool is
  called only when the server listed it, and the process is stopped when the handshake was completed.
\<close>

section \<open>Deadlines\<close>

lemma select_readable_now:
  "0 \<le> timeout \<Longrightarrow> select_readable timeout p = (b, p') \<Longrightarrow> pp_now p \<le> pp_now p' \<and> pp_now p' \<le> pp_now p + timeout"
  by (auto simp: select_readable_def Let_def split: if_splits list.splits arrival.splits)

lemma wait_readable_spec:
  assumes "0 < tick" "wait_readable tick deadline p = (b, p')"
  shows "b = None \<Longrightarrow> pp_now p' = pp_now p + tick \<and> deadline < pp_now p'"
    and "b = Some readable \<Longrightarrow> pp_now p + tick \<le> deadline \<and> pp_now p + 2 * tick \<le> pp_now p' \<and> pp_now p' \<le> deadline + tick"
proof -
  show "b = None \<Longrightarrow> pp_now p' = pp_now p + tick \<and> deadline < pp_now p'"
    using assms(2) by (auto simp: wait_readable_def read_clock_def Let_def split: if_splits prod.splits)
  assume b: "b = Some readable"
  let ?p = "p\<lparr>pp_now := pp_now p + tick + tick\<rparr>" and ?timeout = "max 0 (deadline - (pp_now p + tick + tick))"
  from b assms(2) have check: "pp_now p + tick \<le> deadline" and "select_readable ?timeout ?p = (readable, p')"
    by (auto simp: wait_readable_def read_clock_def Let_def split: if_splits prod.splits)
  with select_readable_now [of ?timeout ?p] have "pp_now ?p \<le> pp_now p'" "pp_now p' \<le> pp_now ?p + ?timeout" by auto
  with check assms(1) show "pp_now p + tick \<le> deadline \<and> pp_now p + 2 * tick \<le> pp_now p' \<and> pp_now p' \<le> deadline + tick"
    by (simp add: max_def split: if_splits)
qed

lemma os_read_now [simp]: "os_read n p = (chunk, p') \<Longrightarrow> pp_now p' = pp_now p"
  by (auto simp: os_read_def)

definition fuel_enough :: "rat \<Rightarrow> rat \<Rightarrow> nat \<Rightarrow> pipe \<Rightarrow> bool" where
  "fuel_enough tick deadline fuel p = (0 < fuel \<and> deadline < pp_now p + of_nat fuel * tick)"

lemma fuel_enough_mono: "fuel_enough tick deadline fuel p \<Longrightarrow> pp_now p \<le> pp_now p' \<Longrightarrow> fuel_enough tick deadline fuel p'"
  by (auto simp: fuel_enough_def)

lemma fuel_enough_less:
  assumes "0 < tick" "fuel_enough tick deadline (Suc fuel) p" "pp_now p + tick \<le> deadline" "pp_now p + tick \<le> pp_now p'"
  shows "fuel_enough tick deadline fuel p'"
  using assms by (cases fuel) (auto simp: fuel_enough_def algebra_simps)

text \<open>What a waiting loop that ends tells about the clock.\<close>

definition on_time :: "rat \<Rightarrow> rat \<Rightarrow> pipe \<Rightarrow> (mcp_error + 'a) \<Rightarrow> pipe \<Rightarrow> bool" where
  "on_time tick deadline p r p' = (pp_now p \<le> pp_now p' \<and> pp_now p' \<le> deadline + 2 * tick
     \<and> (case r of Inl _ \<Rightarrow> True | Inr _ \<Rightarrow> pp_now p' \<le> deadline + tick))"

lemma on_time_from: "on_time tick deadline p2 r p' \<Longrightarrow> pp_now p \<le> pp_now p2 \<Longrightarrow> on_time tick deadline p r p'"
  by (auto simp: on_time_def)

lemma on_time_now: "on_time tick deadline p r p' \<Longrightarrow> pp_now p \<le> pp_now p'"
  by (simp add: on_time_def)

lemma pass_cases:
  assumes "0 < tick" "wait_readable tick deadline p = (b, p1)"
  obtains "b = None" "pp_now p1 = pp_now p + tick"
  | readable where "b = Some readable" "pp_now p + tick \<le> deadline" "pp_now p + 2 * tick \<le> pp_now p1" "pp_now p1 \<le> deadline + tick"
  using wait_readable_spec [OF assms] by (cases b) auto

lemma read_until_returns:
  assumes "0 < tick" "fuel_enough tick deadline fuel p" "pp_now p \<le> deadline + tick"
  shows "\<exists>r p'. read_until fuel tick delimiter deadline data p = Some (r, p') \<and> on_time tick deadline p r p'
    \<and> (\<not> is_substring delimiter data \<and> (\<exists>x. r = Inr x) \<longrightarrow> pp_now p + tick \<le> deadline \<and> pp_now p + tick \<le> pp_now p')"
  using assms(2,3)
proof (induction fuel arbitrary: data p)
  case 0
  then show ?case by (simp add: fuel_enough_def)
next
  case (Suc fuel)
  obtain b p1 where w: "wait_readable tick deadline p = (b, p1)" by fastforce
  from assms(1) w show ?case
  proof (cases rule: pass_cases)
    case 1
    with w Suc.prems assms(1) show ?thesis by (auto simp: on_time_def)
  next
    case (2 readable)
    have rec: "\<exists>r p'. read_until fuel tick delimiter deadline data' p2 = Some (r, p') \<and> on_time tick deadline p r p' \<and> pp_now p + tick \<le> pp_now p'"
      if "pp_now p2 = pp_now p1" for data' p2
    proof -
      have "fuel_enough tick deadline fuel p2" using fuel_enough_less [OF assms(1) Suc.prems(1) 2(2)] 2(3) that assms(1) by simp
      from Suc.IH [OF this, of data'] 2(4) that obtain r p' where r: "read_until fuel tick delimiter deadline data' p2 = Some (r, p')"
        "on_time tick deadline p2 r p'" by auto
      moreover have "pp_now p \<le> pp_now p2" "pp_now p + tick \<le> pp_now p'" using on_time_now [OF r(2)] 2(3) that assms(1) by auto
      ultimately show ?thesis using on_time_from by blast
    qed
    obtain chunk p2 where read: "os_read 1 p1 = (chunk, p2)" by fastforce
    have "on_time tick deadline p (Inr data :: mcp_error + string) p2" using 2 os_read_now [OF read] assms(1) by (simp add: on_time_def)
    with w 2(1-3) read rec [of p1 data] rec [OF os_read_now [OF read], of "data @ chunk"] Suc.prems assms(1) os_read_now [OF read]
    show ?thesis by (cases "is_substring delimiter data"; cases readable; cases "chunk = []") (auto simp: on_time_def)
  qed
qed

lemma read_exact_returns:
  assumes "0 < tick" "fuel_enough tick deadline fuel p" "pp_now p \<le> deadline + tick"
  shows "\<exists>r p'. read_exact fuel tick byte_count deadline data p = Some (r, p') \<and> on_time tick deadline p r p'"
  using assms(2,3)
proof (induction fuel arbitrary: data p)
  case 0
  then show ?case by (simp add: fuel_enough_def)
next
  case (Suc fuel)
  obtain b p1 where w: "wait_readable tick deadline p = (b, p1)" by fastforce
  from assms(1) w show ?case
  proof (cases rule: pass_cases)
    case 1
    with w Suc.prems assms(1) show ?thesis by (auto simp: on_time_def)
  next
    case (2 readable)
    have rec: "\<exists>r p'. read_exact fuel tick byte_count deadline data' p2 = Some (r, p') \<and> on_time tick deadline p r p'"
      if "pp_now p2 = pp_now p1" for data' p2
    proof -
      have "fuel_enough tick deadline fuel p2" using fuel_enough_less [OF assms(1) Suc.prems(1) 2(2)] 2(3) that assms(1) by simp
      from Suc.IH [OF this, of data'] 2(3,4) that assms(1) on_time_from [of tick deadline p2 _ _ p] show ?thesis by auto
    qed
    obtain chunk p2 where read: "os_read (nat (byte_count - int (length data))) p1 = (chunk, p2)" by fastforce
    have "on_time tick deadline p (Inl e :: mcp_error + string) p2" for e using 2 os_read_now [OF read] assms(1) by (simp add: on_time_def)
    with w 2(1-3) read rec [of p1 data] rec [OF os_read_now [OF read], of "data @ chunk"] Suc.prems
    show ?thesis by (cases "byte_count \<le> int (length data)"; cases readable; cases "chunk = []") (auto simp: on_time_def)
  qed
qed

text \<open>The same for the client: reading moves the pipe only, and every request ends.\<close>

definition piped :: "mcp_world \<Rightarrow> pipe \<Rightarrow> mcp_world" where
  "piped w p = w\<lparr>mw_pipe := p\<rparr>"

lemma piped_simps [simp]: "mw_pipe (piped w p) = p" "piped (piped w p) q = piped w q" "mw_stdin (piped w p) = mw_stdin w" "piped w (mw_pipe w) = w"
  by (simp_all add: piped_def)

lemma bindM_simps [simp]: "bindM m f st = None \<longleftrightarrow> m st = None \<or> (\<exists>x st'. m st = Some (Inr x, st') \<and> f x st' = None)"
    "m st = Some (Inr x, st') \<Longrightarrow> bindM m f st = f x st'" "m st = Some (Inl e, st') \<Longrightarrow> bindM m f st = Some (Inl e, st')"
    "retM x st = Some (Inr x, st)" "failM e st = Some (Inl e, st)"
  by (auto simp: bindM_def retM_def failM_def split: option.splits sum.splits)

lemma blank_header: "\<not> is_substring [CR, LF, CR, LF] []"
  by (simp add: is_substring_def startswith_def)

lemma read_frame_returns:
  assumes "0 < me_tick env" "fuel_enough (me_tick env) deadline fuel p" "pp_now p \<le> deadline + me_tick env"
  shows "\<exists>r p'. read_frame env fuel deadline p = Some (r, p') \<and> on_time (me_tick env) deadline p r p'
    \<and> ((\<exists>v. r = Inr v) \<longrightarrow> pp_now p + me_tick env \<le> deadline \<and> pp_now p + me_tick env \<le> pp_now p')"
proof -
  from read_until_returns [OF assms, of "[CR, LF, CR, LF]" "[]"] blank_header obtain r1 p1 where
    r1: "read_until fuel (me_tick env) [CR, LF, CR, LF] deadline [] p = Some (r1, p1)" "on_time (me_tick env) deadline p r1 p1"
      "(\<exists>x. r1 = Inr x) \<longrightarrow> pp_now p + me_tick env \<le> deadline \<and> pp_now p + me_tick env \<le> pp_now p1" by auto
  show ?thesis
  proof (cases r1)
    case (Inl e)
    with r1 show ?thesis by (simp add: read_frame_def on_time_def)
  next
    case (Inr header)
    then have "fuel_enough (me_tick env) deadline fuel p1" "pp_now p1 \<le> deadline + me_tick env"
      using fuel_enough_mono [OF assms(2) on_time_now [OF r1(2)]] r1(2) by (simp_all add: on_time_def)
    from read_exact_returns [OF assms(1) this, of _ "[]"] have body: "\<exists>r p'. read_exact fuel (me_tick env) n deadline [] p1 = Some (r, p')
        \<and> on_time (me_tick env) deadline p1 r p'" for n by blast
    show ?thesis
    proof (cases "if header = [] then Inl ClosedBeforeHeader else parse_content_length (me_decode_replace env header)")
      case (Inl e)
      with r1 Inr show ?thesis by (auto simp: read_frame_def on_time_def split: if_splits)
    next
      case n: (Inr n)
      from body [of n] obtain r2 p2 where r2: "read_exact fuel (me_tick env) n deadline [] p1 = Some (r2, p2)" "on_time (me_tick env) deadline p1 r2 p2"
        by blast
      have "read_frame env fuel deadline p = Some (case r2 of Inl e \<Rightarrow> Inl e | Inr body \<Rightarrow> decode_body env body, p2)"
        using r1(1) Inr n r2(1) by (auto simp: read_frame_def split: if_splits sum.splits)
      with r1(2,3) r2(2) Inr show ?thesis by (auto simp: on_time_def split: sum.splits)
    qed
  qed
qed

lemma read_message_returns:
  assumes "ms_process st = Some w" "0 < me_tick env" "fuel_enough (me_tick env) deadline fuel (mw_pipe w)" "pp_now (mw_pipe w) \<le> deadline + me_tick env"
  shows "\<exists>r p. read_message env fuel deadline st = Some (r, st\<lparr>ms_process := Some (piped w p)\<rparr>)
    \<and> on_time (me_tick env) deadline (mw_pipe w) r p
    \<and> ((\<exists>v. r = Inr v) \<longrightarrow> pp_now (mw_pipe w) + me_tick env \<le> deadline \<and> pp_now (mw_pipe w) + me_tick env \<le> pp_now p)"
proof (cases "passed (pp_now (mw_pipe w)) (mw_exit w)")
  case True
  with assms show ?thesis
    by (intro exI [of _ "Inl ServerExited"] exI [of _ "mw_pipe w"]) (simp add: read_message_def bindM_def require_process_def on_time_def)
next
  case False
  with read_frame_returns [OF assms(2-4)] assms(1) show ?thesis
    by (auto simp: read_message_def bindM_def require_process_def run_pipe_def piped_def)
qed

lemma await_answer_returns:
  assumes "ms_process st = Some w" "0 < me_tick env" "fuel_enough (me_tick env) deadline fuel (mw_pipe w)"
    "fuel_enough (me_tick env) deadline rounds (mw_pipe w)" "pp_now (mw_pipe w) \<le> deadline + me_tick env"
  shows "\<exists>r p. await_answer env fuel rounds deadline request_id st = Some (r, st\<lparr>ms_process := Some (piped w p)\<rparr>)
    \<and> pp_now (mw_pipe w) \<le> pp_now p \<and> pp_now p \<le> deadline + 2 * me_tick env"
  using assms(1,3-5)
proof (induction rounds arbitrary: st w)
  case 0
  then show ?case by (simp add: fuel_enough_def)
next
  case (Suc rounds)
  from read_message_returns [OF Suc.prems(1) assms(2) Suc.prems(2,4)] obtain r p where
    r: "read_message env fuel deadline st = Some (r, st\<lparr>ms_process := Some (piped w p)\<rparr>)" "on_time (me_tick env) deadline (mw_pipe w) r p"
      "(\<exists>v. r = Inr v) \<longrightarrow> pp_now (mw_pipe w) + me_tick env \<le> deadline \<and> pp_now (mw_pipe w) + me_tick env \<le> pp_now p" by blast
  show ?case
  proof (cases "\<exists>v. r = Inr v \<and> answer_to request_id v = None")
    case False
    with r(1,2) show ?thesis
      by (cases r) (auto simp: bindM_def on_time_def liftM_def retM_def failM_def split: option.splits sum.splits)
  next
    case True
    then obtain v where v: "r = Inr v" "answer_to request_id v = None" by blast
    let ?st = "st\<lparr>ms_process := Some (piped w p)\<rparr>"
    have "fuel_enough (me_tick env) deadline fuel (mw_pipe (piped w p))" "fuel_enough (me_tick env) deadline rounds (mw_pipe (piped w p))"
        "pp_now (mw_pipe (piped w p)) \<le> deadline + me_tick env"
      using fuel_enough_mono [OF Suc.prems(2)] fuel_enough_less [OF assms(2) Suc.prems(3)] r(2,3) v(1) by (auto simp: on_time_def)
    from Suc.IH [of ?st, OF _ this] obtain r' p' where "await_answer env fuel rounds deadline request_id ?st = Some (r', st\<lparr>ms_process := Some (piped w p')\<rparr>)"
        "pp_now p \<le> pp_now p'" "pp_now p' \<le> deadline + 2 * me_tick env" by auto
    with r(1) on_time_now [OF r(2)] v show ?thesis by (intro exI [of _ r'] exI [of _ p']) (auto simp: bindM_def)
  qed
qed

text \<open>\<open>timed limit m\<close>: on a started client \<open>m\<close> returns after at most \<open>limit\<close>.\<close>

definition timed :: "rat \<Rightarrow> 'a mcp \<Rightarrow> bool" where
  "timed limit m = (\<forall>st w. ms_process st = Some w \<longrightarrow> (\<exists>r st' w'. m st = Some (r, st') \<and> ms_process st' = Some w'
     \<and> pp_now (mw_pipe w) \<le> pp_now (mw_pipe w') \<and> pp_now (mw_pipe w') \<le> pp_now (mw_pipe w) + limit))"

lemma timedE:
  assumes "timed limit m" "ms_process st = Some w"
  obtains r st' w' where "m st = Some (r, st')" "ms_process st' = Some w'" "pp_now (mw_pipe w) \<le> pp_now (mw_pipe w')"
    "pp_now (mw_pipe w') \<le> pp_now (mw_pipe w) + limit"
  using assms unfolding timed_def by blast

lemma timed_bind:
  assumes "timed a m" "\<And>x. timed b (f x)" "0 \<le> b"
  shows "timed (a + b) (bindM m f)"
  unfolding timed_def
proof (intro allI impI)
  fix st :: mcp_state and w
  assume "ms_process st = Some w"
  with assms(1) obtain r st1 w1 where m: "m st = Some (r, st1)" "ms_process st1 = Some w1" "pp_now (mw_pipe w) \<le> pp_now (mw_pipe w1)"
    "pp_now (mw_pipe w1) \<le> pp_now (mw_pipe w) + a" by (rule timedE)
  show "\<exists>r st' w'. bindM m f st = Some (r, st') \<and> ms_process st' = Some w' \<and> pp_now (mw_pipe w) \<le> pp_now (mw_pipe w')
      \<and> pp_now (mw_pipe w') \<le> pp_now (mw_pipe w) + (a + b)"
  proof (cases r)
    case (Inl e)
    with m assms(3) show ?thesis by (auto simp: bindM_def)
  next
    case (Inr x)
    from assms(2) [of x] m(2) obtain r2 st2 w2 where "f x st1 = Some (r2, st2)" "ms_process st2 = Some w2" "pp_now (mw_pipe w1) \<le> pp_now (mw_pipe w2)"
      "pp_now (mw_pipe w2) \<le> pp_now (mw_pipe w1) + b" by (rule timedE)
    with m Inr show ?thesis by (auto simp: bindM_def)
  qed
qed

lemma timed_seq: "timed a m \<Longrightarrow> (\<And>x. timed b (f x)) \<Longrightarrow> 0 \<le> b \<Longrightarrow> a + b = c \<Longrightarrow> timed c (bindM m f)"
  using timed_bind by blast

lemma timed_atoms [simp, intro]: "timed 0 (retM x)" "timed 0 (failM e)" "timed 0 (liftM r)" "timed 0 require_process" "timed 0 next_id"
    "timed 0 (mcp_write_message env payload)"
  by (auto simp: timed_def retM_def failM_def liftM_def require_process_def next_id_def mcp_write_message_def bindM_def put_world_def Let_def
      split: sum.splits option.splits)

lemma timed_wait:
  assumes "0 < me_tick env" "0 \<le> timeout" "timeout < of_nat fuel * me_tick env"
  shows "timed (timeout + 3 * me_tick env) (bindM (start_deadline env timeout) (\<lambda>deadline. await_answer env fuel fuel deadline request_id))"
  unfolding timed_def
proof (intro allI impI)
  fix st :: mcp_state and w
  assume w: "ms_process st = Some w"
  let ?p = "(mw_pipe w)\<lparr>pp_now := pp_now (mw_pipe w) + me_tick env\<rparr>"
  let ?st = "st\<lparr>ms_process := Some (piped w ?p)\<rparr>" and ?deadline = "pp_now (mw_pipe w) + me_tick env + timeout"
  have "0 < fuel" using assms by (cases fuel) auto
  then have "fuel_enough (me_tick env) ?deadline fuel ?p" using assms(3) by (simp add: fuel_enough_def)
  with await_answer_returns [of ?st "piped w ?p" env ?deadline fuel fuel request_id] assms(1,2) obtain r p where
    "await_answer env fuel fuel ?deadline request_id ?st = Some (r, st\<lparr>ms_process := Some (piped w p)\<rparr>)"
    "pp_now ?p \<le> pp_now p" "pp_now p \<le> ?deadline + 2 * me_tick env" by auto
  moreover have "start_deadline env timeout st = Some (Inr ?deadline, ?st)"
    using w by (simp add: start_deadline_def read_clock_def Let_def piped_def)
  ultimately show "\<exists>r st' w'. bindM (start_deadline env timeout) (\<lambda>deadline. await_answer env fuel fuel deadline request_id) st = Some (r, st')
      \<and> ms_process st' = Some w' \<and> pp_now (mw_pipe w) \<le> pp_now (mw_pipe w') \<and> pp_now (mw_pipe w') \<le> pp_now (mw_pipe w) + (timeout + 3 * me_tick env)"
    using assms(1) by (auto simp: algebra_simps)
qed

lemma timed_request:
  assumes "0 < me_tick env" "0 \<le> timeout" "timeout < of_nat fuel * me_tick env"
  shows "timed (timeout + 3 * me_tick env) (mcp_request env fuel timeout method params)"
  unfolding mcp_request_def using assms
  by (intro timed_seq [where a = 0 and b = "timeout + 3 * me_tick env"] timed_wait) auto

lemma timed_exchanges:
  assumes "0 < me_tick env" "0 \<le> timeout" "timeout < of_nat fuel * me_tick env"
  shows "timed (timeout + 3 * me_tick env) (initialize_mcp env fuel timeout)"
    "timed (timeout + 3 * me_tick env) (check_listed env fuel timeout tool_name)"
    "timed (timeout + 3 * me_tick env) (call_tool env fuel timeout tool_name arguments)"
  unfolding initialize_mcp_def check_listed_def call_tool_def list_tools_def notify_def
  by (intro timed_seq [where a = "timeout + 3 * me_tick env" and b = 0] timed_seq [where a = 0 and b = 0] timed_request [OF assms]; auto split: if_splits)+

lemma timed_mono: "timed a m \<Longrightarrow> a \<le> b \<Longrightarrow> timed b m"
  unfolding timed_def by (meson add_left_mono order_trans)

definition fresh_client :: mcp_state where
  "fresh_client = \<lparr>ms_process = None, ms_request_id = 0\<rparr>"

lemma timed_session:
  assumes "0 < me_tick env" "0 \<le> timeout" "timeout < of_nat fuel * me_tick env"
  shows "timed (2 * (timeout + 3 * me_tick env)) (bindM (if req then check_listed env fuel timeout tool_name else retM ()) (\<lambda>_.
    call_tool env fuel timeout tool_name arguments))"
proof (rule timed_seq)
  show "timed (timeout + 3 * me_tick env) (if req then check_listed env fuel timeout tool_name else retM ())"
    using timed_exchanges(2) [OF assms] assms(1,2) by (auto intro: timed_mono [OF timed_atoms(1)])
  show "timed (timeout + 3 * me_tick env) (call_tool env fuel timeout tool_name arguments)" by (rule timed_exchanges(3) [OF assms])
qed (use assms in auto)

lemma start_returns:
  assumes "0 < me_tick env" "0 \<le> timeout" "timeout < of_nat fuel * me_tick env"
  obtains e where "start_client env fuel timeout command cwd fresh_client = Some (Inl e, fresh_client)"
  | r st parts cwd' w0 w where "start_client env fuel timeout command cwd fresh_client = Some (r, st)" "me_spawn env parts cwd' = Some w0"
    "ms_process st = Some w" "pp_now (mw_pipe w) \<le> pp_now (mw_pipe w0) + (timeout + 3 * me_tick env)"
proof (cases "case me_split env command of None \<Rightarrow> None | Some parts \<Rightarrow>
    if parts = [] then None else me_spawn env parts (if cwd = Some [] then None else cwd)")
  case None
  then have "\<exists>e. start_client env fuel timeout command cwd fresh_client = Some (Inl e, fresh_client)"
    by (auto simp: start_client_def fresh_client_def failM_def neq_Nil_conv split: option.splits if_splits)
  with that(1) show thesis by blast
next
  case (Some w0)
  then obtain part parts where parts: "me_split env command = Some (part # parts)"
      "me_spawn env (part # parts) (if cwd = Some [] then None else cwd) = Some w0"
    by (auto simp: neq_Nil_conv split: option.splits if_splits)
  have "timed (timeout + 3 * me_tick env + 0) (bindM (initialize_mcp env fuel timeout) (\<lambda>_. retM ()))"
    by (rule timed_bind) (use timed_exchanges(1) [OF assms] in auto)
  then obtain r st w where "bindM (initialize_mcp env fuel timeout) (\<lambda>_. retM ()) (fresh_client\<lparr>ms_process := Some w0\<rparr>) = Some (r, st)"
      "ms_process st = Some w" "pp_now (mw_pipe w) \<le> pp_now (mw_pipe w0) + (timeout + 3 * me_tick env)"
    by (rule timedE [of _ _ "fresh_client\<lparr>ms_process := Some w0\<rparr>" w0]) auto
  then show thesis using that(2) [OF _ parts(2)] parts by (simp add: start_client_def fresh_client_def)
qed


section \<open>Framing\<close>

text \<open>The bytes that will arrive before the stream ends, and by when.\<close>

fun upcoming :: "arrival list \<Rightarrow> string" where
  "upcoming (Chunk t b bs # rest) = b # bs @ upcoming rest"
| "upcoming _ = []"

fun arrives_by :: "rat \<Rightarrow> arrival list \<Rightarrow> bool" where
  "arrives_by T (Chunk t b bs # rest) = (t \<le> T \<and> arrives_by T rest)"
| "arrives_by T _ = True"

definition unread :: "pipe \<Rightarrow> string" where
  "unread p = pp_ready p @ upcoming (pp_future p)"

lemma upcoming_Cons: "upcoming as \<noteq> [] \<Longrightarrow> \<exists>t b bs rest. as = Chunk t b bs # rest"
  by (cases as rule: upcoming.cases) auto

lemma wait_ready:
  assumes "0 < tick" "unread p \<noteq> []" "arrives_by T (pp_future p)" "pp_now p + tick \<le> deadline" "T \<le> deadline"
  obtains p' where "wait_readable tick deadline p = (Some True, p')" "pp_ready p' \<noteq> []" "unread p' = unread p" "arrives_by T (pp_future p')"
    "pp_now p' \<le> max (pp_now p + 2 * tick) T"
proof (cases "pp_ready p")
  case Nil
  with assms(2) obtain t b bs rest where f: "pp_future p = Chunk t b bs # rest"
    using upcoming_Cons [of "pp_future p"] by (auto simp: unread_def)
  with assms have "t \<le> pp_now p + tick + tick + max 0 (deadline - (pp_now p + tick + tick))" "t \<le> T" by (auto simp: max_def)
  with Nil f assms show thesis
    by (intro that [of "p\<lparr>pp_now := max (pp_now p + tick + tick) t, pp_ready := b # bs, pp_future := rest\<rparr>"])
      (auto simp: wait_readable_def read_clock_def select_readable_def Let_def unread_def)
next
  case (Cons c cs)
  with assms show thesis
    by (intro that [of "p\<lparr>pp_now := pp_now p + tick + tick\<rparr>"]) (auto simp: wait_readable_def read_clock_def select_readable_def Let_def unread_def)
qed

text \<open>The time that reading \<open>n\<close> bytes costs at most.\<close>

definition cost :: "rat \<Rightarrow> nat \<Rightarrow> rat" where
  "cost tick n = 2 * tick * of_nat n"

lemma cost_simps [simp]: "cost tick 0 = 0" "cost tick (Suc n) = 2 * tick + cost tick n" "cost tick (m + n) = cost tick m + cost tick n"
  by (simp_all add: cost_def algebra_simps)

lemma cost_nonneg: "0 < tick \<Longrightarrow> 0 \<le> cost tick n"
  by (simp add: cost_def)

lemma read_until_byte:
  "\<not> is_substring delimiter data \<Longrightarrow> wait_readable tick deadline p = (Some True, p1) \<Longrightarrow> pp_ready p1 = x # zs
    \<Longrightarrow> read_until (Suc fuel) tick delimiter deadline data p = read_until fuel tick delimiter deadline (data @ [x]) (p1\<lparr>pp_ready := zs\<rparr>)"
  by (simp add: os_read_def)

lemma read_until_frames:
  assumes "0 < tick"
  shows "T \<le> T' \<Longrightarrow> unread p = xs @ rest \<Longrightarrow> (\<And>i. i < length xs \<Longrightarrow> \<not> is_substring delimiter (data @ take i xs))
    \<Longrightarrow> is_substring delimiter (data @ xs) \<Longrightarrow> arrives_by T (pp_future p) \<Longrightarrow> pp_now p \<le> T' \<Longrightarrow> T' + cost tick (length xs) \<le> deadline
    \<Longrightarrow> \<exists>p'. read_until (Suc (length xs + spare)) tick delimiter deadline data p = Some (Inr (data @ xs), p') \<and> unread p' = rest
      \<and> arrives_by T (pp_future p') \<and> pp_now p' \<le> T' + cost tick (length xs)"
proof (induction xs arbitrary: data p T')
  case Nil
  then show ?case by simp
next
  case (Cons x xs)
  have time: "pp_now p + tick \<le> deadline" "T \<le> deadline" "T' + 2 * tick + cost tick (length xs) \<le> deadline"
    using Cons.prems(1,6,7) assms cost_nonneg [OF assms, of "length xs"] by simp_all
  have "unread p \<noteq> []" using Cons.prems(2) by simp
  from wait_ready [OF assms this Cons.prems(5) time(1,2)] obtain p1 where
    p1: "wait_readable tick deadline p = (Some True, p1)" "pp_ready p1 \<noteq> []" "unread p1 = unread p" "arrives_by T (pp_future p1)"
      "pp_now p1 \<le> max (pp_now p + 2 * tick) T" by blast
  then obtain zs where zs: "pp_ready p1 = x # zs" using Cons.prems(2) by (cases "pp_ready p1") (auto simp: unread_def)
  let ?p2 = "p1\<lparr>pp_ready := zs\<rparr>"
  have left: "unread ?p2 = xs @ rest" using p1(3) zs Cons.prems(2) by (simp add: unread_def)
  have search: "\<not> is_substring delimiter ((data @ [x]) @ take i xs)" if "i < length xs" for i
    using Cons.prems(3) [of "Suc i"] that by simp
  have "T \<le> T' + 2 * tick" "pp_now ?p2 \<le> T' + 2 * tick" using p1(5) Cons.prems(1,6) assms by simp_all
  from Cons.IH [OF this(1) left search _ _ this(2) time(3)] Cons.prems(4) p1(4)
  have "\<exists>p'. read_until (Suc (length xs + spare)) tick delimiter deadline (data @ [x]) ?p2 = Some (Inr ((data @ [x]) @ xs), p') \<and> unread p' = rest
      \<and> arrives_by T (pp_future p') \<and> pp_now p' \<le> T' + 2 * tick + cost tick (length xs)" by simp
  moreover have "\<not> is_substring delimiter data" using Cons.prems(3) [of 0] by simp
  ultimately show ?case using read_until_byte [OF _ p1(1) zs, of delimiter data "Suc (length xs + spare)"]
    by (auto simp: add.assoc simp del: read_until.simps)
qed

lemma take_prefix:
  assumes "r @ u = xs @ rest" "n = length xs"
  shows "xs = take n r @ drop (length (take n r)) xs" "drop n r @ u = drop (length (take n r)) xs @ rest"
proof -
  have "take n r = take (length (take n r)) xs"
    using assms by (auto simp: append_eq_append_conv_if min_def split: if_splits)
  then show "xs = take n r @ drop (length (take n r)) xs" by (metis append_take_drop_id)
  show "drop n r @ u = drop (length (take n r)) xs @ rest"
    using assms by (auto simp: append_eq_append_conv_if min_def split: if_splits)
qed

lemma read_exact_frames:
  assumes "0 < tick"
  shows "T \<le> T' \<Longrightarrow> unread p = xs @ rest \<Longrightarrow> arrives_by T (pp_future p) \<Longrightarrow> pp_now p \<le> T' \<Longrightarrow> T' + cost tick (length xs) \<le> deadline
    \<Longrightarrow> length xs < fuel
    \<Longrightarrow> \<exists>p'. read_exact fuel tick (int (length data + length xs)) deadline data p = Some (Inr (data @ xs), p') \<and> unread p' = rest
      \<and> arrives_by T (pp_future p') \<and> pp_now p' \<le> T' + cost tick (length xs)"
proof (induction "length xs" arbitrary: xs data p fuel T' rule: less_induct)
  case less
  from less.prems(6) obtain f where f: "fuel = Suc f" by (cases fuel) auto
  show ?case
  proof (cases xs)
    case Nil
    with less.prems f show ?thesis by simp
  next
    case (Cons x zs)
    have time: "pp_now p + tick \<le> deadline" "T \<le> deadline"
      using less.prems(1,4,5) assms cost_nonneg [OF assms, of "length zs"] by (simp_all add: Cons)
    have "unread p \<noteq> []" using less.prems(2) Cons by simp
    from wait_ready [OF assms this less.prems(3) time] obtain p1 where
      p1: "wait_readable tick deadline p = (Some True, p1)" "pp_ready p1 \<noteq> []" "unread p1 = unread p" "arrives_by T (pp_future p1)"
        "pp_now p1 \<le> max (pp_now p + 2 * tick) T" by blast
    define chunk where "chunk = take (length xs) (pp_ready p1)"
    define ys where "ys = drop (length chunk) xs"
    define p2 where "p2 = p1\<lparr>pp_ready := drop (length xs) (pp_ready p1)\<rparr>"
    have "pp_ready p1 @ upcoming (pp_future p1) = xs @ rest" using p1(3) less.prems(2) by (simp add: unread_def)
    from take_prefix [OF this refl] have xs: "xs = chunk @ ys" and left: "unread p2 = ys @ rest"
      by (simp_all add: chunk_def ys_def p2_def unread_def)
    obtain c cs where c: "chunk = c # cs" using p1(2) Cons by (cases "pp_ready p1") (auto simp: chunk_def)
    have steps: "length ys < length xs" "T \<le> T' + 2 * tick" "arrives_by T (pp_future p2)" "pp_now p2 \<le> T' + 2 * tick"
        "T' + 2 * tick + cost tick (length ys) \<le> deadline" "length ys < f"
      using p1(4,5) less.prems(1,4-6) assms cost_nonneg [OF assms, of "length cs"] by (simp_all add: xs c f p2_def)
    from less.hyps [OF steps(1,2) left steps(3-6), of "data @ chunk"]
    obtain p' where "read_exact f tick (int (length data + length xs)) deadline (data @ chunk) p2 = Some (Inr (data @ xs), p')" "unread p' = rest"
      "arrives_by T (pp_future p')" "pp_now p' \<le> T' + 2 * tick + cost tick (length ys)"
      by (auto simp: xs add.assoc)
    moreover have "2 * tick + cost tick (length ys) \<le> cost tick (length xs)" using cost_nonneg [OF assms, of "length cs"] by (simp add: xs c)
    moreover have "os_read (nat (int (length data + length xs) - int (length data))) p1 = (chunk, p2)"
      by (simp add: os_read_def chunk_def p2_def)
    ultimately show ?thesis using p1(1) c Cons by (intro exI [of _ p']) (simp add: f)
  qed
qed

lemma is_substring_iff: "is_substring s t \<longleftrightarrow> (\<exists>u v. t = u @ s @ v)"
proof
  assume "is_substring s t"
  then obtain i where "startswith (drop i t) s" unfolding is_substring_def list_ex_iff by blast
  then obtain v where "drop i t = s @ v" by (auto simp: startswith_iff)
  then show "\<exists>u v. t = u @ s @ v" by (metis append_take_drop_id)
next
  assume "\<exists>u v. t = u @ s @ v"
  then obtain u v where "t = u @ s @ v" by blast
  then have "startswith (drop (length u) t) s" "length u \<in> set [0..<Suc (length t)]" by (auto simp: startswith_iff)
  then show "is_substring s t" unfolding is_substring_def list_ex_iff by blast
qed

lemma blank_line_at_end:
  assumes "CR \<notin> set A" "i < length (A @ [CR, LF, CR, LF])"
  shows "\<not> is_substring [CR, LF, CR, LF] (take i (A @ [CR, LF, CR, LF]))"
proof
  let ?xs = "A @ [CR, LF, CR, LF]"
  assume "is_substring [CR, LF, CR, LF] (take i ?xs)"
  then obtain u v where "take i ?xs = u @ [CR, LF, CR, LF] @ v" by (auto simp: is_substring_iff)
  then have "?xs = u @ [CR, LF, CR, LF] @ v @ drop i ?xs" by (metis append.assoc append_take_drop_id)
  then obtain w where eq: "?xs = u @ [CR, LF, CR, LF] @ w" and w: "w = v @ drop i ?xs" by blast
  have "length (filter (\<lambda>c. c = CR) ?xs) = 2" using assms(1) by (auto simp: filter_empty_conv)
  then have "length (filter (\<lambda>c. c = CR) (u @ [CR, LF, CR, LF] @ w)) = 2" by (simp only: eq)
  then have u: "CR \<notin> set u" by (auto simp: filter_empty_conv)
  have "takeWhile (\<lambda>c. c \<noteq> CR) ?xs = A" using assms(1) by (subst takeWhile_append2) auto
  moreover have "takeWhile (\<lambda>c. c \<noteq> CR) (u @ [CR, LF, CR, LF] @ w) = u" using u by (subst takeWhile_append2) auto
  ultimately have "u = A" by (simp only: eq)
  with eq have "w = []" by simp
  with w have "drop i ?xs = []" by simp
  then have "length ?xs \<le> i" by (simp only: drop_eq_Nil)
  with assms(2) show False by linarith
qed

lemma split_crlf_word: "CR \<notin> set A \<Longrightarrow> split_crlf (A @ CR # LF # s) = A # split_crlf s"
proof (induction A)
  case (Cons a A)
  then show ?case by (cases A) auto
qed simp

lemma digits_repr: "int_repr (int n) = digits n"
  by (simp add: int_repr_def)

lemma digit_facts: "c \<in> set (digits n) \<Longrightarrow> is_digit c" "is_digit c \<Longrightarrow> c \<noteq> CR \<and> c \<noteq> CHR '':'' \<and> of_char c < (128 :: nat)"
  using digits_all [of n] by (auto simp: list_all_iff is_digit_def Let_def)

definition frame_header :: "nat \<Rightarrow> string" where
  "frame_header n = (''Content-Length: '' @ digits n) @ [CR, LF, CR, LF]"

lemma frame_split: "frame_message raw = frame_header (length raw) @ raw"
  by (simp add: frame_message_def frame_header_def digits_repr)

lemma header_no_cr: "CR \<notin> set (''Content-Length: '' @ digits n)"
  using digit_facts by auto

lemma parse_header: "parse_content_length (frame_header n) = Inr (int n)"
proof -
  let ?line = "''Content-Length: '' @ digits n"
  have lines: "split_crlf (frame_header n) = [?line, [], []]"
    using split_crlf_word [OF header_no_cr, of n "[CR, LF]"] split_crlf_word [of "[]" "[]"] by (simp add: frame_header_def)
  have "py_lower ''Content-Length:'' = ''content-length:''" by code_simp
  then have "startswith (py_lower ?line) ''content-length:''"
    by (simp add: py_lower_def startswith_iff)
  moreover have "\<not> startswith (py_lower []) ''content-length:''" by (simp add: py_lower_def startswith_def)
  moreover have "drop 1 (dropWhile (\<lambda>c. c \<noteq> CHR '':'') ?line) = CHR '' '' # digits n" by simp
  moreover have "py_strip (CHR '' '' # digits n) = digits n"
  proof -
    have "py_strip (digits n) = digits n" using digit_facts(1) digit_not_space by (intro strip_digits) blast
    moreover have "py_is_space (CHR '' '')" by (simp add: py_is_space_def)
    ultimately show ?thesis by (simp add: py_strip_def)
  qed
  ultimately show ?thesis
    using py_int_repr [of "int n"] by (simp add: parse_content_length_def lines digits_repr)
qed

text \<open>C22: A message framed by the client's own encoding is read back whatever way the bytes are cut into chunks, as long as they arrive in
  time: the header is found where it ends, the body has the announced length, the value is the one that was written, and what follows on the
  stream is left for the next message.\<close>

theorem framed_messages_read:
  assumes "0 < me_tick env" "pp_now p \<le> T" "arrives_by T (pp_future p)"
    and "unread p = frame_message (me_dumps env v) @ rest"
    and "T + cost (me_tick env) (length (frame_message (me_dumps env v))) \<le> deadline" "length (frame_message (me_dumps env v)) < fuel"
    and decode_replace_ascii: "\<And>s. list_all (\<lambda>c. of_char c < (128 :: nat)) s \<Longrightarrow> me_decode_replace env s = s"
    and decode_dumps: "me_decode env (me_dumps env v) = Some (me_dumps env v)"
    and loads_dumps: "me_loads env (me_dumps env v) = Some v"
  shows "\<exists>p'. read_frame env fuel deadline p = Some (Inr v, p') \<and> unread p' = rest \<and> arrives_by T (pp_future p')
    \<and> pp_now p' \<le> T + cost (me_tick env) (length (frame_message (me_dumps env v)))"
proof -
  let ?raw = "me_dumps env v" and ?tick = "me_tick env"
  let ?h = "frame_header (length ?raw)"
  have len: "length (frame_message ?raw) = length ?h + length ?raw" by (simp add: frame_split)
  have all: "unread p = ?h @ ?raw @ rest" using assms(4) by (simp add: frame_split)
  have search: "\<not> is_substring [CR, LF, CR, LF] ([] @ take i ?h)" if "i < length ?h" for i
    using blank_line_at_end [OF header_no_cr] that by (simp add: frame_header_def)
  have found: "is_substring [CR, LF, CR, LF] ([] @ ?h)" unfolding is_substring_iff frame_header_def
    by (intro exI [of _ "''Content-Length: '' @ digits (length ?raw)"] exI [of _ "[]"]) simp
  have time: "T + cost ?tick (length ?h) \<le> deadline" using assms(5) len cost_nonneg [OF assms(1), of "length ?raw"] by simp
  obtain spare where spare: "fuel = Suc (length ?h + spare)" using assms(6) len by (metis add.assoc less_iff_Suc_add)
  from read_until_frames [OF assms(1) order_refl all search found assms(3,2) time, of spare] spare obtain p1 where
    p1: "read_until fuel ?tick [CR, LF, CR, LF] deadline [] p = Some (Inr ?h, p1)" "unread p1 = ?raw @ rest" "arrives_by T (pp_future p1)"
      "pp_now p1 \<le> T + cost ?tick (length ?h)" by auto
  have "T \<le> T + cost ?tick (length ?h)" "T + cost ?tick (length ?h) + cost ?tick (length ?raw) \<le> deadline" "length ?raw < fuel"
    using assms(5,6) len cost_nonneg [OF assms(1)] by (simp_all add: add.assoc)
  from read_exact_frames [OF assms(1) this(1) p1(2-4) this(2,3), of "[]"] obtain p2 where
    p2: "read_exact fuel ?tick (int (length ?raw)) deadline [] p1 = Some (Inr ?raw, p2)" "unread p2 = rest" "arrives_by T (pp_future p2)"
      "pp_now p2 \<le> T + cost ?tick (length ?h) + cost ?tick (length ?raw)" by auto
  have "me_decode_replace env ?h = ?h"
    using digit_facts by (intro decode_replace_ascii) (auto simp: frame_header_def list_all_iff)
  moreover have "?h \<noteq> []" by (simp add: frame_header_def)
  ultimately have "read_frame env fuel deadline p = Some (Inr v, p2)"
    by (simp add: read_frame_def p1(1) parse_header p2(1) decode_body_def decode_dumps loads_dumps)
  with p2 len show ?thesis by (simp add: add.assoc)
qed

section \<open>What is sent\<close>

text \<open>\<open>sends i frames j m\<close>: with \<open>i\<close> as the last request id, \<open>m\<close> writes a prefix of these frames, all of them when it succeeds, and
  then \<open>j\<close> is the last id.\<close>

definition sends :: "int \<Rightarrow> string list \<Rightarrow> int \<Rightarrow> 'a mcp \<Rightarrow> bool" where
  "sends i frames j m = (\<forall>st w r st'. ms_process st = Some w \<longrightarrow> ms_request_id st = i \<longrightarrow> m st = Some (r, st') \<longrightarrow>
     (\<exists>w' ys. ms_process st' = Some w' \<and> mw_stopped w' = mw_stopped w \<and> mw_stdin w' = mw_stdin w @ ys \<and> prefix ys frames
       \<and> (\<forall>x. r = Inr x \<longrightarrow> ys = frames \<and> ms_request_id st' = j)))"

lemma sendsE:
  assumes "sends i frames j m" "ms_process st = Some w" "ms_request_id st = i" "m st = Some (r, st')"
  obtains w' ys where "ms_process st' = Some w'" "mw_stopped w' = mw_stopped w" "mw_stdin w' = mw_stdin w @ ys" "prefix ys frames"
    "\<forall>x. r = Inr x \<longrightarrow> ys = frames \<and> ms_request_id st' = j"
  using assms unfolding sends_def by blast

lemma sendsD:
  assumes "sends i frames j m" "ms_process st = Some w" "ms_request_id st = i" "m st = Some (r, st')" "ms_process st' = Some w'"
  shows "mw_stopped w' = mw_stopped w" "\<exists>ys. mw_stdin w' = mw_stdin w @ ys \<and> prefix ys frames \<and> (\<forall>x. r = Inr x \<longrightarrow> ys = frames \<and> ms_request_id st' = j)"
  using assms unfolding sends_def by fastforce+

lemma sends_process:
  "sends i frames j m \<Longrightarrow> ms_process st = Some w \<Longrightarrow> ms_request_id st = i \<Longrightarrow> m st = Some (r, st') \<Longrightarrow> \<exists>w'. ms_process st' = Some w'"
  unfolding sends_def by blast

lemma sends_bind:
  assumes "sends i a j m" "\<And>x. sends j b k (f x)"
  shows "sends i (a @ b) k (bindM m f)"
  unfolding sends_def
proof (intro allI impI)
  fix st st' :: mcp_state and w r
  assume st: "ms_process st = Some w" "ms_request_id st = i" and run: "bindM m f st = Some (r, st')"
  then obtain r1 st1 where m: "m st = Some (r1, st1)" by (auto simp: bindM_def split: option.splits)
  with assms(1) st obtain w1 ys where w1: "ms_process st1 = Some w1" "mw_stopped w1 = mw_stopped w" "mw_stdin w1 = mw_stdin w @ ys" "prefix ys a"
    "\<forall>x. r1 = Inr x \<longrightarrow> ys = a \<and> ms_request_id st1 = j" by (rule sendsE)
  show "\<exists>w' ys. ms_process st' = Some w' \<and> mw_stopped w' = mw_stopped w \<and> mw_stdin w' = mw_stdin w @ ys \<and> prefix ys (a @ b)
      \<and> (\<forall>x. r = Inr x \<longrightarrow> ys = a @ b \<and> ms_request_id st' = k)"
  proof (cases r1)
    case (Inl e)
    with run m w1 show ?thesis by (auto simp: bindM_def intro: prefix_prefix)
  next
    case (Inr x)
    with run m have "f x st1 = Some (r, st')" by (simp add: bindM_def)
    moreover have "ms_request_id st1 = j" using w1(5) Inr by simp
    ultimately obtain w2 zs where "ms_process st' = Some w2" "mw_stopped w2 = mw_stopped w1" "mw_stdin w2 = mw_stdin w1 @ zs"
      "prefix zs b" "\<forall>x. r = Inr x \<longrightarrow> zs = b \<and> ms_request_id st' = k"
      using sendsE [OF assms(2) w1(1)] by metis
    with w1 Inr show ?thesis by (intro exI [of _ w2] exI [of _ "ys @ zs"]) auto
  qed
qed

lemma sends_seq: "sends i a j m \<Longrightarrow> (\<And>x. sends j b k (f x)) \<Longrightarrow> a @ b = c \<Longrightarrow> sends i c k (bindM m f)"
  using sends_bind by blast

lemma sends_atoms [intro, simp]: "sends i [] i (retM x)" "sends i frames j (failM e)" "sends i [] i (liftM r)"
    "sends i [frame_message (me_dumps env payload)] i (mcp_write_message env payload)" "sends i [] i (start_deadline env timeout)"
    "sends i [] i (read_message env fuel deadline)"
  by (auto simp: sends_def retM_def failM_def liftM_def mcp_write_message_def bindM_def require_process_def put_world_def start_deadline_def
      read_message_def run_pipe_def split: sum.splits option.splits if_splits prod.splits)

lemma sends_await [intro, simp]: "sends i [] i (await_answer env fuel rounds deadline request_id)"
proof (induction rounds)
  case 0
  then show ?case by (simp add: sends_def)
next
  case (Suc rounds)
  then show ?case by (auto intro!: sends_seq [where a = "[]" and b = "[]"] split: option.splits)
qed

lemma sends_shift:
  assumes "sends j frames k m'" "\<And>st. ms_request_id st = i \<Longrightarrow> m st = m' (st\<lparr>ms_request_id := j\<rparr>)"
  shows "sends i frames k m"
  unfolding sends_def
proof (intro allI impI)
  fix st st' :: mcp_state and w r
  assume "ms_process st = Some w" "ms_request_id st = i" "m st = Some (r, st')"
  then have "ms_process (st\<lparr>ms_request_id := j\<rparr>) = Some w" "ms_request_id (st\<lparr>ms_request_id := j\<rparr>) = j" "m' (st\<lparr>ms_request_id := j\<rparr>) = Some (r, st')"
    using assms(2) by simp_all
  from sendsE [OF assms(1) this] show "\<exists>w' ys. ms_process st' = Some w' \<and> mw_stopped w' = mw_stopped w \<and> mw_stdin w' = mw_stdin w @ ys
      \<and> prefix ys frames \<and> (\<forall>x. r = Inr x \<longrightarrow> ys = frames \<and> ms_request_id st' = k)" by metis
qed

lemma sends_request:
  "sends i [frame_message (me_dumps env (request_message (i + 1) method params))] (i + 1) (mcp_request env fuel timeout method params)"
proof -
  let ?rest = "bindM (mcp_write_message env (request_message (i + 1) method params)) (\<lambda>_. bindM (start_deadline env timeout) (\<lambda>deadline.
      await_answer env fuel fuel deadline (i + 1)))"
  have "sends (i + 1) [frame_message (me_dumps env (request_message (i + 1) method params))] (i + 1) ?rest"
    by (rule sends_seq [OF sends_atoms(4) sends_seq [OF sends_atoms(5) sends_await]]) auto
  moreover have "mcp_request env fuel timeout method params st = ?rest (st\<lparr>ms_request_id := i + 1\<rparr>)" if "ms_request_id st = i" for st
    using that by (simp add: mcp_request_def bindM_def [of next_id] next_id_def Let_def)
  ultimately show ?thesis by (rule sends_shift)
qed

definition handshake_frames :: "mcp_env \<Rightarrow> string list" where
  "handshake_frames env = map (frame_message \<circ> me_dumps env)
     [request_message 1 ''initialize'' (PDict [(''protocolVersion'', PStr ''2024-11-05''), (''capabilities'', PDict []),
        (''clientInfo'', PDict [(''name'', PStr ''eap-mcp-bridge''), (''version'', PStr ''0.1.0'')])]),
      PDict [(''jsonrpc'', PStr ''2.0''), (''method'', PStr ''notifications/initialized''), (''params'', PDict [])]]"

definition list_frame :: "mcp_env \<Rightarrow> string" where
  "list_frame env = frame_message (me_dumps env (request_message 2 ''tools/list'' (PDict [])))"

definition call_frame :: "mcp_env \<Rightarrow> string \<Rightarrow> pyval \<Rightarrow> string" where
  "call_frame env tool_name arguments = frame_message (me_dumps env (request_message 3 ''tools/call'' (call_message tool_name arguments)))"

lemma sends_session:
  "sends 0 (handshake_frames env) 1 (bindM (initialize_mcp env fuel timeout) (\<lambda>_. retM ()))"
  "sends 1 [list_frame env] 2 (check_listed env fuel timeout tool_name)"
  "sends 2 [call_frame env tool_name arguments] 3 (call_tool env fuel timeout tool_name arguments)"
proof -
  have "sends 0 (handshake_frames env) 1 (initialize_mcp env fuel timeout)"
    unfolding initialize_mcp_def notify_def
    by (rule sends_seq [OF sends_request [of 0, simplified] sends_seq [OF sends_atoms(4) sends_atoms(1)]]) (simp_all add: handshake_frames_def)
  then show "sends 0 (handshake_frames env) 1 (bindM (initialize_mcp env fuel timeout) (\<lambda>_. retM ()))"
    by (rule sends_seq) auto
  show "sends 1 [list_frame env] 2 (check_listed env fuel timeout tool_name)"
    unfolding check_listed_def list_tools_def
    using sends_request [of 1 env "''tools/list''" "PDict []" fuel timeout]
    by (intro sends_seq [of 1 "[list_frame env]" 2 _ "[]"] sends_seq [of 2 "[]" 2 _ "[]"]) (auto simp: list_frame_def)
  show "sends 2 [call_frame env tool_name arguments] 3 (call_tool env fuel timeout tool_name arguments)"
    unfolding call_tool_def using sends_request [of 2 env "''tools/call''"] by (simp add: call_frame_def)
qed

lemma check_listed_Inr:
  assumes "check_listed env fuel timeout tool_name st = Some (Inr u, st')"
  shows "\<exists>listed names. list_tools env fuel timeout st = Some (Inr listed, st') \<and> advertised listed = Inr names \<and> PStr tool_name \<in> set names"
  using assms
  by (auto simp: check_listed_def bindM_def liftM_def retM_def failM_def split: option.splits sum.splits if_splits)

text \<open>The server answered the request \<open>i\<close> with \<open>v\<close>: a message read from the stream carries that id, no error, and the result \<open>v\<close>.\<close>

definition answered :: "mcp_env \<Rightarrow> nat \<Rightarrow> int \<Rightarrow> pyval \<Rightarrow> bool" where
  "answered env fuel i v = (\<exists>deadline p p' incoming. read_frame env fuel deadline p = Some (Inr incoming, p') \<and> answer_to i incoming = Some (Inr v))"

lemma await_answer_Inr:
  assumes "await_answer env fuel rounds deadline request_id st = Some (Inr v, st')"
  shows "answered env fuel request_id v"
  using assms
proof (induction rounds arbitrary: st)
  case (Suc rounds)
  then show ?case
    unfolding answered_def by (force simp: bindM_def read_message_def require_process_def run_pipe_def liftM_def retM_def failM_def split: option.splits sum.splits if_splits)
qed simp

lemma mcp_request_Inr:
  assumes "mcp_request env fuel timeout method params st = Some (Inr v, st')"
  shows "answered env fuel (ms_request_id st + 1) v"
  using assms await_answer_Inr
  by (fastforce simp: mcp_request_def bindM_def next_id_def Let_def split: option.splits sum.splits)

lemma mcp_write_message_Inl: "mcp_write_message env payload st = Some (Inl e, st') \<Longrightarrow> st' = st"
  by (auto simp: mcp_write_message_def bindM_def require_process_def put_world_def failM_def retM_def split: option.splits if_splits)

lemma handshake_incomplete:
  assumes "ms_process st = Some w" "ms_request_id st = 0" "initialize_mcp env fuel timeout st = Some (Inl e, st')"
  shows "\<exists>w' ys. ms_process st' = Some w' \<and> mw_stdin w' = mw_stdin w @ ys \<and> length ys < 2"
proof -
  let ?init = "mcp_request env fuel timeout ''initialize'' (PDict [(''protocolVersion'', PStr ''2024-11-05''), (''capabilities'', PDict []),
    (''clientInfo'', PDict [(''name'', PStr ''eap-mcp-bridge''), (''version'', PStr ''0.1.0'')])])"
  obtain r1 st1 where r1: "?init st = Some (r1, st1)" using assms(3) by (auto simp: initialize_mcp_def bindM_def split: option.splits)
  from sends_process [OF sends_request assms(1,2) this] obtain w1 where w1: "ms_process st1 = Some w1" by blast
  from sendsD(2) [OF sends_request assms(1,2) r1 this] obtain ys where ys: "mw_stdin w1 = mw_stdin w @ ys" "length ys \<le> 1"
    by (auto dest: prefix_length_le)
  have "st' = st1" using assms(3) r1 mcp_write_message_Inl
    by (fastforce simp: initialize_mcp_def notify_def bindM_def retM_def split: option.splits sum.splits)
  with w1 ys show ?thesis by auto
qed

definition fresh_worlds :: "mcp_env \<Rightarrow> bool" where
  "fresh_worlds env = (\<forall>parts cwd w. me_spawn env parts cwd = Some w \<longrightarrow> mw_stdin w = [] \<and> \<not> mw_stopped w)"

lemma start_sends:
  assumes "start_client env fuel timeout command cwd fresh_client = Some (r, st)" "ms_process st \<noteq> None \<or> (\<exists>u. r = Inr u)" "fresh_worlds env"
  shows "\<exists>w. ms_process st = Some w \<and> \<not> mw_stopped w \<and> prefix (mw_stdin w) (handshake_frames env)
    \<and> (case r of Inl _ \<Rightarrow> length (mw_stdin w) < 2 | Inr _ \<Rightarrow> mw_stdin w = handshake_frames env \<and> ms_request_id st = 1)"
proof -
  from assms(1,2) obtain parts cwd' w0 where w0: "me_spawn env parts cwd' = Some w0"
    and run: "bindM (initialize_mcp env fuel timeout) (\<lambda>_. retM ()) (fresh_client\<lparr>ms_process := Some w0\<rparr>) = Some (r, st)"
    by (auto simp: start_client_def fresh_client_def failM_def split: option.splits list.splits)
  let ?st = "fresh_client\<lparr>ms_process := Some w0\<rparr>"
  have st: "ms_process ?st = Some w0" "ms_request_id ?st = 0" by (simp_all add: fresh_client_def)
  have fresh: "mw_stdin w0 = []" "\<not> mw_stopped w0" using assms(3) w0 by (auto simp: fresh_worlds_def)
  from sends_process [OF sends_session(1) st run] obtain w where w: "ms_process st = Some w" by blast
  have "\<not> mw_stopped w" using sendsD(1) [OF sends_session(1) st run w] fresh by simp
  moreover have "prefix (mw_stdin w) (handshake_frames env)" "\<forall>x. r = Inr x \<longrightarrow> mw_stdin w = handshake_frames env \<and> ms_request_id st = 1"
    using sendsD(2) [OF sends_session(1) st run w] fresh by auto
  moreover have "length (mw_stdin w) < 2" if "r = Inl e" for e
  proof -
    have "initialize_mcp env fuel timeout ?st = Some (Inl e, st)"
      using run that by (auto simp: bindM_def retM_def split: option.splits sum.splits)
    from handshake_incomplete [OF st this] fresh w show ?thesis by auto
  qed
  ultimately show ?thesis using w by (auto split: sum.splits)
qed

lemma session_sends:
  assumes "ms_process st = Some w" "ms_request_id st = 1" "ms_process st' = Some w'"
    "bindM (check_listed env fuel timeout tool_name) (\<lambda>_. call_tool env fuel timeout tool_name arguments) st = Some (r, st')"
  shows "\<exists>ys. mw_stdin w' = mw_stdin w @ ys \<and> prefix ys [list_frame env, call_frame env tool_name arguments]
    \<and> (length ys = 2 \<longrightarrow> (\<exists>listed names. answered env fuel 2 listed \<and> advertised listed = Inr names \<and> PStr tool_name \<in> set names))
    \<and> (\<forall>v. r = Inr v \<longrightarrow> length ys = 2 \<and> answered env fuel 3 v)"
proof -
  obtain r1 st1 where r1: "check_listed env fuel timeout tool_name st = Some (r1, st1)"
    using assms(4) by (auto simp: bindM_def split: option.splits)
  from sends_process [OF sends_session(2) assms(1,2) this] obtain w1 where w1: "ms_process st1 = Some w1" by blast
  from sendsD(2) [OF sends_session(2) assms(1,2) r1 w1] obtain ys where ys: "mw_stdin w1 = mw_stdin w @ ys"
    "prefix ys [list_frame env]" "\<forall>x. r1 = Inr x \<longrightarrow> ys = [list_frame env] \<and> ms_request_id st1 = 2" by blast
  show ?thesis
  proof (cases r1)
    case (Inl e)
    with r1 assms(3,4) have "w' = w1" "r = Inl e" using w1 by (auto simp: bindM_def)
    with ys show ?thesis by (auto simp: prefix_Cons)
  next
    case (Inr u)
    with r1 assms(4) have call: "call_tool env fuel timeout tool_name arguments st1 = Some (r, st')" by (simp add: bindM_def)
    from ys(3) Inr have st1: "ms_request_id st1 = 2" "ys = [list_frame env]" by auto
    from sendsD(2) [OF sends_session(3) w1 st1(1) call assms(3)] obtain zs where zs: "mw_stdin w' = mw_stdin w1 @ zs"
      "prefix zs [call_frame env tool_name arguments]" "\<forall>x. r = Inr x \<longrightarrow> zs = [call_frame env tool_name arguments]" by blast
    from check_listed_Inr r1 Inr obtain listed names where listed: "list_tools env fuel timeout st = Some (Inr listed, st1)" "advertised listed = Inr names"
      "PStr tool_name \<in> set names" by blast
    from mcp_request_Inr listed(1) assms(2) have "answered env fuel 2 listed" unfolding list_tools_def by fastforce
    moreover have "answered env fuel 3 v" if "r = Inr v" for v
      using mcp_request_Inr call st1(1) that unfolding call_tool_def by fastforce
    ultimately show ?thesis using zs ys(1) st1(2) listed(2,3) by (intro exI [of _ "ys @ zs"]) auto
  qed
qed


section \<open>A server that answers\<close>

definition sample_loads :: "string \<Rightarrow> pyval option" where
  "sample_loads s = map_of [(''i'', PDict [(''id'', PInt 1)]),
     (''l'', PDict [(''id'', PInt 2), (''result'', PDict [(''tools'', PList [PDict [(''name'', PStr ''t'')]])])]),
     (''c'', PDict [(''id'', PInt 3), (''result'', PStr ''ok'')])] s"

definition sample_server :: mcp_world where
  "sample_server = \<lparr>mw_pipe = \<lparr>pp_now = 0, pp_ready = [], pp_future =
       [Chunk 1 CHR ''C'' (drop 1 (frame_message ''i'') @ ''Con''), Chunk 2 CHR ''t'' (drop 4 (frame_message ''l'') @ frame_message ''c'')]\<rparr>,
     mw_exit = None, mw_broken = None, mw_stdin = [], mw_stopped = False\<rparr>"

definition sample_mcp_env :: mcp_env where
  "sample_mcp_env = \<lparr>me_tick = 1, me_dumps = (\<lambda>_. ''c''), me_dumps_sorted = (\<lambda>_. ''c''), me_loads = sample_loads, me_decode = Some,
     me_decode_replace = id, me_split = (\<lambda>s. Some [s]), me_spawn = (\<lambda>_ _. Some sample_server)\<rparr>"


definition sample_pipe :: pipe where
  "sample_pipe = \<lparr>pp_now = 0, pp_ready = [], pp_future = [Chunk 1 CHR ''C'' (take 8 (drop 1 (frame_message ''c''))),
     Chunk 2 CHR ''e'' (drop 10 (frame_message ''c'') @ ''x'')]\<rparr>"

theorem framed_messages_read_witness:
  "\<exists>p'. read_frame sample_mcp_env 100 100 sample_pipe = Some (Inr (PDict [(''id'', PInt 3), (''result'', PStr ''ok'')]), p') \<and> unread p' = ''x''"
proof -
  let ?v = "PDict [(''id'', PInt 3), (''result'', PStr ''ok'')]"
  have p: "pp_now sample_pipe \<le> 2" "arrives_by 2 (pp_future sample_pipe)" "unread sample_pipe = frame_message (me_dumps sample_mcp_env ?v) @ ''x''"
    "2 + cost (me_tick sample_mcp_env) (length (frame_message (me_dumps sample_mcp_env ?v))) \<le> 100"
    by code_simp+
  have f: "frame_message (me_dumps sample_mcp_env ?v) = ''Content-Length: 1'' @ [CR, LF, CR, LF] @ ''c''" by code_simp
  have fuel: "length (frame_message (me_dumps sample_mcp_env ?v)) < 100" by (simp add: f)
  have env: "0 < me_tick sample_mcp_env" "\<And>s. me_decode_replace sample_mcp_env s = s" "me_decode sample_mcp_env (me_dumps sample_mcp_env ?v) = Some (me_dumps sample_mcp_env ?v)"
    "me_loads sample_mcp_env (me_dumps sample_mcp_env ?v) = Some ?v"
    by (simp_all add: sample_mcp_env_def sample_loads_def)
  from framed_messages_read [OF env(1) p fuel env(2-4)] show ?thesis by blast
qed

fun ended_with :: "pyval \<Rightarrow> ((mcp_error + pyval) \<times> mcp_world option) option \<Rightarrow> bool" where
  "ended_with v (Some (Inr u, Some w)) = (u = v \<and> mw_stopped w)"
| "ended_with v _ = False"

lemma ended_withE: "ended_with v x \<Longrightarrow> \<exists>w. x = Some (Inr v, Some w) \<and> mw_stopped w"
  by (cases "(v, x)" rule: ended_with.cases) auto


end
