(* ===== verification/Spec2Isabelle.thy ===== *)
theory Spec2Isabelle
  imports EAP_Models EAP_Registry EAP_Safe_Eval EAP_Pointer_Store EAP_State_Manager EAP_Token_Bucket
    EAP_Executor_Termination EAP_Ownership EAP_Distributed_Properties EAP_File_Tools EAP_Web_Tools
    EAP_Service EAP_Redis_Store EAP_Postgres_Store EAP_State_Backup EAP_Migrations EAP_Mcp_Properties
begin

text \<open>
  Verification of the Efficient Agent Protocol.

  \<^bold>\<open>The program.\<close> An agent sends a macro, an acyclic graph of tool calls. The validators of
  \<^verbatim>\<open>src/eap/protocol/models.py\<close> accept or reject it. The executor
  (\<^verbatim>\<open>src/eap/environment/executor.py\<close>) runs one asynchronous task per step: a task waits for
  the steps its arguments refer to, checks its approval and its branch, takes slots from the concurrency and rate
  limits, calls the tool of the registry (\<^verbatim>\<open>tool_registry.py\<close>), retries, and puts the result
  into the pointer vault of the state manager (\<^verbatim>\<open>src/eap/protocol/state_manager.py\<close>,
  \<^verbatim>\<open>src/eap/protocol/storage\<close>), which also keeps traces, run summaries, checkpoints and
  conversations. The runtime service (\<^verbatim>\<open>src/eap/runtime/http_api.py\<close>) offers this over HTTP
  behind tokens, scopes and policy profiles (\<^verbatim>\<open>auth_scopes.py\<close>,
  \<^verbatim>\<open>policy_profiles.py\<close>) and rate and concurrency guardrails
  (\<^verbatim>\<open>guardrails.py\<close>). The distributed coordinator
  (\<^verbatim>\<open>src/eap/environment/distributed_executor.py\<close>) leases the steps of a macro to remote workers.
  The tools read and write files in a sandbox, fetch web pages from allowed destinations and call tools of MCP
  servers (\<^verbatim>\<open>environment/tools\<close>, \<^verbatim>\<open>mcp_client.py\<close>). Settings come
  from the environment (\<^verbatim>\<open>settings.py\<close>); scripts start the service, migrate the database, and
  back it up with signed manifests (\<^verbatim>\<open>audit_bundle.py\<close>).

  \<^bold>\<open>Conventions\<close> (\<open>EAP_Prelude\<close>). A raise is the left side of a sum, with one constructor per kind of
  error; the texts of messages are kept where they are stored or returned and dropped elsewhere. Where an
  exception leaves effects behind (the executor, the HTTP handlers), code is in a state and exception monad.
  A dict is an association list in insertion order, a set a list without repetition in an order that no result
  depends on. Integers are unbounded, as in Python. Floats are rationals where the code only adds and compares
  them, and rationals with infinities and NaN where they come from a configuration (\<open>EAP_Numbers\<close>,
  \<open>EAP_Guardrails\<close>): rounding is not modelled. Texts are lists of code points below 256.
  Clock readings, generated ids, outcomes of tools and results of the standard library that the source only
  hands on (sizes of objects, texts of floats and of times, hashes, JSON and URL decoding) are arguments.

  \<^bold>\<open>Theories\<close>, in the order of import.

  \<^item> \<open>EAP_Kahn\<close>, \<open>EAP_Models\<close>: the data model and every validator of \<^verbatim>\<open>models.py\<close>, with
    the topological sort it uses twice. A macro or workflow graph is accepted exactly when it satisfies the
    declarative conditions, acyclicity among them; compiling an accepted graph gives an accepted macro.
  \<^item> \<open>EAP_Registry\<close>: registration, lookup by name or hashed id, input validation, plugin loading.
    Registered tools are found, validated input has the declared shape, failed plugins change nothing.
  \<^item> \<open>EAP_Safe_Eval\<close>: the expressions of branch conditions. Validation accepts exactly the bounded
    expressions of the supported grammar, and evaluating an accepted one never meets an unsupported construct.
  \<^item> \<open>EAP_Pointer_Store\<close>: the abstract store and the SQLite one. The locale \<open>pointer_backend\<close> states what
    the shared code assumes of a backend (which rows it accepts, which ids it can address, how it sorts texts),
    the interpretation \<open>sq\<close> discharges it for SQLite. \<open>EAP_Redis_Store\<close>: the Redis store over what a client promises
    (locale \<open>redis_client\<close>), with two interpretations, the client of the tests and a key-value store; it is a
    \<open>pointer_backend\<close> for all ids but one. \<open>EAP_Postgres_Store\<close>: the Postgres store does what the SQLite one does.
  \<^item> \<open>EAP_State_Manager\<close>: the whole state manager over the tables of its database.
  \<^item> \<open>EAP_Token_Bucket\<close>: the rate limiter of the executor; rate bound and termination of \<open>acquire\<close>.
  \<^item> \<open>EAP_Executor\<close>: \<open>AsyncLocalExecutor\<close>. The shared variables of \<open>execute_macro\<close> are a record, a task has a
    program counter that marks the \<open>await\<close> it is suspended at, and \<open>macro_step\<close> runs any enabled task to its next
    \<open>await\<close>. \<open>EAP_Executor_Frames\<close> has the locale \<open>frame\<close>: what the straight-line parts may change.
    \<open>EAP_Executor_Safety\<close> has the invariant of all interleavings and \<open>EAP_Executor_Runs\<close> its consequences: a tool
    is only called when its step is approved, activated and all its dependencies succeeded; concurrency limits;
    results are final. \<open>EAP_Executor_Liveness\<close> and \<open>EAP_Executor_Termination\<close>: no execution is infinite
    and none is stuck, for macros without a step whose id is empty (for which it is proved to deadlock).
  \<^item> \<open>EAP_Numbers\<close>, \<open>EAP_Guardrails\<close>: number parsing, sliding rate-limit windows and concurrency counters. The
    limiter refines the specification that at most the limit of requests is admitted per window; the locale
    \<open>admission\<close> relates the counters to the multiset of outstanding tokens.
  \<^item> \<open>EAP_Policy\<close>: scopes, profiles and the policies built from a configuration.
  \<^item> \<open>EAP_Http\<close>: the ASGI application; a request is a state machine over the messages of its body and the
    executor call. \<open>EAP_Http_Safety\<close> and \<open>EAP_Http_Properties\<close>: for all interleavings of
    requests the guardrail counters are the requests in execution, the executor is called for authorised
    requests only, and data are returned to authorised readers only. \<open>EAP_Ownership\<close> composes the service, the
    executor and the state manager: runs keep their owner, tenants are isolated.
  \<^item> \<open>EAP_Distributed\<close>, \<open>EAP_Distributed_Safety\<close>, \<open>EAP_Distributed_Properties\<close>: the coordinator; at most one
    active lease per step, dependencies first, terminal steps stay, expired leases are claimed again. Two
    behaviours that contradict the protocol document are proved as well.
  \<^item> \<open>EAP_Paths\<close>, \<open>EAP_File_Tools\<close>: path resolution with symbolic links and the file tools; reads and writes stay
    in the sandbox unless a path meets a loop of links. \<open>EAP_Ip\<close>, \<open>EAP_Web_Tools\<close>: the classes of IP addresses on
    words and the web tools; every request goes to an allowed destination, redirects included.
  \<^item> \<open>EAP_Settings\<close>, \<open>EAP_Service\<close>: settings from environment variables and the start of the service; a service that
    listens has authentication, or runs the development profile on purpose.
  \<^item> \<open>EAP_Audit\<close>, \<open>EAP_State_Backup\<close>: manifests of hashes with a signature, backup and restore; what verifies
    is what was built, restore is all or nothing, backup and restore are inverse.
  \<^item> \<open>EAP_Migrations\<close>: the tables of the state database, their creation and their versions; opening any sound
    database succeeds and keeps the data, and the one step that is not atomic is exhibited.
  \<^item> \<open>EAP_Mcp\<close>, \<open>EAP_Mcp_Properties\<close>: the MCP client over a pipe with arrival times; every invocation returns in
    time, frames are read back whatever the chunks, only listed tools are called.

  \<^bold>\<open>Loops and fuel.\<close> Loops over data are structural recursion or folds; the worklist of the topological sort has
  a termination proof. The waiting loop of the token bucket takes fuel, and termination is proved for the
  number of passes that the deficit and the smallest wait allow; the reading loops of the MCP client take fuel,
  and the number of clock readings that fit into the timeout is proved to be enough. The executor is a step
  relation, so its termination is the well-foundedness of that relation.

  \<^bold>\<open>Not modelled.\<close> The provider and OpenClaw clients, the logging setup, the Streamlit page, the demonstrations
  and the remaining scripts (reports, benchmarks, scorecards) are network, process or presentation code around the
  library. Threads of the coordinator are modelled as whole operations; the overlap of two claims is modelled
  explicitly where it matters. SQLite is its tables, columns and rows, Redis and Postgres what their clients
  document; files are trees of contents, without permissions or partial writes.
\<close>

end
